(* ===== verification/Vams_Prelude.thy ===== *)
theory Vams_Prelude
  imports Main "HOL-Library.Word" "HOL-Library.Monad_Syntax"
begin

text \<open>
  Shared vocabulary of the development: the C integer types as machine words, return codes,
  assertions, the bus through which C code reaches the hardware and the clock, little-endian byte
  images of machine words, and the collections of rewrite rules the component theories extend.

  Conventions used by every component.
  \<^item> \<open>uint8_t\<close>, \<open>uint16_t\<close>, \<open>uint32_t\<close>, \<open>uint64_t\<close> are \<open>u8\<close>, \<open>u16\<close>, \<open>u32\<close>, \<open>u64\<close>: arithmetic wraps
    exactly as in C.
  \<^item> An operation that may fail an \<open>__ASSERT_NO_MSG\<close> or index out of bounds returns an
    \<open>option\<close>; \<open>None\<close> is the fault. Return codes are values of type \<open>rc\<close>.
  \<^item> Both targets of the code (the RV32 management CPU and the host) are little-endian, so the
    endianness conversions of the source are the identity on values; the byte images below are
    what makes the layout of the packed structures explicit.
\<close>

unbundle bit_operations_syntax

type_synonym u8 = "8 word"
type_synonym u16 = "16 word"
type_synonym u32 = "32 word"
type_synonym u64 = "64 word"

named_theorems vams_const \<open>numeric values of the constants of the source\<close>
named_theorems vams_codec \<open>evaluation of byte images\<close>

lemma unat_u32_less: "unat (x :: u32) < 4294967296"
  using unsigned_less [of x, where ?'a = nat] by simp

lemma unat_u64_less: "unat (x :: u64) < 18446744073709551616"
  using unsigned_less [of x, where ?'a = nat] by simp

lemma unat_ucast_u32_u64 [simp]: "unat (ucast (x :: u32) :: u64) = unat x"
  using unat_u32_less [of x] by (simp add: unsigned_ucast_eq take_bit_eq_mod)

lemma bit_word_beyond: "LENGTH('a::len) \<le> n \<Longrightarrow> \<not> bit (x :: 'a word) n"
  by (auto dest: bit_imp_le_length)

lemma xor_left_cancel: "(x XOR y = x XOR z) \<longleftrightarrow> y = (z :: 'a::len word)"
  by (metis xor.assoc xor.left_neutral xor_self_eq)

lemma xor_right_cancel: "(y XOR x = z XOR x) \<longleftrightarrow> y = (z :: 'a::len word)"
  by (metis xor.commute xor_left_cancel)

subsection \<open>Return codes and assertions\<close>

datatype errno =
    EAGAIN | EBUSY | EINVAL | EACCES | EPROTO | ETIMEDOUT | ENOMSG | ENOMEM
  | EFAULT | ENODEV | ENOENT | ENOSPC | ERANGE | EOVERFLOW | EALREADY | EIO
  | EOPNOTSUPP | EPROTONOSUPPORT | ECANCELED | ENOTTY | ERESTARTSYS

text \<open>\<open>RC_OK\<close> is the return value 0, \<open>RC_ERR e\<close> the negative value \<open>-e\<close>.\<close>

datatype rc = RC_OK | RC_ERR errno

definition c_assert :: "bool \<Rightarrow> unit option" where
  "c_assert P = (if P then Some () else None)"

lemma c_assert_simps [simp]:
  "c_assert True = Some ()"
  "c_assert False = None"
  by (simp_all add: c_assert_def)

lemma c_assert_eq_Some [simp]: "c_assert P = Some u \<longleftrightarrow> P"
  by (simp add: c_assert_def)

lemma bind_assert [simp]:
  "Option.bind (c_assert P) f = (if P then f () else None)"
  by (simp add: c_assert_def)

subsection \<open>The board: memory-mapped registers and the clock\<close>

text \<open>
  Everything the C code reaches outside itself is a parameter: \<open>'w\<close> is the state of the devices and
  of the clock, and a board gives the accessors of Zephyr the firmware calls on it. No property
  assumes anything about a board but what its hypotheses name.
\<close>

record 'w board =
  sys_read32 :: "u32 \<Rightarrow> 'w \<Rightarrow> u32 \<times> 'w"
  sys_write32 :: "u32 \<Rightarrow> u32 \<Rightarrow> 'w \<Rightarrow> 'w"
  k_uptime_get :: "'w \<Rightarrow> u64"
  k_sleep_ms :: "u64 \<Rightarrow> 'w \<Rightarrow> 'w"

text \<open>Reading and writing consecutive words, as the copy loops of the drivers do.\<close>

fun read_words :: "'w board \<Rightarrow> u32 \<Rightarrow> nat \<Rightarrow> 'w \<Rightarrow> u32 list \<times> 'w" where
  "read_words b addr 0 w = ([], w)"
| "read_words b addr (Suc n) w =
     (let (v, w) = sys_read32 b addr w;
          (vs, w) = read_words b (addr + 4) n w
      in (v # vs, w))"

fun write_words :: "'w board \<Rightarrow> u32 \<Rightarrow> u32 list \<Rightarrow> 'w \<Rightarrow> 'w" where
  "write_words b addr [] w = w"
| "write_words b addr (v # vs) w =
     write_words b (addr + 4) vs (sys_write32 b v addr w)"

lemma length_read_words [simp]: "length (fst (read_words b addr n w)) = n"
  by (induction n arbitrary: addr w) (simp_all add: Let_def case_prod_beta)

subsection \<open>Little-endian images\<close>

definition le_bytes :: "nat \<Rightarrow> 'a::len word \<Rightarrow> u8 list" where
  "le_bytes n x = map (\<lambda>i. ucast (drop_bit (8 * i) x)) [0..<n]"

fun le_word :: "u8 list \<Rightarrow> 'a::len word" where
  "le_word [] = 0"
| "le_word (b # bs) = ucast b OR push_bit 8 (le_word bs)"

lemma length_le_bytes [simp]: "length (le_bytes n x) = n"
  by (simp add: le_bytes_def)

lemma bit_le_word:
  "bit (le_word bs :: 'a::len word) i \<longleftrightarrow>
     i < LENGTH('a) \<and> i div 8 < length bs \<and> bit (bs ! (i div 8)) (i mod 8)"
proof (induction bs arbitrary: i)
  case Nil
  then show ?case by simp
next
  case (Cons b bs)
  show ?case
  proof (cases "i < 8")
    case True
    then show ?thesis
      by (auto simp: bit_simps)
  next
    case False
    then obtain j where j: "i = j + 8" by (metis add.commute le_add_diff_inverse not_less)
    have "bit b (j + 8) = False" by (simp add: bit_word_def)
    moreover have "(j + 8) div 8 = Suc (j div 8)" by simp
    ultimately show ?thesis
      using Cons.IH [of j] by (auto simp: bit_simps j)
  qed
qed

lemma bit_le_bytes:
  "j < n \<Longrightarrow> bit (le_bytes n x ! j) k \<longleftrightarrow> k < 8 \<and> bit x (8 * j + k)"
  by (auto simp: le_bytes_def bit_simps)

lemma le_word_le_bytes [simp]:
  assumes "LENGTH('a::len) \<le> 8 * n"
  shows "le_word (le_bytes n (x :: 'a word)) = x"
proof (rule bit_word_eqI)
  fix i assume i: "i < LENGTH('a)"
  then have "i div 8 < n" using assms by (simp add: less_mult_imp_div_less mult.commute)
  with i show "bit (le_word (le_bytes n x) :: 'a word) i = bit x i"
    by (simp add: bit_le_word bit_le_bytes)
qed

lemma le_bytes_le_word [simp]:
  assumes "length bs = n" "8 * n \<le> LENGTH('a::len)"
  shows "le_bytes n (le_word bs :: 'a word) = bs"
proof (rule nth_equalityI)
  fix j assume "j < length (le_bytes n (le_word bs :: 'a word))"
  then have j: "j < n" by simp
  show "le_bytes n (le_word bs :: 'a word) ! j = bs ! j"
  proof (rule bit_word_eqI)
    fix k :: nat assume "k < LENGTH(8)"
    then have k: "k < 8" by simp
    with j assms(2) have "8 * j + k < LENGTH('a)" by linarith
    with j k assms(1) show "bit (le_bytes n (le_word bs :: 'a word) ! j) k = bit (bs ! j) k"
      by (simp add: bit_le_bytes bit_le_word)
  qed
qed (use assms in simp)

end
