(* ===== verification/Vams_Abi.thy ===== *)
theory Vams_Abi
  imports Vams_Prelude
begin

text \<open>
  The host/firmware ABI, version 1 (\<open>include/vams_abi.h\<close>, generated into the firmware, kernel and
  QEMU trees from \<open>abi/vams-v1.json\<close>): opcodes, status and error codes, the packed 64-byte
  submission and 32-byte completion, their little-endian byte images, and the image as an array
  of 32-bit words that the firmware's portal driver moves with \<open>memcpy\<close>.

  The locale \<open>struct_codec\<close> is the interface between a packed structure and the code that moves it
  through registers word by word; it is interpreted here for both descriptors and in
  \<open>Vams_Retained\<close> for the retained crash record.
\<close>

subsection \<open>Constants\<close>

definition VAMS_DESC_VERSION_1 :: u16 where [vams_const]: "VAMS_DESC_VERSION_1 = 1"

definition VAMS_OP_NOP :: u8 where [vams_const]: "VAMS_OP_NOP = 0"
definition VAMS_OP_MEM_COPY :: u8 where [vams_const]: "VAMS_OP_MEM_COPY = 1"
definition VAMS_OP_MEM_FILL :: u8 where [vams_const]: "VAMS_OP_MEM_FILL = 2"
definition VAMS_OP_CRC32 :: u8 where [vams_const]: "VAMS_OP_CRC32 = 3"
definition VAMS_OP_VECTOR_ADD :: u8 where [vams_const]: "VAMS_OP_VECTOR_ADD = 4"
definition VAMS_SUB_F_VERIFY_CRC :: u8 where [vams_const]: "VAMS_SUB_F_VERIFY_CRC = 1"

definition VAMS_STATUS_SUCCESS :: u16 where [vams_const]: "VAMS_STATUS_SUCCESS = 0"
definition VAMS_STATUS_INVALID :: u16 where [vams_const]: "VAMS_STATUS_INVALID = 1"
definition VAMS_STATUS_FAILED :: u16 where [vams_const]: "VAMS_STATUS_FAILED = 2"
definition VAMS_STATUS_TIMED_OUT :: u16 where [vams_const]: "VAMS_STATUS_TIMED_OUT = 3"
definition VAMS_STATUS_CANCELLED :: u16 where [vams_const]: "VAMS_STATUS_CANCELLED = 4"
definition VAMS_STATUS_RESET :: u16 where [vams_const]: "VAMS_STATUS_RESET = 5"

definition VAMS_ERR_NONE :: u16 where [vams_const]: "VAMS_ERR_NONE = 0"
definition VAMS_ERR_UNSUPPORTED_VERSION :: u16 where
  [vams_const]: "VAMS_ERR_UNSUPPORTED_VERSION = 1"
definition VAMS_ERR_INVALID_OPCODE :: u16 where [vams_const]: "VAMS_ERR_INVALID_OPCODE = 2"
definition VAMS_ERR_INVALID_FLAGS :: u16 where [vams_const]: "VAMS_ERR_INVALID_FLAGS = 3"
definition VAMS_ERR_RESERVED_NONZERO :: u16 where
  [vams_const]: "VAMS_ERR_RESERVED_NONZERO = 4"
definition VAMS_ERR_DUPLICATE_ID :: u16 where [vams_const]: "VAMS_ERR_DUPLICATE_ID = 5"
definition VAMS_ERR_INVALID_LENGTH :: u16 where [vams_const]: "VAMS_ERR_INVALID_LENGTH = 6"
definition VAMS_ERR_INVALID_ALIGNMENT :: u16 where
  [vams_const]: "VAMS_ERR_INVALID_ALIGNMENT = 7"
definition VAMS_ERR_ADDRESS_OVERFLOW :: u16 where
  [vams_const]: "VAMS_ERR_ADDRESS_OVERFLOW = 8"
definition VAMS_ERR_INVALID_ADDRESS :: u16 where [vams_const]: "VAMS_ERR_INVALID_ADDRESS = 9"
definition VAMS_ERR_INVALID_TIMEOUT :: u16 where [vams_const]: "VAMS_ERR_INVALID_TIMEOUT = 10"
definition VAMS_ERR_ENGINE :: u16 where [vams_const]: "VAMS_ERR_ENGINE = 0x12"
definition VAMS_ERR_TIMEOUT :: u16 where [vams_const]: "VAMS_ERR_TIMEOUT = 0x13"
definition VAMS_ERR_RESET :: u16 where [vams_const]: "VAMS_ERR_RESET = 0x15"

definition VAMS_SUBMISSION_SIZE :: nat where [vams_const]: "VAMS_SUBMISSION_SIZE = 64"
definition VAMS_COMPLETION_SIZE :: nat where [vams_const]: "VAMS_COMPLETION_SIZE = 32"

subsection \<open>Descriptors\<close>

record vams_submission =
  sub_version :: u16
  sub_opcode :: u8
  sub_flags :: u8
  sub_command_id :: u32
  sub_source_dma :: u64
  sub_destination_dma :: u64
  sub_length :: u32
  sub_timeout_ms :: u32
  sub_user_cookie :: u64
  sub_expected_crc :: u32
  sub_reserved0 :: u32
  sub_reserved1 :: u64
  sub_reserved2 :: u64

record vams_completion =
  cpl_command_id :: u32
  cpl_status :: u16
  cpl_error_code :: u16
  cpl_bytes_processed :: u32
  cpl_result_crc :: u32
  cpl_user_cookie :: u64
  cpl_device_timestamp :: u64

text \<open>The objects that \<open>memset(\<dots>, 0, \<dots>)\<close> leaves.\<close>

definition zero_submission :: vams_submission where
  "zero_submission = \<lparr> sub_version = 0, sub_opcode = 0, sub_flags = 0, sub_command_id = 0,
     sub_source_dma = 0, sub_destination_dma = 0, sub_length = 0, sub_timeout_ms = 0,
     sub_user_cookie = 0, sub_expected_crc = 0, sub_reserved0 = 0, sub_reserved1 = 0,
     sub_reserved2 = 0 \<rparr>"

definition zero_completion :: vams_completion where
  "zero_completion = \<lparr> cpl_command_id = 0, cpl_status = 0, cpl_error_code = 0,
     cpl_bytes_processed = 0, cpl_result_crc = 0, cpl_user_cookie = 0,
     cpl_device_timestamp = 0 \<rparr>"

subsection \<open>Byte and word images\<close>

definition bytes_at :: "nat \<Rightarrow> nat \<Rightarrow> u8 list \<Rightarrow> u8 list" where
  "bytes_at off n bs = take n (drop off bs)"

definition submission_bytes :: "vams_submission \<Rightarrow> u8 list" where
  "submission_bytes s =
     le_bytes 2 (sub_version s) @ le_bytes 1 (sub_opcode s) @ le_bytes 1 (sub_flags s) @
     le_bytes 4 (sub_command_id s) @ le_bytes 8 (sub_source_dma s) @
     le_bytes 8 (sub_destination_dma s) @ le_bytes 4 (sub_length s) @
     le_bytes 4 (sub_timeout_ms s) @ le_bytes 8 (sub_user_cookie s) @
     le_bytes 4 (sub_expected_crc s) @ le_bytes 4 (sub_reserved0 s) @
     le_bytes 8 (sub_reserved1 s) @ le_bytes 8 (sub_reserved2 s)"

definition submission_of_bytes :: "u8 list \<Rightarrow> vams_submission" where
  "submission_of_bytes bs = \<lparr>
     sub_version = le_word (bytes_at 0x00 2 bs), sub_opcode = le_word (bytes_at 0x02 1 bs),
     sub_flags = le_word (bytes_at 0x03 1 bs), sub_command_id = le_word (bytes_at 0x04 4 bs),
     sub_source_dma = le_word (bytes_at 0x08 8 bs),
     sub_destination_dma = le_word (bytes_at 0x10 8 bs),
     sub_length = le_word (bytes_at 0x18 4 bs), sub_timeout_ms = le_word (bytes_at 0x1c 4 bs),
     sub_user_cookie = le_word (bytes_at 0x20 8 bs),
     sub_expected_crc = le_word (bytes_at 0x28 4 bs),
     sub_reserved0 = le_word (bytes_at 0x2c 4 bs),
     sub_reserved1 = le_word (bytes_at 0x30 8 bs),
     sub_reserved2 = le_word (bytes_at 0x38 8 bs) \<rparr>"

definition completion_bytes :: "vams_completion \<Rightarrow> u8 list" where
  "completion_bytes c =
     le_bytes 4 (cpl_command_id c) @ le_bytes 2 (cpl_status c) @
     le_bytes 2 (cpl_error_code c) @ le_bytes 4 (cpl_bytes_processed c) @
     le_bytes 4 (cpl_result_crc c) @ le_bytes 8 (cpl_user_cookie c) @
     le_bytes 8 (cpl_device_timestamp c)"

definition completion_of_bytes :: "u8 list \<Rightarrow> vams_completion" where
  "completion_of_bytes bs = \<lparr>
     cpl_command_id = le_word (bytes_at 0x00 4 bs), cpl_status = le_word (bytes_at 0x04 2 bs),
     cpl_error_code = le_word (bytes_at 0x06 2 bs),
     cpl_bytes_processed = le_word (bytes_at 0x08 4 bs),
     cpl_result_crc = le_word (bytes_at 0x0c 4 bs),
     cpl_user_cookie = le_word (bytes_at 0x10 8 bs),
     cpl_device_timestamp = le_word (bytes_at 0x18 8 bs) \<rparr>"

text \<open>An array of \<open>uint32_t\<close> and its bytes: the two ends of the drivers' \<open>memcpy\<close>.\<close>

definition bytes_of_words :: "u32 list \<Rightarrow> u8 list" where
  "bytes_of_words ws = concat (map (le_bytes 4) ws)"

fun words_of_bytes :: "nat \<Rightarrow> u8 list \<Rightarrow> u32 list" where
  "words_of_bytes 0 bs = []"
| "words_of_bytes (Suc n) bs = le_word (take 4 bs) # words_of_bytes n (drop 4 bs)"

definition submission_of_words :: "u32 list \<Rightarrow> vams_submission" where
  "submission_of_words ws = submission_of_bytes (bytes_of_words ws)"

definition completion_of_words :: "u32 list \<Rightarrow> vams_completion" where
  "completion_of_words ws = completion_of_bytes (bytes_of_words ws)"

definition completion_words :: "vams_completion \<Rightarrow> u32 list" where
  "completion_words c = words_of_bytes 8 (completion_bytes c)"

definition submission_words :: "vams_submission \<Rightarrow> u32 list" where
  "submission_words s = words_of_bytes 16 (submission_bytes s)"

lemma length_bytes_of_words [simp]: "length (bytes_of_words ws) = 4 * length ws"
  by (induction ws) (simp_all add: bytes_of_words_def)

lemma length_words_of_bytes [simp]: "length (words_of_bytes n bs) = n"
  by (induction n arbitrary: bs) simp_all

lemma bytes_of_words_of_bytes:
  "length bs = 4 * n \<Longrightarrow> bytes_of_words (words_of_bytes n bs) = bs"
proof (induction n arbitrary: bs)
  case 0
  then show ?case by (simp add: bytes_of_words_def)
next
  case (Suc n)
  then have "bytes_of_words (words_of_bytes n (drop 4 bs)) = drop 4 bs" by simp
  with Suc.prems show ?case
    by (simp add: bytes_of_words_def)
qed

lemma words_of_bytes_of_words:
  "length ws = n \<Longrightarrow> words_of_bytes n (bytes_of_words ws) = ws"
  by (induction ws arbitrary: n) (auto simp: bytes_of_words_def)

lemma bytes_at_join:
  "bytes_at off m bs @ bytes_at (off + m) n bs = bytes_at off (m + n) bs"
  by (simp add: bytes_at_def take_add add.commute)

text \<open>The consecutive fields of a packed structure, given by their widths.\<close>

fun field_seq :: "nat \<Rightarrow> nat list \<Rightarrow> u8 list \<Rightarrow> u8 list" where
  "field_seq off [] bs = []"
| "field_seq off (n # ns) bs = bytes_at off n bs @ field_seq (off + n) ns bs"

lemma field_seq_eq: "field_seq off ns bs = bytes_at off (sum_list ns) bs"
  by (induction ns arbitrary: off) (simp_all add: bytes_at_join, simp add: bytes_at_def)

lemma bytes_at_all: "length bs = n \<Longrightarrow> bytes_at 0 n bs = bs"
  by (simp add: bytes_at_def)

lemma length_bytes_at: "off + n \<le> length bs \<Longrightarrow> length (bytes_at off n bs) = n"
  by (simp add: bytes_at_def)

lemma le_bytes_field [vams_codec]:
  assumes "off + n \<le> length bs" "8 * n \<le> LENGTH('a::len)"
  shows "le_bytes n (le_word (bytes_at off n bs) :: 'a word) = bytes_at off n bs"
  using assms by (intro le_bytes_le_word) (simp_all add: length_bytes_at)

subsection \<open>The interface of a packed structure\<close>

locale struct_codec =
  fixes enc :: "'a \<Rightarrow> u8 list"
    and dec :: "u8 list \<Rightarrow> 'a"
    and valid :: "'a \<Rightarrow> bool"
    and words :: nat
  assumes length_enc: "valid x \<Longrightarrow> length (enc x) = 4 * words"
    and dec_enc: "valid x \<Longrightarrow> dec (enc x) = x"
    and valid_dec: "length bs = 4 * words \<Longrightarrow> valid (dec bs)"
    and enc_dec: "length bs = 4 * words \<Longrightarrow> enc (dec bs) = bs"
begin

lemma word_image_roundtrip:
  "valid x \<Longrightarrow> dec (bytes_of_words (words_of_bytes words (enc x))) = x"
  by (simp add: bytes_of_words_of_bytes length_enc dec_enc)

lemma word_image_surjective:
  assumes "length ws = words"
  shows "words_of_bytes words (enc (dec (bytes_of_words ws))) = ws"
  using assms by (simp add: enc_dec words_of_bytes_of_words)

lemma valid_word_image: "length ws = words \<Longrightarrow> valid (dec (bytes_of_words ws))"
  by (simp add: valid_dec)

lemma enc_word_image: "length ws = words \<Longrightarrow> enc (dec (bytes_of_words ws)) = bytes_of_words ws"
  by (simp add: enc_dec)

end

lemma completion_enc_dec:
  assumes "length bs = 32"
  shows "completion_bytes (completion_of_bytes bs) = bs"
proof -
  have "completion_bytes (completion_of_bytes bs) = field_seq 0 [4, 2, 2, 4, 4, 8, 8] bs"
    using assms by (simp add: completion_bytes_def completion_of_bytes_def vams_codec)
  with assms show ?thesis by (simp add: field_seq_eq bytes_at_all)
qed

lemma submission_enc_dec:
  assumes "length bs = 64"
  shows "submission_bytes (submission_of_bytes bs) = bs"
proof -
  have "submission_bytes (submission_of_bytes bs) =
      field_seq 0 [2, 1, 1, 4, 8, 8, 4, 4, 8, 4, 4, 8, 8] bs"
    using assms
    by (simp add: submission_bytes_def submission_of_bytes_def vams_codec numeral_2_eq_2 [symmetric])
  with assms show ?thesis by (simp add: field_seq_eq bytes_at_all)
qed

interpretation sub_codec: struct_codec submission_bytes submission_of_bytes "\<lambda>_. True" 16
proof unfold_locales
  fix x :: vams_submission
  show "length (submission_bytes x) = 4 * 16" by (simp add: submission_bytes_def)
  show "submission_of_bytes (submission_bytes x) = x"
    by (simp add: submission_bytes_def submission_of_bytes_def bytes_at_def)
next
  fix bs :: "u8 list"
  assume "length bs = 4 * 16"
  then show "submission_bytes (submission_of_bytes bs) = bs"
    by (intro submission_enc_dec) simp
qed simp

interpretation cpl_codec: struct_codec completion_bytes completion_of_bytes "\<lambda>_. True" 8
proof unfold_locales
  fix x :: vams_completion
  show "length (completion_bytes x) = 4 * 8" by (simp add: completion_bytes_def)
  show "completion_of_bytes (completion_bytes x) = x"
    by (simp add: completion_bytes_def completion_of_bytes_def bytes_at_def)
next
  fix bs :: "u8 list"
  assume "length bs = 4 * 8"
  then show "completion_bytes (completion_of_bytes bs) = bs"
    by (intro completion_enc_dec) simp
qed simp

lemma completion_words_roundtrip [simp]: "completion_of_words (completion_words c) = c"
  unfolding completion_of_words_def completion_words_def
  by (rule cpl_codec.word_image_roundtrip) simp

lemma submission_words_roundtrip [simp]: "submission_of_words (submission_words s) = s"
  unfolding submission_of_words_def submission_words_def
  by (rule sub_codec.word_image_roundtrip) simp

lemma length_completion_words [simp]: "length (completion_words c) = 8"
  by (simp add: completion_words_def)

lemma length_submission_words [simp]: "length (submission_words s) = 16"
  by (simp add: submission_words_def)

end
