(* ===== verification/Vams_Command.thy ===== *)
theory Vams_Command
  imports Vams_Abi
begin

text \<open>
  Descriptor validation and the completion built from it
  (\<open>firmware/src/command/vams_command.c\<close>). The abstract contract is \<open>descriptor_ok\<close>: what a legal
  version-1 descriptor is, stated over natural numbers and address sets, with no wrap-around.
\<close>

definition VAMS_MAX_TIMEOUT_MS :: u32 where [vams_const]: "VAMS_MAX_TIMEOUT_MS = 60000"
definition VAMS_MAX_TRANSFER_SIZE :: u32 where [vams_const]: "VAMS_MAX_TRANSFER_SIZE = 0x01000000"

definition UINT64_MAX :: u64 where "UINT64_MAX = - 1"

definition vams_range_overflows :: "u64 \<Rightarrow> u32 \<Rightarrow> bool" where
  "vams_range_overflows address len \<longleftrightarrow> address > UINT64_MAX - (ucast len - 1)"

definition vams_ranges_overlap :: "u64 \<Rightarrow> u64 \<Rightarrow> u32 \<Rightarrow> bool" where
  "vams_ranges_overlap first second len =
     (let first_end = first + ucast len - 1;
          second_end = second + ucast len - 1
      in first \<le> second_end \<and> second \<le> first_end)"

definition vams_validate_command :: "vams_submission \<Rightarrow> u16" where
  "vams_validate_command submission =
     (let opcode = sub_opcode submission;
          len = sub_length submission;
          source = sub_source_dma submission;
          destination = sub_destination_dma submission
      in
      if sub_version submission \<noteq> VAMS_DESC_VERSION_1 then VAMS_ERR_UNSUPPORTED_VERSION
      else if opcode \<noteq> VAMS_OP_NOP \<and> opcode \<noteq> VAMS_OP_MEM_COPY \<and>
              opcode \<noteq> VAMS_OP_MEM_FILL \<and> opcode \<noteq> VAMS_OP_CRC32 \<and>
              opcode \<noteq> VAMS_OP_VECTOR_ADD then VAMS_ERR_INVALID_OPCODE
      else if (opcode = VAMS_OP_CRC32 \<and>
                 (sub_flags submission AND NOT VAMS_SUB_F_VERIFY_CRC) \<noteq> 0) \<or>
              (opcode \<noteq> VAMS_OP_CRC32 \<and> sub_flags submission \<noteq> 0)
           then VAMS_ERR_INVALID_FLAGS
      else if (opcode \<noteq> VAMS_OP_CRC32 \<or>
                 (sub_flags submission AND VAMS_SUB_F_VERIFY_CRC) = 0) \<and>
              sub_expected_crc submission \<noteq> 0 then VAMS_ERR_RESERVED_NONZERO
      else if sub_reserved0 submission \<noteq> 0 \<or> sub_reserved1 submission \<noteq> 0 \<or>
              sub_reserved2 submission \<noteq> 0 then VAMS_ERR_RESERVED_NONZERO
      else if sub_timeout_ms submission > VAMS_MAX_TIMEOUT_MS then VAMS_ERR_INVALID_TIMEOUT
      else if opcode = VAMS_OP_NOP \<and> len \<noteq> 0 then VAMS_ERR_INVALID_LENGTH
      else if opcode = VAMS_OP_NOP \<and> (source \<noteq> 0 \<or> destination \<noteq> 0)
           then VAMS_ERR_INVALID_ADDRESS
      else if opcode = VAMS_OP_MEM_COPY then
        (if len = 0 \<or> len > VAMS_MAX_TRANSFER_SIZE then VAMS_ERR_INVALID_LENGTH
         else if vams_range_overflows source len \<or> vams_range_overflows destination len
              then VAMS_ERR_ADDRESS_OVERFLOW
         else if source = 0 \<or> destination = 0 \<or> vams_ranges_overlap source destination len
              then VAMS_ERR_INVALID_ADDRESS
         else VAMS_ERR_NONE)
      else if opcode = VAMS_OP_MEM_FILL then
        (if len = 0 \<or> len > VAMS_MAX_TRANSFER_SIZE then VAMS_ERR_INVALID_LENGTH
         else if vams_range_overflows destination len then VAMS_ERR_ADDRESS_OVERFLOW
         else if source = 0 \<or> destination = 0 then VAMS_ERR_INVALID_ADDRESS
         else VAMS_ERR_NONE)
      else if opcode = VAMS_OP_CRC32 then
        (if len = 0 \<or> len > VAMS_MAX_TRANSFER_SIZE then VAMS_ERR_INVALID_LENGTH
         else if vams_range_overflows source len then VAMS_ERR_ADDRESS_OVERFLOW
         else if source = 0 \<or> destination \<noteq> 0 then VAMS_ERR_INVALID_ADDRESS
         else VAMS_ERR_NONE)
      else if opcode = VAMS_OP_VECTOR_ADD then
        (if len < 4 \<or> len > VAMS_MAX_TRANSFER_SIZE \<or> (len AND 3) \<noteq> 0
         then VAMS_ERR_INVALID_LENGTH
         else if source = 0 \<or> destination = 0 then VAMS_ERR_INVALID_ADDRESS
         else if ((source OR destination) AND 3) \<noteq> 0 then VAMS_ERR_INVALID_ALIGNMENT
         else if vams_range_overflows source len \<or> vams_range_overflows destination len
              then VAMS_ERR_ADDRESS_OVERFLOW
         else if vams_ranges_overlap source destination len then VAMS_ERR_INVALID_ADDRESS
         else VAMS_ERR_NONE)
      else VAMS_ERR_NONE)"

definition vams_command_execute :: "vams_submission \<Rightarrow> u64 \<Rightarrow> vams_completion" where
  "vams_command_execute submission timestamp =
     (let error = vams_validate_command submission
      in zero_completion\<lparr>
           cpl_command_id := sub_command_id submission,
           cpl_status := (if error = VAMS_ERR_NONE then VAMS_STATUS_SUCCESS
                          else VAMS_STATUS_INVALID),
           cpl_error_code := error,
           cpl_user_cookie := sub_user_cookie submission,
           cpl_device_timestamp := timestamp \<rparr>)"

subsection \<open>The abstract contract\<close>

definition dma_range :: "u64 \<Rightarrow> u32 \<Rightarrow> nat set" where
  "dma_range a n = {unat a ..< unat a + unat n}"

definition range_fits :: "u64 \<Rightarrow> u32 \<Rightarrow> bool" where
  "range_fits a n \<longleftrightarrow> unat a + unat n \<le> 2 ^ 64"

definition transfer_length_ok :: "u32 \<Rightarrow> bool" where
  "transfer_length_ok n \<longleftrightarrow> 1 \<le> unat n \<and> unat n \<le> 2 ^ 24"

definition opcode_rules_ok :: "vams_submission \<Rightarrow> bool" where
  "opcode_rules_ok s =
     (let op = sub_opcode s; n = sub_length s; a = sub_source_dma s; d = sub_destination_dma s in
      (op = 0 \<and> n = 0 \<and> a = 0 \<and> d = 0) \<or>
      (op = 1 \<and> transfer_length_ok n \<and> a \<noteq> 0 \<and> d \<noteq> 0 \<and> range_fits a n \<and> range_fits d n \<and>
         dma_range a n \<inter> dma_range d n = {}) \<or>
      (op = 2 \<and> transfer_length_ok n \<and> a \<noteq> 0 \<and> d \<noteq> 0 \<and> range_fits d n) \<or>
      (op = 3 \<and> transfer_length_ok n \<and> a \<noteq> 0 \<and> d = 0 \<and> range_fits a n) \<or>
      (op = 4 \<and> transfer_length_ok n \<and> 4 dvd unat n \<and> a \<noteq> 0 \<and> d \<noteq> 0 \<and>
         4 dvd unat a \<and> 4 dvd unat d \<and> range_fits a n \<and> range_fits d n \<and>
         dma_range a n \<inter> dma_range d n = {}))"

definition header_ok :: "vams_submission \<Rightarrow> bool" where
  "header_ok s \<longleftrightarrow>
     sub_version s = 1 \<and> unat (sub_timeout_ms s) \<le> 60000 \<and>
     sub_reserved0 s = 0 \<and> sub_reserved1 s = 0 \<and> sub_reserved2 s = 0 \<and>
     (sub_flags s = 0 \<or> sub_flags s = 1 \<and> sub_opcode s = 3) \<and>
     (sub_flags s = 0 \<longrightarrow> sub_expected_crc s = 0)"

definition descriptor_ok :: "vams_submission \<Rightarrow> bool" where
  "descriptor_ok s \<longleftrightarrow> header_ok s \<and> opcode_rules_ok s"

subsection \<open>Word arithmetic of the range checks\<close>

lemma unat_minus_one: "0 < unat x \<Longrightarrow> unat (x - 1) = unat x - 1"
  by (metis One_nat_def unat_1 unat_sub word_le_nat_alt Suc_leI)

lemma range_overflows_iff:
  assumes "len \<noteq> 0"
  shows "vams_range_overflows a len \<longleftrightarrow> \<not> range_fits a len"
proof -
  have pos: "0 < unat len" using assms by (simp add: unat_gt_0)
  have max: "unat UINT64_MAX = 2 ^ 64 - 1"
    by (simp add: UINT64_MAX_def unsigned_minus_1_eq_mask mask_eq_exp_minus_1)
  have len: "unat (ucast len - 1 :: u64) = unat len - 1"
    using pos by (simp add: unat_minus_one)
  have "unat (UINT64_MAX - (ucast len - 1)) = 2 ^ 64 - 1 - (unat len - 1)"
    using max len unat_u32_less [of len]
    by (subst unat_sub) (simp_all add: word_le_nat_alt)
  then show ?thesis
    using pos unat_u64_less [of a] unat_u32_less [of len]
    by (simp add: vams_range_overflows_def range_fits_def word_less_nat_alt) linarith
qed

lemma range_end:
  assumes "len \<noteq> 0" "range_fits a len"
  shows "unat (a + ucast len - 1) = unat a + unat len - 1"
proof -
  have pos: "0 < unat len" using assms by (simp add: unat_gt_0)
  have "unat (a + (ucast len - 1)) = unat a + (unat len - 1)"
    using assms(2) pos unat_u64_less [of a]
    by (subst unat_plus_if_size) (auto simp: word_size unat_minus_one range_fits_def)
  with pos show ?thesis by (simp add: algebra_simps)
qed

lemma ranges_overlap_iff:
  assumes "len \<noteq> 0" "range_fits a len" "range_fits d len"
  shows "vams_ranges_overlap a d len \<longleftrightarrow> dma_range a len \<inter> dma_range d len \<noteq> {}"
proof -
  have pos: "0 < unat len" using assms by (simp add: unat_gt_0)
  have "vams_ranges_overlap a d len \<longleftrightarrow>
      unat a < unat d + unat len \<and> unat d < unat a + unat len"
    using assms pos by (auto simp: vams_ranges_overlap_def word_le_nat_alt range_end)
  also have "\<dots> \<longleftrightarrow> dma_range a len \<inter> dma_range d len \<noteq> {}"
  proof
    assume "unat a < unat d + unat len \<and> unat d < unat a + unat len"
    then have "max (unat a) (unat d) \<in> dma_range a len \<inter> dma_range d len"
      using pos by (auto simp: dma_range_def max_def)
    then show "dma_range a len \<inter> dma_range d len \<noteq> {}" by blast
  next
    assume "dma_range a len \<inter> dma_range d len \<noteq> {}"
    then show "unat a < unat d + unat len \<and> unat d < unat a + unat len"
      by (auto simp: dma_range_def)
  qed
  finally show ?thesis .
qed

lemma transfer_length_nonzero: "transfer_length_ok n \<Longrightarrow> n \<noteq> 0"
  by (auto simp: transfer_length_ok_def)

lemma disjoint_ranges_iff:
  assumes "transfer_length_ok len"
  shows "\<not> vams_range_overflows a len \<and> \<not> vams_range_overflows d len \<and>
      \<not> vams_ranges_overlap a d len \<longleftrightarrow>
    range_fits a len \<and> range_fits d len \<and> dma_range a len \<inter> dma_range d len = {}"
  using ranges_overlap_iff [OF transfer_length_nonzero [OF assms]]
    range_overflows_iff [OF transfer_length_nonzero [OF assms]] by blast

lemma fitting_range_iff:
  "transfer_length_ok len \<Longrightarrow> \<not> vams_range_overflows a len \<longleftrightarrow> range_fits a len"
  using range_overflows_iff [OF transfer_length_nonzero] by blast

lemma and_3_dvd: "(x AND 3 = 0) \<longleftrightarrow> 4 dvd unat (x :: 'a::len word)"
proof -
  have mask: "x AND 3 = take_bit 2 x"
    by (simp add: take_bit_eq_mask mask_eq_exp_minus_1)
  have "unat (take_bit 2 x) = take_bit 2 (unat x)"
    by (rule unsigned_take_bit_eq)
  then have "unat (take_bit 2 x) = unat x mod 4"
    by (simp add: take_bit_eq_mod)
  then show ?thesis
    by (metis mask dvd_eq_mod_eq_0 unat_eq_zero)
qed

lemma or_and_3: "((x OR y) AND 3 = 0) \<longleftrightarrow> (x AND 3 = 0 \<and> y AND 3 = (0 :: 'a::len word))"
  by (metis bit.conj_disj_distrib2 or_eq_0_iff)

lemma flag_bits: "((f :: u8) AND - 2 = 0) \<longleftrightarrow> f = 0 \<or> f = 1"
proof
  assume *: "f AND - 2 = 0"
  have "f AND 1 = f"
  proof (rule bit_word_eqI)
    fix n assume "n < LENGTH(8)"
    moreover have "bit (f AND NOT 1) n = False" using * by simp
    ultimately show "bit (f AND 1) n = bit f n" by (auto simp: bit_simps)
  qed
  then show "f = 0 \<or> f = 1"
    by (metis and_one_eq not_mod_2_eq_0_eq_1)
qed auto

subsection \<open>Validation meets the contract\<close>

lemmas validate_defs = vams_validate_command_def Let_def vams_const

lemma header_okD:
  assumes "header_ok s"
  shows "sub_version s = 1" "\<not> sub_timeout_ms s > 60000"
    "sub_reserved0 s = 0" "sub_reserved1 s = 0" "sub_reserved2 s = 0"
    "sub_opcode s \<noteq> 3 \<Longrightarrow> sub_flags s = 0"
    "sub_opcode s \<noteq> 3 \<Longrightarrow> sub_expected_crc s = 0"
    "sub_flags s AND NOT 1 = 0"
    "sub_flags s AND 1 = 0 \<Longrightarrow> sub_expected_crc s = 0"
  using assms by (auto simp: header_ok_def word_less_nat_alt)

lemma transfer_length_ok_iff:
  "transfer_length_ok n \<longleftrightarrow> n \<noteq> 0 \<and> \<not> n > 0x01000000"
  by (auto simp: transfer_length_ok_def word_less_nat_alt Suc_le_eq unat_gt_0)

lemma validate_nop:
  assumes "header_ok s" "sub_opcode s = 0"
  shows "vams_validate_command s = 0 \<longleftrightarrow>
    sub_length s = 0 \<and> sub_source_dma s = 0 \<and> sub_destination_dma s = 0"
  using assms(2) header_okD [OF assms(1)] by (simp add: validate_defs)

lemma validate_copy:
  assumes "header_ok s" "sub_opcode s = 1"
  shows "vams_validate_command s = 0 \<longleftrightarrow>
    transfer_length_ok (sub_length s) \<and> sub_source_dma s \<noteq> 0 \<and> sub_destination_dma s \<noteq> 0 \<and>
    \<not> vams_range_overflows (sub_source_dma s) (sub_length s) \<and>
    \<not> vams_range_overflows (sub_destination_dma s) (sub_length s) \<and>
    \<not> vams_ranges_overlap (sub_source_dma s) (sub_destination_dma s) (sub_length s)"
  using assms(2) header_okD [OF assms(1)] by (simp add: validate_defs transfer_length_ok_iff)

lemma validate_fill:
  assumes "header_ok s" "sub_opcode s = 2"
  shows "vams_validate_command s = 0 \<longleftrightarrow>
    transfer_length_ok (sub_length s) \<and> sub_source_dma s \<noteq> 0 \<and> sub_destination_dma s \<noteq> 0 \<and>
    \<not> vams_range_overflows (sub_destination_dma s) (sub_length s)"
  using assms(2) header_okD [OF assms(1)] by (simp add: validate_defs transfer_length_ok_iff)

lemma validate_crc32:
  assumes "header_ok s" "sub_opcode s = 3"
  shows "vams_validate_command s = 0 \<longleftrightarrow>
    transfer_length_ok (sub_length s) \<and> sub_source_dma s \<noteq> 0 \<and> sub_destination_dma s = 0 \<and>
    \<not> vams_range_overflows (sub_source_dma s) (sub_length s)"
  using assms(2) header_okD [OF assms(1)]
  by (simp add: validate_defs transfer_length_ok_iff)

lemma vector_length_iff:
  "\<not> n < 4 \<and> \<not> n > 0x01000000 \<and> n AND 3 = 0 \<longleftrightarrow> transfer_length_ok n \<and> n AND 3 = 0"
  for n :: u32
proof -
  have "n AND 3 = 0 \<Longrightarrow> n \<noteq> 0 \<Longrightarrow> 4 \<le> unat n"
    by (simp add: and_3_dvd dvd_imp_le unat_gt_0)
  then show ?thesis
    unfolding transfer_length_ok_iff by (auto simp: word_less_nat_alt)
qed

lemma validate_vector_add:
  assumes "header_ok s" "sub_opcode s = 4"
  shows "vams_validate_command s = 0 \<longleftrightarrow>
    transfer_length_ok (sub_length s) \<and> sub_length s AND 3 = 0 \<and>
    sub_source_dma s \<noteq> 0 \<and> sub_destination_dma s \<noteq> 0 \<and>
    sub_source_dma s AND 3 = 0 \<and> sub_destination_dma s AND 3 = 0 \<and>
    \<not> vams_range_overflows (sub_source_dma s) (sub_length s) \<and>
    \<not> vams_range_overflows (sub_destination_dma s) (sub_length s) \<and>
    \<not> vams_ranges_overlap (sub_source_dma s) (sub_destination_dma s) (sub_length s)"
  using assms(2) header_okD [OF assms(1)] vector_length_iff [of "sub_length s"]
  by (auto simp: validate_defs or_and_3)

lemma validate_unknown_opcode:
  assumes "sub_opcode s \<notin> {0, 1, 2, 3, 4}"
  shows "vams_validate_command s \<noteq> 0"
  using assms by (simp add: validate_defs)

lemma validate_header:
  assumes "vams_validate_command s = 0"
  shows "header_ok s"
  using assms unfolding validate_defs header_ok_def
  by (auto split: if_split_asm simp: word_less_nat_alt flag_bits)


end
