(* ===== verification/Vams_Management.thy ===== *)
theory Vams_Management
  imports Vams_Abi
begin

text \<open>
  The management-control driver (\<open>firmware/drivers/vams_management.c\<close>): watchdog start and pet,
  telemetry publication, the reset snapshot, the reset request and the word copies to and from
  the retained SRAM window. The argument \<open>ready\<close> is \<open>dev \<noteq> NULL \<and> device_is_ready(dev)\<close>; the base
  address is that of \<open>management0\<close> in the board's device tree.

  The locale \<open>retained_window\<close> is what the firmware relies on the retained SRAM window for: it
  holds what was written last. Its lemmas carry the persistence properties of \<open>Vams_Retained\<close>.
\<close>

definition MANAGEMENT_BASE :: u32 where [vams_const]: "MANAGEMENT_BASE = 0x10020000"

definition VAMS_CONTROL_WDT_TIMEOUT_MS :: u32 where [vams_const]: "VAMS_CONTROL_WDT_TIMEOUT_MS = 0x00"
definition VAMS_CONTROL_WDT_CONTROL :: u32 where [vams_const]: "VAMS_CONTROL_WDT_CONTROL = 0x04"
definition VAMS_CONTROL_WDT_PET :: u32 where [vams_const]: "VAMS_CONTROL_WDT_PET = 0x08"
definition VAMS_CONTROL_RESET_REQUEST :: u32 where [vams_const]: "VAMS_CONTROL_RESET_REQUEST = 0x0c"
definition VAMS_CONTROL_LAST_RESET_REASON :: u32 where
  [vams_const]: "VAMS_CONTROL_LAST_RESET_REASON = 0x10"
definition VAMS_CONTROL_WDT_RESET_COUNT :: u32 where
  [vams_const]: "VAMS_CONTROL_WDT_RESET_COUNT = 0x14"
definition VAMS_CONTROL_FW_HEARTBEAT :: u32 where [vams_const]: "VAMS_CONTROL_FW_HEARTBEAT = 0x18"
definition VAMS_CONTROL_FW_UPTIME_LO :: u32 where [vams_const]: "VAMS_CONTROL_FW_UPTIME_LO = 0x1c"
definition VAMS_CONTROL_FW_UPTIME_HI :: u32 where [vams_const]: "VAMS_CONTROL_FW_UPTIME_HI = 0x20"
definition VAMS_CONTROL_FW_VERSION :: u32 where [vams_const]: "VAMS_CONTROL_FW_VERSION = 0x24"
definition VAMS_CONTROL_MAILBOX_RX_COUNT :: u32 where
  [vams_const]: "VAMS_CONTROL_MAILBOX_RX_COUNT = 0x28"
definition VAMS_CONTROL_MAILBOX_TX_COUNT :: u32 where
  [vams_const]: "VAMS_CONTROL_MAILBOX_TX_COUNT = 0x2c"
definition VAMS_CONTROL_RESET_GENERATION :: u32 where
  [vams_const]: "VAMS_CONTROL_RESET_GENERATION = 0x30"
definition VAMS_CONTROL_STATUS :: u32 where [vams_const]: "VAMS_CONTROL_STATUS = 0x34"
definition VAMS_CONTROL_RESET_NOTIFY_COUNT :: u32 where
  [vams_const]: "VAMS_CONTROL_RESET_NOTIFY_COUNT = 0x38"
definition VAMS_CONTROL_RESET_NOTIFY_FAIL_COUNT :: u32 where
  [vams_const]: "VAMS_CONTROL_RESET_NOTIFY_FAIL_COUNT = 0x3c"
definition VAMS_CONTROL_RESET_ACK_COUNT :: u32 where
  [vams_const]: "VAMS_CONTROL_RESET_ACK_COUNT = 0x40"
definition VAMS_CONTROL_RESET_ACK_TIMEOUT_COUNT :: u32 where
  [vams_const]: "VAMS_CONTROL_RESET_ACK_TIMEOUT_COUNT = 0x44"
definition VAMS_CONTROL_RESET_COALESCE_COUNT :: u32 where
  [vams_const]: "VAMS_CONTROL_RESET_COALESCE_COUNT = 0x4c"
definition VAMS_CONTROL_TEST_FREEZE_TASK :: u32 where
  [vams_const]: "VAMS_CONTROL_TEST_FREEZE_TASK = 0x50"
definition VAMS_CONTROL_RETENTION_BASE :: u32 where
  [vams_const]: "VAMS_CONTROL_RETENTION_BASE = 0x100"

definition VAMS_WDT_ENABLE :: u32 where [vams_const]: "VAMS_WDT_ENABLE = 1"
definition VAMS_WDT_PET_MAGIC :: u32 where [vams_const]: "VAMS_WDT_PET_MAGIC = 0x56414d53"
definition VAMS_RESET_REQUEST_MANAGEMENT :: u32 where
  [vams_const]: "VAMS_RESET_REQUEST_MANAGEMENT = 1"
definition VAMS_MANAGEMENT_RETENTION_SIZE :: nat where
  [vams_const]: "VAMS_MANAGEMENT_RETENTION_SIZE = 128"

record vams_management_snapshot =
  snap_reset_reason :: u32
  snap_watchdog_reset_count :: u32
  snap_reset_generation :: u32
  snap_reset_notify_count :: u32
  snap_reset_notify_fail_count :: u32
  snap_reset_ack_count :: u32
  snap_reset_ack_timeout_count :: u32
  snap_reset_coalesce_count :: u32
  snap_test_freeze_task :: u32
  snap_mailbox_rx_count :: u32
  snap_mailbox_tx_count :: u32
  snap_status :: u32
  snap_watchdog_enabled :: bool

definition mgmt_read :: "'w board \<Rightarrow> u32 \<Rightarrow> 'w \<Rightarrow> u32 \<times> 'w" where
  "mgmt_read b off w = sys_read32 b (MANAGEMENT_BASE + off) w"

definition mgmt_write :: "'w board \<Rightarrow> u32 \<Rightarrow> u32 \<Rightarrow> 'w \<Rightarrow> 'w" where
  "mgmt_write b v off w = sys_write32 b v (MANAGEMENT_BASE + off) w"

definition vams_management_watchdog_start ::
    "'w board \<Rightarrow> bool \<Rightarrow> u32 \<Rightarrow> 'w \<Rightarrow> rc \<times> 'w" where
  "vams_management_watchdog_start b ready timeout_ms w =
     (if \<not> ready then (RC_ERR EINVAL, w)
      else
        let (control, w) = mgmt_read b VAMS_CONTROL_WDT_CONTROL w in
        if control AND VAMS_WDT_ENABLE \<noteq> 0 then
          (let (t, w) = mgmt_read b VAMS_CONTROL_WDT_TIMEOUT_MS w
           in (if t = timeout_ms then RC_OK else RC_ERR EBUSY, w))
        else
          let w = mgmt_write b timeout_ms VAMS_CONTROL_WDT_TIMEOUT_MS w;
              (t, w) = mgmt_read b VAMS_CONTROL_WDT_TIMEOUT_MS w
          in if t \<noteq> timeout_ms then (RC_ERR EINVAL, w)
             else (RC_OK, mgmt_write b VAMS_WDT_ENABLE VAMS_CONTROL_WDT_CONTROL w))"

definition vams_management_watchdog_pet :: "'w board \<Rightarrow> bool \<Rightarrow> 'w \<Rightarrow> rc \<times> 'w" where
  "vams_management_watchdog_pet b ready w =
     (if \<not> ready then (RC_ERR EINVAL, w)
      else
        let (control, w) = mgmt_read b VAMS_CONTROL_WDT_CONTROL w in
        if control AND VAMS_WDT_ENABLE = 0 then (RC_ERR EACCES, w)
        else (RC_OK, mgmt_write b VAMS_WDT_PET_MAGIC VAMS_CONTROL_WDT_PET w))"

definition vams_management_publish ::
    "'w board \<Rightarrow> u32 \<Rightarrow> u64 \<Rightarrow> u32 \<Rightarrow> 'w \<Rightarrow> 'w" where
  "vams_management_publish b heartbeat uptime_ms firmware_version w =
     (let w = mgmt_write b heartbeat VAMS_CONTROL_FW_HEARTBEAT w;
          w = mgmt_write b (ucast uptime_ms) VAMS_CONTROL_FW_UPTIME_LO w;
          w = mgmt_write b (ucast (drop_bit 32 uptime_ms)) VAMS_CONTROL_FW_UPTIME_HI w
      in mgmt_write b firmware_version VAMS_CONTROL_FW_VERSION w)"

definition vams_management_snapshot ::
    "'w board \<Rightarrow> 'w \<Rightarrow> vams_management_snapshot \<times> 'w" where
  "vams_management_snapshot b w =
     (let (reset_reason, w) = mgmt_read b VAMS_CONTROL_LAST_RESET_REASON w;
          (wdt_count, w) = mgmt_read b VAMS_CONTROL_WDT_RESET_COUNT w;
          (generation, w) = mgmt_read b VAMS_CONTROL_RESET_GENERATION w;
          (notify, w) = mgmt_read b VAMS_CONTROL_RESET_NOTIFY_COUNT w;
          (notify_fail, w) = mgmt_read b VAMS_CONTROL_RESET_NOTIFY_FAIL_COUNT w;
          (ack, w) = mgmt_read b VAMS_CONTROL_RESET_ACK_COUNT w;
          (ack_timeout, w) = mgmt_read b VAMS_CONTROL_RESET_ACK_TIMEOUT_COUNT w;
          (coalesce, w) = mgmt_read b VAMS_CONTROL_RESET_COALESCE_COUNT w;
          (freeze, w) = mgmt_read b VAMS_CONTROL_TEST_FREEZE_TASK w;
          (rx, w) = mgmt_read b VAMS_CONTROL_MAILBOX_RX_COUNT w;
          (tx, w) = mgmt_read b VAMS_CONTROL_MAILBOX_TX_COUNT w;
          (status, w) = mgmt_read b VAMS_CONTROL_STATUS w;
          (control, w) = mgmt_read b VAMS_CONTROL_WDT_CONTROL w
      in (\<lparr> snap_reset_reason = reset_reason, snap_watchdog_reset_count = wdt_count,
            snap_reset_generation = generation, snap_reset_notify_count = notify,
            snap_reset_notify_fail_count = notify_fail, snap_reset_ack_count = ack,
            snap_reset_ack_timeout_count = ack_timeout, snap_reset_coalesce_count = coalesce,
            snap_test_freeze_task = freeze, snap_mailbox_rx_count = rx,
            snap_mailbox_tx_count = tx, snap_status = status,
            snap_watchdog_enabled = (control AND VAMS_WDT_ENABLE \<noteq> 0) \<rparr>, w))"

definition vams_management_reset :: "'w board \<Rightarrow> 'w \<Rightarrow> 'w" where
  "vams_management_reset b w =
     mgmt_write b VAMS_RESET_REQUEST_MANAGEMENT VAMS_CONTROL_RESET_REQUEST w"

text \<open>
  The retention copies move \<open>length / 4\<close> words; \<open>len\<close> is the byte length the source passes. The
  loops step \<open>offset\<close> by 4 from 0 to \<open>len\<close>, which are the consecutive words of the window.
\<close>

definition RETENTION_WINDOW :: u32 where
  "RETENTION_WINDOW = MANAGEMENT_BASE + VAMS_CONTROL_RETENTION_BASE"

definition vams_management_retention_read ::
    "'w board \<Rightarrow> nat \<Rightarrow> 'w \<Rightarrow> (u32 list \<times> 'w) option" where
  "vams_management_retention_read b len w = do {
     c_assert (len \<le> VAMS_MANAGEMENT_RETENTION_SIZE \<and> len mod 4 = 0);
     Some (read_words b RETENTION_WINDOW (len div 4) w)
   }"

definition vams_management_retention_write ::
    "'w board \<Rightarrow> u32 list \<Rightarrow> nat \<Rightarrow> 'w \<Rightarrow> 'w option" where
  "vams_management_retention_write b data len w = do {
     c_assert (len \<le> VAMS_MANAGEMENT_RETENTION_SIZE \<and> len mod 4 = 0);
     Some (write_words b RETENTION_WINDOW (take (len div 4) data) w)
   }"

subsection \<open>The interface of the retained SRAM window\<close>

locale retained_window =
  fixes b :: "'w board"
    and base :: u32
    and cells :: nat
    and image :: "'w \<Rightarrow> u32 list"
  assumes length_image: "length (image w) = cells"
    and read_cell: "i < cells \<Longrightarrow> sys_read32 b (base + 4 * of_nat i) w = (image w ! i, w)"
    and write_cell:
      "i < cells \<Longrightarrow> image (sys_write32 b v (base + 4 * of_nat i) w) = (image w)[i := v]"
begin

lemma read_words_image:
  "i + n \<le> cells \<Longrightarrow>
     read_words b (base + 4 * of_nat i) n w = (take n (drop i (image w)), w)"
proof (induction n arbitrary: i)
  case 0
  then show ?case by simp
next
  case (Suc n)
  have next_addr: "base + 4 * of_nat i + 4 = base + 4 * of_nat (Suc i)" by simp
  have "read_words b (base + 4 * of_nat (Suc i)) n w = (take n (drop (Suc i) (image w)), w)"
    using Suc.prems by (intro Suc.IH) simp
  moreover have "drop i (image w) = image w ! i # drop (Suc i) (image w)"
    using Suc.prems length_image [of w] by (simp add: Cons_nth_drop_Suc)
  ultimately show ?case
    using Suc.prems by (simp add: read_cell next_addr del: of_nat_Suc)
qed

lemma write_words_image:
  "i + length vs \<le> cells \<Longrightarrow>
     image (write_words b (base + 4 * of_nat i) vs w) =
       take i (image w) @ vs @ drop (i + length vs) (image w)"
proof (induction vs arbitrary: i w)
  case Nil
  then show ?case by simp
next
  case (Cons v vs)
  have next_addr: "base + 4 * of_nat i + 4 = base + 4 * of_nat (Suc i)" by simp
  let ?w = "sys_write32 b v (base + 4 * of_nat i) w"
  have "image (write_words b (base + 4 * of_nat (Suc i)) vs ?w) =
      take (Suc i) (image ?w) @ vs @ drop (Suc i + length vs) (image ?w)"
    using Cons.prems by (intro Cons.IH) simp
  moreover have "image ?w = (image w)[i := v]"
    using Cons.prems by (intro write_cell) simp
  ultimately show ?case
    using Cons.prems length_image [of w]
    by (simp add: next_addr take_Suc_conv_app_nth del: of_nat_Suc)
qed

lemma write_then_read:
  assumes "length vs \<le> cells"
  shows "read_words b base (length vs) (write_words b base vs w) =
    (vs, write_words b base vs w)"
  using read_words_image [of 0 "length vs"] write_words_image [of 0 vs w] assms by simp

end

subsection \<open>A board of plain registers\<close>

text \<open>
  The reference instance of the hypotheses on boards: every register holds the value written last
  and sleeping advances the clock. It is used in witnesses.
\<close>

record ram_world =
  ram_cell :: "u32 \<Rightarrow> u32"
  ram_clock :: u64

definition ram_board :: "ram_world board" where
  "ram_board = \<lparr>
     sys_read32 = (\<lambda>addr w. (ram_cell w addr, w)),
     sys_write32 = (\<lambda>v addr w. w\<lparr>ram_cell := (ram_cell w)(addr := v)\<rparr>),
     k_uptime_get = ram_clock,
     k_sleep_ms = (\<lambda>ms w. w\<lparr>ram_clock := ram_clock w + ms\<rparr>) \<rparr>"

definition ram_image :: "u32 \<Rightarrow> nat \<Rightarrow> ram_world \<Rightarrow> u32 list" where
  "ram_image base n w = map (\<lambda>i. ram_cell w (base + 4 * of_nat i)) [0..<n]"

lemma window_cell_inject:
  assumes "i < 32" "j < 32"
  shows "base + 4 * of_nat i = base + 4 * (of_nat j :: u32) \<longleftrightarrow> i = j"
proof
  assume "base + 4 * of_nat i = base + 4 * (of_nat j :: u32)"
  then have "(of_nat (4 * i) :: u32) = of_nat (4 * j)" by simp
  then have "unat (of_nat (4 * i) :: u32) = unat (of_nat (4 * j) :: u32)" by (rule arg_cong)
  moreover have "unat (of_nat (4 * k) :: u32) = 4 * k" if "k < 32" for k
    using that by (simp add: unsigned_of_nat take_bit_eq_mod del: of_nat_mult)
  ultimately show "i = j" using assms by simp
qed simp

lemma ram_window_at:
  assumes "n \<le> 32"
  shows "retained_window ram_board base n (ram_image base n)"
proof unfold_locales
  fix w :: ram_world
  show "length (ram_image base n w) = n" by (simp add: ram_image_def)
next
  fix i :: nat and w :: ram_world
  assume "i < n"
  then show "sys_read32 ram_board (base + 4 * of_nat i) w = (ram_image base n w ! i, w)"
    by (simp add: ram_board_def ram_image_def)
next
  fix i :: nat and v :: u32 and w :: ram_world
  assume i: "i < n"
  show "ram_image base n (sys_write32 ram_board v (base + 4 * of_nat i) w) = (ram_image base n w)[i := v]"
  proof (rule nth_equalityI)
    fix j
    assume "j < length (ram_image base n (sys_write32 ram_board v (base + 4 * of_nat i) w))"
    then have j: "j < n" by (simp add: ram_image_def)
    then have "base + 4 * of_nat j = base + 4 * (of_nat i :: u32) \<longleftrightarrow> j = i"
      using i assms by (intro window_cell_inject) simp_all
    with i j show "ram_image base n (sys_write32 ram_board v (base + 4 * of_nat i) w) ! j =
      (ram_image base n w)[i := v] ! j"
      by (simp add: ram_board_def ram_image_def nth_list_update)
  qed (simp add: ram_image_def)
qed

interpretation ram_window: retained_window ram_board RETENTION_WINDOW 32 "ram_image RETENTION_WINDOW 32"
  by (rule ram_window_at) simp

lemma ram_write_words_clock: "ram_clock (write_words ram_board base vs w) = ram_clock w"
  by (induction vs arbitrary: base w) (simp_all add: ram_board_def)

lemma ram_write_words_other:
  assumes "\<forall>i < length vs. addr \<noteq> base + 4 * of_nat i"
  shows "ram_cell (write_words ram_board base vs w) addr = ram_cell w addr"
  using assms
proof (induction vs arbitrary: base w)
  case (Cons v vs)
  have "addr \<noteq> base" using Cons.prems [rule_format, of 0] by simp
  moreover have "\<forall>i < length vs. addr \<noteq> (base + 4) + 4 * of_nat i"
  proof (intro allI impI)
    fix i assume "i < length vs"
    then show "addr \<noteq> (base + 4) + 4 * of_nat i"
      using Cons.prems [rule_format, of "Suc i"] by (simp add: algebra_simps)
  qed
  moreover have "ram_cell (sys_write32 ram_board v base w) addr = ram_cell w addr" if "addr \<noteq> base"
    using that by (simp add: ram_board_def)
  ultimately show ?case by (simp add: Cons.IH)
qed simp

subsection \<open>The interface of the watchdog registers\<close>

text \<open>
  \<open>ctl\<close> and \<open>tmo\<close> are the control and the timeout register. The timeout can be set while the watchdog
  is off, the enable bit sticks once written, and only writes to these two registers and the reset
  request change them.
\<close>

locale watchdog_registers =
  fixes b :: "'w board"
    and ctl tmo :: "'w \<Rightarrow> u32"
  assumes read_ctl: "sys_read32 b (MANAGEMENT_BASE + VAMS_CONTROL_WDT_CONTROL) w = (ctl w, w)"
    and read_tmo: "sys_read32 b (MANAGEMENT_BASE + VAMS_CONTROL_WDT_TIMEOUT_MS) w = (tmo w, w)"
    and write_ctl: "ctl (sys_write32 b VAMS_WDT_ENABLE (MANAGEMENT_BASE + VAMS_CONTROL_WDT_CONTROL) w) =
        VAMS_WDT_ENABLE \<and>
      tmo (sys_write32 b VAMS_WDT_ENABLE (MANAGEMENT_BASE + VAMS_CONTROL_WDT_CONTROL) w) = tmo w"
    and write_tmo: "ctl w AND VAMS_WDT_ENABLE = 0 \<Longrightarrow> 100 \<le> v \<Longrightarrow> v \<le> 60000 \<Longrightarrow>
      tmo (sys_write32 b v (MANAGEMENT_BASE + VAMS_CONTROL_WDT_TIMEOUT_MS) w) = v \<and>
      ctl (sys_write32 b v (MANAGEMENT_BASE + VAMS_CONTROL_WDT_TIMEOUT_MS) w) = ctl w"
    and write_other: "addr \<noteq> MANAGEMENT_BASE + VAMS_CONTROL_WDT_CONTROL \<Longrightarrow>
      addr \<noteq> MANAGEMENT_BASE + VAMS_CONTROL_WDT_TIMEOUT_MS \<Longrightarrow>
      addr \<noteq> MANAGEMENT_BASE + VAMS_CONTROL_RESET_REQUEST \<Longrightarrow>
      ctl (sys_write32 b v addr w) = ctl w \<and> tmo (sys_write32 b v addr w) = tmo w"
    and read_other: "ctl (snd (sys_read32 b addr w)) = ctl w \<and> tmo (snd (sys_read32 b addr w)) = tmo w"
    and sleep_keeps: "ctl (k_sleep_ms b ms w) = ctl w \<and> tmo (k_sleep_ms b ms w) = tmo w"
begin

lemma window_keeps:
  assumes "j + length vs \<le> 32"
  shows "ctl (write_words b (RETENTION_WINDOW + 4 * of_nat j) vs w) = ctl w"
    "tmo (write_words b (RETENTION_WINDOW + 4 * of_nat j) vs w) = tmo w"
proof -
  have "ctl (write_words b (RETENTION_WINDOW + 4 * of_nat j) vs w) = ctl w \<and>
      tmo (write_words b (RETENTION_WINDOW + 4 * of_nat j) vs w) = tmo w"
    using assms
  proof (induction vs arbitrary: j w)
    case (Cons v vs)
    have next_addr: "RETENTION_WINDOW + 4 * of_nat j + 4 = RETENTION_WINDOW + 4 * of_nat (Suc j)" by simp
    have away: "RETENTION_WINDOW + 4 * of_nat j \<noteq> MANAGEMENT_BASE + off" if "off < 0x20" for off :: u32
    proof
      assume "RETENTION_WINDOW + 4 * of_nat j = MANAGEMENT_BASE + off"
      then have "of_nat (0x100 + 4 * j) = off" by (simp add: RETENTION_WINDOW_def vams_const)
      then have "unat (of_nat (0x100 + 4 * j) :: u32) < 0x20" using that by (simp add: word_less_nat_alt)
      moreover have "unat (of_nat (0x100 + 4 * j) :: u32) = 0x100 + 4 * j"
        using Cons.prems by (simp add: unsigned_of_nat take_bit_eq_mod del: of_nat_add of_nat_mult)
      ultimately show False by simp
    qed
    have "ctl (sys_write32 b v (RETENTION_WINDOW + 4 * of_nat j) w) = ctl w \<and>
        tmo (sys_write32 b v (RETENTION_WINDOW + 4 * of_nat j) w) = tmo w"
      by (intro write_other) (rule away, simp add: vams_const)+
    with Cons.IH [of "Suc j" "sys_write32 b v (RETENTION_WINDOW + 4 * of_nat j) w"] Cons.prems
    show ?case by (simp add: next_addr del: of_nat_Suc)
  qed simp
  then show "ctl (write_words b (RETENTION_WINDOW + 4 * of_nat j) vs w) = ctl w"
    "tmo (write_words b (RETENTION_WINDOW + 4 * of_nat j) vs w) = tmo w" by simp_all
qed

lemma publish_keeps: "ctl (vams_management_publish b heartbeat uptime version w) = ctl w"
  by (simp add: vams_management_publish_def mgmt_write_def write_other vams_const Let_def)

lemma read_words_keeps: "ctl (snd (read_words b addr n w)) = ctl w \<and> tmo (snd (read_words b addr n w)) = tmo w"
proof (induction n arbitrary: addr w)
  case (Suc n)
  obtain v w1 where "sys_read32 b addr w = (v, w1)" by fastforce
  with Suc.IH [of "addr + 4" w1] read_other [of addr w] show ?case by (auto split: prod.split)
qed simp

lemma pet_accepted:
  assumes "ctl w AND VAMS_WDT_ENABLE \<noteq> 0"
  shows "fst (vams_management_watchdog_pet b True w) = RC_OK"
  using assms by (simp add: vams_management_watchdog_pet_def mgmt_read_def read_ctl)

text \<open>Arming succeeds with the watchdog off, or on with the same timeout.\<close>

lemma start_arms:
  assumes "ctl w AND VAMS_WDT_ENABLE = 0 \<or> tmo w = timeout" "100 \<le> timeout" "timeout \<le> 60000"
  obtains w' where "vams_management_watchdog_start b True timeout w = (RC_OK, w')"
    "ctl w' AND VAMS_WDT_ENABLE \<noteq> 0" "tmo w' = timeout"
proof (cases "ctl w AND VAMS_WDT_ENABLE = 0")
  case True
  let ?w = "sys_write32 b timeout (MANAGEMENT_BASE + VAMS_CONTROL_WDT_TIMEOUT_MS) w"
  let ?w' = "sys_write32 b VAMS_WDT_ENABLE (MANAGEMENT_BASE + VAMS_CONTROL_WDT_CONTROL) ?w"
  note t = write_tmo [OF True assms(2,3)] and c = write_ctl [of ?w]
  have "vams_management_watchdog_start b True timeout w = (RC_OK, ?w')"
    using True t by (simp add: vams_management_watchdog_start_def mgmt_read_def mgmt_write_def
        read_ctl read_tmo Let_def)
  then show ?thesis by (rule that) (use c t in \<open>simp_all add: VAMS_WDT_ENABLE_def\<close>)
next
  case False
  with assms(1) have "vams_management_watchdog_start b True timeout w = (RC_OK, w)"
    by (simp add: vams_management_watchdog_start_def mgmt_read_def read_ctl read_tmo)
  then show ?thesis by (rule that) (use False assms(1) in simp_all)
qed

end

lemma ram_watchdog: "watchdog_registers ram_board
    (\<lambda>w. ram_cell w (MANAGEMENT_BASE + VAMS_CONTROL_WDT_CONTROL))
    (\<lambda>w. ram_cell w (MANAGEMENT_BASE + VAMS_CONTROL_WDT_TIMEOUT_MS))"
  by unfold_locales (simp_all add: ram_board_def vams_const)

interpretation ram_wdt: watchdog_registers ram_board
    "\<lambda>w. ram_cell w (MANAGEMENT_BASE + VAMS_CONTROL_WDT_CONTROL)"
    "\<lambda>w. ram_cell w (MANAGEMENT_BASE + VAMS_CONTROL_WDT_TIMEOUT_MS)"
  by (rule ram_watchdog)

end
