(* ===== verification/Vams_Overload.thy ===== *)
theory Vams_Overload
  imports Vams_Prelude
begin

text \<open>
  Overload policy (\<open>firmware/include/vams_overload.h\<close>) and the two lock-free counter updates of
  \<open>firmware/src/main.c\<close> and \<open>firmware/src/logging/vams_event.c\<close> built on it.

  A compare-and-swap loop is modelled with its interference: the list argument holds, for each
  attempt, the value some other context stored between the attempt's read and its
  compare-and-swap; after the list is exhausted no further interference occurs. The empty list is
  an undisturbed call.
\<close>

definition UINT32_MAX :: u32 where "UINT32_MAX = - 1"

definition vams_counter_increment :: "u32 \<Rightarrow> u32" where
  "vams_counter_increment v = (if v = UINT32_MAX then UINT32_MAX else v + 1)"

definition vams_command_admission_allowed :: "bool \<Rightarrow> u32 \<Rightarrow> bool" where
  "vams_command_admission_allowed portal_pending pool_free \<longleftrightarrow> portal_pending \<and> pool_free > 0"

text \<open>
  \<open>vams_saturating_atomic_inc\<close>: the value of the counter after the call, with \<open>previous\<close> the value
  read last. The same loop is \<open>vams_event_record_drop\<close>.
\<close>

fun vams_saturating_atomic_inc :: "u32 list \<Rightarrow> u32 \<Rightarrow> u32" where
  "vams_saturating_atomic_inc [] previous =
     (if previous \<noteq> UINT32_MAX then vams_counter_increment previous else previous)"
| "vams_saturating_atomic_inc (stored # rest) previous =
     (if previous \<noteq> UINT32_MAX then
        if stored = previous then vams_counter_increment previous
        else vams_saturating_atomic_inc rest stored
      else stored)"

text \<open>
  \<open>vams_record_high_water\<close>; \<open>atomic_val_t\<close> is a signed 32-bit integer on RV32, so the comparison is
  signed.
\<close>

fun vams_record_high_water :: "u32 list \<Rightarrow> u32 \<Rightarrow> u32 \<Rightarrow> u32" where
  "vams_record_high_water [] v previous =
     (if sint v > sint previous then v else previous)"
| "vams_record_high_water (stored # rest) v previous =
     (if sint v > sint previous then
        if stored = previous then v
        else vams_record_high_water rest v stored
      else stored)"

lemma unat_UINT32_MAX: "unat UINT32_MAX = 2 ^ 32 - 1"
  by (simp add: UINT32_MAX_def unsigned_minus_1_eq_mask mask_eq_exp_minus_1)

lemma unat_counter_increment:
  "unat (vams_counter_increment c) = min (unat c + 1) (2 ^ 32 - 1)"
proof (cases "c = UINT32_MAX")
  case True
  then show ?thesis by (simp add: vams_counter_increment_def unat_UINT32_MAX)
next
  case False
  then have "1 + c \<noteq> 0" by (metis UINT32_MAX_def add_eq_0_iff)
  then have "unat (1 + c) = Suc (unat c)" by (rule unatSuc)
  then show ?thesis
    using False unat_u32_less [of "1 + c"] by (simp add: vams_counter_increment_def add.commute)
qed

end
