(* ===== verification/Vams_Retained.thy ===== *)
theory Vams_Retained
  imports Vams_Management Vams_Overload
begin

text \<open>
  The retained crash record (\<open>firmware/src/recovery/vams_retained.c\<close>): its packed layout, the
  CRC-32 that protects it, boot-time validation or reformatting, and the note operations that
  commit it to retained SRAM. The spinlock around the notes makes each of them one step.

  Indexing \<open>events[event_head]\<close> outside the array is a fault (\<open>None\<close>); the index is not part of what
  \<open>vams_retained_validate\<close> checks.
\<close>

subsection \<open>Data\<close>

definition VAMS_RETAINED_MAGIC :: u32 where [vams_const]: "VAMS_RETAINED_MAGIC = 0x56414d52"
definition VAMS_RETAINED_VERSION :: u16 where [vams_const]: "VAMS_RETAINED_VERSION = 1"
definition VAMS_RETAINED_EVENT_COUNT :: u32 where [vams_const]: "VAMS_RETAINED_EVENT_COUNT = 4"

record vams_retained_event =
  rev_event_id :: u32
  rev_command_id :: u32
  rev_generation :: u32
  rev_timestamp_ms :: u32

record vams_retained_record =
  ret_magic :: u32
  ret_version :: u16
  ret_length :: u16
  ret_crc32 :: u32
  ret_boot_count :: u32
  ret_reset_reason :: u32
  ret_reset_generation :: u32
  ret_last_stuck_task :: u32
  ret_health_failure_count :: u32
  ret_last_command_id :: u32
  ret_last_command_generation :: u32
  ret_last_assertion :: u32
  ret_stack_failure :: u32
  ret_event_head :: u32
  ret_event_count :: u32
  ret_events :: "vams_retained_event list"

text \<open>\<open>sizeof(struct vams_retained_record)\<close>: 14 header words and four events of four words.\<close>

definition RETAINED_SIZE :: nat where [vams_const]: "RETAINED_SIZE = 120"

definition event_bytes :: "vams_retained_event \<Rightarrow> u8 list" where
  "event_bytes e = le_bytes 4 (rev_event_id e) @ le_bytes 4 (rev_command_id e) @
     le_bytes 4 (rev_generation e) @ le_bytes 4 (rev_timestamp_ms e)"

definition event_of_bytes :: "nat \<Rightarrow> u8 list \<Rightarrow> vams_retained_event" where
  "event_of_bytes off bs = \<lparr>
     rev_event_id = le_word (bytes_at off 4 bs), rev_command_id = le_word (bytes_at (off + 4) 4 bs),
     rev_generation = le_word (bytes_at (off + 8) 4 bs),
     rev_timestamp_ms = le_word (bytes_at (off + 12) 4 bs) \<rparr>"

definition retained_bytes :: "vams_retained_record \<Rightarrow> u8 list" where
  "retained_bytes r =
     le_bytes 4 (ret_magic r) @ le_bytes 2 (ret_version r) @ le_bytes 2 (ret_length r) @
     le_bytes 4 (ret_crc32 r) @ le_bytes 4 (ret_boot_count r) @ le_bytes 4 (ret_reset_reason r) @
     le_bytes 4 (ret_reset_generation r) @ le_bytes 4 (ret_last_stuck_task r) @
     le_bytes 4 (ret_health_failure_count r) @ le_bytes 4 (ret_last_command_id r) @
     le_bytes 4 (ret_last_command_generation r) @ le_bytes 4 (ret_last_assertion r) @
     le_bytes 4 (ret_stack_failure r) @ le_bytes 4 (ret_event_head r) @
     le_bytes 4 (ret_event_count r) @ concat (map event_bytes (ret_events r))"

definition retained_of_bytes :: "u8 list \<Rightarrow> vams_retained_record" where
  "retained_of_bytes bs = \<lparr>
     ret_magic = le_word (bytes_at 0 4 bs), ret_version = le_word (bytes_at 4 2 bs),
     ret_length = le_word (bytes_at 6 2 bs), ret_crc32 = le_word (bytes_at 8 4 bs),
     ret_boot_count = le_word (bytes_at 12 4 bs), ret_reset_reason = le_word (bytes_at 16 4 bs),
     ret_reset_generation = le_word (bytes_at 20 4 bs),
     ret_last_stuck_task = le_word (bytes_at 24 4 bs),
     ret_health_failure_count = le_word (bytes_at 28 4 bs),
     ret_last_command_id = le_word (bytes_at 32 4 bs),
     ret_last_command_generation = le_word (bytes_at 36 4 bs),
     ret_last_assertion = le_word (bytes_at 40 4 bs),
     ret_stack_failure = le_word (bytes_at 44 4 bs),
     ret_event_head = le_word (bytes_at 48 4 bs), ret_event_count = le_word (bytes_at 52 4 bs),
     ret_events = [event_of_bytes 56 bs, event_of_bytes 72 bs, event_of_bytes 88 bs,
                   event_of_bytes 104 bs] \<rparr>"

definition retained_words :: "vams_retained_record \<Rightarrow> u32 list" where
  "retained_words r = words_of_bytes 30 (retained_bytes r)"

definition retained_of_words :: "u32 list \<Rightarrow> vams_retained_record" where
  "retained_of_words ws = retained_of_bytes (bytes_of_words ws)"

subsection \<open>CRC-32\<close>

text \<open>One round of the inner loop of \<open>vams_crc32_byte\<close>.\<close>

definition crc32_round :: "u32 \<Rightarrow> u32" where
  "crc32_round crc =
     (let mask = 0 - (crc AND 1)
      in drop_bit 1 crc XOR (0xedb88320 AND mask))"

definition vams_crc32_byte :: "u32 \<Rightarrow> u8 \<Rightarrow> u32" where
  "vams_crc32_byte crc v = (crc32_round ^^ 8) (crc XOR ucast v)"

text \<open>The loop of \<open>vams_retained_crc32\<close> from byte \<open>index\<close> on; the CRC field itself counts as zero.\<close>

fun crc32_loop :: "nat \<Rightarrow> u8 list \<Rightarrow> u32 \<Rightarrow> u32" where
  "crc32_loop index [] crc = crc"
| "crc32_loop index (byte # rest) crc =
     (let crc_byte = (index \<ge> 8 \<and> index < 8 + 4)
      in crc32_loop (Suc index) rest (vams_crc32_byte crc (if crc_byte then 0 else byte)))"

definition vams_retained_crc32 :: "vams_retained_record \<Rightarrow> u32" where
  "vams_retained_crc32 r = NOT (crc32_loop 0 (retained_bytes r) UINT32_MAX)"

definition vams_retained_validate :: "vams_retained_record \<Rightarrow> bool" where
  "vams_retained_validate r \<longleftrightarrow>
     ret_magic r = VAMS_RETAINED_MAGIC \<and> ret_version r = VAMS_RETAINED_VERSION \<and>
     ret_length r = of_nat RETAINED_SIZE \<and> ret_crc32 r = vams_retained_crc32 r"

subsection \<open>Operations\<close>

definition zero_event :: vams_retained_event where
  "zero_event = \<lparr> rev_event_id = 0, rev_command_id = 0, rev_generation = 0, rev_timestamp_ms = 0 \<rparr>"

definition zero_retained :: vams_retained_record where
  "zero_retained = \<lparr> ret_magic = 0, ret_version = 0, ret_length = 0, ret_crc32 = 0,
     ret_boot_count = 0, ret_reset_reason = 0, ret_reset_generation = 0, ret_last_stuck_task = 0,
     ret_health_failure_count = 0, ret_last_command_id = 0, ret_last_command_generation = 0,
     ret_last_assertion = 0, ret_stack_failure = 0, ret_event_head = 0, ret_event_count = 0,
     ret_events = replicate 4 zero_event \<rparr>"

definition vams_retained_format :: "u32 \<Rightarrow> u32 \<Rightarrow> vams_retained_record" where
  "vams_retained_format reset_reason generation =
     (let r = zero_retained\<lparr> ret_magic := VAMS_RETAINED_MAGIC,
                ret_version := VAMS_RETAINED_VERSION,
                ret_length := of_nat RETAINED_SIZE, ret_boot_count := 1,
                ret_reset_reason := reset_reason, ret_reset_generation := generation \<rparr>
      in r\<lparr> ret_crc32 := vams_retained_crc32 r \<rparr>)"

definition vams_retained_commit ::
    "'w board \<Rightarrow> vams_retained_record \<Rightarrow> 'w \<Rightarrow> (vams_retained_record \<times> 'w) option" where
  "vams_retained_commit b r w = do {
     let r = r\<lparr> ret_crc32 := vams_retained_crc32 r \<rparr>;
     w \<leftarrow> vams_management_retention_write b (retained_words r) RETAINED_SIZE w;
     Some (r, w)
   }"

text \<open>The result is the return value, the record in SRAM and the devices.\<close>

definition vams_retained_boot ::
    "'w board \<Rightarrow> u32 \<Rightarrow> u32 \<Rightarrow> 'w \<Rightarrow> (bool \<times> vams_retained_record \<times> 'w) option" where
  "vams_retained_boot b reset_reason generation w = do {
     (ws, w) \<leftarrow> vams_management_retention_read b RETAINED_SIZE w;
     let r = retained_of_words ws;
     if \<not> vams_retained_validate r then do {
       let r = vams_retained_format reset_reason generation;
       w \<leftarrow> vams_management_retention_write b (retained_words r) RETAINED_SIZE w;
       Some (False, r, w)
     } else do {
       let r = r\<lparr> ret_boot_count := vams_counter_increment (ret_boot_count r),
                  ret_reset_reason := reset_reason, ret_reset_generation := generation \<rparr>;
       (r, w) \<leftarrow> vams_retained_commit b r w;
       Some (True, r, w)
     }
   }"

definition vams_retained_note_health ::
    "'w board \<Rightarrow> u32 \<Rightarrow> u32 \<Rightarrow> vams_retained_record \<Rightarrow> 'w \<Rightarrow> (vams_retained_record \<times> 'w) option" where
  "vams_retained_note_health b stuck_task failures r w =
     vams_retained_commit b
       (r\<lparr> ret_last_stuck_task := stuck_task, ret_health_failure_count := failures \<rparr>) w"

definition vams_retained_note_command ::
    "'w board \<Rightarrow> u32 \<Rightarrow> u32 \<Rightarrow> vams_retained_record \<Rightarrow> 'w \<Rightarrow> (vams_retained_record \<times> 'w) option" where
  "vams_retained_note_command b command_id generation r w =
     vams_retained_commit b
       (r\<lparr> ret_last_command_id := command_id, ret_last_command_generation := generation \<rparr>) w"

definition vams_retained_clear_command ::
    "'w board \<Rightarrow> vams_retained_record \<Rightarrow> 'w \<Rightarrow> (vams_retained_record \<times> 'w) option" where
  "vams_retained_clear_command b r w =
     vams_retained_commit b
       (r\<lparr> ret_last_command_id := 0, ret_last_command_generation := 0 \<rparr>) w"

definition vams_retained_note_event ::
    "'w board \<Rightarrow> u32 \<Rightarrow> u32 \<Rightarrow> u32 \<Rightarrow> u32 \<Rightarrow> vams_retained_record \<Rightarrow> 'w \<Rightarrow>
       (vams_retained_record \<times> 'w) option" where
  "vams_retained_note_event b event_id command_id generation timestamp_ms r w = do {
     c_assert (unat (ret_event_head r) < length (ret_events r));
     let event = \<lparr> rev_event_id = event_id, rev_command_id = command_id,
                   rev_generation = generation, rev_timestamp_ms = timestamp_ms \<rparr>;
     let r = r\<lparr> ret_events := (ret_events r)[unat (ret_event_head r) := event],
                ret_event_head := (ret_event_head r + 1) mod VAMS_RETAINED_EVENT_COUNT \<rparr>;
     let r = (if ret_event_count r < VAMS_RETAINED_EVENT_COUNT
              then r\<lparr> ret_event_count := ret_event_count r + 1 \<rparr> else r);
     vams_retained_commit b r w
   }"

subsection \<open>The layout is a packed structure of 30 words\<close>

lemma length_event_bytes [simp]: "length (event_bytes e) = 16"
  by (simp add: event_bytes_def)

lemma events_bytes_enc_dec:
  assumes "off + 16 \<le> length bs"
  shows "event_bytes (event_of_bytes off bs) = bytes_at off 16 bs"
proof -
  have "event_bytes (event_of_bytes off bs) = field_seq off [4, 4, 4, 4] bs"
    using assms by (simp add: event_bytes_def event_of_bytes_def vams_codec add.assoc)
  then show ?thesis by (simp add: field_seq_eq)
qed

lemma event_dec_enc:
  assumes "bytes_at off 16 bs = event_bytes e"
  shows "event_of_bytes off bs = e"
proof -
  have sub: "bytes_at (off + k) 4 bs = bytes_at k 4 (bytes_at off 16 bs)" if "k + 4 \<le> 16" for k
    using that by (simp add: bytes_at_def drop_take add.commute min_def)
  have "bytes_at off 4 bs = bytes_at 0 4 (bytes_at off 16 bs)" using sub [of 0] by simp
  with sub [of 4] sub [of 8] sub [of 12] show ?thesis
    unfolding assms
    by (simp add: event_of_bytes_def) (simp add: bytes_at_def event_bytes_def)
qed

lemma retained_enc_dec:
  assumes "length bs = 120"
  shows "retained_bytes (retained_of_bytes bs) = bs"
proof -
  have "retained_bytes (retained_of_bytes bs) =
      field_seq 0 [4, 2, 2, 4, 4, 4, 4, 4, 4, 4, 4, 4, 4, 4, 4, 16, 16, 16, 16] bs"
    using assms
    by (simp add: retained_bytes_def retained_of_bytes_def vams_codec events_bytes_enc_dec)
  with assms show ?thesis by (simp add: field_seq_eq bytes_at_all)
qed

lemma length_4_cases:
  "length xs = 4 \<Longrightarrow> \<exists>a b c d. xs = [a, b, c, d]"
  by (auto simp: numeral_eq_Suc length_Suc_conv)

interpretation ret_codec: struct_codec retained_bytes retained_of_bytes
  "\<lambda>r. length (ret_events r) = 4" 30
proof unfold_locales
  fix r :: vams_retained_record
  assume "length (ret_events r) = 4"
  then obtain a c d e where events: "ret_events r = [a, c, d, e]"
    using length_4_cases by blast
  show "length (retained_bytes r) = 4 * 30"
    by (simp add: retained_bytes_def events)
  have ev: "event_of_bytes 56 (retained_bytes r) = a" "event_of_bytes 72 (retained_bytes r) = c"
    "event_of_bytes 88 (retained_bytes r) = d" "event_of_bytes 104 (retained_bytes r) = e"
    by (rule event_dec_enc, simp add: retained_bytes_def events bytes_at_def)+
  show "retained_of_bytes (retained_bytes r) = r"
    by (simp add: retained_of_bytes_def ev flip: events)
       (simp add: retained_bytes_def events bytes_at_def)
next
  fix bs :: "u8 list"
  assume bs: "length bs = 4 * 30"
  show "length (ret_events (retained_of_bytes bs)) = 4" by (simp add: retained_of_bytes_def)
  show "retained_bytes (retained_of_bytes bs) = bs" using bs by (intro retained_enc_dec) simp
qed

subsection \<open>CRC-32: every single-word corruption changes the digest\<close>

text \<open>
  A digest that folds a step over a list, where the step is injective in the state and in the
  element: changing exactly one element always changes the digest.
\<close>

locale injective_digest =
  fixes step :: "'s \<Rightarrow> 'e \<Rightarrow> 's"
  assumes state_inject: "step s x = step t x \<Longrightarrow> s = t"
    and element_inject: "step s x = step s y \<Longrightarrow> x = y"
begin

lemma foldl_state_inject: "foldl step s xs = foldl step t xs \<Longrightarrow> s = t"
proof (induction xs arbitrary: s t)
  case (Cons x xs)
  then have "step s x = step t x" by simp
  then show ?case by (rule state_inject)
qed simp

lemma single_change_detected:
  assumes "i < length xs" "v \<noteq> xs ! i"
  shows "foldl step s (xs[i := v]) \<noteq> foldl step s xs"
proof
  let ?t = "foldl step s (take i xs)"
  assume "foldl step s (xs[i := v]) = foldl step s xs"
  moreover have "foldl step s xs = foldl step (step ?t (xs ! i)) (drop (Suc i) xs)"
    using assms(1) by (metis foldl_Cons foldl_append id_take_nth_drop)
  moreover have "foldl step s (xs[i := v]) = foldl step (step ?t v) (drop (Suc i) xs)"
    using assms(1) by (simp add: upd_conv_take_nth_drop)
  ultimately have "step ?t v = step ?t (xs ! i)" using foldl_state_inject by metis
  then show False using element_inject assms(2) by blast
qed

end

lemma crc32_round_alt:
  "crc32_round x = drop_bit 1 x XOR (if bit x 0 then 0xedb88320 else 0)"
proof -
  have "x AND 1 = of_bool (odd x)" by (simp add: and_one_eq mod_2_eq_odd)
  then show ?thesis by (auto simp: crc32_round_def bit_0)
qed

lemma bit_31_crc32_round: "bit (crc32_round x) 31 = bit x 0"
proof -
  have "\<not> bit x 32" by (rule bit_word_beyond) simp
  then show ?thesis by (simp add: crc32_round_alt bit_simps)
qed

lemma crc32_round_inject:
  assumes "crc32_round x = crc32_round y"
  shows "x = y"
proof -
  have lsb: "bit x 0 = bit y 0" using bit_31_crc32_round assms by metis
  with assms have "drop_bit 1 x = drop_bit 1 y"
    by (simp add: crc32_round_alt xor_right_cancel split: if_splits)
  then have up: "bit x (Suc n) = bit y (Suc n)" for n
    by (metis bit_drop_bit_eq comp_apply plus_1_eq_Suc)
  show ?thesis
  proof (rule bit_word_eqI)
    fix n show "bit x n = bit y n" using lsb up by (cases n) simp_all
  qed
qed

lemma crc32_rounds_inject: "(crc32_round ^^ k) x = (crc32_round ^^ k) y \<Longrightarrow> x = y"
proof (induction k)
  case (Suc k)
  then have "crc32_round ((crc32_round ^^ k) x) = crc32_round ((crc32_round ^^ k) y)" by simp
  then show ?case using crc32_round_inject Suc.IH by blast
qed simp

lemma crc32_round_shift:
  assumes "\<not> bit y 31"
  shows "crc32_round (x XOR push_bit 1 y) = crc32_round x XOR y"
proof -
  have "drop_bit 1 (push_bit 1 y) = y"
  proof (rule bit_word_eqI)
    fix n assume "n < LENGTH(32)"
    then show "bit (drop_bit 1 (push_bit 1 y)) n = bit y n"
      unfolding bit_drop_bit_eq comp_def bit_push_bit_iff
      using assms by (cases "n = 31") auto
  qed
  moreover have "bit (x XOR push_bit 1 y) 0 = bit x 0"
    unfolding bit_xor_iff bit_push_bit_iff by simp
  ultimately show ?thesis by (simp add: crc32_round_alt drop_bit_xor ac_simps)
qed

lemma crc32_rounds_shift:
  assumes "\<And>n. 32 - k \<le> n \<Longrightarrow> \<not> bit y n" "k \<le> 32"
  shows "(crc32_round ^^ k) (x XOR push_bit k y) = (crc32_round ^^ k) x XOR y"
  using assms
proof (induction k arbitrary: x)
  case (Suc k)
  have "\<not> bit (push_bit k y) 31"
    using Suc.prems(1) [of "31 - k"] Suc.prems(2) by (auto simp: bit_simps)
  then have "crc32_round (x XOR push_bit 1 (push_bit k y)) = crc32_round x XOR push_bit k y"
    by (rule crc32_round_shift)
  moreover have "(crc32_round ^^ k) (crc32_round x XOR push_bit k y) =
      (crc32_round ^^ k) (crc32_round x) XOR y"
    using Suc.prems by (intro Suc.IH) auto
  ultimately show ?case by (simp add: funpow_Suc_right del: funpow.simps)
qed simp

lemma le_word_Cons_xor:
  "(le_word (b # bs) :: 'a::len word) = ucast b XOR push_bit 8 (le_word bs)"
proof (rule bit_word_eqI)
  fix n
  have "\<not> (bit b n \<and> n \<ge> 8)" by (auto simp: bit_word_def)
  then show "bit (le_word (b # bs) :: 'a word) n =
      bit (ucast b XOR push_bit 8 (le_word bs) :: 'a word) n"
    by (auto simp: bit_simps)
qed

lemma crc32_bytes_eq:
  "length bs \<le> 4 \<Longrightarrow>
     foldl vams_crc32_byte crc bs = (crc32_round ^^ (8 * length bs)) (crc XOR le_word bs)"
proof (induction bs arbitrary: crc)
  case (Cons b bs)
  let ?rest = "le_word bs :: u32"
  have high: "\<not> bit ?rest n" if "24 \<le> n" for n
  proof -
    have "3 \<le> n div 8" using that by presburger
    with Cons.prems show ?thesis by (simp add: bit_le_word)
  qed
  have "foldl vams_crc32_byte crc (b # bs) =
      (crc32_round ^^ (8 * length bs)) (vams_crc32_byte crc b XOR ?rest)"
    using Cons.IH [of "vams_crc32_byte crc b"] Cons.prems by simp
  also have "vams_crc32_byte crc b XOR ?rest =
      (crc32_round ^^ 8) ((crc XOR ucast b) XOR push_bit 8 ?rest)"
    unfolding vams_crc32_byte_def
    by (rule crc32_rounds_shift [symmetric]) (use high in simp_all)
  also have "(crc XOR ucast b) XOR push_bit 8 ?rest = crc XOR le_word (b # bs)"
    by (simp only: le_word_Cons_xor xor.assoc)
  also have "(crc32_round ^^ (8 * length bs)) ((crc32_round ^^ 8) z) =
      (crc32_round ^^ (8 * length (b # bs))) z" for z
    by (simp only: length_Cons mult_Suc_right add.commute [of 8] funpow_add comp_apply)
  finally show ?case .
qed simp

definition crc32_word :: "u32 \<Rightarrow> u32 \<Rightarrow> u32" where
  "crc32_word crc x = foldl vams_crc32_byte crc (le_bytes 4 x)"

lemma crc32_word_eq: "crc32_word crc x = (crc32_round ^^ 32) (crc XOR x)"
proof -
  have "8 * length (le_bytes 4 x) = 32" by simp
  moreover have "le_word (le_bytes 4 x) = x" by (rule le_word_le_bytes) simp
  ultimately show ?thesis
    using crc32_bytes_eq [of "le_bytes 4 x" crc] unfolding crc32_word_def by simp
qed

interpretation crc32_digest: injective_digest crc32_word
proof unfold_locales
  fix s t x :: u32
  assume "crc32_word s x = crc32_word t x"
  then have "s XOR x = t XOR x" unfolding crc32_word_eq by (rule crc32_rounds_inject)
  then show "s = t" by (metis xor.commute xor_left_cancel)
next
  fix s x y :: u32
  assume "crc32_word s x = crc32_word s y"
  then have "s XOR x = s XOR y" unfolding crc32_word_eq by (rule crc32_rounds_inject)
  then show "x = y" by (simp add: xor_left_cancel)
qed

subsection \<open>The record's digest over words\<close>

lemma crc32_loop_after: "12 \<le> i \<Longrightarrow> crc32_loop i bs crc = foldl vams_crc32_byte crc bs"
  by (induction bs arbitrary: i crc) simp_all

lemma bytes_of_words_Cons [simp]:
  "bytes_of_words (x # xs) = le_bytes 4 x @ bytes_of_words xs"
  by (simp add: bytes_of_words_def)

lemma foldl_crc32_words:
  "foldl vams_crc32_byte crc (bytes_of_words ws) = foldl crc32_word crc ws"
  by (induction ws arbitrary: crc) (simp_all add: bytes_of_words_def crc32_word_def)

lemma le_bytes_4: "\<exists>b0 b1 b2 b3. le_bytes 4 (x :: u32) = [b0, b1, b2, b3]"
  by (simp add: length_4_cases)

lemma le_bytes_4_zero: "le_bytes 4 (0 :: u32) = [0, 0, 0, 0]"
  by (simp add: le_bytes_def upt_rec)

lemma crc32_loop_words:
  "crc32_loop 0 (bytes_of_words (x # y # c # ws)) crc = foldl crc32_word crc (x # y # 0 # ws)"
proof -
  obtain x0 x1 x2 x3 where x: "le_bytes 4 x = [x0, x1, x2, x3]" using le_bytes_4 by blast
  obtain y0 y1 y2 y3 where y: "le_bytes 4 y = [y0, y1, y2, y3]" using le_bytes_4 by blast
  obtain c0 c1 c2 c3 where c: "le_bytes 4 c = [c0, c1, c2, c3]" using le_bytes_4 by blast
  show ?thesis
    by (simp add: x y c crc32_loop_after foldl_crc32_words crc32_word_def le_bytes_4_zero)
qed

lemma first_words: "length ws = 30 \<Longrightarrow> \<exists>x y c rest. ws = x # y # c # rest"
  by (cases ws; cases "tl ws"; cases "tl (tl ws)") auto

lemma crc32_image:
  assumes "length ws = 30"
  shows "vams_retained_crc32 (retained_of_words ws) = NOT (foldl crc32_word UINT32_MAX (ws[2 := 0]))"
proof -
  obtain x y c rest where ws: "ws = x # y # c # rest" using first_words assms by blast
  have "retained_bytes (retained_of_words ws) = bytes_of_words ws"
    unfolding retained_of_words_def by (rule ret_codec.enc_word_image [OF assms])
  then show ?thesis
    unfolding vams_retained_crc32_def
    by (simp only: ws crc32_loop_words list_update_code) (simp add: numeral_2_eq_2)
qed

lemma crc32_field_image:
  assumes "length ws = 30"
  shows "ret_crc32 (retained_of_words ws) = ws ! 2"
proof -
  obtain x y c rest where ws: "ws = x # y # c # rest" using first_words assms by blast
  show ?thesis
    by (simp add: retained_of_words_def retained_of_bytes_def ws bytes_at_def)
qed

subsection \<open>Validation detects every corruption of one word\<close>

lemma validateD: "vams_retained_validate r \<Longrightarrow> ret_crc32 r = vams_retained_crc32 r"
  by (simp add: vams_retained_validate_def)

text \<open>
  C19. The retained SRAM is an array of 30 words. If its content is a valid record, then after any
  corruption confined to one of its words (header, CRC field or event data, any number of bits
  of that word) the record no longer validates, so the next boot reformats it.
\<close>

theorem single_word_corruption_detected:
  assumes "length ws = 30" "i < 30" "v \<noteq> ws ! i"
    and "vams_retained_validate (retained_of_words ws)"
  shows "\<not> vams_retained_validate (retained_of_words (ws[i := v]))"
proof
  assume "vams_retained_validate (retained_of_words (ws[i := v]))"
  then have after: "(ws[i := v]) ! 2 = NOT (foldl crc32_word UINT32_MAX (ws[i := v, 2 := 0]))"
    using assms(1) validateD [of "retained_of_words (ws[i := v])"]
    by (simp add: crc32_field_image crc32_image)
  have before: "ws ! 2 = NOT (foldl crc32_word UINT32_MAX (ws[2 := 0]))"
    using validateD [OF assms(4)] by (simp add: crc32_field_image crc32_image assms(1))
  show False
  proof (cases "i = 2")
    case True
    with before after assms(1-3) show False by simp
  next
    case False
    have "foldl crc32_word UINT32_MAX (ws[2 := 0, i := v]) \<noteq> foldl crc32_word UINT32_MAX (ws[2 := 0])"
      using assms(1-3) False by (intro crc32_digest.single_change_detected) simp_all
    moreover have "ws[2 := 0, i := v] = ws[i := v, 2 := 0]"
      using False by (simp add: list_update_swap)
    moreover have "(ws[i := v]) ! 2 = ws ! 2" using False by simp
    ultimately show False using before after by (metis bit.double_compl)
  qed
qed

subsection \<open>The record the firmware keeps\<close>

text \<open>
  What the firmware maintains of the record in SRAM: it validates, the event array has its four
  slots, and head and count describe a ring (until it is full, the head is the count).
\<close>

definition retained_wf :: "vams_retained_record \<Rightarrow> bool" where
  "retained_wf r \<longleftrightarrow>
     vams_retained_validate r \<and> length (ret_events r) = 4 \<and>
     ret_event_head r < 4 \<and> ret_event_count r \<le> 4 \<and>
     (ret_event_count r < 4 \<longrightarrow> ret_event_head r = ret_event_count r)"

lemma crc32_loop_append:
  "crc32_loop i (xs @ ys) crc = crc32_loop (i + length xs) ys (crc32_loop i xs crc)"
  by (induction xs arbitrary: i crc) (simp_all add: Let_def)

lemma crc32_loop_crc_field:
  assumes "length xs = 4" "length ys = 4"
  shows "crc32_loop 8 xs crc = crc32_loop 8 ys crc"
  using length_4_cases [OF assms(1)] length_4_cases [OF assms(2)] by auto

lemma crc32_ignores_crc [simp]:
  "vams_retained_crc32 (r\<lparr> ret_crc32 := c \<rparr>) = vams_retained_crc32 r"
proof -
  let ?pre = "le_bytes 4 (ret_magic r) @ le_bytes 2 (ret_version r) @ le_bytes 2 (ret_length r)"
  obtain post where split: "retained_bytes (r\<lparr> ret_crc32 := x \<rparr>) = ?pre @ le_bytes 4 x @ post" for x
    by (rule that, simp only: retained_bytes_def append_assoc) simp
  have "crc32_loop 0 (?pre @ le_bytes 4 c @ post) k =
      crc32_loop 0 (?pre @ le_bytes 4 (ret_crc32 r) @ post) k" for k
    using crc32_loop_crc_field [of "le_bytes 4 c" "le_bytes 4 (ret_crc32 r)"]
    by (simp add: crc32_loop_append)
  then show ?thesis
    using split [of c] split [of "ret_crc32 r"] by (simp add: vams_retained_crc32_def)
qed

lemma commit_eq:
  "vams_retained_commit b r w =
     Some (r\<lparr> ret_crc32 := vams_retained_crc32 r \<rparr>,
           write_words b RETENTION_WINDOW
             (retained_words (r\<lparr> ret_crc32 := vams_retained_crc32 r \<rparr>)) w)"
  by (simp add: vams_retained_commit_def vams_management_retention_write_def vams_const
      retained_words_def Let_def)

lemma resealed_valid:
  assumes "vams_retained_validate r"
    and "ret_magic r' = ret_magic r" "ret_version r' = ret_version r" "ret_length r' = ret_length r"
  shows "vams_retained_validate (r'\<lparr> ret_crc32 := vams_retained_crc32 r' \<rparr>)"
  using assms by (simp add: vams_retained_validate_def)

lemma format_wf: "retained_wf (vams_retained_format reason generation)"
proof -
  let ?r = "vams_retained_format reason generation"
  have "vams_retained_validate ?r"
    by (simp add: vams_retained_format_def vams_retained_validate_def Let_def)
  moreover have "length (ret_events ?r) = 4" "ret_event_head ?r = 0" "ret_event_count ?r = 0"
    by (simp_all add: vams_retained_format_def Let_def zero_retained_def)
  ultimately show ?thesis by (simp add: retained_wf_def)
qed

lemma retained_words_roundtrip:
  "length (ret_events r) = 4 \<Longrightarrow> retained_of_words (retained_words r) = r"
  unfolding retained_of_words_def retained_words_def by (rule ret_codec.word_image_roundtrip)

theorem single_word_corruption_detected_witness:
  "\<not> vams_retained_validate (retained_of_words
      ((retained_words (vams_retained_format 1 0))[5 := retained_words (vams_retained_format 1 0) ! 5 + 1]))"
proof (rule single_word_corruption_detected)
  show "vams_retained_validate (retained_of_words (retained_words (vams_retained_format 1 0)))"
    using format_wf [of 1 0] by (simp add: retained_wf_def retained_words_roundtrip)
qed (simp_all add: retained_words_def)

subsection \<open>Sequences of notes\<close>

datatype retained_note =
    Note_Health u32 u32
  | Note_Command u32 u32
  | Clear_Command
  | Note_Event u32 u32 u32 u32

fun retained_apply ::
    "'w board \<Rightarrow> retained_note \<Rightarrow> vams_retained_record \<times> 'w \<Rightarrow> (vams_retained_record \<times> 'w) option" where
  "retained_apply b (Note_Health t f) (r, w) = vams_retained_note_health b t f r w"
| "retained_apply b (Note_Command i g) (r, w) = vams_retained_note_command b i g r w"
| "retained_apply b Clear_Command (r, w) = vams_retained_clear_command b r w"
| "retained_apply b (Note_Event e i g t) (r, w) = vams_retained_note_event b e i g t r w"

fun retained_run ::
    "'w board \<Rightarrow> retained_note list \<Rightarrow> vams_retained_record \<times> 'w \<Rightarrow> (vams_retained_record \<times> 'w) option" where
  "retained_run b [] s = Some s"
| "retained_run b (n # ns) s = Option.bind (retained_apply b n s) (retained_run b ns)"

lemmas retained_note_defs = vams_retained_note_health_def vams_retained_note_command_def
  vams_retained_clear_command_def vams_retained_note_event_def

lemma head_step:
  fixes h :: u32
  assumes "h < 4"
  shows "(h + 1) mod 4 < 4" "unat ((h + 1) mod 4) = (unat h + 1) mod 4"
proof -
  have "unat (h + 1) = unat h + 1"
    using assms by (subst unat_plus_if_size) (simp add: word_size word_less_nat_alt)
  then show "unat ((h + 1) mod 4) = (unat h + 1) mod 4" by (simp add: unat_mod)
  then show "(h + 1) mod 4 < 4" by (simp add: word_less_nat_alt)
qed

lemma note_event_ok:
  assumes "retained_wf r"
  shows "\<exists>r'. vams_retained_note_event b e i g t r w =
      Some (r', write_words b RETENTION_WINDOW (retained_words r') w) \<and> retained_wf r'"
proof -
  let ?h = "ret_event_head r" and ?c = "ret_event_count r"
  have h: "?h < 4" and c: "?c \<le> 4" and len: "length (ret_events r) = 4"
    and v: "vams_retained_validate r" and ring: "?c < 4 \<longrightarrow> ?h = ?c"
    using assms by (simp_all add: retained_wf_def)
  have idx: "unat ?h < length (ret_events r)" using h len by (simp add: word_less_nat_alt)
  have c1: "?c + 1 \<le> 4" "?c + 1 < 4 \<longrightarrow> (?c + 1) mod 4 = ?c + 1" if "?c < 4"
  proof -
    have "unat (?c + 1) = unat ?c + 1"
      using that by (subst unat_plus_if_size) (simp add: word_size word_less_nat_alt)
    with that show "?c + 1 \<le> 4" "?c + 1 < 4 \<longrightarrow> (?c + 1) mod 4 = ?c + 1"
      by (simp_all add: word_le_nat_alt word_less_nat_alt word_unat_eq_iff unat_mod)
  qed
  show ?thesis
    using idx h c c1 len ring head_step(1) [OF h] resealed_valid [OF v]
    by (auto simp: vams_retained_note_event_def commit_eq retained_wf_def Let_def vams_const)
qed

lemma resealed_wf:
  assumes "retained_wf r"
    and "ret_magic r' = ret_magic r" "ret_version r' = ret_version r" "ret_length r' = ret_length r"
    and "ret_events r' = ret_events r" "ret_event_head r' = ret_event_head r"
    and "ret_event_count r' = ret_event_count r"
  shows "retained_wf (r'\<lparr> ret_crc32 := vams_retained_crc32 r' \<rparr>)"
  using assms resealed_valid [of r r'] by (simp add: retained_wf_def)

lemma retained_apply_ok:
  assumes "retained_wf r"
  shows "\<exists>r'. retained_apply b n (r, w) =
      Some (r', write_words b RETENTION_WINDOW (retained_words r') w) \<and> retained_wf r'"
proof (cases n)
  case (Note_Event e i g t)
  with note_event_ok [OF assms] show ?thesis by simp
qed (simp_all add: retained_note_defs commit_eq resealed_wf [OF assms])

lemma retained_run_ok:
  assumes "retained_wf r"
  shows "\<exists>r' w'. retained_run b ns (r, w) = Some (r', w') \<and> retained_wf r' \<and>
    (ns \<noteq> [] \<longrightarrow> (\<exists>w0. w' = write_words b RETENTION_WINDOW (retained_words r') w0))"
  using assms
proof (induction ns arbitrary: r w)
  case (Cons n ns)
  obtain r1 where 1: "retained_apply b n (r, w) =
      Some (r1, write_words b RETENTION_WINDOW (retained_words r1) w)" "retained_wf r1"
    using retained_apply_ok [OF Cons.prems, of b n w] by blast
  with Cons.IH [OF 1(2)] show ?case
    by (cases ns) auto
qed simp

lemma boot_eq:
  assumes "read_words b RETENTION_WINDOW 30 w = (ws, w1)"
  shows "vams_retained_boot b reason gen w =
    (let r = retained_of_words ws in
     if vams_retained_validate r
     then map_option (\<lambda>(r, w). (True, r, w))
       (vams_retained_commit b (r\<lparr> ret_boot_count := vams_counter_increment (ret_boot_count r),
          ret_reset_reason := reason, ret_reset_generation := gen \<rparr>) w1)
     else Some (False, vams_retained_format reason gen,
       write_words b RETENTION_WINDOW (retained_words (vams_retained_format reason gen)) w1))"
  using assms
  by (simp add: vams_retained_boot_def vams_management_retention_read_def
      vams_management_retention_write_def vams_const Let_def commit_eq retained_words_def)

lemma boot_ok:
  assumes "read_words b RETENTION_WINDOW 30 w = (ws, w1)"
    and "vams_retained_validate (retained_of_words ws) \<longrightarrow> retained_wf (retained_of_words ws)"
  shows "\<exists>r w2. vams_retained_boot b reason gen w =
      Some (vams_retained_validate (retained_of_words ws), r, w2) \<and> retained_wf r"
proof (cases "vams_retained_validate (retained_of_words ws)")
  case True
  let ?r = "(retained_of_words ws)\<lparr> ret_boot_count :=
      vams_counter_increment (ret_boot_count (retained_of_words ws)),
      ret_reset_reason := reason, ret_reset_generation := gen \<rparr>"
  have "retained_wf (?r\<lparr> ret_crc32 := vams_retained_crc32 ?r \<rparr>)"
    using True assms(2) by (intro resealed_wf [of "retained_of_words ws"]) simp_all
  with True show ?thesis by (simp add: boot_eq [OF assms(1)] commit_eq Let_def del: crc32_ignores_crc)
next
  case False
  then show ?thesis by (simp add: boot_eq [OF assms(1)] Let_def format_wf)
qed


definition ram_zero :: ram_world where
  "ram_zero = \<lparr> ram_cell = (\<lambda>_. 0), ram_clock = 0 \<rparr>"

lemma ram_zero_read: "read_words ram_board RETENTION_WINDOW 30 ram_zero = (replicate 30 0, ram_zero)"
proof -
  have "ram_image RETENTION_WINDOW 32 ram_zero = replicate 32 0"
    by (simp add: ram_image_def ram_zero_def map_replicate_const)
  then show ?thesis using ram_window.read_words_image [of 0 30 ram_zero] by simp
qed

lemma ram_zero_invalid: "\<not> vams_retained_validate (retained_of_words (replicate 30 0))"
proof -
  have "bytes_of_words (replicate 30 0) = replicate 120 0" by code_simp
  then have "ret_magic (retained_of_words (replicate 30 0)) = le_word (replicate 4 0)"
    by (simp add: retained_of_words_def retained_of_bytes_def bytes_at_def)
  moreover have "le_word (replicate 4 0) = (0 :: u32)" by code_simp
  ultimately show ?thesis by (simp add: vams_retained_validate_def vams_const)
qed


text \<open>
  C25. What was noted survives a warm reset: on a board whose retained window holds what was
  written last, after any nonempty sequence of notes on a kept record, the next boot finds a
  valid record and keeps every field of it but the boot count (incremented, saturating), the
  reset reason, the reset generation and the CRC.
\<close>

theorem notes_survive_warm_reset:
  assumes "retained_window b RETENTION_WINDOW cells img" "30 \<le> cells"
    and "retained_wf r" "ns \<noteq> []"
    and "retained_run b ns (r, w) = Some (r', w')"
  shows "\<exists>r'' w''. vams_retained_boot b reason gen w' = Some (True, r'', w'') \<and>
    r'' = r'\<lparr> ret_boot_count := vams_counter_increment (ret_boot_count r'),
       ret_reset_reason := reason, ret_reset_generation := gen,
       ret_crc32 := ret_crc32 r'' \<rparr>"
proof -
  obtain w0 where r': "retained_wf r'" "w' = write_words b RETENTION_WINDOW (retained_words r') w0"
    using retained_run_ok [OF assms(3), of b ns w] assms(4,5) by auto
  have "read_words b RETENTION_WINDOW (length (retained_words r')) w' = (retained_words r', w')"
    unfolding r'(2) using assms(2)
    by (intro retained_window.write_then_read [OF assms(1)]) (simp add: retained_words_def)
  then have read: "read_words b RETENTION_WINDOW 30 w' = (retained_words r', w')"
    by (simp add: retained_words_def)
  have "retained_of_words (retained_words r') = r'"
    using r'(1) by (intro retained_words_roundtrip) (simp add: retained_wf_def)
  with r'(1) show ?thesis
    by (simp add: boot_eq [OF read] retained_wf_def commit_eq Let_def)
qed

theorem notes_survive_warm_reset_witness:
  "\<exists>r' w'. retained_run ram_board [Note_Command 5 1, Note_Event 1 5 1 9]
       (vams_retained_format 1 0, ram_zero) = Some (r', w') \<and>
     (\<exists>r'' w''. vams_retained_boot ram_board 2 1 w' = Some (True, r'', w'') \<and>
        r'' = r'\<lparr> ret_boot_count := vams_counter_increment (ret_boot_count r'),
          ret_reset_reason := 2, ret_reset_generation := 1, ret_crc32 := ret_crc32 r'' \<rparr>)"
proof -
  let ?ns = "[Note_Command 5 1, Note_Event 1 5 1 9]"
  obtain r' w' where "retained_run ram_board ?ns (vams_retained_format 1 0, ram_zero) = Some (r', w')"
    using retained_run_ok [OF format_wf, of ram_board ?ns 1 0 ram_zero] by blast
  with notes_survive_warm_reset [OF ram_window.retained_window_axioms _ format_wf _ this, of 2 1]
  show ?thesis by simp
qed

text \<open>The most recent events, oldest first.\<close>

definition recent_events :: "vams_retained_record \<Rightarrow> vams_retained_event list" where
  "recent_events r =
     (if unat (ret_event_count r) < 4 then take (unat (ret_event_count r)) (ret_events r)
      else drop (unat (ret_event_head r)) (ret_events r) @
           take (unat (ret_event_head r)) (ret_events r))"

definition last_four :: "'a list \<Rightarrow> 'a list" where
  "last_four xs = drop (length xs - 4) xs"

lemma note_event_fields:
  assumes "vams_retained_note_event b e i g t r w = Some (r', w')"
  shows "ret_events r' = (ret_events r)[unat (ret_event_head r) := \<lparr> rev_event_id = e,
      rev_command_id = i, rev_generation = g, rev_timestamp_ms = t \<rparr>]"
    and "ret_event_head r' = (ret_event_head r + 1) mod 4"
    and "ret_event_count r' =
      (if ret_event_count r < 4 then ret_event_count r + 1 else ret_event_count r)"
  using assms
  by (auto simp: vams_retained_note_event_def commit_eq Let_def vams_const split: if_splits)

lemma below_four: "x < 4 \<Longrightarrow> x = 0 \<or> x = 1 \<or> x = 2 \<or> x = (3 :: u32)"
proof -
  assume "x < 4"
  then have "unat x < 4" by (simp add: word_less_nat_alt)
  then have "unat x = 0 \<or> unat x = 1 \<or> unat x = 2 \<or> unat x = 3" by linarith
  then show ?thesis by (simp add: word_unat_eq_iff)
qed

text \<open>
  C27. The event ring refines the list of the four most recent events: noting an event appends it
  and drops the oldest one when four are already kept.
\<close>

theorem note_event_refines_recent:
  assumes "retained_wf r" "vams_retained_note_event b e i g t r w = Some (r', w')"
  shows "recent_events r' = last_four (recent_events r @ [\<lparr> rev_event_id = e, rev_command_id = i,
    rev_generation = g, rev_timestamp_ms = t \<rparr>])"
proof -
  obtain a c d f where ev: "ret_events r = [a, c, d, f]"
    using assms(1) length_4_cases [of "ret_events r"] by (auto simp: retained_wf_def)
  have h: "ret_event_head r < 4" and cn: "ret_event_count r \<le> 4"
    and ring: "ret_event_count r < 4 \<longrightarrow> ret_event_head r = ret_event_count r"
    using assms(1) by (simp_all add: retained_wf_def)
  note fields = note_event_fields [OF assms(2)]
  consider (part) "ret_event_count r < 4" | (full) "ret_event_count r = 4"
    using cn by (auto simp: word_le_less_eq)
  then show ?thesis
  proof cases
    case part
    with ring have "ret_event_head r = ret_event_count r" by simp
    with below_four [OF part] show ?thesis
      by (elim disjE) (simp_all add: fields ev recent_events_def last_four_def)
  next
    case full
    with below_four [OF h] show ?thesis
      by (elim disjE) (simp_all add: fields ev recent_events_def last_four_def)
  qed
qed

theorem note_event_refines_recent_witness:
  "\<exists>r' w'. vams_retained_note_event ram_board 1 2 3 4 (vams_retained_format 1 0) ram_zero =
       Some (r', w') \<and>
     recent_events r' = last_four (recent_events (vams_retained_format 1 0) @
       [\<lparr> rev_event_id = 1, rev_command_id = 2, rev_generation = 3, rev_timestamp_ms = 4 \<rparr>])"
proof -
  obtain r' w' where
    "vams_retained_note_event ram_board 1 2 3 4 (vams_retained_format 1 0) ram_zero = Some (r', w')"
    using note_event_ok [OF format_wf, of ram_board 1 2 3 4 1 0 ram_zero] by blast
  with note_event_refines_recent [OF format_wf this] show ?thesis by blast
qed

definition overrun_record :: vams_retained_record where
  "overrun_record =
     (let r = (vams_retained_format 0 0)\<lparr> ret_event_head := 4 \<rparr>
      in r\<lparr> ret_crc32 := vams_retained_crc32 r \<rparr>)"

text \<open>
  C28. Validation does not bound the ring index: a record whose head is one past the array, sealed
  with its own CRC, validates, and noting an event on it indexes the array out of bounds.
\<close>

theorem validate_accepts_overrunning_head:
  "vams_retained_validate overrun_record \<and>
   vams_retained_note_event b e i g t overrun_record w = None"
proof -
  have "vams_retained_validate (vams_retained_format 0 0)"
    using format_wf by (simp add: retained_wf_def)
  then have "vams_retained_validate overrun_record"
    unfolding overrun_record_def Let_def by (rule resealed_valid) simp_all
  moreover have "length (ret_events overrun_record) = 4" "ret_event_head overrun_record = 4"
    using format_wf by (simp_all add: overrun_record_def Let_def retained_wf_def)
  ultimately show ?thesis by (simp add: vams_retained_note_event_def)
qed

end
