(* ===== verification/Vams_Zephyr.thy ===== *)
theory Vams_Zephyr
  imports Vams_Prelude
begin

text \<open>
  The kernel objects of Zephyr the firmware is built on, as parameters: message queues
  (\<open>k_msgq\<close>) and the fixed-size block allocator (\<open>k_mem_slab\<close>). Their code is not part of the
  repository. The records below hold the calls the firmware makes; the locales state the
  documented behaviour the properties rely on, over the list of queued messages and the list of
  free blocks. Properties that need these laws name the locale as a hypothesis.

  The reference instances at the end (a bounded list, a list of free blocks) are what the
  witnesses run on.
\<close>

subsection \<open>Message queues\<close>

text \<open>
  \<open>k_msgq_put\<close> is the call with \<open>K_NO_WAIT\<close>. \<open>k_msgq_get\<close> takes whether the call waits: a message is
  \<open>Inr m\<close>; an empty queue is \<open>Inl ENOMSG\<close> without waiting and \<open>Inl EAGAIN\<close> when the waiting time
  passed. The queue argument is the queue at the moment the call returns.
\<close>

record ('q, 'm) msgq_api =
  k_msgq_put :: "'m \<Rightarrow> 'q \<Rightarrow> rc \<times> 'q"
  k_msgq_get :: "bool \<Rightarrow> 'q \<Rightarrow> (errno + 'm) \<times> 'q"
  k_msgq_num_used_get :: "'q \<Rightarrow> u32"
  k_msgq_num_free_get :: "'q \<Rightarrow> u32"

locale msgq_laws =
  fixes api :: "('q, 'm) msgq_api"
    and items :: "'q \<Rightarrow> 'm list"
    and cap :: "'q \<Rightarrow> nat"
  assumes put_room: "length (items q) < cap q \<Longrightarrow>
      fst (k_msgq_put api m q) = RC_OK \<and> items (snd (k_msgq_put api m q)) = items q @ [m]"
    and put_full: "length (items q) \<ge> cap q \<Longrightarrow>
      fst (k_msgq_put api m q) = RC_ERR ENOMSG \<and> items (snd (k_msgq_put api m q)) = items q"
    and cap_put: "cap (snd (k_msgq_put api m q)) = cap q"
    and get_message: "items q = m # ms \<Longrightarrow>
      fst (k_msgq_get api wait q) = Inr m \<and> items (snd (k_msgq_get api wait q)) = ms"
    and get_empty: "items q = [] \<Longrightarrow>
      fst (k_msgq_get api wait q) = Inl (if wait then EAGAIN else ENOMSG) \<and>
      items (snd (k_msgq_get api wait q)) = []"
    and cap_get: "cap (snd (k_msgq_get api wait q)) = cap q"
    and num_used: "k_msgq_num_used_get api q = of_nat (length (items q))"
    and num_free: "k_msgq_num_free_get api q = of_nat (cap q - length (items q))"
begin

lemma putE:
  assumes "k_msgq_put api m q = (st, q')"
  obtains (ok) "length (items q) < cap q" "st = RC_OK" "items q' = items q @ [m]" "cap q' = cap q"
  | (full) "cap q \<le> length (items q)" "st = RC_ERR ENOMSG" "items q' = items q" "cap q' = cap q"
proof (cases "length (items q) < cap q")
  case True
  with assms put_room [OF True, of m] cap_put [of m q] show ?thesis by (intro ok) simp_all
next
  case False
  with assms put_full [of q m] cap_put [of m q] show ?thesis by (intro full) simp_all
qed

lemma getE:
  assumes "k_msgq_get api wait q = (r, q')"
  obtains (message) m where "items q = m # items q'" "r = Inr m" "cap q' = cap q"
  | (empty) "items q = []" "items q' = []" "r = Inl (if wait then EAGAIN else ENOMSG)" "cap q' = cap q"
proof (cases "items q")
  case Nil
  with assms get_empty [OF Nil, of wait] cap_get [of wait q] show ?thesis by (intro empty) simp_all
next
  case (Cons m ms)
  with assms get_message [OF Cons, of wait] cap_get [of wait q] show ?thesis
    by (intro message [of m]) simp_all
qed

lemma put_bounded:
  assumes "length (items q) \<le> cap q"
  shows "length (items (snd (k_msgq_put api m q))) \<le> cap (snd (k_msgq_put api m q))"
proof -
  obtain st q' where put: "k_msgq_put api m q = (st, q')" by fastforce
  then show ?thesis by (rule putE) (use assms put in simp_all)
qed

end

subsection \<open>Memory slabs\<close>

text \<open>
  A block of the command pool is named by its number. \<open>k_mem_slab_alloc\<close> is the call with
  \<open>K_NO_WAIT\<close>; without a free block it returns \<open>-ENOMEM\<close>.
\<close>

type_synonym ptr = nat

record 's slab_api =
  k_mem_slab_alloc :: "'s \<Rightarrow> (errno + ptr) \<times> 's"
  k_mem_slab_free :: "ptr \<Rightarrow> 's \<Rightarrow> 's"
  k_mem_slab_num_free_get :: "'s \<Rightarrow> u32"

locale slab_laws =
  fixes api :: "'s slab_api"
    and free :: "'s \<Rightarrow> ptr set"
  assumes finite_free: "finite (free s)"
    and alloc_empty: "free s = {} \<Longrightarrow>
      fst (k_mem_slab_alloc api s) = Inl ENOMEM \<and> free (snd (k_mem_slab_alloc api s)) = {}"
    and alloc_block: "free s \<noteq> {} \<Longrightarrow> \<exists>p \<in> free s.
      fst (k_mem_slab_alloc api s) = Inr p \<and> free (snd (k_mem_slab_alloc api s)) = free s - {p}"
    and free_block: "p \<notin> free s \<Longrightarrow> free (k_mem_slab_free api p s) = insert p (free s)"
    and num_free_blocks: "k_mem_slab_num_free_get api s = of_nat (card (free s))"
begin

lemma allocE:
  assumes "k_mem_slab_alloc api s = (r, s')"
  obtains (block) p where "r = Inr p" "p \<in> free s" "free s' = free s - {p}"
  | (exhausted) "r = Inl ENOMEM" "free s = {}" "free s' = {}"
proof (cases "free s = {}")
  case True
  with assms alloc_empty [OF True] show ?thesis by (intro exhausted) simp_all
next
  case False
  then obtain p where "p \<in> free s" "fst (k_mem_slab_alloc api s) = Inr p"
      "free (snd (k_mem_slab_alloc api s)) = free s - {p}"
    using alloc_block [OF False] by blast
  with assms show ?thesis by (intro block [of p]) simp_all
qed

end

subsection \<open>Reference instances\<close>

record 'm list_msgq =
  lq_items :: "'m list"
  lq_cap :: nat

definition list_msgq_api :: "('m list_msgq, 'm) msgq_api" where
  "list_msgq_api = \<lparr>
     k_msgq_put = (\<lambda>m q. if length (lq_items q) < lq_cap q
       then (RC_OK, q\<lparr> lq_items := lq_items q @ [m] \<rparr>) else (RC_ERR ENOMSG, q)),
     k_msgq_get = (\<lambda>wait q. case lq_items q of
         [] \<Rightarrow> (Inl (if wait then EAGAIN else ENOMSG), q)
       | m # ms \<Rightarrow> (Inr m, q\<lparr> lq_items := ms \<rparr>)),
     k_msgq_num_used_get = (\<lambda>q. of_nat (length (lq_items q))),
     k_msgq_num_free_get = (\<lambda>q. of_nat (lq_cap q - length (lq_items q))) \<rparr>"

interpretation list_msgq: msgq_laws list_msgq_api lq_items lq_cap
  by unfold_locales (simp_all add: list_msgq_api_def split: list.split)

definition list_slab_api :: "ptr list slab_api" where
  "list_slab_api = \<lparr>
     k_mem_slab_alloc = (\<lambda>s. case remdups s of [] \<Rightarrow> (Inl ENOMEM, []) | p # ps \<Rightarrow> (Inr p, ps)),
     k_mem_slab_free = (\<lambda>p s. p # s),
     k_mem_slab_num_free_get = (\<lambda>s. of_nat (card (set s))) \<rparr>"

lemma remdups_Cons_set:
  assumes "remdups s = p # ps"
  shows "p \<in> set s" "set ps = set s - {p}"
proof -
  have "set s = insert p (set ps)" "distinct (p # ps)"
    using assms set_remdups [of s] distinct_remdups [of s] by simp_all
  then show "p \<in> set s" "set ps = set s - {p}" by auto
qed

interpretation list_slab: slab_laws list_slab_api set
proof unfold_locales
  fix s :: "ptr list"
  show "finite (set s)" by simp
  show "set s = {} \<Longrightarrow> fst (k_mem_slab_alloc list_slab_api s) = Inl ENOMEM \<and>
      set (snd (k_mem_slab_alloc list_slab_api s)) = {}"
    by (simp add: list_slab_api_def)
  show "k_mem_slab_num_free_get list_slab_api s = of_nat (card (set s))"
    by (simp add: list_slab_api_def)
  show "set s \<noteq> {} \<Longrightarrow> \<exists>p\<in>set s. fst (k_mem_slab_alloc list_slab_api s) = Inr p \<and>
      set (snd (k_mem_slab_alloc list_slab_api s)) = set s - {p}"
  proof (cases "remdups s")
    case (Cons p ps)
    with remdups_Cons_set [OF Cons] show ?thesis by (simp add: list_slab_api_def)
  qed simp
next
  fix p :: ptr and s :: "ptr list"
  show "set (k_mem_slab_free list_slab_api p s) = insert p (set s)"
    by (simp add: list_slab_api_def)
qed

end
