(* ===== verification/Vams_Event.thy ===== *)
theory Vams_Event
  imports Vams_Retained Vams_Zephyr
begin

text \<open>
  The event log (\<open>firmware/src/logging/vams_event.c\<close>): every event is first noted in the retained
  record and then queued for the logger task; when the queue is full the event is dropped and a
  saturating counter says so. Emitting never blocks.

  The event queue is a Zephyr message queue, a parameter with the laws of
  \<open>msgq_laws\<close>; the logger's output is text on the console and is not modelled.
\<close>

datatype vams_event_id =
    VAMS_EVENT_TRANSITION | VAMS_EVENT_PUBLISHED | VAMS_EVENT_HEARTBEAT | VAMS_EVENT_MAILBOX
  | VAMS_EVENT_ABORT_REQUEST | VAMS_EVENT_ABORT_ESCALATED | VAMS_EVENT_RESULT_MISMATCH
  | VAMS_EVENT_COMMAND_COMPLETE | VAMS_EVENT_TELEMETRY | VAMS_EVENT_WATCHDOG_WITHHELD
  | VAMS_EVENT_OVERLOAD_TEST | VAMS_EVENT_HEALTH_STUCK

fun event_code :: "vams_event_id \<Rightarrow> u32" where
  "event_code VAMS_EVENT_TRANSITION = 1"
| "event_code VAMS_EVENT_PUBLISHED = 2"
| "event_code VAMS_EVENT_HEARTBEAT = 3"
| "event_code VAMS_EVENT_MAILBOX = 4"
| "event_code VAMS_EVENT_ABORT_REQUEST = 5"
| "event_code VAMS_EVENT_ABORT_ESCALATED = 6"
| "event_code VAMS_EVENT_RESULT_MISMATCH = 7"
| "event_code VAMS_EVENT_COMMAND_COMPLETE = 8"
| "event_code VAMS_EVENT_TELEMETRY = 9"
| "event_code VAMS_EVENT_WATCHDOG_WITHHELD = 10"
| "event_code VAMS_EVENT_OVERLOAD_TEST = 11"
| "event_code VAMS_EVENT_HEALTH_STUCK = 12"

record vams_event =
  ev_timestamp_ms :: u64
  ev_value :: u64
  ev_command_id :: u32
  ev_generation :: u32
  ev_arg0 :: u32
  ev_arg1 :: u32
  ev_arg2 :: u32
  ev_id :: u16
  ev_reserved :: u16

definition VAMS_EVENT_QUEUE_DEPTH :: nat where [vams_const]: "VAMS_EVENT_QUEUE_DEPTH = 32"

text \<open>The state an event is logged to: the retained record in SRAM, the queue, the drop counter.\<close>

record 'e event_log =
  log_record :: vams_retained_record
  log_queue :: 'e
  log_drops :: u32

definition vams_event_record_drop :: "u32 list \<Rightarrow> 'e event_log \<Rightarrow> 'e event_log" where
  "vams_event_record_drop interference l =
     l\<lparr> log_drops := vams_saturating_atomic_inc interference (log_drops l) \<rparr>"

definition vams_event_emit ::
    "'w board \<Rightarrow> ('e, vams_event) msgq_api \<Rightarrow> vams_event_id \<Rightarrow> u32 \<Rightarrow> u32 \<Rightarrow> u32 \<Rightarrow> u32 \<Rightarrow> u32 \<Rightarrow>
       u64 \<Rightarrow> 'e event_log \<Rightarrow> 'w \<Rightarrow> ('e event_log \<times> 'w) option" where
  "vams_event_emit b eq i command_id generation arg0 arg1 arg2 v l w = do {
     let event = \<lparr> ev_timestamp_ms = k_uptime_get b w, ev_value = v,
                   ev_command_id = command_id, ev_generation = generation, ev_arg0 = arg0,
                   ev_arg1 = arg1, ev_arg2 = arg2, ev_id = ucast (event_code i),
                   ev_reserved = 0 \<rparr>;
     (r, w) \<leftarrow> vams_retained_note_event b (event_code i) command_id generation
       (ucast (ev_timestamp_ms event)) (log_record l) w;
     let (status, q) = k_msgq_put eq event (log_queue l);
     let l = l\<lparr> log_record := r, log_queue := q \<rparr>;
     Some (if status \<noteq> RC_OK then vams_event_record_drop [] l else l, w)
   }"

definition vams_event_receive ::
    "('e, vams_event) msgq_api \<Rightarrow> bool \<Rightarrow> 'e event_log \<Rightarrow> (errno + vams_event) \<times> 'e event_log" where
  "vams_event_receive eq wait l =
     (let (r, q) = k_msgq_get eq wait (log_queue l) in (r, l\<lparr> log_queue := q \<rparr>))"

definition vams_event_drop_count :: "'e event_log \<Rightarrow> u32" where
  "vams_event_drop_count l = log_drops l"

subsection \<open>Emitting is free of faults\<close>

definition log_ok :: "'e event_log \<Rightarrow> bool" where
  "log_ok l \<longleftrightarrow> retained_wf (log_record l)"

lemma event_emit_ok:
  assumes "log_ok l"
  shows "\<exists>l' w'. vams_event_emit b eq i c g a0 a1 a2 v l w = Some (l', w') \<and> log_ok l'"
proof -
  obtain r w' where "vams_retained_note_event b (event_code i) c g
      (ucast (k_uptime_get b w)) (log_record l) w = Some (r, w')" "retained_wf r"
    using note_event_ok [of "log_record l" b "event_code i" c g "ucast (k_uptime_get b w)" w] assms
    unfolding log_ok_def by blast
  then show ?thesis
    by (simp add: vams_event_emit_def log_ok_def Let_def case_prod_beta vams_event_record_drop_def)
qed

lemma event_emit_okE:
  assumes "log_ok l"
  obtains l' w' where "vams_event_emit b eq i c g a0 a1 a2 v l w = Some (l', w')" "log_ok l'"
  using event_emit_ok [OF assms, of b eq i c g a0 a1 a2 v w] by blast

text \<open>What one emission does to the queue and to the counter.\<close>

lemma event_emit_effect:
  assumes "msgq_laws eq items cap"
    and "vams_event_emit b eq i c g a0 a1 a2 v l w = Some (l', w')"
  shows "\<exists>e. ev_id e = ucast (event_code i) \<and> ev_command_id e = c \<and> ev_generation e = g \<and>
      ev_arg0 e = a0 \<and> ev_arg1 e = a1 \<and> ev_arg2 e = a2 \<and> ev_value e = v \<and>
      ev_timestamp_ms e = k_uptime_get b w \<and>
      cap (log_queue l') = cap (log_queue l) \<and>
      (if length (items (log_queue l)) < cap (log_queue l)
       then items (log_queue l') = items (log_queue l) @ [e] \<and> log_drops l' = log_drops l
       else items (log_queue l') = items (log_queue l) \<and>
            log_drops l' = vams_counter_increment (log_drops l))"
proof -
  let ?e = "\<lparr> ev_timestamp_ms = k_uptime_get b w, ev_value = v, ev_command_id = c,
      ev_generation = g, ev_arg0 = a0, ev_arg1 = a1, ev_arg2 = a2,
      ev_id = ucast (event_code i), ev_reserved = 0 \<rparr>"
  obtain st q' where put: "k_msgq_put eq ?e (log_queue l) = (st, q')" by fastforce
  have l': "log_queue l' = q'"
    "log_drops l' = (if st \<noteq> RC_OK then vams_counter_increment (log_drops l) else log_drops l)"
    using assms(2) put
    by (auto simp: vams_event_emit_def Let_def vams_event_record_drop_def vams_counter_increment_def
        bind_eq_Some_conv)
  show ?thesis
    by (rule exI [of _ ?e], rule msgq_laws.putE [OF assms(1) put]) (simp_all add: l')
qed

subsection \<open>Overload: what a burst leaves in the queue and in the counter\<close>

record event_request =
  rq_id :: vams_event_id
  rq_command :: u32
  rq_generation :: u32
  rq_arg0 :: u32
  rq_arg1 :: u32
  rq_arg2 :: u32
  rq_value :: u64

definition emit_request ::
    "'w board \<Rightarrow> ('e, vams_event) msgq_api \<Rightarrow> event_request \<Rightarrow> 'e event_log \<times> 'w \<Rightarrow>
       ('e event_log \<times> 'w) option" where
  "emit_request b eq r = (\<lambda>(l, w). vams_event_emit b eq (rq_id r) (rq_command r) (rq_generation r)
     (rq_arg0 r) (rq_arg1 r) (rq_arg2 r) (rq_value r) l w)"

fun emit_burst ::
    "'w board \<Rightarrow> ('e, vams_event) msgq_api \<Rightarrow> event_request list \<Rightarrow> 'e event_log \<times> 'w \<Rightarrow>
       ('e event_log \<times> 'w) option" where
  "emit_burst b eq [] s = Some s"
| "emit_burst b eq (r # rs) s = Option.bind (emit_request b eq r s) (emit_burst b eq rs)"

definition event_of_request :: "event_request \<Rightarrow> vams_event \<Rightarrow> bool" where
  "event_of_request r e \<longleftrightarrow> ev_id e = ucast (event_code (rq_id r)) \<and> ev_command_id e = rq_command r \<and>
     ev_generation e = rq_generation r \<and> ev_arg0 e = rq_arg0 r \<and> ev_arg1 e = rq_arg1 r \<and>
     ev_arg2 e = rq_arg2 r \<and> ev_value e = rq_value r"

lemma emit_request_step:
  assumes "msgq_laws eq items cap" "log_ok l"
  obtains l' w' where "emit_request b eq r (l, w) = Some (l', w')" "log_ok l'"
    "cap (log_queue l') = cap (log_queue l)"
    "(\<exists>e. length (items (log_queue l)) < cap (log_queue l) \<and>
        items (log_queue l') = items (log_queue l) @ [e] \<and> event_of_request r e \<and>
        log_drops l' = log_drops l) \<or>
     (length (items (log_queue l)) \<ge> cap (log_queue l) \<and> items (log_queue l') = items (log_queue l) \<and>
        log_drops l' = vams_counter_increment (log_drops l))"
proof -
  obtain l' w' where emit: "vams_event_emit b eq (rq_id r) (rq_command r) (rq_generation r)
      (rq_arg0 r) (rq_arg1 r) (rq_arg2 r) (rq_value r) l w = Some (l', w')" and ok: "log_ok l'"
    using event_emit_okE [OF assms(2)] .
  from event_emit_effect [OF assms(1) emit]
  have "cap (log_queue l') = cap (log_queue l) \<and>
    ((\<exists>e. length (items (log_queue l)) < cap (log_queue l) \<and>
        items (log_queue l') = items (log_queue l) @ [e] \<and> event_of_request r e \<and>
        log_drops l' = log_drops l) \<or>
     (length (items (log_queue l)) \<ge> cap (log_queue l) \<and> items (log_queue l') = items (log_queue l) \<and>
        log_drops l' = vams_counter_increment (log_drops l)))"
    unfolding event_of_request_def by (auto split: if_splits)
  with emit ok show ?thesis by (intro that [of l' w']) (simp_all add: emit_request_def)
qed

lemma emit_burst_effect:
  assumes "msgq_laws eq items cap" "log_ok l"
    and "length (items (log_queue l)) \<le> cap (log_queue l)"
  shows "\<exists>l' w' es. emit_burst b eq rs (l, w) = Some (l', w') \<and> log_ok l' \<and>
    items (log_queue l') = items (log_queue l) @ es \<and>
    list_all2 event_of_request
      (take (cap (log_queue l) - length (items (log_queue l))) rs) es \<and>
    unat (log_drops l') = min (unat (log_drops l) +
      (length rs - (cap (log_queue l) - length (items (log_queue l))))) (2 ^ 32 - 1)"
  using assms(2,3)
proof (induction rs arbitrary: l w)
  case Nil
  have "unat (log_drops l) \<le> 2 ^ 32 - 1" using unat_u32_less [of "log_drops l"] by simp
  with Nil show ?case by simp
next
  case (Cons r rs)
  let ?free = "\<lambda>l. cap (log_queue l) - length (items (log_queue l))"
  obtain l1 w1 where 1: "emit_request b eq r (l, w) = Some (l1, w1)" "log_ok l1"
    "cap (log_queue l1) = cap (log_queue l)"
    and cases: "(\<exists>e. length (items (log_queue l)) < cap (log_queue l) \<and>
        items (log_queue l1) = items (log_queue l) @ [e] \<and> event_of_request r e \<and>
        log_drops l1 = log_drops l) \<or>
     (length (items (log_queue l)) \<ge> cap (log_queue l) \<and> items (log_queue l1) = items (log_queue l) \<and>
        log_drops l1 = vams_counter_increment (log_drops l))"
    using emit_request_step [OF assms(1) Cons.prems(1)] .
  have bound: "length (items (log_queue l1)) \<le> cap (log_queue l1)"
    using cases 1(3) Cons.prems(2) by auto
  from Cons.IH [OF 1(2) bound, of w1] obtain l' w' es where IH:
    "emit_burst b eq rs (l1, w1) = Some (l', w')" "log_ok l'"
    "items (log_queue l') = items (log_queue l1) @ es"
    "list_all2 event_of_request (take (?free l1) rs) es"
    "unat (log_drops l') = min (unat (log_drops l1) + (length rs - ?free l1)) (2 ^ 32 - 1)"
    by blast
  from cases show ?case
  proof (elim disjE exE conjE)
    fix e assume e: "length (items (log_queue l)) < cap (log_queue l)"
      "items (log_queue l1) = items (log_queue l) @ [e]" "event_of_request r e"
      "log_drops l1 = log_drops l"
    then have free: "?free l = Suc (?free l1)" using 1(3) by simp
    show ?thesis
      by (rule exI [of _ l'], rule exI [of _ w'], rule exI [of _ "e # es"])
         (use IH 1 e free in simp)
  next
    assume full: "length (items (log_queue l)) \<ge> cap (log_queue l)"
      "items (log_queue l1) = items (log_queue l)"
      "log_drops l1 = vams_counter_increment (log_drops l)"
    then have free: "?free l = 0" "?free l1 = 0" using 1(3) by simp_all
    show ?thesis
      by (rule exI [of _ l'], rule exI [of _ w'], rule exI [of _ es])
         (use IH 1 full free in \<open>simp add: unat_counter_increment\<close>)
  qed
qed

text \<open>
  C37. A burst of events never blocks or faults, and loses nothing silently: with no receiver
  running, the queue takes the first events of the burst, in order, up to its free space, and the
  drop counter grows by exactly the number of events that did not fit, saturating at
  \<open>UINT32_MAX\<close>. Each event queued carries the identifier and the arguments it was emitted with.
\<close>

theorem event_burst_accounting:
  assumes "msgq_laws eq items cap" "log_ok l"
    and "length (items (log_queue l)) \<le> cap (log_queue l)"
  shows "\<exists>l' w' es. emit_burst b eq rs (l, w) = Some (l', w') \<and> log_ok l' \<and>
    items (log_queue l') = items (log_queue l) @ es \<and>
    list_all2 event_of_request
      (take (cap (log_queue l) - length (items (log_queue l))) rs) es \<and>
    unat (vams_event_drop_count l') = min (unat (vams_event_drop_count l) +
      (length rs - (cap (log_queue l) - length (items (log_queue l))))) (2 ^ 32 - 1)"
  unfolding vams_event_drop_count_def using assms by (rule emit_burst_effect)

definition overload_request :: event_request where
  "overload_request = \<lparr> rq_id = VAMS_EVENT_OVERLOAD_TEST, rq_command = 0, rq_generation = 0,
     rq_arg0 = 0, rq_arg1 = 0, rq_arg2 = 0, rq_value = 0 \<rparr>"

definition empty_log :: "vams_event list_msgq event_log" where
  "empty_log = \<lparr> log_record = vams_retained_format 1 0,
     log_queue = \<lparr> lq_items = [], lq_cap = VAMS_EVENT_QUEUE_DEPTH \<rparr>, log_drops = 0 \<rparr>"

theorem event_burst_accounting_witness:
  "\<exists>l' w' es. emit_burst ram_board list_msgq_api (replicate 64 overload_request) (empty_log, ram_zero) =
      Some (l', w') \<and> log_ok l' \<and> lq_items (log_queue l') = es \<and>
    list_all2 event_of_request (replicate 32 overload_request) es \<and>
    unat (vams_event_drop_count l') = 32"
  using event_burst_accounting [OF list_msgq.msgq_laws_axioms, of empty_log ram_board
      "replicate 64 overload_request" ram_zero]
  by (simp add: empty_log_def log_ok_def format_wf vams_event_drop_count_def
      VAMS_EVENT_QUEUE_DEPTH_def)

end
