(* ===== verification/Vams_Scheduler.thy ===== *)
theory Vams_Scheduler
  imports Vams_Command Vams_Event "HOL-Library.Multiset"
begin

text \<open>
  Command objects and their state machine (\<open>firmware/src/scheduler/vams_scheduler.c\<close>,
  \<open>firmware/include/vams_scheduler.h\<close>), and the selection of the next command to run
  (\<open>vams_scheduler_select\<close> of \<open>firmware/src/main.c\<close>).

  An operation takes the object and the event log, since every transition emits an event; \<open>None\<close> is a
  failed assertion. The order of the ready commands is an instance of the interface
  \<open>selection_order\<close>, in which the selection loop is proved to find the first minimal element.
\<close>

definition VAMS_COMMAND_POOL_SIZE :: nat where [vams_const]: "VAMS_COMMAND_POOL_SIZE = 8"
definition VAMS_DEFAULT_TIMEOUT_MS :: u32 where [vams_const]: "VAMS_DEFAULT_TIMEOUT_MS = 30000"

datatype vams_command_state =
    VAMS_COMMAND_FREE | VAMS_COMMAND_SUBMITTED | VAMS_COMMAND_VALIDATING | VAMS_COMMAND_QUEUED
  | VAMS_COMMAND_RUNNING | VAMS_COMMAND_ABORTING | VAMS_COMMAND_COMPLETED
  | VAMS_COMMAND_COMPLETED_ERROR | VAMS_COMMAND_CANCELLED

fun state_code :: "vams_command_state \<Rightarrow> u32" where
  "state_code VAMS_COMMAND_FREE = 0"
| "state_code VAMS_COMMAND_SUBMITTED = 1"
| "state_code VAMS_COMMAND_VALIDATING = 2"
| "state_code VAMS_COMMAND_QUEUED = 3"
| "state_code VAMS_COMMAND_RUNNING = 4"
| "state_code VAMS_COMMAND_ABORTING = 5"
| "state_code VAMS_COMMAND_COMPLETED = 6"
| "state_code VAMS_COMMAND_COMPLETED_ERROR = 7"
| "state_code VAMS_COMMAND_CANCELLED = 8"

record vams_command_object =
  co_submission :: vams_submission
  co_completion :: vams_completion
  co_captured_at_ms :: u64
  co_deadline_ms :: u64
  co_generation :: u32
  co_sequence :: u32
  co_state :: vams_command_state
  co_publication_count :: u8

text \<open>The object after \<open>memset(command, 0, sizeof(*command))\<close>.\<close>

definition zero_command :: vams_command_object where
  "zero_command = \<lparr> co_submission = zero_submission, co_completion = zero_completion,
     co_captured_at_ms = 0, co_deadline_ms = 0, co_generation = 0, co_sequence = 0,
     co_state = VAMS_COMMAND_FREE, co_publication_count = 0 \<rparr>"

subsection \<open>Operations on a command object\<close>

type_synonym ('e, 'w) logged = "vams_command_object \<times> 'e event_log \<times> 'w"

definition vams_scheduler_transition ::
    "'w board \<Rightarrow> ('e, vams_event) msgq_api \<Rightarrow> vams_command_state \<Rightarrow> vams_command_state \<Rightarrow>
       ('e, 'w) logged \<Rightarrow> ('e, 'w) logged option" where
  "vams_scheduler_transition b eq expected next = (\<lambda>(command, l, w). do {
     c_assert (co_state command = expected);
     c_assert (state_code next \<le> state_code VAMS_COMMAND_CANCELLED);
     (l, w) \<leftarrow> vams_event_emit b eq VAMS_EVENT_TRANSITION
       (sub_command_id (co_submission command)) (co_generation command) (co_sequence command)
       (state_code (co_state command)) (state_code next) 0 l w;
     Some (command\<lparr> co_state := next \<rparr>, l, w)
   })"

definition vams_scheduler_capture ::
    "'w board \<Rightarrow> ('e, vams_event) msgq_api \<Rightarrow> u32 \<Rightarrow> u32 \<Rightarrow> u64 \<Rightarrow>
       ('e, 'w) logged \<Rightarrow> ('e, 'w) logged option" where
  "vams_scheduler_capture b eq generation sequence captured_at_ms = (\<lambda>(command, l, w). do {
     c_assert (co_state command = VAMS_COMMAND_FREE);
     let timeout_ms = (if sub_timeout_ms (co_submission command) = 0 then VAMS_DEFAULT_TIMEOUT_MS
                       else sub_timeout_ms (co_submission command));
     let command = command\<lparr> co_generation := generation, co_sequence := sequence,
                     co_captured_at_ms := captured_at_ms,
                     co_deadline_ms := captured_at_ms + ucast timeout_ms,
                     co_publication_count := 0 \<rparr>;
     vams_scheduler_transition b eq VAMS_COMMAND_FREE VAMS_COMMAND_SUBMITTED (command, l, w)
   })"

definition vams_scheduler_deadline_expired :: "vams_command_object \<Rightarrow> u64 \<Rightarrow> bool" where
  "vams_scheduler_deadline_expired command now_ms \<longleftrightarrow> now_ms \<ge> co_deadline_ms command"

definition vams_scheduler_precedes :: "vams_command_object \<Rightarrow> vams_command_object \<Rightarrow> bool" where
  "vams_scheduler_precedes first second \<longleftrightarrow>
     co_deadline_ms first < co_deadline_ms second \<or>
     (co_deadline_ms first = co_deadline_ms second \<and> co_sequence first < co_sequence second)"

text \<open>The five assignments the failing outcomes share: status, error, and the cleared result.\<close>

definition co_set_failure ::
    "u16 \<Rightarrow> u16 \<Rightarrow> u64 \<Rightarrow> vams_command_object \<Rightarrow> vams_command_object" where
  "co_set_failure status error timestamp_ms command =
     command\<lparr> co_completion := (co_completion command)\<lparr> cpl_status := status,
       cpl_error_code := error, cpl_bytes_processed := 0, cpl_result_crc := 0,
       cpl_device_timestamp := timestamp_ms \<rparr> \<rparr>"

definition vams_scheduler_timeout ::
    "'w board \<Rightarrow> ('e, vams_event) msgq_api \<Rightarrow> u64 \<Rightarrow> ('e, 'w) logged \<Rightarrow> ('e, 'w) logged option" where
  "vams_scheduler_timeout b eq timestamp_ms = (\<lambda>(command, l, w). do {
     c_assert (co_state command = VAMS_COMMAND_ABORTING);
     vams_scheduler_transition b eq VAMS_COMMAND_ABORTING VAMS_COMMAND_COMPLETED_ERROR
       (co_set_failure VAMS_STATUS_TIMED_OUT VAMS_ERR_TIMEOUT timestamp_ms command, l, w)
   })"

definition vams_scheduler_cancel ::
    "'w board \<Rightarrow> ('e, vams_event) msgq_api \<Rightarrow> u64 \<Rightarrow> ('e, 'w) logged \<Rightarrow> ('e, 'w) logged option" where
  "vams_scheduler_cancel b eq timestamp_ms = (\<lambda>(command, l, w). do {
     c_assert (co_state command = VAMS_COMMAND_QUEUED);
     vams_scheduler_transition b eq VAMS_COMMAND_QUEUED VAMS_COMMAND_CANCELLED
       (co_set_failure VAMS_STATUS_RESET VAMS_ERR_RESET timestamp_ms command, l, w)
   })"

definition vams_scheduler_apply_result ::
    "'w board \<Rightarrow> ('e, vams_event) msgq_api \<Rightarrow> vams_completion \<Rightarrow> ('e, 'w) logged \<Rightarrow>
       (rc \<times> ('e, 'w) logged) option" where
  "vams_scheduler_apply_result b eq result = (\<lambda>(command, l, w). do {
     c_assert (co_state command = VAMS_COMMAND_RUNNING \<or> co_state command = VAMS_COMMAND_ABORTING);
     if cpl_command_id result \<noteq> sub_command_id (co_submission command) \<or>
        cpl_user_cookie result \<noteq> sub_user_cookie (co_submission command)
     then Some (RC_ERR EPROTO, command, l, w)
     else do {
       let command = command\<lparr> co_completion := result \<rparr>;
       s \<leftarrow> vams_scheduler_transition b eq (co_state command)
         (if cpl_status result = VAMS_STATUS_SUCCESS then VAMS_COMMAND_COMPLETED
          else VAMS_COMMAND_COMPLETED_ERROR) (command, l, w);
       Some (RC_OK, s)
     }
   })"

definition vams_scheduler_begin_abort ::
    "'w board \<Rightarrow> ('e, vams_event) msgq_api \<Rightarrow> u64 \<Rightarrow> ('e, 'w) logged \<Rightarrow> ('e, 'w) logged option" where
  "vams_scheduler_begin_abort b eq timestamp_ms = (\<lambda>(command, l, w). do {
     c_assert (co_state command = VAMS_COMMAND_RUNNING);
     vams_scheduler_transition b eq VAMS_COMMAND_RUNNING VAMS_COMMAND_ABORTING
       (co_set_failure VAMS_STATUS_TIMED_OUT VAMS_ERR_TIMEOUT timestamp_ms command, l, w)
   })"

definition vams_scheduler_escalate ::
    "'w board \<Rightarrow> ('e, vams_event) msgq_api \<Rightarrow> u64 \<Rightarrow> ('e, 'w) logged \<Rightarrow> ('e, 'w) logged option" where
  "vams_scheduler_escalate b eq timestamp_ms = (\<lambda>(command, l, w). do {
     c_assert (co_state command = VAMS_COMMAND_RUNNING \<or> co_state command = VAMS_COMMAND_ABORTING);
     vams_scheduler_transition b eq (co_state command) VAMS_COMMAND_COMPLETED_ERROR
       (co_set_failure VAMS_STATUS_FAILED VAMS_ERR_ENGINE timestamp_ms command, l, w)
   })"

definition vams_scheduler_mark_published ::
    "'w board \<Rightarrow> ('e, vams_event) msgq_api \<Rightarrow> ('e, 'w) logged \<Rightarrow> ('e, 'w) logged option" where
  "vams_scheduler_mark_published b eq = (\<lambda>(command, l, w). do {
     c_assert (co_state command = VAMS_COMMAND_COMPLETED \<or>
               co_state command = VAMS_COMMAND_COMPLETED_ERROR \<or>
               co_state command = VAMS_COMMAND_CANCELLED);
     c_assert (co_publication_count command = 0);
     let command = command\<lparr> co_publication_count := 1 \<rparr>;
     (l, w) \<leftarrow> vams_event_emit b eq VAMS_EVENT_PUBLISHED (sub_command_id (co_submission command))
       (co_generation command) (co_sequence command) (ucast (co_publication_count command)) 0 0 l w;
     Some (command, l, w)
   })"

subsection \<open>Selection of the next command\<close>

text \<open>The pool is read through \<open>obj\<close>; \<open>ready\<close> is the first \<open>ready_count\<close> entries of the array.\<close>

definition vams_scheduler_select :: "(ptr \<Rightarrow> vams_command_object) \<Rightarrow> ptr list \<Rightarrow> nat" where
  "vams_scheduler_select obj ready =
     fold (\<lambda>index selected. if vams_scheduler_precedes (obj (ready ! index)) (obj (ready ! selected))
                            then index else selected) [1..<length ready] 0"

text \<open>The command taken, and the array after the last entry was moved into its place.\<close>

definition scheduler_take :: "(ptr \<Rightarrow> vams_command_object) \<Rightarrow> ptr list \<Rightarrow> ptr \<times> ptr list" where
  "scheduler_take obj ready =
     (let selected = vams_scheduler_select obj ready;
          command = ready ! selected;
          ready_count = length ready - 1
      in (command, take ready_count (ready[selected := ready ! ready_count])))"

definition vams_is_payload_opcode :: "u8 \<Rightarrow> bool" where
  "vams_is_payload_opcode opcode \<longleftrightarrow>
     opcode = VAMS_OP_MEM_COPY \<or> opcode = VAMS_OP_MEM_FILL \<or> opcode = VAMS_OP_CRC32 \<or>
     opcode = VAMS_OP_VECTOR_ADD"

subsection \<open>Outcome of the operations\<close>

lemma transition_ok:
  assumes "log_ok l" "co_state c = expected"
  obtains l' w' where
    "vams_scheduler_transition b eq expected next (c, l, w) = Some (c\<lparr> co_state := next \<rparr>, l', w')"
    "log_ok l'"
proof -
  have code: "state_code next \<le> state_code VAMS_COMMAND_CANCELLED" by (cases "next") simp_all
  obtain l' w' where "vams_event_emit b eq VAMS_EVENT_TRANSITION (sub_command_id (co_submission c))
      (co_generation c) (co_sequence c) (state_code (co_state c)) (state_code next) 0 l w =
      Some (l', w')" "log_ok l'"
    using event_emit_okE [OF assms(1)] .
  with code assms(2) show ?thesis
    by (intro that [of l' w']) (simp_all add: vams_scheduler_transition_def)
qed

lemma transition_wrong_state:
  "co_state c \<noteq> expected \<Longrightarrow> vams_scheduler_transition b eq expected next (c, l, w) = None"
  by (simp add: vams_scheduler_transition_def)

lemma transition_result:
  assumes "vams_scheduler_transition b eq expected next (c, l, w) = Some (c', l', w')"
  shows "c' = c\<lparr> co_state := next \<rparr>" "co_state c = expected"
  using assms by (auto simp: vams_scheduler_transition_def bind_eq_Some_conv split: if_splits)

lemma set_failure_simps [simp]:
  "co_state (co_set_failure st er ts c) = co_state c"
  "co_submission (co_set_failure st er ts c) = co_submission c"
  "co_publication_count (co_set_failure st er ts c) = co_publication_count c"
  "co_generation (co_set_failure st er ts c) = co_generation c"
  "co_deadline_ms (co_set_failure st er ts c) = co_deadline_ms c"
  "co_sequence (co_set_failure st er ts c) = co_sequence c"
  "cpl_command_id (co_completion (co_set_failure st er ts c)) = cpl_command_id (co_completion c)"
  "cpl_user_cookie (co_completion (co_set_failure st er ts c)) = cpl_user_cookie (co_completion c)"
  by (simp_all add: co_set_failure_def)

lemma capture_ok:
  assumes "log_ok l" "co_state c = VAMS_COMMAND_FREE"
  obtains c' l' w' where "vams_scheduler_capture b eq gen sq now (c, l, w) = Some (c', l', w')"
    "log_ok l'" "co_state c' = VAMS_COMMAND_SUBMITTED" "co_submission c' = co_submission c"
    "co_completion c' = co_completion c" "co_generation c' = gen" "co_sequence c' = sq"
    "co_publication_count c' = 0"
    "co_deadline_ms c' = now + ucast (if sub_timeout_ms (co_submission c) = 0
       then VAMS_DEFAULT_TIMEOUT_MS else sub_timeout_ms (co_submission c))"
proof -
  let ?t = "if sub_timeout_ms (co_submission c) = 0 then VAMS_DEFAULT_TIMEOUT_MS
      else sub_timeout_ms (co_submission c)"
  let ?c = "c\<lparr> co_generation := gen, co_sequence := sq, co_captured_at_ms := now,
      co_deadline_ms := now + ucast ?t, co_publication_count := 0 \<rparr>"
  have st: "co_state ?c = VAMS_COMMAND_FREE" using assms(2) by simp
  obtain l' w' where "vams_scheduler_transition b eq VAMS_COMMAND_FREE VAMS_COMMAND_SUBMITTED
      (?c, l, w) = Some (?c\<lparr> co_state := VAMS_COMMAND_SUBMITTED \<rparr>, l', w')" "log_ok l'"
    using transition_ok [OF assms(1) st, of b eq VAMS_COMMAND_SUBMITTED w] .
  with assms(2) show ?thesis
    by (intro that [of "?c\<lparr> co_state := VAMS_COMMAND_SUBMITTED \<rparr>" l' w'])
       (simp_all add: vams_scheduler_capture_def Let_def)
qed

text \<open>The failing outcomes: each needs its state and then records its status and error.\<close>

lemma set_failure_transition_ok:
  assumes "log_ok l" "co_state c = expected"
  obtains l' w' where "vams_scheduler_transition b eq expected next
      (co_set_failure st er ts c, l, w) = Some ((co_set_failure st er ts c)\<lparr> co_state := next \<rparr>, l', w')"
    "log_ok l'"
proof -
  have "co_state (co_set_failure st er ts c) = expected" using assms(2) by simp
  then show ?thesis by (rule transition_ok [OF assms(1), where b = b and eq = eq and w = w]) (rule that)
qed

lemma failure_op_ok:
  assumes "log_ok l"
  shows "co_state c = VAMS_COMMAND_ABORTING \<Longrightarrow> \<exists>l' w'. log_ok l' \<and>
      vams_scheduler_timeout b eq ts (c, l, w) =
        Some ((co_set_failure VAMS_STATUS_TIMED_OUT VAMS_ERR_TIMEOUT ts c)
          \<lparr> co_state := VAMS_COMMAND_COMPLETED_ERROR \<rparr>, l', w')"
    and "co_state c = VAMS_COMMAND_QUEUED \<Longrightarrow> \<exists>l' w'. log_ok l' \<and>
      vams_scheduler_cancel b eq ts (c, l, w) =
        Some ((co_set_failure VAMS_STATUS_RESET VAMS_ERR_RESET ts c)
          \<lparr> co_state := VAMS_COMMAND_CANCELLED \<rparr>, l', w')"
    and "co_state c = VAMS_COMMAND_RUNNING \<Longrightarrow> \<exists>l' w'. log_ok l' \<and>
      vams_scheduler_begin_abort b eq ts (c, l, w) =
        Some ((co_set_failure VAMS_STATUS_TIMED_OUT VAMS_ERR_TIMEOUT ts c)
          \<lparr> co_state := VAMS_COMMAND_ABORTING \<rparr>, l', w')"
    and "co_state c \<in> {VAMS_COMMAND_RUNNING, VAMS_COMMAND_ABORTING} \<Longrightarrow> \<exists>l' w'. log_ok l' \<and>
      vams_scheduler_escalate b eq ts (c, l, w) =
        Some ((co_set_failure VAMS_STATUS_FAILED VAMS_ERR_ENGINE ts c)
          \<lparr> co_state := VAMS_COMMAND_COMPLETED_ERROR \<rparr>, l', w')"
proof -
  have step: "\<exists>l' w'. log_ok l' \<and> vams_scheduler_transition b eq (co_state c) next
      (co_set_failure st er ts c, l, w) =
      Some ((co_set_failure st er ts c)\<lparr> co_state := next \<rparr>, l', w')" for st er "next"
    by (rule set_failure_transition_ok [OF assms refl, where b = b and eq = eq and w = w]) blast
  show "co_state c = VAMS_COMMAND_ABORTING \<Longrightarrow> \<exists>l' w'. log_ok l' \<and>
      vams_scheduler_timeout b eq ts (c, l, w) =
        Some ((co_set_failure VAMS_STATUS_TIMED_OUT VAMS_ERR_TIMEOUT ts c)
          \<lparr> co_state := VAMS_COMMAND_COMPLETED_ERROR \<rparr>, l', w')"
    using step [of VAMS_COMMAND_COMPLETED_ERROR VAMS_STATUS_TIMED_OUT VAMS_ERR_TIMEOUT]
    by (simp add: vams_scheduler_timeout_def)
  show "co_state c = VAMS_COMMAND_QUEUED \<Longrightarrow> \<exists>l' w'. log_ok l' \<and>
      vams_scheduler_cancel b eq ts (c, l, w) =
        Some ((co_set_failure VAMS_STATUS_RESET VAMS_ERR_RESET ts c)
          \<lparr> co_state := VAMS_COMMAND_CANCELLED \<rparr>, l', w')"
    using step [of VAMS_COMMAND_CANCELLED VAMS_STATUS_RESET VAMS_ERR_RESET]
    by (simp add: vams_scheduler_cancel_def)
  show "co_state c = VAMS_COMMAND_RUNNING \<Longrightarrow> \<exists>l' w'. log_ok l' \<and>
      vams_scheduler_begin_abort b eq ts (c, l, w) =
        Some ((co_set_failure VAMS_STATUS_TIMED_OUT VAMS_ERR_TIMEOUT ts c)
          \<lparr> co_state := VAMS_COMMAND_ABORTING \<rparr>, l', w')"
    using step [of VAMS_COMMAND_ABORTING VAMS_STATUS_TIMED_OUT VAMS_ERR_TIMEOUT]
    by (simp add: vams_scheduler_begin_abort_def)
  show "co_state c \<in> {VAMS_COMMAND_RUNNING, VAMS_COMMAND_ABORTING} \<Longrightarrow> \<exists>l' w'. log_ok l' \<and>
      vams_scheduler_escalate b eq ts (c, l, w) =
        Some ((co_set_failure VAMS_STATUS_FAILED VAMS_ERR_ENGINE ts c)
          \<lparr> co_state := VAMS_COMMAND_COMPLETED_ERROR \<rparr>, l', w')"
    using step [of VAMS_COMMAND_COMPLETED_ERROR VAMS_STATUS_FAILED VAMS_ERR_ENGINE]
    by (auto simp: vams_scheduler_escalate_def)
qed

lemma apply_result_ok:
  assumes "log_ok l" "co_state c \<in> {VAMS_COMMAND_RUNNING, VAMS_COMMAND_ABORTING}"
  shows "if cpl_command_id r = sub_command_id (co_submission c) \<and>
            cpl_user_cookie r = sub_user_cookie (co_submission c)
    then \<exists>l' w'. log_ok l' \<and> vams_scheduler_apply_result b eq r (c, l, w) =
      Some (RC_OK, c\<lparr> co_completion := r, co_state :=
        if cpl_status r = VAMS_STATUS_SUCCESS then VAMS_COMMAND_COMPLETED
        else VAMS_COMMAND_COMPLETED_ERROR \<rparr>, l', w')
    else vams_scheduler_apply_result b eq r (c, l, w) = Some (RC_ERR EPROTO, c, l, w)"
proof -
  let ?n = "if cpl_status r = VAMS_STATUS_SUCCESS then VAMS_COMMAND_COMPLETED
        else VAMS_COMMAND_COMPLETED_ERROR"
  obtain l' w' where "vams_scheduler_transition b eq (co_state (c\<lparr> co_completion := r \<rparr>)) ?n
      (c\<lparr> co_completion := r \<rparr>, l, w) = Some (c\<lparr> co_completion := r, co_state := ?n \<rparr>, l', w')"
    "log_ok l'"
    by (rule transition_ok [OF assms(1) refl, where b = b and eq = eq and w = w])
  with assms(2) show ?thesis by (auto simp: vams_scheduler_apply_result_def Let_def)
qed

lemma mark_published_ok:
  assumes "log_ok l" "co_publication_count c = 0"
    and "co_state c \<in> {VAMS_COMMAND_COMPLETED, VAMS_COMMAND_COMPLETED_ERROR, VAMS_COMMAND_CANCELLED}"
  obtains l' w' where "vams_scheduler_mark_published b eq (c, l, w) =
      Some (c\<lparr> co_publication_count := 1 \<rparr>, l', w')" "log_ok l'"
proof -
  obtain l' w' where "vams_event_emit b eq VAMS_EVENT_PUBLISHED (sub_command_id (co_submission c))
      (co_generation c) (co_sequence c) (ucast (1 :: u8)) 0 0 l w = Some (l', w')" "log_ok l'"
    using event_emit_okE [OF assms(1)] .
  with assms(2,3) show ?thesis
    by (intro that [of l' w']) (auto simp: vams_scheduler_mark_published_def Let_def)
qed

subsection \<open>Earliest deadline first\<close>

text \<open>
  The interface of the selection loop: a strict weak order. The loop that replaces its candidate
  whenever a later element comes before it ends at the first minimal element.
\<close>

locale selection_order =
  fixes before :: "'a \<Rightarrow> 'a \<Rightarrow> bool"
  assumes before_asym: "before x y \<Longrightarrow> \<not> before y x"
    and before_negtrans: "\<not> before x y \<Longrightarrow> \<not> before y z \<Longrightarrow> \<not> before x z"
begin

lemma select_first_minimal:
  fixes f :: "nat \<Rightarrow> 'a"
  assumes "0 < n"
  defines "s \<equiv> fold (\<lambda>i s. if before (f i) (f s) then i else s) [1..<n] 0"
  shows "s < n \<and> (\<forall>j < n. \<not> before (f j) (f s)) \<and> (\<forall>j < s. before (f s) (f j))"
  using assms(1) unfolding s_def
proof (induction n)
  case (Suc n)
  show ?case
  proof (cases "n = 0")
    case True
    then show ?thesis using before_asym by auto
  next
    case False
    define s where "s = fold (\<lambda>i s. if before (f i) (f s) then i else s) [1..<n] 0"
    have IH: "s < n" "\<And>j. j < n \<Longrightarrow> \<not> before (f j) (f s)" "\<And>j. j < s \<Longrightarrow> before (f s) (f j)"
      using Suc.IH False by (simp_all add: s_def)
    have last_step: "fold (\<lambda>i s. if before (f i) (f s) then i else s) [1..<Suc n] 0 =
        (if before (f n) (f s) then n else s)"
      using False by (simp add: s_def)
    show ?thesis
    proof (cases "before (f n) (f s)")
      case True
      have "before (f n) (f j)" if "j < n" for j
        using before_negtrans [of "f n" "f j" "f s"] IH(2) [OF that] True by blast
      then show ?thesis
        unfolding last_step using True before_asym by (auto simp: less_Suc_eq)
    next
      case False
      with IH show ?thesis unfolding last_step by (auto simp: less_Suc_eq)
    qed
  qed
qed simp

end

interpretation edf: selection_order vams_scheduler_precedes
  by unfold_locales (auto simp: vams_scheduler_precedes_def)

lemma select_spec:
  assumes "ready \<noteq> []"
  shows "vams_scheduler_select obj ready < length ready"
    and "j < length ready \<Longrightarrow>
      \<not> vams_scheduler_precedes (obj (ready ! j)) (obj (ready ! vams_scheduler_select obj ready))"
    and "j < vams_scheduler_select obj ready \<Longrightarrow>
      vams_scheduler_precedes (obj (ready ! vams_scheduler_select obj ready)) (obj (ready ! j))"
  using edf.select_first_minimal [of "length ready" "\<lambda>i. obj (ready ! i)"] assms
  by (simp_all add: vams_scheduler_select_def)

lemma swap_remove_mset:
  assumes "s < length xs"
  shows "add_mset (xs ! s) (mset (take (length xs - 1) (xs[s := xs ! (length xs - 1)]))) = mset xs"
proof -
  obtain ys y where xs: "xs = ys @ [y]" using assms by (cases xs rule: rev_cases) auto
  show ?thesis
  proof (cases "s < length ys")
    case True
    then show ?thesis by (simp add: xs nth_append list_update_append mset_update)
  next
    case False
    with assms xs have "s = length ys" by simp
    then show ?thesis by (simp add: xs)
  qed
qed

lemma scheduler_take_mset:
  assumes "ready \<noteq> []" "scheduler_take obj ready = (c, rest)"
  shows "mset ready = add_mset c (mset rest)"
  using assms swap_remove_mset [OF select_spec(1) [OF assms(1), of obj]]
  by (auto simp: scheduler_take_def Let_def)

lemma scheduler_take_first:
  assumes "ready \<noteq> []" "scheduler_take obj ready = (c, rest)" "p \<in> set ready"
  shows "\<not> vams_scheduler_precedes (obj p) (obj c)"
proof -
  obtain j where "j < length ready" "p = ready ! j" using assms(3) by (metis in_set_conv_nth)
  with select_spec(2) [OF assms(1)] assms(2) show ?thesis
    by (auto simp: scheduler_take_def Let_def)
qed

lemma scheduler_take_length [termination_simp]:
  "ready \<noteq> [] \<Longrightarrow> (c, rest) = scheduler_take obj ready \<Longrightarrow> length rest < length ready"
  by (auto simp: scheduler_take_def Let_def)

text \<open>Taking commands until none is ready.\<close>

fun scheduler_drain :: "(ptr \<Rightarrow> vams_command_object) \<Rightarrow> ptr list \<Rightarrow> ptr list" where
  "scheduler_drain obj ready =
     (if ready = [] then []
      else let (command, rest) = scheduler_take obj ready in command # scheduler_drain obj rest)"

declare scheduler_drain.simps [simp del]


end
