(* ===== verification/Vams_Portal.thy ===== *)
theory Vams_Portal
  imports Vams_Abi Vams_Management
begin

text \<open>
  The command portal driver (\<open>firmware/drivers/vams_command_portal.c\<close>): the registers through which
  the firmware takes submissions, dispatches and publishes completions, and takes engine results.

  The waiting loops are written as iterations of one poll: look at the status bit, then return, give
  up at the deadline, or sleep for a millisecond. The loop itself has fuel, one unit per iteration;
  \<open>portal_waits_are_bounded\<close> shows that the timeout bounds the iterations when the clock advances
  during a sleep. Callers always pass valid pointers, so the \<open>NULL\<close> checks have no
  counterpart.
\<close>

definition COMMAND_BASE :: u32 where [vams_const]: "COMMAND_BASE = 0x10030000"
definition VAMS_COMMAND_STATUS :: u32 where [vams_const]: "VAMS_COMMAND_STATUS = 0x00"
definition VAMS_COMMAND_FW_ACK :: u32 where [vams_const]: "VAMS_COMMAND_FW_ACK = 0x08"
definition VAMS_COMMAND_FW_COMPLETE :: u32 where [vams_const]: "VAMS_COMMAND_FW_COMPLETE = 0x0c"
definition VAMS_COMMAND_RESULT_ACK :: u32 where [vams_const]: "VAMS_COMMAND_RESULT_ACK = 0x1c"
definition VAMS_COMMAND_FW_ABORT :: u32 where [vams_const]: "VAMS_COMMAND_FW_ABORT = 0x24"
definition VAMS_COMMAND_SUBMISSION :: u32 where [vams_const]: "VAMS_COMMAND_SUBMISSION = 0x100"
definition VAMS_COMMAND_COMPLETION :: u32 where [vams_const]: "VAMS_COMMAND_COMPLETION = 0x200"
definition VAMS_COMMAND_RESULT :: u32 where [vams_const]: "VAMS_COMMAND_RESULT = 0x300"

definition VAMS_COMMAND_H2F_PENDING :: u32 where [vams_const]: "VAMS_COMMAND_H2F_PENDING = 1"
definition VAMS_COMMAND_F2H_PENDING :: u32 where [vams_const]: "VAMS_COMMAND_F2H_PENDING = 2"
definition VAMS_COMMAND_RESULT_PENDING :: u32 where [vams_const]: "VAMS_COMMAND_RESULT_PENDING = 32"
definition VAMS_COMMAND_WORDS :: nat where [vams_const]: "VAMS_COMMAND_WORDS = 16"
definition VAMS_COMPLETION_WORDS :: nat where [vams_const]: "VAMS_COMPLETION_WORDS = 8"

text \<open>Whether a bit of the status register is set; reading a register may change the device.\<close>

definition portal_status_bit :: "'w board \<Rightarrow> u32 \<Rightarrow> 'w \<Rightarrow> bool \<times> 'w" where
  "portal_status_bit b bits w =
     (let (status, w) = sys_read32 b (COMMAND_BASE + VAMS_COMMAND_STATUS) w
      in (status AND bits \<noteq> 0, w))"

definition vams_command_pending :: "'w board \<Rightarrow> 'w \<Rightarrow> bool \<times> 'w" where
  "vams_command_pending b w = portal_status_bit b VAMS_COMMAND_H2F_PENDING w"

text \<open>One iteration of a waiting loop; \<open>Waiting\<close> is followed by a sleep of one millisecond.\<close>

datatype 'a poll = Ready 'a | Expired | Waiting

definition portal_poll ::
    "'w board \<Rightarrow> u32 \<Rightarrow> ('w \<Rightarrow> 'a \<times> 'w) \<Rightarrow> u64 \<Rightarrow> 'w \<Rightarrow> 'a poll \<times> 'w" where
  "portal_poll b bits take_it deadline w =
     (let (pending, w) = portal_status_bit b bits w
      in if pending then let (x, w) = take_it w in (Ready x, w)
         else if k_uptime_get b w \<ge> deadline then (Expired, w)
         else (Waiting, w))"

fun portal_loop ::
    "nat \<Rightarrow> 'w board \<Rightarrow> u32 \<Rightarrow> ('w \<Rightarrow> 'a \<times> 'w) \<Rightarrow> u64 \<Rightarrow> 'w \<Rightarrow> ((errno + 'a) \<times> 'w) option" where
  "portal_loop 0 b bits take_it deadline w = None"
| "portal_loop (Suc fuel) b bits take_it deadline w =
     (case portal_poll b bits take_it deadline w of
        (Ready x, w) \<Rightarrow> Some (Inr x, w)
      | (Expired, w) \<Rightarrow> Some (Inl EAGAIN, w)
      | (Waiting, w) \<Rightarrow> portal_loop fuel b bits take_it deadline (k_sleep_ms b 1 w))"

text \<open>
  \<open>sys_timepoint_calc\<close> for a timeout in milliseconds: \<open>K_NO_WAIT\<close> (zero) is a timepoint that has
  always expired.
\<close>

definition sys_timepoint_calc :: "'w board \<Rightarrow> u64 \<Rightarrow> 'w \<Rightarrow> u64" where
  "sys_timepoint_calc b timeout_ms w = (if timeout_ms = 0 then 0 else k_uptime_get b w + timeout_ms)"

text \<open>Reading the submission window, and acknowledging it only after every word was read.\<close>

definition portal_take_submission :: "'w board \<Rightarrow> 'w \<Rightarrow> vams_submission \<times> 'w" where
  "portal_take_submission b w =
     (let (words, w) = read_words b (COMMAND_BASE + VAMS_COMMAND_SUBMISSION) VAMS_COMMAND_WORDS w
      in (submission_of_words words, sys_write32 b 1 (COMMAND_BASE + VAMS_COMMAND_FW_ACK) w))"

definition vams_command_receive ::
    "nat \<Rightarrow> 'w board \<Rightarrow> u64 \<Rightarrow> 'w \<Rightarrow> ((errno + vams_submission) \<times> 'w) option" where
  "vams_command_receive fuel b timeout_ms w =
     portal_loop fuel b VAMS_COMMAND_H2F_PENDING (portal_take_submission b)
       (sys_timepoint_calc b timeout_ms w) w"

definition vams_command_complete ::
    "'w board \<Rightarrow> vams_completion \<Rightarrow> 'w \<Rightarrow> rc \<times> 'w" where
  "vams_command_complete b completion w =
     (let (busy, w) = portal_status_bit b VAMS_COMMAND_F2H_PENDING w
      in if busy then (RC_ERR EBUSY, w)
         else let w = write_words b (COMMAND_BASE + VAMS_COMMAND_COMPLETION)
                        (completion_words completion) w
              in (RC_OK, sys_write32 b 1 (COMMAND_BASE + VAMS_COMMAND_FW_COMPLETE) w))"

definition vams_command_abort ::
    "'w board \<Rightarrow> vams_completion \<Rightarrow> 'w \<Rightarrow> rc \<times> 'w" where
  "vams_command_abort b request w =
     (let (busy, w) = portal_status_bit b VAMS_COMMAND_RESULT_PENDING w
      in if busy then (RC_ERR EBUSY, w)
         else let w = write_words b (COMMAND_BASE + VAMS_COMMAND_COMPLETION)
                        (completion_words request) w
              in (RC_OK, sys_write32 b 1 (COMMAND_BASE + VAMS_COMMAND_FW_ABORT) w))"

definition portal_take_result :: "'w board \<Rightarrow> 'w \<Rightarrow> vams_completion \<times> 'w" where
  "portal_take_result b w =
     (let (words, w) = read_words b (COMMAND_BASE + VAMS_COMMAND_RESULT) VAMS_COMPLETION_WORDS w
      in (completion_of_words words, sys_write32 b 1 (COMMAND_BASE + VAMS_COMMAND_RESULT_ACK) w))"

definition result_poll :: "'w board \<Rightarrow> u64 \<Rightarrow> 'w \<Rightarrow> vams_completion poll \<times> 'w" where
  "result_poll b = portal_poll b VAMS_COMMAND_RESULT_PENDING (portal_take_result b)"

definition vams_command_result_receive ::
    "nat \<Rightarrow> 'w board \<Rightarrow> u64 \<Rightarrow> 'w \<Rightarrow> ((errno + vams_completion) \<times> 'w) option" where
  "vams_command_result_receive fuel b timeout_ms w =
     portal_loop fuel b VAMS_COMMAND_RESULT_PENDING (portal_take_result b)
       (sys_timepoint_calc b timeout_ms w) w"

subsection \<open>The clock, and termination of the waiting loops\<close>

locale clock_laws =
  fixes b :: "'w board"
  assumes read_keeps_time: "k_uptime_get b (snd (sys_read32 b addr w)) = k_uptime_get b w"
    and sleep_advances: "unat (k_uptime_get b w) + unat ms < 2 ^ 64 \<Longrightarrow>
      unat (k_uptime_get b w) + unat ms \<le> unat (k_uptime_get b (k_sleep_ms b ms w))"
begin

lemma poll_waiting:
  assumes "portal_poll b bits take_it deadline w = (Waiting, w')"
  shows "k_uptime_get b w' = k_uptime_get b w" "k_uptime_get b w < deadline"
  using assms read_keeps_time [of "COMMAND_BASE + VAMS_COMMAND_STATUS" w]
  by (auto simp: portal_poll_def portal_status_bit_def Let_def case_prod_beta split: if_splits)

lemma portal_loop_returns:
  assumes "unat deadline - unat (k_uptime_get b w) < fuel"
  shows "\<exists>r w'. portal_loop fuel b bits take_it deadline w = Some (r, w')"
  using assms
proof (induction fuel arbitrary: w)
  case (Suc fuel)
  obtain p w1 where poll: "portal_poll b bits take_it deadline w = (p, w1)" by fastforce
  show ?case
  proof (cases p)
    case Waiting
    let ?w = "k_sleep_ms b 1 w1"
    have now: "k_uptime_get b w1 = k_uptime_get b w" "unat (k_uptime_get b w) < unat deadline"
      using poll_waiting poll Waiting by (auto simp: word_less_nat_alt)
    have "unat (k_uptime_get b w1) + unat (1 :: u64) < 2 ^ 64"
      using now unat_u64_less [of deadline] by simp
    then have "unat (k_uptime_get b w) + 1 \<le> unat (k_uptime_get b ?w)"
      using sleep_advances [of w1 1] now(1) by simp
    with Suc.prems now(2) have "unat deadline - unat (k_uptime_get b ?w) < fuel" by linarith
    from Suc.IH [OF this] poll Waiting show ?thesis by simp
  qed (use poll in simp_all)
qed simp

lemma portal_loop_result:
  assumes "portal_loop fuel b bits take_it deadline w = Some (r, w')"
  shows "(\<exists>w1. \<exists>x. r = Inr x \<and> (x, w') = take_it w1) \<or> (r = Inl EAGAIN \<and> deadline \<le> k_uptime_get b w')"
  using assms
proof (induction fuel arbitrary: w)
  case (Suc fuel)
  obtain p w1 where poll: "portal_poll b bits take_it deadline w = (p, w1)" by fastforce
  show ?case
  proof (cases p)
    case (Ready x)
    with poll Suc.prems have "r = Inr x" "w' = w1" by simp_all
    moreover obtain w2 where "take_it w2 = (x, w1)"
      using poll Ready
      by (auto simp: portal_poll_def Let_def split: prod.splits if_splits)
    ultimately show ?thesis by metis
  next
    case Expired
    with poll Suc.prems show ?thesis
      by (auto simp: portal_poll_def Let_def split: prod.splits if_splits)
  next
    case Waiting
    with poll Suc show ?thesis by simp
  qed
qed simp

end

interpretation ram_clock: clock_laws ram_board
proof unfold_locales
  fix ms :: u64 and w :: ram_world
  assume "unat (k_uptime_get ram_board w) + unat ms < 2 ^ 64"
  then show "unat (k_uptime_get ram_board w) + unat ms \<le>
      unat (k_uptime_get ram_board (k_sleep_ms ram_board ms w))"
    by (simp add: ram_board_def unat_plus_if_size word_size)
qed (simp add: ram_board_def)

text \<open>
  C22. Waiting for a command or for an engine result ends: on a board whose clock advances during a
  sleep, with the end of the timeout representable, the loop returns within
  \<open>timeout_ms + 1\<close> iterations, either with what the portal presented or with \<open>-EAGAIN\<close>, for a
  nonzero timeout at or after the deadline.
\<close>

theorem portal_waits_are_bounded:
  assumes "clock_laws b" "unat (k_uptime_get b w) + unat timeout_ms < 2 ^ 64"
    and "unat timeout_ms < fuel"
  shows "(\<exists>r w'. vams_command_receive fuel b timeout_ms w = Some (r, w') \<and>
      (r = Inl EAGAIN \<and> (timeout_ms = 0 \<or>
         unat (k_uptime_get b w) + unat timeout_ms \<le> unat (k_uptime_get b w')) \<or>
       (\<exists>w1 x. r = Inr x \<and> (x, w') = portal_take_submission b w1))) \<and>
    (\<exists>r w'. vams_command_result_receive fuel b timeout_ms w = Some (r, w') \<and>
      (r = Inl EAGAIN \<and> (timeout_ms = 0 \<or>
         unat (k_uptime_get b w) + unat timeout_ms \<le> unat (k_uptime_get b w')) \<or>
       (\<exists>w1 x. r = Inr x \<and> (x, w') = portal_take_result b w1)))"
proof -
  let ?d = "sys_timepoint_calc b timeout_ms w"
  have d: "timeout_ms = 0 \<or> unat ?d = unat (k_uptime_get b w) + unat timeout_ms"
    using assms(2) by (simp add: sys_timepoint_calc_def unat_plus_if_size word_size)
  then have "unat ?d - unat (k_uptime_get b w) < fuel"
    using assms(3) by (auto simp: sys_timepoint_calc_def)
  note returns = clock_laws.portal_loop_returns [OF assms(1) this]
  note result = clock_laws.portal_loop_result [OF assms(1)]
  show ?thesis
  proof (intro conjI)
    obtain r w' where "portal_loop fuel b VAMS_COMMAND_H2F_PENDING (portal_take_submission b) ?d w =
        Some (r, w')" using returns by blast
    with result [OF this] show "\<exists>r w'. vams_command_receive fuel b timeout_ms w = Some (r, w') \<and>
      (r = Inl EAGAIN \<and> (timeout_ms = 0 \<or>
         unat (k_uptime_get b w) + unat timeout_ms \<le> unat (k_uptime_get b w')) \<or>
       (\<exists>w1 x. r = Inr x \<and> (x, w') = portal_take_submission b w1))"
      using d unfolding vams_command_receive_def word_le_nat_alt by auto
  next
    obtain r w' where "portal_loop fuel b VAMS_COMMAND_RESULT_PENDING (portal_take_result b) ?d w =
        Some (r, w')" using returns by blast
    with result [OF this] show "\<exists>r w'. vams_command_result_receive fuel b timeout_ms w = Some (r, w') \<and>
      (r = Inl EAGAIN \<and> (timeout_ms = 0 \<or>
         unat (k_uptime_get b w) + unat timeout_ms \<le> unat (k_uptime_get b w')) \<or>
       (\<exists>w1 x. r = Inr x \<and> (x, w') = portal_take_result b w1))"
      using d unfolding vams_command_result_receive_def word_le_nat_alt by auto
  qed
qed

theorem portal_waits_are_bounded_witness:
  "\<exists>r w'. vams_command_result_receive 101 ram_board 100 \<lparr> ram_cell = (\<lambda>_. 0), ram_clock = 5 \<rparr> = Some (r, w')"
  using portal_waits_are_bounded [OF ram_clock.clock_laws_axioms,
      of "\<lparr> ram_cell = (\<lambda>_. 0), ram_clock = 5 \<rparr>" 100 101]
  by (auto simp: ram_board_def)

subsection \<open>Publication\<close>




text \<open>A world with a submission staged: the window holds its words and the pending bit is set.\<close>

definition staged_world :: "vams_submission \<Rightarrow> ram_world" where
  "staged_world s = write_words ram_board (COMMAND_BASE + VAMS_COMMAND_SUBMISSION) (submission_words s)
     \<lparr> ram_cell = (\<lambda>addr. if addr = COMMAND_BASE then 1 else 0), ram_clock = 5 \<rparr>"


end
