(* ===== verification/Vams_Firmware.thy ===== *)
theory Vams_Firmware
  imports Vams_Scheduler Vams_Portal
begin

text \<open>
  The command pipeline of the firmware (\<open>firmware/src/main.c\<close>): the receiver, validator, scheduler,
  recovery and completion tasks, the four queues of command pointers between them and the pool of
  eight command objects.

  Each task is a small state machine. Its program counter says which object it holds and what it is
  about to do; a step runs the code from there to the next point where another task can interfere
  (a queue operation, a sleep, a register poll), and \<open>None\<close> is a failed assertion. Steps of different
  tasks interleave in any order, and between any two steps the devices, the clock and the event log
  may change, as the host, the engine and the other tasks make them. The model is of the default
  configuration, in which the test options (health, overload, watchdog expiry and scheduler delay
  tests) are off.
\<close>

definition VAMS_COMPLETION_PUBLISH_TIMEOUT_MS :: u64 where
  [vams_const]: "VAMS_COMPLETION_PUBLISH_TIMEOUT_MS = 100"
definition VAMS_ABORT_ACK_TIMEOUT_MS :: u64 where [vams_const]: "VAMS_ABORT_ACK_TIMEOUT_MS = 100"
definition VAMS_SERVICE_POLL_MS :: u64 where [vams_const]: "VAMS_SERVICE_POLL_MS = 100"

text \<open>What the firmware calls outside the repository: the board and the kernel objects.\<close>

record ('w, 'q, 's, 'e) zephyr =
  z_board :: "'w board"
  z_cmdq :: "('q, ptr) msgq_api"
  z_slab :: "'s slab_api"
  z_evq :: "('e, vams_event) msgq_api"

subsection \<open>Program counters and state\<close>

datatype receiver_pc = Rx_Loop | Rx_Capture ptr

datatype validator_pc = Val_Loop | Val_Work ptr

datatype scheduler_pc =
    Sched_Loop | Sched_Fill | Sched_Dispatch ptr | Sched_Publish ptr u64 | Sched_Parked ptr

datatype recovery_pc = Rec_Loop | Rec_Wait ptr u64 | Rec_Abort ptr u64

datatype completion_pc = Comp_Loop | Comp_Publish ptr u64 | Comp_Parked ptr

record ('w, 'q, 's, 'e) fw =
  fw_w :: 'w
  fw_log :: "'e event_log"
  fw_pool :: 's
  fw_obj :: "ptr \<Rightarrow> vams_command_object"
  fw_validation :: 'q
  fw_ready :: 'q
  fw_running :: 'q
  fw_completion :: 'q
  fw_rx :: receiver_pc
  fw_val :: validator_pc
  fw_sched :: scheduler_pc
  fw_sched_ready :: "ptr list"
  fw_rec :: recovery_pc
  fw_comp :: completion_pc
  fw_epochs :: "u32 list"
  command_objects_in_use :: u32
  command_pool_high_water :: u32
  validation_queue_high_water :: u32
  ready_queue_high_water :: u32
  running_queue_high_water :: u32
  completion_queue_high_water :: u32
  recovery_attempt_count :: u32
  recovery_escalation_count :: u32
  admission_defer_count :: u32
  queue_overload_count :: u32
  portal_stall_count :: u32
  overload_reset_requested :: bool
  command_generation :: u32
  command_sequence :: u32

text \<open>What a step shows to the outside: a submission taken, a dispatch, a completion published.\<close>

datatype label = Tau | Admit vams_submission | Dispatch vams_completion | Publish vams_completion

subsection \<open>Shared helpers\<close>

text \<open>\<open>vams_task_progress\<close>: the epoch of the task with the given index.\<close>

definition vams_task_progress :: "nat \<Rightarrow> ('w, 'q, 's, 'e) fw \<Rightarrow> ('w, 'q, 's, 'e) fw" where
  "vams_task_progress task s = s\<lparr> fw_epochs := (fw_epochs s)[task := fw_epochs s ! task + 1] \<rparr>"

text \<open>The return code, the queue, the high-water mark and the overload counter after the call.\<close>

definition vams_queue_put ::
    "('q, 'm) msgq_api \<Rightarrow> 'm \<Rightarrow> 'q \<Rightarrow> u32 \<Rightarrow> u32 \<Rightarrow> rc \<times> 'q \<times> u32 \<times> u32" where
  "vams_queue_put api m q high overload =
     (let used_before = k_msgq_num_used_get api q;
          capacity = used_before + k_msgq_num_free_get api q;
          (status, q) = k_msgq_put api m q
      in if status = RC_OK
         then (status, q, vams_record_high_water [] (min (used_before + 1) capacity) high, overload)
         else (status, q, high, vams_saturating_atomic_inc [] overload))"

definition queue_validation ::
    "('w, 'q, 's, 'e) zephyr \<Rightarrow> ptr \<Rightarrow> ('w, 'q, 's, 'e) fw \<Rightarrow> ('w, 'q, 's, 'e) fw option" where
  "queue_validation z p s =
     (let (status, q, high, overload) = vams_queue_put (z_cmdq z) p (fw_validation s)
            (validation_queue_high_water s) (queue_overload_count s)
      in do { c_assert (status = RC_OK);
              Some (s\<lparr> fw_validation := q, validation_queue_high_water := high,
                       queue_overload_count := overload \<rparr>) })"

definition queue_ready ::
    "('w, 'q, 's, 'e) zephyr \<Rightarrow> ptr \<Rightarrow> ('w, 'q, 's, 'e) fw \<Rightarrow> ('w, 'q, 's, 'e) fw option" where
  "queue_ready z p s =
     (let (status, q, high, overload) = vams_queue_put (z_cmdq z) p (fw_ready s)
            (ready_queue_high_water s) (queue_overload_count s)
      in do { c_assert (status = RC_OK);
              Some (s\<lparr> fw_ready := q, ready_queue_high_water := high,
                       queue_overload_count := overload \<rparr>) })"

definition queue_running ::
    "('w, 'q, 's, 'e) zephyr \<Rightarrow> ptr \<Rightarrow> ('w, 'q, 's, 'e) fw \<Rightarrow> ('w, 'q, 's, 'e) fw option" where
  "queue_running z p s =
     (let (status, q, high, overload) = vams_queue_put (z_cmdq z) p (fw_running s)
            (running_queue_high_water s) (queue_overload_count s)
      in do { c_assert (status = RC_OK);
              Some (s\<lparr> fw_running := q, running_queue_high_water := high,
                       queue_overload_count := overload \<rparr>) })"

definition queue_completion ::
    "('w, 'q, 's, 'e) zephyr \<Rightarrow> ptr \<Rightarrow> ('w, 'q, 's, 'e) fw \<Rightarrow> ('w, 'q, 's, 'e) fw option" where
  "queue_completion z p s =
     (let (status, q, high, overload) = vams_queue_put (z_cmdq z) p (fw_completion s)
            (completion_queue_high_water s) (queue_overload_count s)
      in do { c_assert (status = RC_OK);
              Some (s\<lparr> fw_completion := q, completion_queue_high_water := high,
                       queue_overload_count := overload \<rparr>) })"

text \<open>Running an operation of the scheduler on the object at \<open>p\<close>.\<close>

definition on_object ::
    "ptr \<Rightarrow> (('e, 'w) logged \<Rightarrow> ('e, 'w) logged option) \<Rightarrow>
       ('w, 'q, 's, 'e) fw \<Rightarrow> ('w, 'q, 's, 'e) fw option" where
  "on_object p f s =
     (case f (fw_obj s p, fw_log s, fw_w s) of
        None \<Rightarrow> None
      | Some (c, l, w) \<Rightarrow> Some (s\<lparr> fw_obj := (fw_obj s)(p := c), fw_log := l, fw_w := w \<rparr>))"

definition emit ::
    "('w, 'q, 's, 'e) zephyr \<Rightarrow> vams_event_id \<Rightarrow> u32 \<Rightarrow> u32 \<Rightarrow> u32 \<Rightarrow> u32 \<Rightarrow> u32 \<Rightarrow> u64 \<Rightarrow>
       ('w, 'q, 's, 'e) fw \<Rightarrow> ('w, 'q, 's, 'e) fw option" where
  "emit z i c g a0 a1 a2 v s = do {
     (l, w) \<leftarrow> vams_event_emit (z_board z) (z_evq z) i c g a0 a1 a2 v (fw_log s) (fw_w s);
     Some (s\<lparr> fw_log := l, fw_w := w \<rparr>)
   }"

text \<open>A note in the retained record made by the pipeline.\<close>

definition note_retained ::
    "(vams_retained_record \<Rightarrow> 'w \<Rightarrow> (vams_retained_record \<times> 'w) option) \<Rightarrow>
       ('w, 'q, 's, 'e) fw \<Rightarrow> ('w, 'q, 's, 'e) fw option" where
  "note_retained f s = do {
     (r, w) \<leftarrow> f (log_record (fw_log s)) (fw_w s);
     Some (s\<lparr> fw_log := (fw_log s)\<lparr> log_record := r \<rparr>, fw_w := w \<rparr>)
   }"

text \<open>\<open>vams_request_overload_reset\<close>: the caller then sleeps until the reset arrives.\<close>

definition vams_request_overload_reset ::
    "('w, 'q, 's, 'e) zephyr \<Rightarrow> ('w, 'q, 's, 'e) fw \<Rightarrow> ('w, 'q, 's, 'e) fw" where
  "vams_request_overload_reset z s =
     s\<lparr> overload_reset_requested := True, fw_w := vams_management_reset (z_board z) (fw_w s) \<rparr>"

text \<open>
  One iteration of \<open>vams_publish_portal_completion\<close>: published, given up at the deadline after
  counting the stall, or asleep for a millisecond.
\<close>

datatype publish = Published | Stalled | Retry

definition publish_poll ::
    "('w, 'q, 's, 'e) zephyr \<Rightarrow> vams_completion \<Rightarrow> u64 \<Rightarrow> ('w, 'q, 's, 'e) fw \<Rightarrow>
       publish \<times> ('w, 'q, 's, 'e) fw" where
  "publish_poll z completion deadline s =
     (let (status, w) = vams_command_complete (z_board z) completion (fw_w s)
      in if status = RC_ERR EBUSY then
           if k_uptime_get (z_board z) w \<ge> deadline then
             (Stalled, s\<lparr> fw_w := w,
               portal_stall_count := vams_saturating_atomic_inc [] (portal_stall_count s) \<rparr>)
           else (Retry, s\<lparr> fw_w := k_sleep_ms (z_board z) 1 w \<rparr>)
         else (Published, s\<lparr> fw_w := w \<rparr>))"

subsection \<open>The receiver\<close>

definition receiver_poll ::
    "('w, 'q, 's, 'e) zephyr \<Rightarrow> ('w, 'q, 's, 'e) fw \<Rightarrow> ('w, 'q, 's, 'e) fw" where
  "receiver_poll z s =
     (let b = z_board z;
          s = vams_task_progress 3 s;
          (pending, w) = vams_command_pending b (fw_w s)
      in if \<not> vams_command_admission_allowed pending (k_mem_slab_num_free_get (z_slab z) (fw_pool s))
         then
           let (pending, w) = vams_command_pending b w;
               s = (if pending then s\<lparr> admission_defer_count :=
                      vams_saturating_atomic_inc [] (admission_defer_count s) \<rparr> else s)
           in s\<lparr> fw_w := k_sleep_ms b 1 w \<rparr>
         else
           (case k_mem_slab_alloc (z_slab z) (fw_pool s) of
              (Inl _, pool) \<Rightarrow>
                s\<lparr> fw_pool := pool, fw_w := k_sleep_ms b 1 w, admission_defer_count :=
                     vams_saturating_atomic_inc [] (admission_defer_count s) \<rparr>
            | (Inr p, pool) \<Rightarrow>
                s\<lparr> fw_pool := pool, fw_w := w,
                   command_objects_in_use := command_objects_in_use s + 1,
                   command_pool_high_water := vams_record_high_water []
                     (command_objects_in_use s + 1) (command_pool_high_water s),
                   fw_rx := Rx_Capture p \<rparr>))"

definition receiver_capture ::
    "('w, 'q, 's, 'e) zephyr \<Rightarrow> ptr \<Rightarrow> ('w, 'q, 's, 'e) fw \<Rightarrow>
       (label \<times> ('w, 'q, 's, 'e) fw) option" where
  "receiver_capture z p s = do {
     let b = z_board z;
     let s = s\<lparr> fw_obj := (fw_obj s)(p := zero_command), fw_rx := Rx_Loop \<rparr>;
     (r, w) \<leftarrow> vams_command_receive 1 b 0 (fw_w s);
     case r of
       Inl _ \<Rightarrow> Some (Tau, s\<lparr> fw_w := w, fw_pool := k_mem_slab_free (z_slab z) p (fw_pool s),
                  command_objects_in_use := command_objects_in_use s - 1 \<rparr>)
     | Inr submission \<Rightarrow> do {
         let s = s\<lparr> fw_obj := (fw_obj s)(p := (fw_obj s p)\<lparr> co_submission := submission \<rparr>),
                    fw_w := w, command_sequence := command_sequence s + 1 \<rparr>;
         s \<leftarrow> on_object p (vams_scheduler_capture b (z_evq z) (command_generation s)
                (command_sequence s) (k_uptime_get b w)) s;
         s \<leftarrow> note_retained (vams_retained_note_command b (sub_command_id submission)
                (command_generation s)) s;
         s \<leftarrow> queue_validation z p s;
         Some (Admit submission, s)
       }
   }"

definition vams_command_receiver ::
    "('w, 'q, 's, 'e) zephyr \<Rightarrow> ('w, 'q, 's, 'e) fw \<Rightarrow> (label \<times> ('w, 'q, 's, 'e) fw) option" where
  "vams_command_receiver z s =
     (case fw_rx s of
        Rx_Loop \<Rightarrow> Some (Tau, receiver_poll z s)
      | Rx_Capture p \<Rightarrow> receiver_capture z p s)"

subsection \<open>The validator\<close>

definition validator_work ::
    "('w, 'q, 's, 'e) zephyr \<Rightarrow> ptr \<Rightarrow> ('w, 'q, 's, 'e) fw \<Rightarrow> ('w, 'q, 's, 'e) fw option" where
  "validator_work z p s = do {
     let b = z_board z;
     let tr = vams_scheduler_transition b (z_evq z);
     let s = s\<lparr> fw_val := Val_Loop \<rparr>;
     s \<leftarrow> on_object p (tr VAMS_COMMAND_SUBMITTED VAMS_COMMAND_VALIDATING) s;
     let completion = vams_command_execute (co_submission (fw_obj s p)) (k_uptime_get b (fw_w s));
     let s = s\<lparr> fw_obj := (fw_obj s)(p := (fw_obj s p)\<lparr> co_completion := completion \<rparr>) \<rparr>;
     if cpl_status completion \<noteq> VAMS_STATUS_SUCCESS then do {
       s \<leftarrow> on_object p (tr VAMS_COMMAND_VALIDATING VAMS_COMMAND_COMPLETED_ERROR) s;
       queue_completion z p s
     } else do {
       s \<leftarrow> on_object p (tr VAMS_COMMAND_VALIDATING VAMS_COMMAND_QUEUED) s;
       queue_ready z p s
     }
   }"

definition vams_command_validator ::
    "('w, 'q, 's, 'e) zephyr \<Rightarrow> ('w, 'q, 's, 'e) fw \<Rightarrow> (label \<times> ('w, 'q, 's, 'e) fw) option" where
  "vams_command_validator z s =
     (case fw_val s of
        Val_Loop \<Rightarrow>
          (case k_msgq_get (z_cmdq z) True (fw_validation s) of
             (r, q) \<Rightarrow>
               let s = vams_task_progress 4 (s\<lparr> fw_validation := q \<rparr>)
               in case r of
                    Inr p \<Rightarrow> Some (Tau, s\<lparr> fw_val := Val_Work p \<rparr>)
                  | Inl e \<Rightarrow> do { c_assert (e = EAGAIN); Some (Tau, s) })
      | Val_Work p \<Rightarrow> map_option (\<lambda>s. (Tau, s)) (validator_work z p s))"

subsection \<open>The scheduler\<close>

definition scheduler_pick ::
    "('w, 'q, 's, 'e) fw \<Rightarrow> ('w, 'q, 's, 'e) fw" where
  "scheduler_pick s =
     (let (command, rest) = scheduler_take (fw_obj s) (fw_sched_ready s)
      in s\<lparr> fw_sched_ready := rest, fw_sched := Sched_Dispatch command \<rparr>)"

definition scheduler_dispatch ::
    "('w, 'q, 's, 'e) zephyr \<Rightarrow> ptr \<Rightarrow> ('w, 'q, 's, 'e) fw \<Rightarrow> ('w, 'q, 's, 'e) fw option" where
  "scheduler_dispatch z p s = do {
     let b = z_board z;
     let tr = vams_scheduler_transition b (z_evq z);
     let command = fw_obj s p;
     let s = s\<lparr> fw_sched := Sched_Loop \<rparr>;
     if co_generation command \<noteq> command_generation s then do {
       s \<leftarrow> on_object p (vams_scheduler_cancel b (z_evq z) (k_uptime_get b (fw_w s))) s;
       queue_completion z p s
     } else if vams_scheduler_deadline_expired command (k_uptime_get b (fw_w s)) then do {
       s \<leftarrow> on_object p (tr VAMS_COMMAND_QUEUED VAMS_COMMAND_ABORTING) s;
       s \<leftarrow> on_object p (vams_scheduler_timeout b (z_evq z) (k_uptime_get b (fw_w s))) s;
       queue_completion z p s
     } else do {
       s \<leftarrow> on_object p (tr VAMS_COMMAND_QUEUED VAMS_COMMAND_RUNNING) s;
       if vams_is_payload_opcode (sub_opcode (co_submission command)) then
         Some (s\<lparr> fw_sched := Sched_Publish p
           (k_uptime_get b (fw_w s) + VAMS_COMPLETION_PUBLISH_TIMEOUT_MS) \<rparr>)
       else do {
         s \<leftarrow> on_object p (tr VAMS_COMMAND_RUNNING VAMS_COMMAND_COMPLETED) s;
         queue_completion z p s
       }
     }
   }"

definition scheduler_publish ::
    "('w, 'q, 's, 'e) zephyr \<Rightarrow> ptr \<Rightarrow> u64 \<Rightarrow> ('w, 'q, 's, 'e) fw \<Rightarrow>
       (label \<times> ('w, 'q, 's, 'e) fw) option" where
  "scheduler_publish z p deadline s =
     (let completion = co_completion (fw_obj s p)
      in case publish_poll z completion deadline s of
           (Retry, s) \<Rightarrow> Some (Tau, s)
         | (Stalled, s) \<Rightarrow>
             Some (Tau, (vams_request_overload_reset z s)\<lparr> fw_sched := Sched_Parked p \<rparr>)
         | (Published, s) \<Rightarrow>
             map_option (\<lambda>s. (Dispatch completion, s)) (queue_running z p (s\<lparr> fw_sched := Sched_Loop \<rparr>)))"

definition vams_command_scheduler ::
    "('w, 'q, 's, 'e) zephyr \<Rightarrow> ('w, 'q, 's, 'e) fw \<Rightarrow> (label \<times> ('w, 'q, 's, 'e) fw) option" where
  "vams_command_scheduler z s =
     (case fw_sched s of
        Sched_Loop \<Rightarrow>
          let s = vams_task_progress 5 s
          in if fw_sched_ready s = [] then
               (case k_msgq_get (z_cmdq z) True (fw_ready s) of
                  (Inl e, q) \<Rightarrow> do { c_assert (e = EAGAIN); Some (Tau, s\<lparr> fw_ready := q \<rparr>) }
                | (Inr p, q) \<Rightarrow>
                    Some (Tau, s\<lparr> fw_ready := q, fw_sched_ready := [p], fw_sched := Sched_Fill \<rparr>))
             else Some (Tau, s\<lparr> fw_sched := Sched_Fill \<rparr>)
      | Sched_Fill \<Rightarrow>
          if length (fw_sched_ready s) < VAMS_COMMAND_POOL_SIZE then
            (case k_msgq_get (z_cmdq z) False (fw_ready s) of
               (Inr p, q) \<Rightarrow> Some (Tau, s\<lparr> fw_ready := q, fw_sched_ready := fw_sched_ready s @ [p] \<rparr>)
             | (Inl _, q) \<Rightarrow> Some (Tau, scheduler_pick (s\<lparr> fw_ready := q \<rparr>)))
          else Some (Tau, scheduler_pick s)
      | Sched_Dispatch p \<Rightarrow> map_option (\<lambda>s. (Tau, s)) (scheduler_dispatch z p s)
      | Sched_Publish p deadline \<Rightarrow> scheduler_publish z p deadline s
      | Sched_Parked p \<Rightarrow> Some (Tau, s\<lparr> fw_w := k_sleep_ms (z_board z) 10 (fw_w s) \<rparr>))"

subsection \<open>The recovery manager\<close>

text \<open>The timepoint of the next \<open>vams_command_result_receive\<close> while the deadline is ahead.\<close>

definition recovery_poll_deadline ::
    "('w, 'q, 's, 'e) zephyr \<Rightarrow> ptr \<Rightarrow> ('w, 'q, 's, 'e) fw \<Rightarrow> u64" where
  "recovery_poll_deadline z p s =
     (let now_ms = k_uptime_get (z_board z) (fw_w s);
          deadline_ms = co_deadline_ms (fw_obj s p);
          remaining_ms = (if deadline_ms > now_ms then deadline_ms - now_ms else 0)
      in sys_timepoint_calc (z_board z) (min remaining_ms VAMS_SERVICE_POLL_MS) (fw_w s))"

definition recovery_finish ::
    "('w, 'q, 's, 'e) zephyr \<Rightarrow> ptr \<Rightarrow> vams_completion \<Rightarrow> ('w, 'q, 's, 'e) fw \<Rightarrow>
       ('w, 'q, 's, 'e) fw option" where
  "recovery_finish z p result s = do {
     let b = z_board z;
     let s = s\<lparr> fw_rec := Rec_Loop \<rparr>;
     (status, c, l, w) \<leftarrow> vams_scheduler_apply_result b (z_evq z) result (fw_obj s p, fw_log s, fw_w s);
     let s = s\<lparr> fw_obj := (fw_obj s)(p := c), fw_log := l, fw_w := w \<rparr>;
     s \<leftarrow> (if status = RC_ERR EPROTO then do {
            let s = s\<lparr> recovery_escalation_count :=
              vams_saturating_atomic_inc [] (recovery_escalation_count s) \<rparr>;
            s \<leftarrow> on_object p (vams_scheduler_escalate b (z_evq z) (k_uptime_get b (fw_w s))) s;
            emit z VAMS_EVENT_RESULT_MISMATCH (sub_command_id (co_submission (fw_obj s p)))
              (co_generation (fw_obj s p)) 0 0 0 0 s
          } else do { c_assert (status = RC_OK); Some s });
     queue_completion z p s
   }"

definition recovery_abort ::
    "('w, 'q, 's, 'e) zephyr \<Rightarrow> ptr \<Rightarrow> ('w, 'q, 's, 'e) fw \<Rightarrow> ('w, 'q, 's, 'e) fw option" where
  "recovery_abort z p s = do {
     let b = z_board z;
     let s = s\<lparr> fw_rec := Rec_Loop, recovery_attempt_count :=
       vams_saturating_atomic_inc [] (recovery_attempt_count s) \<rparr>;
     s \<leftarrow> on_object p (vams_scheduler_begin_abort b (z_evq z) (k_uptime_get b (fw_w s))) s;
     s \<leftarrow> emit z VAMS_EVENT_ABORT_REQUEST (sub_command_id (co_submission (fw_obj s p)))
            (co_generation (fw_obj s p)) (recovery_attempt_count s) 0 0 0 s;
     let (status, w) = vams_command_abort b (co_completion (fw_obj s p)) (fw_w s);
     Some (s\<lparr> fw_w := w, fw_rec := Rec_Abort p (sys_timepoint_calc b
       (if status = RC_OK then VAMS_ABORT_ACK_TIMEOUT_MS else 0) w) \<rparr>)
   }"

definition recovery_escalated ::
    "('w, 'q, 's, 'e) zephyr \<Rightarrow> ptr \<Rightarrow> ('w, 'q, 's, 'e) fw \<Rightarrow> ('w, 'q, 's, 'e) fw option" where
  "recovery_escalated z p s = do {
     let b = z_board z;
     let s = s\<lparr> fw_rec := Rec_Loop, recovery_escalation_count :=
       vams_saturating_atomic_inc [] (recovery_escalation_count s) \<rparr>;
     s \<leftarrow> on_object p (vams_scheduler_escalate b (z_evq z) (k_uptime_get b (fw_w s))) s;
     s \<leftarrow> emit z VAMS_EVENT_ABORT_ESCALATED (sub_command_id (co_submission (fw_obj s p)))
            (co_generation (fw_obj s p)) (recovery_escalation_count s) 0 0 0 s;
     queue_completion z p s
   }"

definition vams_recovery_manager ::
    "('w, 'q, 's, 'e) zephyr \<Rightarrow> ('w, 'q, 's, 'e) fw \<Rightarrow> (label \<times> ('w, 'q, 's, 'e) fw) option" where
  "vams_recovery_manager z s =
     (let b = z_board z; tau = map_option (\<lambda>s. (Tau, s)) in
      case fw_rec s of
        Rec_Loop \<Rightarrow>
          (case k_msgq_get (z_cmdq z) True (fw_running s) of
             (r, q) \<Rightarrow>
               let s = vams_task_progress 6 (s\<lparr> fw_running := q \<rparr>)
               in case r of
                    Inr p \<Rightarrow> Some (Tau, s\<lparr> fw_rec := Rec_Wait p (recovery_poll_deadline z p s) \<rparr>)
                  | Inl e \<Rightarrow> do { c_assert (e = EAGAIN); Some (Tau, s) })
      | Rec_Wait p deadline \<Rightarrow>
          (case result_poll b deadline (fw_w s) of
             (Ready result, w) \<Rightarrow>
               tau (recovery_finish z p result (vams_task_progress 6 (s\<lparr> fw_w := w \<rparr>)))
           | (Expired, w) \<Rightarrow>
               let s = vams_task_progress 6 (s\<lparr> fw_w := w \<rparr>)
               in if k_uptime_get b w < co_deadline_ms (fw_obj s p)
                  then Some (Tau, s\<lparr> fw_rec := Rec_Wait p (recovery_poll_deadline z p s) \<rparr>)
                  else tau (recovery_abort z p s)
           | (Waiting, w) \<Rightarrow> Some (Tau, s\<lparr> fw_w := k_sleep_ms b 1 w \<rparr>))
      | Rec_Abort p deadline \<Rightarrow>
          (case result_poll b deadline (fw_w s) of
             (Ready result, w) \<Rightarrow> tau (recovery_finish z p result (s\<lparr> fw_w := w \<rparr>))
           | (Expired, w) \<Rightarrow> tau (recovery_escalated z p (s\<lparr> fw_w := w \<rparr>))
           | (Waiting, w) \<Rightarrow> Some (Tau, s\<lparr> fw_w := k_sleep_ms b 1 w \<rparr>)))"

subsection \<open>The completion task\<close>

definition completion_retire ::
    "('w, 'q, 's, 'e) zephyr \<Rightarrow> ptr \<Rightarrow> ('w, 'q, 's, 'e) fw \<Rightarrow> ('w, 'q, 's, 'e) fw option" where
  "completion_retire z p s = do {
     let b = z_board z;
     let s = s\<lparr> fw_comp := Comp_Loop \<rparr>;
     let terminal_state = co_state (fw_obj s p);
     s \<leftarrow> on_object p (vams_scheduler_mark_published b (z_evq z)) s;
     let c = fw_obj s p;
     s \<leftarrow> emit z VAMS_EVENT_COMMAND_COMPLETE (cpl_command_id (co_completion c)) (co_generation c)
            (ucast (cpl_status (co_completion c))) (ucast (cpl_error_code (co_completion c))) 0
            (cpl_user_cookie (co_completion c)) s;
     s \<leftarrow> on_object p (vams_scheduler_transition b (z_evq z) terminal_state VAMS_COMMAND_FREE) s;
     s \<leftarrow> note_retained (vams_retained_clear_command b) s;
     Some (s\<lparr> fw_obj := (fw_obj s)(p := zero_command),
              fw_pool := k_mem_slab_free (z_slab z) p (fw_pool s),
              command_objects_in_use := command_objects_in_use s - 1 \<rparr>)
   }"

definition vams_command_completion ::
    "('w, 'q, 's, 'e) zephyr \<Rightarrow> ('w, 'q, 's, 'e) fw \<Rightarrow> (label \<times> ('w, 'q, 's, 'e) fw) option" where
  "vams_command_completion z s =
     (case fw_comp s of
        Comp_Loop \<Rightarrow>
          (case k_msgq_get (z_cmdq z) True (fw_completion s) of
             (r, q) \<Rightarrow>
               let s = vams_task_progress 7 (s\<lparr> fw_completion := q \<rparr>)
               in case r of
                    Inr p \<Rightarrow> Some (Tau, s\<lparr> fw_comp := Comp_Publish p
                      (k_uptime_get (z_board z) (fw_w s) + VAMS_COMPLETION_PUBLISH_TIMEOUT_MS) \<rparr>)
                  | Inl e \<Rightarrow> do { c_assert (e = EAGAIN); Some (Tau, s) })
      | Comp_Publish p deadline \<Rightarrow>
          let completion = co_completion (fw_obj s p)
          in (case publish_poll z completion deadline s of
                (Retry, s) \<Rightarrow> Some (Tau, s)
              | (Stalled, s) \<Rightarrow>
                  Some (Tau, (vams_request_overload_reset z s)\<lparr> fw_comp := Comp_Parked p \<rparr>)
              | (Published, s) \<Rightarrow>
                  map_option (\<lambda>s. (Publish completion, s)) (completion_retire z p s))
      | Comp_Parked p \<Rightarrow> Some (Tau, s\<lparr> fw_w := k_sleep_ms (z_board z) 10 (fw_w s) \<rparr>))"

subsection \<open>Runs\<close>

datatype task = Receiver | Validator | Scheduler | Recovery | Completion

fun fw_task ::
    "('w, 'q, 's, 'e) zephyr \<Rightarrow> task \<Rightarrow> ('w, 'q, 's, 'e) fw \<Rightarrow>
       (label \<times> ('w, 'q, 's, 'e) fw) option" where
  "fw_task z Receiver s = vams_command_receiver z s"
| "fw_task z Validator s = vams_command_validator z s"
| "fw_task z Scheduler s = vams_command_scheduler z s"
| "fw_task z Recovery s = vams_recovery_manager z s"
| "fw_task z Completion s = vams_command_completion z s"

text \<open>
  A step is a step of a task, or a change of what the pipeline shares with the rest of the system:
  the devices and the clock in any way, the epochs of the tasks, and the event log by the other
  tasks, which keep the retained record well formed (\<open>event_emit_ok\<close>, \<open>retained_apply_ok\<close>).
\<close>

inductive fw_step ::
    "('w, 'q, 's, 'e) zephyr \<Rightarrow> ('w, 'q, 's, 'e) fw \<Rightarrow> label \<Rightarrow> ('w, 'q, 's, 'e) fw \<Rightarrow> bool"
  for z where
  task: "fw_task z t s = Some (a, s') \<Longrightarrow> fw_step z s a s'"
| env: "log_ok l \<Longrightarrow> fw_step z s Tau (s\<lparr> fw_w := w, fw_log := l, fw_epochs := e \<rparr>)"

inductive fw_run ::
    "('w, 'q, 's, 'e) zephyr \<Rightarrow> ('w, 'q, 's, 'e) fw \<Rightarrow> label list \<Rightarrow> ('w, 'q, 's, 'e) fw \<Rightarrow> bool"
  for z where
  start: "fw_run z s [] s"
| step: "fw_run z s tr s1 \<Longrightarrow> fw_step z s1 a s2 \<Longrightarrow> fw_run z s (tr @ [a]) s2"

end
