(* ===== verification/Vams_Pipeline.thy ===== *)
theory Vams_Pipeline
  imports Vams_Firmware
begin

text \<open>
  Invariants of the command pipeline of \<open>Vams_Firmware\<close>. Every command object is owned by exactly
  one place (the pool, a queue, the scheduler's ready array or a task's hand), the state of an
  object agrees with the place that owns it, and every submission taken from the portal is
  answered by exactly one completion or is still in flight.

  The laws of the kernel objects come from the interface \<open>pipeline\<close>, which joins \<open>msgq_laws\<close> and
  \<open>slab_laws\<close>.
\<close>

subsection \<open>Places and ownership\<close>

datatype place = At_Rx | At_Validation | At_Queued | At_Running | At_Aborting | At_Done

definition held :: "('q \<Rightarrow> ptr list) \<Rightarrow> ('w, 'q, 's, 'e) fw \<Rightarrow> (place \<times> ptr) multiset" where
  "held items s =
     (case fw_rx s of Rx_Loop \<Rightarrow> {#} | Rx_Capture p \<Rightarrow> {#(At_Rx, p)#}) +
     image_mset (Pair At_Validation) (mset (items (fw_validation s))) +
     (case fw_val s of Val_Loop \<Rightarrow> {#} | Val_Work p \<Rightarrow> {#(At_Validation, p)#}) +
     image_mset (Pair At_Queued) (mset (items (fw_ready s))) +
     image_mset (Pair At_Queued) (mset (fw_sched_ready s)) +
     (case fw_sched s of
        Sched_Loop \<Rightarrow> {#} | Sched_Fill \<Rightarrow> {#} | Sched_Dispatch p \<Rightarrow> {#(At_Queued, p)#}
      | Sched_Publish p d \<Rightarrow> {#(At_Running, p)#} | Sched_Parked p \<Rightarrow> {#(At_Running, p)#}) +
     image_mset (Pair At_Running) (mset (items (fw_running s))) +
     (case fw_rec s of
        Rec_Loop \<Rightarrow> {#} | Rec_Wait p d \<Rightarrow> {#(At_Running, p)#} | Rec_Abort p d \<Rightarrow> {#(At_Aborting, p)#}) +
     image_mset (Pair At_Done) (mset (items (fw_completion s))) +
     (case fw_comp s of
        Comp_Loop \<Rightarrow> {#} | Comp_Publish p d \<Rightarrow> {#(At_Done, p)#} | Comp_Parked p \<Rightarrow> {#(At_Done, p)#})"

text \<open>The completion of an object answers its own submission.\<close>

definition echoes :: "vams_submission \<Rightarrow> vams_completion \<Rightarrow> bool" where
  "echoes sub c \<longleftrightarrow> cpl_command_id c = sub_command_id sub \<and> cpl_user_cookie c = sub_user_cookie sub"

fun place_ok :: "place \<Rightarrow> vams_command_object \<Rightarrow> bool" where
  "place_ok At_Rx c \<longleftrightarrow> True"
| "place_ok At_Validation c \<longleftrightarrow> co_state c = VAMS_COMMAND_SUBMITTED \<and> co_publication_count c = 0"
| "place_ok At_Queued c \<longleftrightarrow> co_state c = VAMS_COMMAND_QUEUED \<and> co_publication_count c = 0 \<and>
     echoes (co_submission c) (co_completion c) \<and>
     cpl_status (co_completion c) = VAMS_STATUS_SUCCESS \<and>
     vams_validate_command (co_submission c) = VAMS_ERR_NONE"
| "place_ok At_Running c \<longleftrightarrow> co_state c = VAMS_COMMAND_RUNNING \<and> co_publication_count c = 0 \<and>
     echoes (co_submission c) (co_completion c) \<and>
     vams_validate_command (co_submission c) = VAMS_ERR_NONE \<and>
     vams_is_payload_opcode (sub_opcode (co_submission c))"
| "place_ok At_Aborting c \<longleftrightarrow> co_state c = VAMS_COMMAND_ABORTING \<and> co_publication_count c = 0 \<and>
     echoes (co_submission c) (co_completion c) \<and>
     vams_validate_command (co_submission c) = VAMS_ERR_NONE"
| "place_ok At_Done c \<longleftrightarrow>
     co_state c \<in> {VAMS_COMMAND_COMPLETED, VAMS_COMMAND_COMPLETED_ERROR, VAMS_COMMAND_CANCELLED} \<and>
     co_publication_count c = 0 \<and> echoes (co_submission c) (co_completion c) \<and>
     (co_state c = VAMS_COMMAND_COMPLETED \<longleftrightarrow> cpl_status (co_completion c) = VAMS_STATUS_SUCCESS) \<and>
     (cpl_status (co_completion c) = VAMS_STATUS_SUCCESS \<longrightarrow>
        vams_validate_command (co_submission c) = VAMS_ERR_NONE)"

text \<open>
  Ownership: the objects agree with their places, and the pointers held together with the free
  blocks are the eight blocks of the pool, each once.
\<close>

definition owned :: "(ptr \<Rightarrow> vams_command_object) \<Rightarrow> (place \<times> ptr) multiset \<Rightarrow> ptr set \<Rightarrow> bool" where
  "owned obj H free \<longleftrightarrow>
     (\<forall>x \<in># H. place_ok (fst x) (obj (snd x))) \<and> finite free \<and>
     image_mset snd H + mset_set free = mset_set {0..<VAMS_COMMAND_POOL_SIZE}"

text \<open>The submissions of the objects in flight.\<close>

definition live :: "(ptr \<Rightarrow> vams_command_object) \<Rightarrow> (place \<times> ptr) multiset \<Rightarrow> vams_submission multiset" where
  "live obj H = image_mset (\<lambda>x. co_submission (obj (snd x))) (filter_mset (\<lambda>x. fst x \<noteq> At_Rx) H)"

lemma owned_once:
  assumes "owned obj (add_mset (a, p) R) free"
  shows "(b, p) \<notin># R" "p \<notin> free"
proof -
  have eq: "add_mset p (image_mset snd R + mset_set free) = mset_set {0..<VAMS_COMMAND_POOL_SIZE}"
    using assms by (simp add: owned_def)
  then have "p \<in># mset_set {0..<VAMS_COMMAND_POOL_SIZE}" by (metis union_single_eq_member)
  then have "count (mset_set {0..<VAMS_COMMAND_POOL_SIZE}) p = 1" by simp
  with eq have zero: "count (image_mset snd R + mset_set free) p = 0"
    by (metis count_add_mset add_right_imp_eq add_0 One_nat_def Suc_eq_plus1)
  then have "p \<notin># image_mset snd R" "p \<notin># mset_set free"
    unfolding not_in_iff by simp_all
  moreover have "finite free" using assms by (simp add: owned_def)
  ultimately show "(b, p) \<notin># R" "p \<notin> free" by force+
qed

lemma owned_size:
  assumes "owned obj H free"
  shows "size H + card free = 8"
proof -
  have "size (image_mset snd H + mset_set free) = 8"
    using assms by (simp add: owned_def VAMS_COMMAND_POOL_SIZE_def)
  then show ?thesis by simp
qed

lemma live_frame:
  assumes "\<And>b. (b, p) \<notin># R"
  shows "live (obj(p := c)) R = live obj R"
proof -
  have "snd x \<noteq> p" if "x \<in># R" for x using that assms by (metis prod.collapse)
  then show ?thesis unfolding live_def by (intro image_mset_cong) auto
qed

lemma owned_move:
  assumes "owned obj (add_mset (a, p) R) free" "place_ok b c"
  shows "owned (obj(p := c)) (add_mset (b, p) R) free"
    and "a \<noteq> At_Rx \<Longrightarrow> b \<noteq> At_Rx \<Longrightarrow> co_submission c = co_submission (obj p) \<Longrightarrow>
      live (obj(p := c)) (add_mset (b, p) R) = live obj (add_mset (a, p) R)"
    and "a = At_Rx \<Longrightarrow> b \<noteq> At_Rx \<Longrightarrow>
      live (obj(p := c)) (add_mset (b, p) R) = add_mset (co_submission c) (live obj (add_mset (a, p) R))"
proof -
  note once = owned_once [OF assms(1)]
  have "snd x \<noteq> p" if "x \<in># R" for x using that once(1) by (metis prod.collapse)
  with assms show "owned (obj(p := c)) (add_mset (b, p) R) free" by (auto simp: owned_def)
  have "live (obj(p := c)) R = live obj R" by (rule live_frame [OF once(1)])
  then show "a \<noteq> At_Rx \<Longrightarrow> b \<noteq> At_Rx \<Longrightarrow> co_submission c = co_submission (obj p) \<Longrightarrow>
      live (obj(p := c)) (add_mset (b, p) R) = live obj (add_mset (a, p) R)"
    "a = At_Rx \<Longrightarrow> b \<noteq> At_Rx \<Longrightarrow>
      live (obj(p := c)) (add_mset (b, p) R) = add_mset (co_submission c) (live obj (add_mset (a, p) R))"
    by (simp_all add: live_def)
qed

lemma owned_alloc:
  assumes "owned obj H free" "p \<in> free"
  shows "owned obj (add_mset (At_Rx, p) H) (free - {p})"
    and "live obj (add_mset (At_Rx, p) H) = live obj H"
proof -
  have "mset_set free = add_mset p (mset_set (free - {p}))"
    using assms by (simp add: owned_def mset_set.remove)
  with assms show "owned obj (add_mset (At_Rx, p) H) (free - {p})" by (simp add: owned_def)
qed (simp add: live_def)

lemma owned_release:
  assumes "owned obj (add_mset (a, p) R) free"
  shows "owned (obj(p := c)) R (insert p free)" "p \<notin> free"
    and "live (obj(p := c)) R = live obj R"
proof -
  note once = owned_once [OF assms]
  have "snd x \<noteq> p" if "x \<in># R" for x using that once(1) by (metis prod.collapse)
  with assms once(2) show "owned (obj(p := c)) R (insert p free)" by (auto simp: owned_def)
  show "p \<notin> free" by (rule once(2))
  show "live (obj(p := c)) R = live obj R" by (rule live_frame [OF once(1)])
qed

subsection \<open>The invariant and the ledger\<close>

definition fw_inv ::
    "('q \<Rightarrow> ptr list) \<Rightarrow> ('q \<Rightarrow> nat) \<Rightarrow> ('s \<Rightarrow> ptr set) \<Rightarrow> ('w, 'q, 's, 'e) fw \<Rightarrow> bool" where
  "fw_inv items cap free s \<longleftrightarrow>
     log_ok (fw_log s) \<and> owned (fw_obj s) (held items s) (free (fw_pool s)) \<and>
     cap (fw_validation s) = VAMS_COMMAND_POOL_SIZE \<and> cap (fw_ready s) = VAMS_COMMAND_POOL_SIZE \<and>
     cap (fw_running s) = 1 \<and> cap (fw_completion s) = VAMS_COMMAND_POOL_SIZE \<and>
     command_objects_in_use s = of_nat (size (held items s)) \<and>
     (fw_sched s = Sched_Fill \<longrightarrow> fw_sched_ready s \<noteq> [])"

text \<open>As \<open>fw_inv\<close>, while a task has the object \<open>p\<close> in hand and its program counter reset.\<close>

definition in_hand ::
    "('q \<Rightarrow> ptr list) \<Rightarrow> ('q \<Rightarrow> nat) \<Rightarrow> ('s \<Rightarrow> ptr set) \<Rightarrow> ptr \<Rightarrow> ('w, 'q, 's, 'e) fw \<Rightarrow> bool" where
  "in_hand items cap free p s \<longleftrightarrow>
     log_ok (fw_log s) \<and> owned (fw_obj s) (add_mset (At_Rx, p) (held items s)) (free (fw_pool s)) \<and>
     cap (fw_validation s) = VAMS_COMMAND_POOL_SIZE \<and> cap (fw_ready s) = VAMS_COMMAND_POOL_SIZE \<and>
     cap (fw_running s) = 1 \<and> cap (fw_completion s) = VAMS_COMMAND_POOL_SIZE \<and>
     command_objects_in_use s = of_nat (Suc (size (held items s))) \<and>
     (fw_sched s = Sched_Fill \<longrightarrow> fw_sched_ready s \<noteq> [])"

definition flight :: "('q \<Rightarrow> ptr list) \<Rightarrow> ('w, 'q, 's, 'e) fw \<Rightarrow> vams_submission multiset" where
  "flight items s = live (fw_obj s) (held items s)"

definition answers :: "vams_submission \<Rightarrow> vams_completion \<Rightarrow> bool" where
  "answers sub c \<longleftrightarrow> echoes sub c \<and>
     (cpl_status c = VAMS_STATUS_SUCCESS \<longrightarrow> vams_validate_command sub = VAMS_ERR_NONE)"

definition dispatches :: "vams_submission \<Rightarrow> vams_completion \<Rightarrow> bool" where
  "dispatches sub c \<longleftrightarrow> echoes sub c \<and> vams_validate_command sub = VAMS_ERR_NONE \<and>
     vams_is_payload_opcode (sub_opcode sub)"

fun ledger :: "label \<Rightarrow> vams_submission multiset \<Rightarrow> vams_submission multiset \<Rightarrow> bool" where
  "ledger Tau L L' \<longleftrightarrow> L' = L"
| "ledger (Admit sub) L L' \<longleftrightarrow> L' = add_mset sub L"
| "ledger (Dispatch c) L L' \<longleftrightarrow> L' = L \<and> (\<exists>sub \<in># L. dispatches sub c)"
| "ledger (Publish c) L L' \<longleftrightarrow> (\<exists>sub. L = add_mset sub L' \<and> answers sub c)"

locale pipeline =
  cmdq: msgq_laws "z_cmdq z" items cap + pool: slab_laws "z_slab z" free
  for z :: "('w, 'q, 's, 'e) zephyr"
    and items :: "'q \<Rightarrow> ptr list"
    and cap :: "'q \<Rightarrow> nat"
    and free :: "'s \<Rightarrow> ptr set"
begin

definition advances :: "('w, 'q, 's, 'e) fw \<Rightarrow> (label \<times> ('w, 'q, 's, 'e) fw) option \<Rightarrow> bool" where
  "advances s r \<longleftrightarrow> (\<exists>a s'. r = Some (a, s') \<and> fw_inv items cap free s' \<and>
     ledger a (flight items s) (flight items s'))"

lemma inv_same:
  assumes "fw_inv items cap free s" "log_ok (fw_log s')" "held items s' = held items s"
    and "fw_obj s' = fw_obj s" "free (fw_pool s') = free (fw_pool s)"
    and "cap (fw_validation s') = cap (fw_validation s)" "cap (fw_ready s') = cap (fw_ready s)"
    and "cap (fw_running s') = cap (fw_running s)" "cap (fw_completion s') = cap (fw_completion s)"
    and "command_objects_in_use s' = command_objects_in_use s"
    and "fw_sched s' = Sched_Fill \<longrightarrow> fw_sched_ready s' \<noteq> []"
  shows "advances s (Some (Tau, s'))"
  using assms by (simp add: fw_inv_def advances_def flight_def)

lemma inv_log: "fw_inv items cap free s \<Longrightarrow> log_ok (fw_log s)"
  by (simp add: fw_inv_def)

lemma inv_place:
  "fw_inv items cap free s \<Longrightarrow> (pl, p) \<in># held items s \<Longrightarrow> place_ok pl (fw_obj s p)"
  by (fastforce simp: fw_inv_def owned_def)

text \<open>A task takes the object it holds out of its program counter.\<close>

lemma take_in_hand:
  assumes "fw_inv items cap free s" "held items s = add_mset (a, p) (held items s')"
    and "fw_obj s' = fw_obj s" "fw_pool s' = fw_pool s" "fw_log s' = fw_log s"
    and "cap (fw_validation s') = cap (fw_validation s)" "cap (fw_ready s') = cap (fw_ready s)"
    and "cap (fw_running s') = cap (fw_running s)" "cap (fw_completion s') = cap (fw_completion s)"
    and "command_objects_in_use s' = command_objects_in_use s"
    and "fw_sched s' = Sched_Fill \<longrightarrow> fw_sched_ready s' \<noteq> []"
  shows "in_hand items cap free p s'"
    and "flight items s =
      (if a = At_Rx then flight items s' else add_mset (co_submission (fw_obj s p)) (flight items s'))"
proof -
  have "owned ((fw_obj s)(p := fw_obj s p)) (add_mset (At_Rx, p) (held items s')) (free (fw_pool s))"
    using assms(1,2) by (intro owned_move(1) [where a = a]) (simp_all add: fw_inv_def)
  with assms show "in_hand items cap free p s'" by (simp add: fw_inv_def in_hand_def)
  show "flight items s =
      (if a = At_Rx then flight items s' else add_mset (co_submission (fw_obj s p)) (flight items s'))"
    using assms(2,3) by (simp add: flight_def live_def)
qed

lemma in_hand_frame:
  assumes "in_hand items cap free p s"
  shows "flight items (s\<lparr> fw_obj := (fw_obj s)(p := c), fw_log := l, fw_w := w \<rparr>) = flight items s"
    and "log_ok l \<Longrightarrow>
      in_hand items cap free p (s\<lparr> fw_obj := (fw_obj s)(p := c), fw_log := l, fw_w := w \<rparr>)"
proof -
  let ?H = "held items s"
  have own: "owned (fw_obj s) (add_mset (At_Rx, p) ?H) (free (fw_pool s))"
    using assms by (simp add: in_hand_def)
  have held: "held items (s\<lparr> fw_obj := f, fw_log := l, fw_w := w \<rparr>) = ?H" for f
    by (simp add: held_def)
  show "flight items (s\<lparr> fw_obj := (fw_obj s)(p := c), fw_log := l, fw_w := w \<rparr>) = flight items s"
    unfolding flight_def held using live_frame [OF owned_once(1) [OF own]] by simp
  show "log_ok l \<Longrightarrow>
      in_hand items cap free p (s\<lparr> fw_obj := (fw_obj s)(p := c), fw_log := l, fw_w := w \<rparr>)"
    using assms owned_move(1) [OF own, of At_Rx c] by (simp add: in_hand_def held)
qed

text \<open>Running an operation on the object in hand.\<close>

lemma on_object_in_hand:
  assumes "in_hand items cap free p s"
    and "f (fw_obj s p, fw_log s, fw_w s) = Some (c, l, w)" "log_ok l"
  obtains s' where "on_object p f s = Some s'" "in_hand items cap free p s'" "fw_obj s' p = c"
    "flight items s' = flight items s"
    "s' = s\<lparr> fw_obj := (fw_obj s)(p := c), fw_log := l, fw_w := w \<rparr>"
  by (rule that [OF _ in_hand_frame(2) [OF assms(1,3)] _ in_hand_frame(1) [OF assms(1)]])
     (use assms in \<open>simp_all add: on_object_def\<close>)

lemma transition_in_hand:
  assumes "in_hand items cap free p s" "co_state (fw_obj s p) = expected"
  obtains s' l w where "on_object p (vams_scheduler_transition b eq expected nxt) s = Some s'"
    "in_hand items cap free p s'" "fw_obj s' p = (fw_obj s p)\<lparr> co_state := nxt \<rparr>"
    "flight items s' = flight items s"
    "s' = s\<lparr> fw_obj := (fw_obj s)(p := (fw_obj s p)\<lparr> co_state := nxt \<rparr>), fw_log := l, fw_w := w \<rparr>"
proof -
  have "log_ok (fw_log s)" using assms(1) by (simp add: in_hand_def)
  then obtain l w where t: "vams_scheduler_transition b eq expected nxt
      (fw_obj s p, fw_log s, fw_w s) = Some ((fw_obj s p)\<lparr> co_state := nxt \<rparr>, l, w)" "log_ok l"
    using transition_ok [OF _ assms(2), of "fw_log s" b eq nxt "fw_w s"] by blast
  show ?thesis
    by (rule on_object_in_hand [where f = "vams_scheduler_transition b eq expected nxt",
          OF assms(1) t]) (rule that)
qed

lemma queue_room:
  assumes "in_hand items cap free p s"
  shows "length (items (fw_validation s)) < 8" "length (items (fw_ready s)) < 8"
    "length (items (fw_completion s)) < 8"
proof -
  have "Suc (size (held items s)) \<le> 8"
    using assms owned_size [of "fw_obj s" "add_mset (At_Rx, p) (held items s)" "free (fw_pool s)"]
    by (simp add: in_hand_def)
  then show "length (items (fw_validation s)) < 8" "length (items (fw_ready s)) < 8"
    "length (items (fw_completion s)) < 8"
    by (simp_all add: held_def)
qed

lemma put_ok:
  assumes "length (items q) < cap q"
  obtains q' h ov' where "vams_queue_put (z_cmdq z) p q high ov = (RC_OK, q', h, ov')"
    "items q' = items q @ [p]" "cap q' = cap q"
proof -
  obtain st q' where put: "k_msgq_put (z_cmdq z) p q = (st, q')" by fastforce
  from cmdq.putE [OF put] assms have "st = RC_OK" "items q' = items q @ [p]" "cap q' = cap q"
    by (metis not_le)+
  moreover from this(1) put obtain h ov' where
    "vams_queue_put (z_cmdq z) p q high ov = (RC_OK, q', h, ov')"
    by (simp add: vams_queue_put_def Let_def)
  ultimately show ?thesis by (intro that)
qed

text \<open>Handing the object in hand to a place.\<close>

lemma hand_over:
  assumes "in_hand items cap free p s" "place_ok pl (fw_obj s p)" "pl \<noteq> At_Rx"
    and "held items s' = add_mset (pl, p) (held items s)"
    and "fw_obj s' = fw_obj s" "fw_pool s' = fw_pool s" "fw_log s' = fw_log s"
    and "cap (fw_validation s') = cap (fw_validation s)" "cap (fw_ready s') = cap (fw_ready s)"
    and "cap (fw_running s') = cap (fw_running s)" "cap (fw_completion s') = cap (fw_completion s)"
    and "command_objects_in_use s' = command_objects_in_use s"
    and "fw_sched s' = Sched_Fill \<longrightarrow> fw_sched_ready s' \<noteq> []"
  shows "fw_inv items cap free s'"
    and "flight items s' = add_mset (co_submission (fw_obj s p)) (flight items s)"
proof -
  have "owned ((fw_obj s)(p := fw_obj s p)) (add_mset (pl, p) (held items s)) (free (fw_pool s))"
    using assms(1,2) by (intro owned_move(1) [where a = At_Rx]) (simp_all add: in_hand_def)
  with assms show "fw_inv items cap free s'" by (simp add: fw_inv_def in_hand_def)
  show "flight items s' = add_mset (co_submission (fw_obj s p)) (flight items s)"
    using assms(3-5) by (simp add: flight_def live_def)
qed

lemma queue_completion_in_hand:
  assumes "in_hand items cap free p s" "place_ok At_Done (fw_obj s p)"
  obtains s' where "queue_completion z p s = Some s'" "fw_inv items cap free s'"
    "flight items s' = add_mset (co_submission (fw_obj s p)) (flight items s)"
proof -
  have room: "length (items (fw_completion s)) < cap (fw_completion s)"
    using queue_room [OF assms(1)] assms(1) by (simp add: in_hand_def vams_const)
  obtain q h ov where put: "vams_queue_put (z_cmdq z) p (fw_completion s)
      (completion_queue_high_water s) (queue_overload_count s) = (RC_OK, q, h, ov)"
    "items q = items (fw_completion s) @ [p]" "cap q = cap (fw_completion s)"
    using put_ok [OF room] by metis
  let ?s = "s\<lparr> fw_completion := q, completion_queue_high_water := h, queue_overload_count := ov \<rparr>"
  have "held items ?s = add_mset (At_Done, p) (held items s)" using put by (simp add: held_def)
  from hand_over [OF assms(1,2) _ this] put assms(1) show ?thesis
    by (intro that [of ?s]) (simp_all add: queue_completion_def in_hand_def)
qed

lemma queue_ready_in_hand:
  assumes "in_hand items cap free p s" "place_ok At_Queued (fw_obj s p)"
  obtains s' where "queue_ready z p s = Some s'" "fw_inv items cap free s'"
    "flight items s' = add_mset (co_submission (fw_obj s p)) (flight items s)"
proof -
  have room: "length (items (fw_ready s)) < cap (fw_ready s)"
    using queue_room [OF assms(1)] assms(1) by (simp add: in_hand_def vams_const)
  obtain q h ov where put: "vams_queue_put (z_cmdq z) p (fw_ready s)
      (ready_queue_high_water s) (queue_overload_count s) = (RC_OK, q, h, ov)"
    "items q = items (fw_ready s) @ [p]" "cap q = cap (fw_ready s)"
    using put_ok [OF room] by metis
  let ?s = "s\<lparr> fw_ready := q, ready_queue_high_water := h, queue_overload_count := ov \<rparr>"
  have "held items ?s = add_mset (At_Queued, p) (held items s)" using put by (simp add: held_def)
  from hand_over [OF assms(1,2) _ this] put assms(1) show ?thesis
    by (intro that [of ?s]) (simp_all add: queue_ready_def in_hand_def)
qed

lemma queue_validation_in_hand:
  assumes "in_hand items cap free p s" "place_ok At_Validation (fw_obj s p)"
  obtains s' where "queue_validation z p s = Some s'" "fw_inv items cap free s'"
    "flight items s' = add_mset (co_submission (fw_obj s p)) (flight items s)"
proof -
  have room: "length (items (fw_validation s)) < cap (fw_validation s)"
    using queue_room [OF assms(1)] assms(1) by (simp add: in_hand_def vams_const)
  obtain q h ov where put: "vams_queue_put (z_cmdq z) p (fw_validation s)
      (validation_queue_high_water s) (queue_overload_count s) = (RC_OK, q, h, ov)"
    "items q = items (fw_validation s) @ [p]" "cap q = cap (fw_validation s)"
    using put_ok [OF room] by metis
  let ?s = "s\<lparr> fw_validation := q, validation_queue_high_water := h, queue_overload_count := ov \<rparr>"
  have "held items ?s = add_mset (At_Validation, p) (held items s)" using put by (simp add: held_def)
  from hand_over [OF assms(1,2) _ this] put assms(1) show ?thesis
    by (intro that [of ?s]) (simp_all add: queue_validation_def in_hand_def)
qed

text \<open>The running queue has a single entry, so it takes the object only when it is empty.\<close>

lemma queue_running_in_hand:
  assumes "in_hand items cap free p s" "place_ok At_Running (fw_obj s p)" "items (fw_running s) = []"
  obtains s' where "queue_running z p s = Some s'" "fw_inv items cap free s'"
    "flight items s' = add_mset (co_submission (fw_obj s p)) (flight items s)"
proof -
  have room: "length (items (fw_running s)) < cap (fw_running s)"
    using assms(1,3) by (simp add: in_hand_def)
  obtain q h ov where put: "vams_queue_put (z_cmdq z) p (fw_running s)
      (running_queue_high_water s) (queue_overload_count s) = (RC_OK, q, h, ov)"
    "items q = items (fw_running s) @ [p]" "cap q = cap (fw_running s)"
    using put_ok [OF room] by metis
  let ?s = "s\<lparr> fw_running := q, running_queue_high_water := h, queue_overload_count := ov \<rparr>"
  have "held items ?s = add_mset (At_Running, p) (held items s)" using put by (simp add: held_def)
  from hand_over [OF assms(1,2) _ this] put assms(1) show ?thesis
    by (intro that [of ?s]) (simp_all add: queue_running_def in_hand_def)
qed

lemma queue_running_full:
  assumes "cap (fw_running s) = 1" "items (fw_running s) \<noteq> []"
  shows "queue_running z p s = None"
proof -
  obtain st q' where put: "k_msgq_put (z_cmdq z) p (fw_running s) = (st, q')" by fastforce
  have "1 \<le> length (items (fw_running s))" using assms(2) by (cases "items (fw_running s)") simp_all
  with cmdq.putE [OF put] assms(1) have "st = RC_ERR ENOMSG" by (metis not_le)
  with put show ?thesis by (simp add: queue_running_def vams_queue_put_def Let_def)
qed

end

end
