(* ===== verification/Vams_Delivery.thy ===== *)
theory Vams_Delivery
  imports Vams_Pipeline
begin

text \<open>
  Every step of every task of the pipeline succeeds and keeps the invariant and the ledger, with one
  exception: the scheduler's hand-over to the running queue, which holds one entry. From it follow
  the properties of whole runs: exactly-once delivery, no dispatch of an unvalidated command, and the
  exact condition under which an assertion can fail.
\<close>

subsection \<open>Initial states, overflow, and what a trace shows\<close>

definition fw_initial ::
    "('q \<Rightarrow> ptr list) \<Rightarrow> ('q \<Rightarrow> nat) \<Rightarrow> ('s \<Rightarrow> ptr set) \<Rightarrow> ('w, 'q, 's, 'e) fw \<Rightarrow> bool" where
  "fw_initial items cap free s \<longleftrightarrow>
     log_ok (fw_log s) \<and> free (fw_pool s) = {0..<VAMS_COMMAND_POOL_SIZE} \<and>
     items (fw_validation s) = [] \<and> items (fw_ready s) = [] \<and> items (fw_running s) = [] \<and>
     items (fw_completion s) = [] \<and> cap (fw_validation s) = VAMS_COMMAND_POOL_SIZE \<and>
     cap (fw_ready s) = VAMS_COMMAND_POOL_SIZE \<and> cap (fw_running s) = 1 \<and>
     cap (fw_completion s) = VAMS_COMMAND_POOL_SIZE \<and> fw_rx s = Rx_Loop \<and> fw_val s = Val_Loop \<and>
     fw_sched s = Sched_Loop \<and> fw_sched_ready s = [] \<and> fw_rec s = Rec_Loop \<and>
     fw_comp s = Comp_Loop \<and> command_objects_in_use s = 0"

text \<open>The scheduler is about to put into a running queue that is not empty.\<close>

definition running_overflow ::
    "('w, 'q, 's, 'e) zephyr \<Rightarrow> ('q \<Rightarrow> ptr list) \<Rightarrow> ('w, 'q, 's, 'e) fw \<Rightarrow> bool" where
  "running_overflow z items s \<longleftrightarrow>
     (\<exists>p d. fw_sched s = Sched_Publish p d \<and> items (fw_running s) \<noteq> [] \<and>
        fst (publish_poll z (co_completion (fw_obj s p)) d s) = Published)"

definition admissions :: "label list \<Rightarrow> vams_submission list" where
  "admissions tr = concat (map (\<lambda>a. case a of Admit sub \<Rightarrow> [sub] | _ \<Rightarrow> []) tr)"

definition publications :: "label list \<Rightarrow> vams_completion list" where
  "publications tr = concat (map (\<lambda>a. case a of Publish c \<Rightarrow> [c] | _ \<Rightarrow> []) tr)"

lemma admissions_snoc [simp]:
  "admissions (tr @ [a]) = admissions tr @ (case a of Admit sub \<Rightarrow> [sub] | _ \<Rightarrow> [])"
  "publications (tr @ [a]) = publications tr @ (case a of Publish c \<Rightarrow> [c] | _ \<Rightarrow> [])"
  by (simp_all add: admissions_def publications_def)

context pipeline
begin

lemma held_updates [simp]:
  "held items (s\<lparr> fw_w := w \<rparr>) = held items s"
  "held items (s\<lparr> fw_log := l \<rparr>) = held items s"
  "held items (s\<lparr> fw_obj := f \<rparr>) = held items s"
  "held items (s\<lparr> fw_pool := pl \<rparr>) = held items s"
  "held items (s\<lparr> fw_epochs := e \<rparr>) = held items s"
  "held items (s\<lparr> command_objects_in_use := n \<rparr>) = held items s"
  "held items (s\<lparr> command_pool_high_water := n \<rparr>) = held items s"
  "held items (s\<lparr> recovery_attempt_count := n \<rparr>) = held items s"
  "held items (s\<lparr> recovery_escalation_count := n \<rparr>) = held items s"
  "held items (s\<lparr> admission_defer_count := n \<rparr>) = held items s"
  "held items (s\<lparr> portal_stall_count := n \<rparr>) = held items s"
  "held items (s\<lparr> overload_reset_requested := r \<rparr>) = held items s"
  "held items (s\<lparr> command_sequence := n \<rparr>) = held items s"
  "held items (vams_task_progress t s) = held items s"
  by (simp_all add: held_def vams_task_progress_def)

lemma progress_simps [simp]:
  "fw_obj (vams_task_progress t s) = fw_obj s" "fw_log (vams_task_progress t s) = fw_log s"
  "fw_w (vams_task_progress t s) = fw_w s" "fw_pool (vams_task_progress t s) = fw_pool s"
  "fw_validation (vams_task_progress t s) = fw_validation s"
  "fw_ready (vams_task_progress t s) = fw_ready s"
  "fw_running (vams_task_progress t s) = fw_running s"
  "fw_completion (vams_task_progress t s) = fw_completion s"
  "fw_rx (vams_task_progress t s) = fw_rx s" "fw_val (vams_task_progress t s) = fw_val s"
  "fw_sched (vams_task_progress t s) = fw_sched s"
  "fw_sched_ready (vams_task_progress t s) = fw_sched_ready s"
  "fw_rec (vams_task_progress t s) = fw_rec s" "fw_comp (vams_task_progress t s) = fw_comp s"
  "command_objects_in_use (vams_task_progress t s) = command_objects_in_use s"
  "admission_defer_count (vams_task_progress t s) = admission_defer_count s"
  "command_generation (vams_task_progress t s) = command_generation s"
  by (simp_all add: vams_task_progress_def)

lemma in_hand_updates [simp]:
  "in_hand items cap free p (s\<lparr> fw_w := w \<rparr>) = in_hand items cap free p s"
  "in_hand items cap free p (s\<lparr> command_sequence := n \<rparr>) = in_hand items cap free p s"
  "in_hand items cap free p (s\<lparr> recovery_escalation_count := n \<rparr>) = in_hand items cap free p s"
  by (simp_all add: in_hand_def)

lemma flight_updates [simp]:
  "flight items (s\<lparr> fw_w := w \<rparr>) = flight items s"
  "flight items (s\<lparr> fw_log := l \<rparr>) = flight items s"
  "flight items (s\<lparr> command_sequence := n \<rparr>) = flight items s"
  "flight items (s\<lparr> recovery_escalation_count := n \<rparr>) = flight items s"
  by (simp_all add: flight_def)

lemma in_hand_object:
  assumes "in_hand items cap free p s"
  shows "in_hand items cap free p (s\<lparr> fw_obj := (fw_obj s)(p := c) \<rparr>)"
    and "flight items (s\<lparr> fw_obj := (fw_obj s)(p := c) \<rparr>) = flight items s"
  using in_hand_frame(1) [OF assms, where c = c and l = "fw_log s" and w = "fw_w s"]
    in_hand_frame(2) [OF assms, where c = c and l = "fw_log s" and w = "fw_w s"] assms
  by (simp_all add: in_hand_def)

lemma emit_in_hand:
  assumes "in_hand items cap free p s"
  obtains s' l w where "emit z i c g a0 a1 a2 v s = Some s'" "in_hand items cap free p s'"
    "flight items s' = flight items s" "s' = s\<lparr> fw_log := l, fw_w := w \<rparr>"
proof -
  have log: "log_ok (fw_log s)" using assms by (simp add: in_hand_def)
  obtain l w where e: "vams_event_emit (z_board z) (z_evq z) i c g a0 a1 a2 v (fw_log s) (fw_w s) =
      Some (l, w)" "log_ok l"
    using event_emit_okE [OF log] .
  with assms show ?thesis
    by (intro that [where s' = "s\<lparr> fw_log := l, fw_w := w \<rparr>" and l = l and w = w]) (simp_all add: emit_def in_hand_def)
qed

lemma note_in_hand:
  assumes "in_hand items cap free p s"
    and "f (log_record (fw_log s)) (fw_w s) = Some (r, w)" "retained_wf r"
  obtains s' l w where "note_retained f s = Some s'" "in_hand items cap free p s'"
    "flight items s' = flight items s" "s' = s\<lparr> fw_log := l, fw_w := w \<rparr>"
  using assms
  by (intro that [where s' = "s\<lparr> fw_log := (fw_log s)\<lparr> log_record := r \<rparr>, fw_w := w \<rparr>"
        and l = "(fw_log s)\<lparr> log_record := r \<rparr>" and w = w])
     (simp_all add: note_retained_def in_hand_def log_ok_def)

text \<open>Returning the object in hand to the pool.\<close>

lemma release_in_hand:
  fixes c :: vams_command_object
  assumes "in_hand items cap free p s"
  defines "s' \<equiv> s\<lparr> fw_obj := (fw_obj s)(p := c), fw_pool := k_mem_slab_free (z_slab z) p (fw_pool s),
      command_objects_in_use := command_objects_in_use s - 1 \<rparr>"
  shows "fw_inv items cap free s'" "flight items s' = flight items s"
proof -
  note rel = owned_release [of "fw_obj s" At_Rx p "held items s" "free (fw_pool s)"]
  have own: "owned (fw_obj s) (add_mset (At_Rx, p) (held items s)) (free (fw_pool s))"
    using assms(1) by (simp add: in_hand_def)
  from rel(2) [OF own] have "free (k_mem_slab_free (z_slab z) p (fw_pool s)) = insert p (free (fw_pool s))"
    by (rule pool.free_block)
  with rel(1) [OF own] assms(1) show "fw_inv items cap free s'"
    by (simp add: fw_inv_def in_hand_def s'_def)
  show "flight items s' = flight items s"
    using rel(3) [OF own] by (simp add: flight_def s'_def)
qed

subsection \<open>The receiver\<close>

lemma receiver_poll_advances:
  assumes "fw_inv items cap free s" "fw_rx s = Rx_Loop"
  shows "advances s (Some (Tau, receiver_poll z s))"
proof -
  let ?b = "z_board z"
  obtain pending w where p: "vams_command_pending ?b (fw_w s) = (pending, w)" by fastforce
  obtain pending2 w2 where p2: "vams_command_pending ?b w = (pending2, w2)" by fastforce
  obtain r pool' where alloc: "k_mem_slab_alloc (z_slab z) (fw_pool s) = (r, pool')" by fastforce
  have fill: "fw_sched s = Sched_Fill \<longrightarrow> fw_sched_ready s \<noteq> []" using assms(1) by (simp add: fw_inv_def)
  show ?thesis
  proof (cases "vams_command_admission_allowed pending (k_mem_slab_num_free_get (z_slab z) (fw_pool s))")
    case False
    with p p2 fill inv_log [OF assms(1)] show ?thesis
      by (intro inv_same [OF assms(1)]) (simp_all add: receiver_poll_def Let_def)
  next
    case True
    from alloc show ?thesis
    proof (rule pool.allocE)
      fix q assume q: "r = Inr q" "q \<in> free (fw_pool s)" "free pool' = free (fw_pool s) - {q}"
      let ?s = "receiver_poll z s"
      have s': "?s = (vams_task_progress 3 s)\<lparr> fw_pool := pool', fw_w := w,
          command_objects_in_use := command_objects_in_use s + 1,
          command_pool_high_water := vams_record_high_water []
            (command_objects_in_use s + 1) (command_pool_high_water (vams_task_progress 3 s)),
          fw_rx := Rx_Capture q \<rparr>"
        using True p alloc q(1) by (simp add: receiver_poll_def Let_def)
      have held: "held items ?s = add_mset (At_Rx, q) (held items s)"
        using assms(2) by (simp add: s' held_def vams_task_progress_def)
      from owned_alloc [of "fw_obj s" "held items s" "free (fw_pool s)" q] q(2,3) assms(1)
      have "fw_inv items cap free ?s" "flight items ?s = flight items s"
        unfolding fw_inv_def flight_def held by (simp_all add: s' ac_simps)
      then show ?thesis by (simp add: advances_def)
    next
      assume "r = Inl ENOMEM" "free (fw_pool s) = {}" "free pool' = {}"
      with True p alloc fill inv_log [OF assms(1)] show ?thesis
        by (intro inv_same [OF assms(1)]) (simp_all add: receiver_poll_def Let_def)
    qed
  qed
qed

lemma receive_nowait: "\<exists>r w'. vams_command_receive 1 b 0 w = Some (r, w')"
proof -
  obtain p w1 where "portal_poll b VAMS_COMMAND_H2F_PENDING (portal_take_submission b) 0 w = (p, w1)"
    by fastforce
  moreover from this have "p \<noteq> Waiting"
    by (auto simp: portal_poll_def Let_def split: prod.splits if_splits)
  ultimately show ?thesis
    by (cases p) (simp_all add: vams_command_receive_def sys_timepoint_calc_def)
qed

lemma receiver_capture_advances:
  assumes "fw_inv items cap free s" "fw_rx s = Rx_Capture p"
  shows "advances s (receiver_capture z p s)"
proof -
  let ?b = "z_board z"
  let ?s0 = "s\<lparr> fw_rx := Rx_Loop \<rparr>"
  let ?s1 = "?s0\<lparr> fw_obj := (fw_obj ?s0)(p := zero_command) \<rparr>"
  have "held items s = add_mset (At_Rx, p) (held items ?s0)"
    using assms(2) by (simp add: held_def)
  note hand = take_in_hand [OF assms(1) this]
  have s0: "in_hand items cap free p ?s0" "flight items s = flight items ?s0"
    using assms(1) by (intro hand(1); simp add: fw_inv_def) (use hand(2) assms(1) in \<open>simp add: fw_inv_def\<close>)
  note s1 = in_hand_object [OF s0(1), of zero_command]
  obtain r w where rcv: "vams_command_receive 1 ?b 0 (fw_w s) = Some (r, w)"
    using receive_nowait [of ?b "fw_w s"] by blast
  show ?thesis
  proof (cases r)
    case (Inl e)
    let ?s2 = "?s1\<lparr> fw_w := w \<rparr>"
    have s2: "in_hand items cap free p ?s2" using s1 by simp
    have "receiver_capture z p s = Some (Tau, ?s2\<lparr> fw_obj := (fw_obj ?s2)(p := zero_command),
        fw_pool := k_mem_slab_free (z_slab z) p (fw_pool ?s2),
        command_objects_in_use := command_objects_in_use ?s2 - 1 \<rparr>)"
      using Inl rcv by (simp add: receiver_capture_def Let_def)
    with release_in_hand [OF s2, of zero_command] s0(2) s1(2) show ?thesis
      by (simp add: advances_def)
  next
    case (Inr sub)
    let ?c = "zero_command\<lparr> co_submission := sub \<rparr>"
    let ?s2 = "?s0\<lparr> fw_obj := (fw_obj ?s0)(p := ?c) \<rparr>"
    let ?s3 = "?s2\<lparr> fw_w := w, command_sequence := command_sequence s + 1 \<rparr>"
    have s3: "in_hand items cap free p ?s3" "flight items ?s3 = flight items s"
      using in_hand_object [OF s0(1), of ?c] s0(2) by simp_all
    have log: "log_ok (fw_log ?s3)" using s3(1) by (simp add: in_hand_def)
    have free_state: "co_state (fw_obj ?s3 p) = VAMS_COMMAND_FREE" by (simp add: zero_command_def)
    obtain c l w' where cap: "vams_scheduler_capture ?b (z_evq z) (command_generation ?s3)
        (command_sequence ?s3) (k_uptime_get ?b w) (fw_obj ?s3 p, fw_log ?s3, fw_w ?s3) = Some (c, l, w')"
      "log_ok l" "co_state c = VAMS_COMMAND_SUBMITTED" "co_submission c = co_submission (fw_obj ?s3 p)"
      "co_publication_count c = 0"
      using capture_ok [OF log free_state] by metis
    obtain s4 where s4: "on_object p (vams_scheduler_capture ?b (z_evq z) (command_generation ?s3)
        (command_sequence ?s3) (k_uptime_get ?b w)) ?s3 = Some s4" "in_hand items cap free p s4"
      "fw_obj s4 p = c" "flight items s4 = flight items ?s3"
      using on_object_in_hand [where f = "vams_scheduler_capture ?b (z_evq z) (command_generation ?s3)
        (command_sequence ?s3) (k_uptime_get ?b w)", OF s3(1) cap(1,2)] by metis
    have "retained_wf (log_record (fw_log s4))" using s4(2) by (simp add: in_hand_def log_ok_def)
    then obtain rec w4 where nt: "vams_retained_note_command ?b (sub_command_id sub)
        (command_generation s4) (log_record (fw_log s4)) (fw_w s4) = Some (rec, w4)" "retained_wf rec"
      using retained_apply_ok [of "log_record (fw_log s4)" ?b
          "Note_Command (sub_command_id sub) (command_generation s4)" "fw_w s4"] by auto
    obtain s5 l5 w5 where s5: "note_retained (vams_retained_note_command ?b (sub_command_id sub)
        (command_generation s4)) s4 = Some s5" "in_hand items cap free p s5"
      "flight items s5 = flight items s4" "s5 = s4\<lparr> fw_log := l5, fw_w := w5 \<rparr>"
      using note_in_hand [where f = "vams_retained_note_command ?b (sub_command_id sub)
        (command_generation s4)", OF s4(2) nt] by metis
    have obj5: "fw_obj s5 p = c" using s4(3) s5(4) by simp
    then have "place_ok At_Validation (fw_obj s5 p)" using cap by simp
    then obtain s6 where s6: "queue_validation z p s5 = Some s6" "fw_inv items cap free s6"
      "flight items s6 = add_mset (co_submission (fw_obj s5 p)) (flight items s5)"
      using queue_validation_in_hand [OF s5(2)] by metis
    have "receiver_capture z p s = Some (Admit sub, s6)"
      using rcv Inr s4(1) s5(1) s6(1) by (simp add: receiver_capture_def Let_def)
    moreover have "flight items s6 = add_mset sub (flight items s)"
      using s6(3) s5(3) s4(4) s3(2) obj5 cap(4) by simp
    ultimately show ?thesis using s6(2) by (simp add: advances_def)
  qed
qed

lemma receiver_advances:
  assumes "fw_inv items cap free s"
  shows "advances s (fw_task z Receiver s)"
  using assms receiver_poll_advances receiver_capture_advances
  by (cases "fw_rx s") (simp_all add: vams_command_receiver_def)

subsection \<open>The validator\<close>

lemma execute_outcome:
  "echoes sub (vams_command_execute sub t)"
  "cpl_status (vams_command_execute sub t) = VAMS_STATUS_SUCCESS \<longleftrightarrow>
     vams_validate_command sub = VAMS_ERR_NONE"
  by (simp_all add: vams_command_execute_def echoes_def Let_def vams_const)

lemma validator_work_advances:
  assumes "fw_inv items cap free s" "fw_val s = Val_Work p"
  shows "advances s (map_option (\<lambda>s. (Tau, s)) (validator_work z p s))"
proof -
  let ?b = "z_board z"
  let ?s0 = "s\<lparr> fw_val := Val_Loop \<rparr>"
  have held: "held items s = add_mset (At_Validation, p) (held items ?s0)"
    using assms(2) by (simp add: held_def)
  have ok: "place_ok At_Validation (fw_obj s p)"
    using inv_place [OF assms(1), of At_Validation p] held by simp
  note hand = take_in_hand [OF assms(1) held]
  have s0: "in_hand items cap free p ?s0"
    "flight items s = add_mset (co_submission (fw_obj s p)) (flight items ?s0)"
    using assms(1) by (intro hand(1); simp add: fw_inv_def) (use hand(2) assms(1) in \<open>simp add: fw_inv_def\<close>)
  have st: "co_state (fw_obj ?s0 p) = VAMS_COMMAND_SUBMITTED" using ok by simp
  obtain s1 where s1: "on_object p (vams_scheduler_transition ?b (z_evq z) VAMS_COMMAND_SUBMITTED
      VAMS_COMMAND_VALIDATING) ?s0 = Some s1" "in_hand items cap free p s1"
    "fw_obj s1 p = (fw_obj s p)\<lparr> co_state := VAMS_COMMAND_VALIDATING \<rparr>"
    "flight items s1 = flight items ?s0"
    by (rule transition_in_hand [OF s0(1) st, where b = ?b and eq = "z_evq z" and nxt = VAMS_COMMAND_VALIDATING]) simp
  let ?sub = "co_submission (fw_obj s p)"
  let ?cpl = "vams_command_execute ?sub (k_uptime_get ?b (fw_w s1))"
  let ?c = "(fw_obj s1 p)\<lparr> co_completion := ?cpl \<rparr>"
  let ?s2 = "s1\<lparr> fw_obj := (fw_obj s1)(p := ?c) \<rparr>"
  note s2 = in_hand_object [OF s1(2), of ?c]
  have st2: "co_state (fw_obj ?s2 p) = VAMS_COMMAND_VALIDATING" by (simp add: s1(3))
  show ?thesis
  proof (cases "cpl_status ?cpl = VAMS_STATUS_SUCCESS")
    case True
    obtain s3 where s3: "on_object p (vams_scheduler_transition ?b (z_evq z) VAMS_COMMAND_VALIDATING
        VAMS_COMMAND_QUEUED) ?s2 = Some s3" "in_hand items cap free p s3"
      "fw_obj s3 p = ?c\<lparr> co_state := VAMS_COMMAND_QUEUED \<rparr>" "flight items s3 = flight items ?s2"
      by (rule transition_in_hand [OF s2(1) st2, where b = ?b and eq = "z_evq z" and nxt = VAMS_COMMAND_QUEUED]) simp
    have "place_ok At_Queued (fw_obj s3 p)"
      using True ok execute_outcome [of ?sub] by (simp add: s3(3) s1(3))
    then obtain s4 where "queue_ready z p s3 = Some s4" "fw_inv items cap free s4"
      "flight items s4 = add_mset (co_submission (fw_obj s3 p)) (flight items s3)"
      using queue_ready_in_hand [OF s3(2)] by metis
    with s1 s2 s3 s0(2) True show ?thesis
      by (simp add: validator_work_def Let_def advances_def)
  next
    case False
    obtain s3 where s3: "on_object p (vams_scheduler_transition ?b (z_evq z) VAMS_COMMAND_VALIDATING
        VAMS_COMMAND_COMPLETED_ERROR) ?s2 = Some s3" "in_hand items cap free p s3"
      "fw_obj s3 p = ?c\<lparr> co_state := VAMS_COMMAND_COMPLETED_ERROR \<rparr>" "flight items s3 = flight items ?s2"
      by (rule transition_in_hand [OF s2(1) st2, where b = ?b and eq = "z_evq z" and nxt = VAMS_COMMAND_COMPLETED_ERROR]) simp
    have "place_ok At_Done (fw_obj s3 p)"
      using False ok execute_outcome [of ?sub] by (simp add: s3(3) s1(3))
    then obtain s4 where "queue_completion z p s3 = Some s4" "fw_inv items cap free s4"
      "flight items s4 = add_mset (co_submission (fw_obj s3 p)) (flight items s3)"
      using queue_completion_in_hand [OF s3(2)] by metis
    with s1 s2 s3 s0(2) False show ?thesis
      by (simp add: validator_work_def Let_def advances_def)
  qed
qed

lemma validator_advances:
  assumes "fw_inv items cap free s"
  shows "advances s (fw_task z Validator s)"
proof (cases "fw_val s")
  case Val_Loop
  have fill: "fw_sched s = Sched_Fill \<longrightarrow> fw_sched_ready s \<noteq> []" using assms by (simp add: fw_inv_def)
  obtain r q where get: "k_msgq_get (z_cmdq z) True (fw_validation s) = (r, q)" by fastforce
  then show ?thesis
  proof (rule cmdq.getE)
    fix p assume "items (fw_validation s) = p # items q" "r = Inr p" "cap q = cap (fw_validation s)"
    with get Val_Loop fill inv_log [OF assms] show ?thesis
      by (simp add: vams_command_validator_def Let_def)
         (intro inv_same [OF assms]; simp add: held_def vams_task_progress_def)
  next
    assume "items (fw_validation s) = []" "items q = []"
      "r = Inl (if True then EAGAIN else ENOMSG)" "cap q = cap (fw_validation s)"
    with get Val_Loop fill inv_log [OF assms] show ?thesis
      by (simp add: vams_command_validator_def Let_def)
         (intro inv_same [OF assms]; simp add: held_def vams_task_progress_def)
  qed
next
  case (Val_Work p)
  with validator_work_advances [OF assms] show ?thesis
    by (simp add: vams_command_validator_def)
qed

subsection \<open>The scheduler\<close>

lemma failure_in_hand:
  assumes "in_hand items cap free p s"
    and "\<exists>l w. log_ok l \<and> f (fw_obj s p, fw_log s, fw_w s) =
      Some ((co_set_failure st er ts (fw_obj s p))\<lparr> co_state := n \<rparr>, l, w)"
  obtains s' l w where "on_object p f s = Some s'" "in_hand items cap free p s'"
    "fw_obj s' p = (co_set_failure st er ts (fw_obj s p))\<lparr> co_state := n \<rparr>"
    "flight items s' = flight items s"
    "s' = s\<lparr> fw_obj := (fw_obj s)(p := (co_set_failure st er ts (fw_obj s p))\<lparr> co_state := n \<rparr>),
      fw_log := l, fw_w := w \<rparr>"
proof -
  obtain l w where f: "f (fw_obj s p, fw_log s, fw_w s) =
      Some ((co_set_failure st er ts (fw_obj s p))\<lparr> co_state := n \<rparr>, l, w)" "log_ok l"
    using assms(2) by blast
  show ?thesis by (rule on_object_in_hand [where f = f, OF assms(1) f]) (rule that)
qed

lemma scheduler_dispatch_advances:
  assumes "fw_inv items cap free s" "fw_sched s = Sched_Dispatch p"
  shows "advances s (map_option (\<lambda>s. (Tau, s)) (scheduler_dispatch z p s))"
proof -
  let ?b = "z_board z" and ?c = "fw_obj s p"
  let ?s0 = "s\<lparr> fw_sched := Sched_Loop \<rparr>"
  let ?now = "k_uptime_get ?b (fw_w s)"
  have held: "held items s = add_mset (At_Queued, p) (held items ?s0)"
    using assms(2) by (simp add: held_def)
  have ok: "place_ok At_Queued ?c" using inv_place [OF assms(1), of At_Queued p] held by simp
  note hand = take_in_hand [OF assms(1) held]
  have s0: "in_hand items cap free p ?s0"
    "flight items s = add_mset (co_submission ?c) (flight items ?s0)"
    using assms(1) by (intro hand(1); simp add: fw_inv_def) (use hand(2) assms(1) in \<open>simp add: fw_inv_def\<close>)
  have log0: "log_ok (fw_log ?s0)" using s0(1) by (simp add: in_hand_def)
  have st: "co_state (fw_obj ?s0 p) = VAMS_COMMAND_QUEUED" using ok by simp
  have finish: "advances s (map_option (\<lambda>s. (Tau, s)) (queue_completion z p s'))"
    if "in_hand items cap free p s'" "place_ok At_Done (fw_obj s' p)"
      "flight items s' = flight items ?s0" "co_submission (fw_obj s' p) = co_submission ?c" for s'
    using queue_completion_in_hand [OF that(1,2)] that(3,4) s0(2) by (auto simp: advances_def)
  show ?thesis
  proof (cases "co_generation ?c = command_generation s")
    case False
    obtain s1 where s1: "on_object p (vams_scheduler_cancel ?b (z_evq z) ?now) ?s0 = Some s1"
      "in_hand items cap free p s1" "fw_obj s1 p = (co_set_failure VAMS_STATUS_RESET VAMS_ERR_RESET ?now ?c)
        \<lparr> co_state := VAMS_COMMAND_CANCELLED \<rparr>" "flight items s1 = flight items ?s0"
      by (rule failure_in_hand [where f = "vams_scheduler_cancel ?b (z_evq z) ?now", OF s0(1)
            failure_op_ok(2) [OF log0 st]]) simp
    have "place_ok At_Done (fw_obj s1 p)"
      using ok by (simp add: s1(3) echoes_def) (simp add: co_set_failure_def vams_const)
    from finish [OF s1(2) this s1(4)] s1 False show ?thesis
      by (simp add: scheduler_dispatch_def Let_def)
  next
    case gen: True
    show ?thesis
    proof (cases "vams_scheduler_deadline_expired ?c ?now")
      case True
      obtain s1 where s1: "on_object p (vams_scheduler_transition ?b (z_evq z) VAMS_COMMAND_QUEUED
          VAMS_COMMAND_ABORTING) ?s0 = Some s1" "in_hand items cap free p s1"
        "fw_obj s1 p = ?c\<lparr> co_state := VAMS_COMMAND_ABORTING \<rparr>" "flight items s1 = flight items ?s0"
        by (rule transition_in_hand [OF s0(1) st, where b = ?b and eq = "z_evq z" and nxt = VAMS_COMMAND_ABORTING]) simp
      let ?t = "k_uptime_get ?b (fw_w s1)"
      have log1: "log_ok (fw_log s1)" and st1: "co_state (fw_obj s1 p) = VAMS_COMMAND_ABORTING"
        using s1(2,3) by (simp_all add: in_hand_def)
      obtain s2 where s2: "on_object p (vams_scheduler_timeout ?b (z_evq z) ?t) s1 = Some s2"
        "in_hand items cap free p s2" "fw_obj s2 p = (co_set_failure VAMS_STATUS_TIMED_OUT
          VAMS_ERR_TIMEOUT ?t (fw_obj s1 p))\<lparr> co_state := VAMS_COMMAND_COMPLETED_ERROR \<rparr>"
        "flight items s2 = flight items s1"
        by (rule failure_in_hand [where f = "vams_scheduler_timeout ?b (z_evq z) ?t", OF s1(2)
              failure_op_ok(1) [OF log1 st1]]) simp
      have "place_ok At_Done (fw_obj s2 p)"
        using ok by (simp add: s2(3) s1(3) echoes_def) (simp add: co_set_failure_def vams_const)
      from finish [OF s2(2) this] s1 s2 gen True show ?thesis
        by (simp add: scheduler_dispatch_def Let_def)
    next
      case False
      obtain s1 l w where s1: "on_object p (vams_scheduler_transition ?b (z_evq z) VAMS_COMMAND_QUEUED
          VAMS_COMMAND_RUNNING) ?s0 = Some s1" "in_hand items cap free p s1"
        "fw_obj s1 p = ?c\<lparr> co_state := VAMS_COMMAND_RUNNING \<rparr>" "flight items s1 = flight items ?s0"
        "s1 = ?s0\<lparr> fw_obj := (fw_obj ?s0)(p := (fw_obj ?s0 p)\<lparr> co_state := VAMS_COMMAND_RUNNING \<rparr>),
          fw_log := l, fw_w := w \<rparr>"
        by (rule transition_in_hand [OF s0(1) st, where b = ?b and eq = "z_evq z" and nxt = VAMS_COMMAND_RUNNING]) simp
      show ?thesis
      proof (cases "vams_is_payload_opcode (sub_opcode (co_submission ?c))")
        case True
        let ?s2 = "s1\<lparr> fw_sched := Sched_Publish p
            (k_uptime_get ?b (fw_w s1) + VAMS_COMPLETION_PUBLISH_TIMEOUT_MS) \<rparr>"
        have run: "place_ok At_Running (fw_obj s1 p)" using ok True by (simp add: s1(3))
        have held2: "held items ?s2 = add_mset (At_Running, p) (held items s1)"
          by (simp add: s1(5) held_def)
        have "fw_inv items cap free ?s2"
          "flight items ?s2 = add_mset (co_submission (fw_obj s1 p)) (flight items s1)"
          by (rule hand_over [OF s1(2) run _ held2]; simp)+
        with s1 s0(2) gen False True show ?thesis
          by (simp add: scheduler_dispatch_def Let_def advances_def)
      next
        case no_payload: False
        have "co_state (fw_obj s1 p) = VAMS_COMMAND_RUNNING" by (simp add: s1(3))
        from transition_in_hand [OF s1(2) this, where b = ?b and eq = "z_evq z"]
        obtain s2 where s2: "on_object p (vams_scheduler_transition ?b (z_evq z) VAMS_COMMAND_RUNNING
            VAMS_COMMAND_COMPLETED) s1 = Some s2" "in_hand items cap free p s2"
          "fw_obj s2 p = (fw_obj s1 p)\<lparr> co_state := VAMS_COMMAND_COMPLETED \<rparr>"
          "flight items s2 = flight items s1" by metis
        have "place_ok At_Done (fw_obj s2 p)" using ok by (simp add: s2(3) s1(3))
        from finish [OF s2(2) this] s1(1,3,4) s2 gen False no_payload show ?thesis
          by (simp add: scheduler_dispatch_def Let_def)
      qed
    qed
  qed
qed

lemma publish_poll_cases:
  assumes "publish_poll z c d s = (r, s')"
  obtains (published) w where "r = Published" "s' = s\<lparr> fw_w := w \<rparr>"
  | (stalled) w n where "r = Stalled" "s' = s\<lparr> fw_w := w, portal_stall_count := n \<rparr>"
  | (retry) w where "r = Retry" "s' = s\<lparr> fw_w := w \<rparr>"
proof -
  obtain st w where c: "vams_command_complete (z_board z) c (fw_w s) = (st, w)" by fastforce
  consider "st \<noteq> RC_ERR EBUSY" | "st = RC_ERR EBUSY" "k_uptime_get (z_board z) w \<ge> d"
    | "st = RC_ERR EBUSY" "\<not> k_uptime_get (z_board z) w \<ge> d" by blast
  then show ?thesis
  proof cases
    case 1
    with assms c show ?thesis by (intro published [of w]) (simp_all add: publish_poll_def)
  next
    case 2
    with assms c show ?thesis
      by (intro stalled [where w = w and n = "vams_saturating_atomic_inc [] (portal_stall_count s)"])
         (simp_all add: publish_poll_def)
  next
    case 3
    with assms c show ?thesis
      by (intro retry [of "k_sleep_ms (z_board z) 1 w"]) (simp_all add: publish_poll_def)
  qed
qed

text \<open>
  The scheduler's hand-over to the running queue: it succeeds when the queue is empty, and fails its
  assertion when the queue is full and the portal has taken the dispatch.
\<close>

lemma scheduler_publish_advances:
  assumes "fw_inv items cap free s" "fw_sched s = Sched_Publish p d"
    and "items (fw_running s) = [] \<or>
      fst (publish_poll z (co_completion (fw_obj s p)) d s) \<noteq> Published"
  shows "advances s (scheduler_publish z p d s)"
proof -
  let ?cpl = "co_completion (fw_obj s p)"
  obtain r s1 where poll: "publish_poll z ?cpl d s = (r, s1)" by fastforce
  have fill: "fw_sched s = Sched_Fill \<longrightarrow> fw_sched_ready s \<noteq> []" using assms(1) by (simp add: fw_inv_def)
  from poll show ?thesis
  proof (rule publish_poll_cases)
    fix w assume "r = Retry" "s1 = s\<lparr> fw_w := w \<rparr>"
    with poll fill inv_log [OF assms(1)] show ?thesis
      by (simp add: scheduler_publish_def Let_def) (intro inv_same [OF assms(1)]; simp)
  next
    fix w n assume "r = Stalled" "s1 = s\<lparr> fw_w := w, portal_stall_count := n \<rparr>"
    with poll inv_log [OF assms(1)] show ?thesis
      by (simp add: scheduler_publish_def Let_def vams_request_overload_reset_def)
         (intro inv_same [OF assms(1)]; simp add: held_def assms(2))
  next
    fix w assume pub: "r = Published" "s1 = s\<lparr> fw_w := w \<rparr>"
    let ?s2 = "s1\<lparr> fw_sched := Sched_Loop \<rparr>"
    have held: "held items s = add_mset (At_Running, p) (held items ?s2)"
      using assms(2) pub(2) by (simp add: held_def)
    have ok: "place_ok At_Running (fw_obj s p)" using inv_place [OF assms(1), of At_Running p] held by simp
    note hand = take_in_hand [OF assms(1) held]
    have s2: "in_hand items cap free p ?s2"
      "flight items s = add_mset (co_submission (fw_obj s p)) (flight items ?s2)"
      using assms(1) pub(2)
      by (intro hand(1); simp add: fw_inv_def) (use hand(2) assms(1) pub(2) in \<open>simp add: fw_inv_def\<close>)
    have "items (fw_running ?s2) = []" "place_ok At_Running (fw_obj ?s2 p)"
      using assms(3) poll pub ok by simp_all
    then obtain s3 where s3: "queue_running z p ?s2 = Some s3" "fw_inv items cap free s3"
      "flight items s3 = add_mset (co_submission (fw_obj ?s2 p)) (flight items ?s2)"
      using queue_running_in_hand [OF s2(1)] by metis
    have "scheduler_publish z p d s = Some (Dispatch ?cpl, s3)"
      using poll pub(1) s3(1) by (simp add: scheduler_publish_def Let_def)
    moreover have "flight items s3 = flight items s" using s3(3) s2(2) pub(2) by simp
    moreover have "co_submission (fw_obj s p) \<in># flight items s"
      "dispatches (co_submission (fw_obj s p)) ?cpl"
      using s2(2) ok by (simp_all add: dispatches_def)
    ultimately show ?thesis using s3(2) by (auto simp: advances_def)
  qed
qed

lemma scheduler_publish_faults:
  assumes "fw_inv items cap free s" "fw_sched s = Sched_Publish p d" "items (fw_running s) \<noteq> []"
    and "fst (publish_poll z (co_completion (fw_obj s p)) d s) = Published"
  shows "scheduler_publish z p d s = None"
proof -
  obtain r s1 where poll: "publish_poll z (co_completion (fw_obj s p)) d s = (r, s1)" by fastforce
  have "fw_running s1 = fw_running s" by (rule publish_poll_cases [OF poll]) simp_all
  then have "queue_running z p (s1\<lparr> fw_sched := Sched_Loop \<rparr>) = None"
    using assms(1,3) by (intro queue_running_full) (simp_all add: fw_inv_def)
  with poll assms(4) show ?thesis by (simp add: scheduler_publish_def Let_def)
qed

lemma pick_held:
  assumes "fw_sched_ready s \<noteq> []" "fw_sched s = Sched_Fill"
  shows "held items (scheduler_pick s) = held items s"
proof -
  obtain c rest where take: "scheduler_take (fw_obj s) (fw_sched_ready s) = (c, rest)" by fastforce
  have "mset (fw_sched_ready s) = add_mset c (mset rest)"
    by (rule scheduler_take_mset [OF assms(1) take])
  with take assms(2) show ?thesis by (simp add: scheduler_pick_def held_def)
qed

lemma pick_simps:
  "fw_obj (scheduler_pick s) = fw_obj s" "fw_log (scheduler_pick s) = fw_log s"
  "fw_pool (scheduler_pick s) = fw_pool s" "fw_validation (scheduler_pick s) = fw_validation s"
  "fw_ready (scheduler_pick s) = fw_ready s" "fw_running (scheduler_pick s) = fw_running s"
  "fw_completion (scheduler_pick s) = fw_completion s"
  "command_objects_in_use (scheduler_pick s) = command_objects_in_use s"
  "fw_sched (scheduler_pick s) \<noteq> Sched_Fill"
  by (simp_all add: scheduler_pick_def Let_def case_prod_beta)

lemma scheduler_advances:
  assumes "fw_inv items cap free s"
    and "\<And>p d. fw_sched s = Sched_Publish p d \<Longrightarrow> items (fw_running s) = [] \<or>
      fst (publish_poll z (co_completion (fw_obj s p)) d s) \<noteq> Published"
  shows "advances s (fw_task z Scheduler s)"
proof (cases "fw_sched s")
  case Sched_Loop
  obtain r q where get: "k_msgq_get (z_cmdq z) True (fw_ready s) = (r, q)" by fastforce
  show ?thesis
  proof (cases "fw_sched_ready s = []")
    case True
    from get show ?thesis
    proof (rule cmdq.getE)
      fix p assume "items (fw_ready s) = p # items q" "r = Inr p" "cap q = cap (fw_ready s)"
      with get Sched_Loop True inv_log [OF assms(1)] show ?thesis
        by (simp add: vams_command_scheduler_def Let_def)
           (intro inv_same [OF assms(1)]; simp add: held_def vams_task_progress_def)
    next
      assume "items (fw_ready s) = []" "items q = []"
        "r = Inl (if True then EAGAIN else ENOMSG)" "cap q = cap (fw_ready s)"
      with get Sched_Loop True inv_log [OF assms(1)] show ?thesis
        by (simp add: vams_command_scheduler_def Let_def)
           (intro inv_same [OF assms(1)]; simp add: held_def vams_task_progress_def)
    qed
  next
    case False
    with Sched_Loop inv_log [OF assms(1)] show ?thesis
      by (simp add: vams_command_scheduler_def Let_def)
         (intro inv_same [OF assms(1)]; simp add: held_def vams_task_progress_def)
  qed
next
  case Sched_Fill
  then have ready: "fw_sched_ready s \<noteq> []" using assms(1) by (simp add: fw_inv_def)
  obtain r q where get: "k_msgq_get (z_cmdq z) False (fw_ready s) = (r, q)" by fastforce
  show ?thesis
  proof (cases "length (fw_sched_ready s) < VAMS_COMMAND_POOL_SIZE")
    case True
    from get show ?thesis
    proof (rule cmdq.getE)
      fix p assume "items (fw_ready s) = p # items q" "r = Inr p" "cap q = cap (fw_ready s)"
      with get Sched_Fill True inv_log [OF assms(1)] show ?thesis
        by (simp add: vams_command_scheduler_def)
           (intro inv_same [OF assms(1)]; simp add: held_def)
    next
      assume q: "items (fw_ready s) = []" "items q = []"
        "r = Inl (if False then EAGAIN else ENOMSG)" "cap q = cap (fw_ready s)"
      let ?s = "s\<lparr> fw_ready := q \<rparr>"
      have "held items ?s = held items s" using q by (simp add: held_def)
      with pick_held [of ?s] ready Sched_Fill have "held items (scheduler_pick ?s) = held items s" by simp
      with get q Sched_Fill True inv_log [OF assms(1)] show ?thesis
        by (simp add: vams_command_scheduler_def)
           (intro inv_same [OF assms(1)]; simp add: pick_simps)
    qed
  next
    case False
    with Sched_Fill ready inv_log [OF assms(1)] show ?thesis
      by (simp add: vams_command_scheduler_def)
         (intro inv_same [OF assms(1)]; simp add: pick_simps pick_held)
  qed
next
  case (Sched_Dispatch p)
  with scheduler_dispatch_advances [OF assms(1)] show ?thesis by (simp add: vams_command_scheduler_def)
next
  case (Sched_Publish p d)
  with scheduler_publish_advances [OF assms(1)] assms(2) show ?thesis
    by (simp add: vams_command_scheduler_def)
next
  case (Sched_Parked p)
  with inv_log [OF assms(1)] show ?thesis
    by (simp add: vams_command_scheduler_def) (intro inv_same [OF assms(1)]; simp)
qed

subsection \<open>The recovery manager\<close>

lemma escalate_in_hand:
  assumes "in_hand items cap free p s"
    and "co_state (fw_obj s p) \<in> {VAMS_COMMAND_RUNNING, VAMS_COMMAND_ABORTING}"
    and "co_publication_count (fw_obj s p) = 0"
    and "echoes (co_submission (fw_obj s p)) (co_completion (fw_obj s p))"
  obtains s' where "on_object p (vams_scheduler_escalate b eq ts) s = Some s'"
    "in_hand items cap free p s'" "place_ok At_Done (fw_obj s' p)"
    "co_submission (fw_obj s' p) = co_submission (fw_obj s p)" "flight items s' = flight items s"
proof -
  have log: "log_ok (fw_log s)" using assms(1) by (simp add: in_hand_def)
  obtain s' where s': "on_object p (vams_scheduler_escalate b eq ts) s = Some s'"
    "in_hand items cap free p s'" "fw_obj s' p = (co_set_failure VAMS_STATUS_FAILED VAMS_ERR_ENGINE ts
      (fw_obj s p))\<lparr> co_state := VAMS_COMMAND_COMPLETED_ERROR \<rparr>" "flight items s' = flight items s"
    by (rule failure_in_hand [where f = "vams_scheduler_escalate b eq ts", OF assms(1)
          failure_op_ok(4) [OF log assms(2)]]) simp
  moreover have "place_ok At_Done (fw_obj s' p)"
    using assms(3,4) by (simp add: s'(3) echoes_def) (simp add: co_set_failure_def vams_const)
  ultimately show ?thesis by (intro that [of s']) simp_all
qed

lemma recovery_finish_advances:
  assumes "fw_inv items cap free s" "fw_rec s = Rec_Wait p d \<or> fw_rec s = Rec_Abort p d"
  shows "advances s (map_option (\<lambda>s. (Tau, s)) (recovery_finish z p result s))"
proof -
  let ?b = "z_board z" and ?c = "fw_obj s p"
  let ?s0 = "s\<lparr> fw_rec := Rec_Loop \<rparr>"
  obtain pl where pl: "pl = At_Running \<or> pl = At_Aborting"
    "held items s = add_mset (pl, p) (held items ?s0)"
  proof (cases "fw_rec s")
    case Rec_Loop
    with assms(2) show ?thesis by simp
  next
    case (Rec_Wait q e)
    with assms(2) show ?thesis by (intro that [of At_Running]) (simp_all add: held_def)
  next
    case (Rec_Abort q e)
    with assms(2) show ?thesis by (intro that [of At_Aborting]) (simp_all add: held_def)
  qed
  have ok: "place_ok pl ?c" using inv_place [OF assms(1), of pl p] pl(2) by simp
  note hand = take_in_hand [OF assms(1) pl(2)]
  have s0: "in_hand items cap free p ?s0" using assms(1) by (intro hand(1); simp add: fw_inv_def)
  have fl: "flight items s = add_mset (co_submission ?c) (flight items ?s0)"
    using hand(2) assms(1) pl(1) by (auto simp: fw_inv_def)
  have log: "log_ok (fw_log ?s0)" using s0 by (simp add: in_hand_def)
  have st: "co_state (fw_obj ?s0 p) \<in> {VAMS_COMMAND_RUNNING, VAMS_COMMAND_ABORTING}"
    "co_publication_count ?c = 0" "echoes (co_submission ?c) (co_completion ?c)"
    "vams_validate_command (co_submission ?c) = VAMS_ERR_NONE"
    using ok pl(1) by auto
  note apply_res = apply_result_ok [OF log st(1), where b = ?b and eq = "z_evq z" and w = "fw_w ?s0"
      and r = result]
  have finish: "advances s (map_option (\<lambda>s. (Tau, s)) (queue_completion z p s'))"
    if "in_hand items cap free p s'" "place_ok At_Done (fw_obj s' p)"
      "flight items s' = flight items ?s0" "co_submission (fw_obj s' p) = co_submission ?c" for s'
    using queue_completion_in_hand [OF that(1,2)] that(3,4) fl by (auto simp: advances_def)
  show ?thesis
  proof (cases "cpl_command_id result = sub_command_id (co_submission ?c) \<and>
      cpl_user_cookie result = sub_user_cookie (co_submission ?c)")
    case True
    let ?n = "if cpl_status result = VAMS_STATUS_SUCCESS then VAMS_COMMAND_COMPLETED
        else VAMS_COMMAND_COMPLETED_ERROR"
    let ?c1 = "?c\<lparr> co_completion := result, co_state := ?n \<rparr>"
    obtain l w where app: "log_ok l" "vams_scheduler_apply_result ?b (z_evq z) result
        (fw_obj ?s0 p, fw_log ?s0, fw_w ?s0) = Some (RC_OK, ?c1, l, w)"
      using apply_res True by auto
    let ?s1 = "?s0\<lparr> fw_obj := (fw_obj ?s0)(p := ?c1), fw_log := l, fw_w := w \<rparr>"
    have "in_hand items cap free p ?s1" "flight items ?s1 = flight items ?s0"
      by (rule in_hand_frame(2) [OF s0 app(1)], rule in_hand_frame(1) [OF s0])
    moreover have "place_ok At_Done (fw_obj ?s1 p)" using st True by (simp add: echoes_def)
    ultimately have "advances s (map_option (\<lambda>s. (Tau, s)) (queue_completion z p ?s1))"
      by (intro finish) simp_all
    with app(2) show ?thesis by (simp add: recovery_finish_def Let_def)
  next
    case False
    then have app: "vams_scheduler_apply_result ?b (z_evq z) result
        (fw_obj ?s0 p, fw_log ?s0, fw_w ?s0) = Some (RC_ERR EPROTO, fw_obj ?s0 p, fw_log ?s0, fw_w ?s0)"
      using apply_res by auto
    let ?s1 = "?s0\<lparr> recovery_escalation_count :=
      vams_saturating_atomic_inc [] (recovery_escalation_count s) \<rparr>"
    let ?t = "k_uptime_get ?b (fw_w s)"
    have s1: "in_hand items cap free p ?s1" using s0 by simp
    have c1: "co_state (fw_obj ?s1 p) \<in> {VAMS_COMMAND_RUNNING, VAMS_COMMAND_ABORTING}"
      "co_publication_count (fw_obj ?s1 p) = 0"
      "echoes (co_submission (fw_obj ?s1 p)) (co_completion (fw_obj ?s1 p))" using st by simp_all
    obtain s2 where s2: "on_object p (vams_scheduler_escalate ?b (z_evq z) ?t) ?s1 = Some s2"
      "in_hand items cap free p s2" "place_ok At_Done (fw_obj s2 p)"
      "co_submission (fw_obj s2 p) = co_submission (fw_obj ?s1 p)" "flight items s2 = flight items ?s1"
      by (rule escalate_in_hand [OF s1 c1, where b = ?b and eq = "z_evq z" and ts = ?t]) (rule that)
    obtain s3 l w where s3: "emit z VAMS_EVENT_RESULT_MISMATCH (sub_command_id (co_submission (fw_obj s2 p)))
        (co_generation (fw_obj s2 p)) 0 0 0 0 s2 = Some s3" "in_hand items cap free p s3"
      "flight items s3 = flight items s2" "s3 = s2\<lparr> fw_log := l, fw_w := w \<rparr>"
      using emit_in_hand [OF s2(2)] by metis
    have "fw_obj s3 = fw_obj s2" using s3(4) by simp
    then have "place_ok At_Done (fw_obj s3 p)" using s2(3) by (simp only:)
    from finish [OF s3(2) this] \<open>fw_obj s3 = fw_obj s2\<close> s2(4,5) s3(3)
    have "advances s (map_option (\<lambda>s. (Tau, s)) (queue_completion z p s3))" by simp
    with app s2(1) s3(1) show ?thesis by (simp add: recovery_finish_def Let_def)
  qed
qed

lemma recovery_abort_advances:
  assumes "fw_inv items cap free s" "fw_rec s = Rec_Wait p d"
  shows "advances s (map_option (\<lambda>s. (Tau, s)) (recovery_abort z p s))"
proof -
  let ?b = "z_board z" and ?c = "fw_obj s p"
  let ?s0 = "s\<lparr> fw_rec := Rec_Loop, recovery_attempt_count :=
    vams_saturating_atomic_inc [] (recovery_attempt_count s) \<rparr>"
  let ?t = "k_uptime_get ?b (fw_w s)"
  have held: "held items s = add_mset (At_Running, p) (held items ?s0)"
    using assms(2) by (simp add: held_def)
  have ok: "place_ok At_Running ?c" using inv_place [OF assms(1), of At_Running p] held by simp
  note hand = take_in_hand [OF assms(1) held]
  have s0: "in_hand items cap free p ?s0"
    "flight items s = add_mset (co_submission ?c) (flight items ?s0)"
    using assms(1) by (intro hand(1); simp add: fw_inv_def) (use hand(2) assms(1) in \<open>simp add: fw_inv_def\<close>)
  have log: "log_ok (fw_log ?s0)" using s0(1) by (simp add: in_hand_def)
  have st: "co_state (fw_obj ?s0 p) = VAMS_COMMAND_RUNNING" using ok by simp
  obtain s1 l w where s1: "on_object p (vams_scheduler_begin_abort ?b (z_evq z) ?t) ?s0 = Some s1"
    "in_hand items cap free p s1" "fw_obj s1 p = (co_set_failure VAMS_STATUS_TIMED_OUT VAMS_ERR_TIMEOUT ?t
      ?c)\<lparr> co_state := VAMS_COMMAND_ABORTING \<rparr>" "flight items s1 = flight items ?s0" "fw_rec s1 = Rec_Loop"
    by (rule failure_in_hand [where f = "vams_scheduler_begin_abort ?b (z_evq z) ?t", OF s0(1)
          failure_op_ok(3) [OF log st]]) simp
  obtain s2 l2 w2 where s2: "emit z VAMS_EVENT_ABORT_REQUEST (sub_command_id (co_submission (fw_obj s1 p)))
      (co_generation (fw_obj s1 p)) (recovery_attempt_count s1) 0 0 0 s1 = Some s2"
    "in_hand items cap free p s2" "flight items s2 = flight items s1" "s2 = s1\<lparr> fw_log := l2, fw_w := w2 \<rparr>"
    using emit_in_hand [OF s1(2)] by metis
  obtain status w3 where ab: "vams_command_abort ?b (co_completion (fw_obj s2 p)) (fw_w s2) = (status, w3)"
    by fastforce
  let ?d = "sys_timepoint_calc ?b (if status = RC_OK then VAMS_ABORT_ACK_TIMEOUT_MS else 0) w3"
  let ?s3 = "s2\<lparr> fw_w := w3, fw_rec := Rec_Abort p ?d \<rparr>"
  have obj: "fw_obj s2 p = (co_set_failure VAMS_STATUS_TIMED_OUT VAMS_ERR_TIMEOUT ?t
      ?c)\<lparr> co_state := VAMS_COMMAND_ABORTING \<rparr>" using s1(3) s2(4) by simp
  have held3: "held items ?s3 = add_mset (At_Aborting, p) (held items s2)"
    using s1(5) s2(4) by (simp add: held_def)
  have "place_ok At_Aborting (fw_obj s2 p)" using ok by (simp add: obj echoes_def)
  note over = hand_over [OF s2(2) this _ held3]
  have "fw_inv items cap free ?s3"
    "flight items ?s3 = add_mset (co_submission (fw_obj s2 p)) (flight items s2)"
    using s2(2) by (intro over(1); simp add: in_hand_def) (use over(2) s2(2) in \<open>simp add: in_hand_def\<close>)
  with s1 s2(1,3) s0(2) ab obj show ?thesis
    by (simp add: recovery_abort_def Let_def advances_def)
qed

lemma recovery_escalated_advances:
  assumes "fw_inv items cap free s" "fw_rec s = Rec_Abort p d"
  shows "advances s (map_option (\<lambda>s. (Tau, s)) (recovery_escalated z p s))"
proof -
  let ?b = "z_board z" and ?c = "fw_obj s p"
  let ?s0 = "s\<lparr> fw_rec := Rec_Loop, recovery_escalation_count :=
    vams_saturating_atomic_inc [] (recovery_escalation_count s) \<rparr>"
  let ?t = "k_uptime_get ?b (fw_w s)"
  have held: "held items s = add_mset (At_Aborting, p) (held items ?s0)"
    using assms(2) by (simp add: held_def)
  have ok: "place_ok At_Aborting ?c" using inv_place [OF assms(1), of At_Aborting p] held by simp
  note hand = take_in_hand [OF assms(1) held]
  have s0: "in_hand items cap free p ?s0"
    "flight items s = add_mset (co_submission ?c) (flight items ?s0)"
    using assms(1) by (intro hand(1); simp add: fw_inv_def) (use hand(2) assms(1) in \<open>simp add: fw_inv_def\<close>)
  have c0: "co_state (fw_obj ?s0 p) \<in> {VAMS_COMMAND_RUNNING, VAMS_COMMAND_ABORTING}"
    "co_publication_count (fw_obj ?s0 p) = 0"
    "echoes (co_submission (fw_obj ?s0 p)) (co_completion (fw_obj ?s0 p))" using ok by simp_all
  obtain s1 where s1: "on_object p (vams_scheduler_escalate ?b (z_evq z) ?t) ?s0 = Some s1"
    "in_hand items cap free p s1" "place_ok At_Done (fw_obj s1 p)"
    "co_submission (fw_obj s1 p) = co_submission (fw_obj ?s0 p)" "flight items s1 = flight items ?s0"
    by (rule escalate_in_hand [OF s0(1) c0, where b = ?b and eq = "z_evq z" and ts = ?t]) (rule that)
  obtain s2 l w where s2: "emit z VAMS_EVENT_ABORT_ESCALATED (sub_command_id (co_submission (fw_obj s1 p)))
      (co_generation (fw_obj s1 p)) (recovery_escalation_count s1) 0 0 0 s1 = Some s2"
    "in_hand items cap free p s2" "flight items s2 = flight items s1" "s2 = s1\<lparr> fw_log := l, fw_w := w \<rparr>"
    using emit_in_hand [OF s1(2)] by metis
  have "fw_obj s2 = fw_obj s1" using s2(4) by simp
  then obtain s3 where "queue_completion z p s2 = Some s3" "fw_inv items cap free s3"
    "flight items s3 = add_mset (co_submission (fw_obj s2 p)) (flight items s2)"
    using queue_completion_in_hand [OF s2(2)] s1(3) by metis
  with s1 s2 s0(2) show ?thesis by (simp add: recovery_escalated_def Let_def advances_def)
qed

text \<open>A change of the devices and of the epochs keeps the invariant and what is in flight.\<close>

lemma inv_poll:
  assumes "fw_inv items cap free s"
  shows "fw_inv items cap free (s\<lparr> fw_w := w \<rparr>)" "flight items (s\<lparr> fw_w := w \<rparr>) = flight items s"
    "fw_inv items cap free (vams_task_progress t (s\<lparr> fw_w := w \<rparr>))"
    "flight items (vams_task_progress t (s\<lparr> fw_w := w \<rparr>)) = flight items s"
  using assms by (simp_all add: fw_inv_def flight_def)

lemma advances_from:
  "advances s1 r \<Longrightarrow> flight items s1 = flight items s \<Longrightarrow> advances s r"
  by (simp add: advances_def)

lemma recovery_advances:
  assumes "fw_inv items cap free s"
  shows "advances s (fw_task z Recovery s)"
proof (cases "fw_rec s")
  case Rec_Loop
  have fill: "fw_sched s = Sched_Fill \<longrightarrow> fw_sched_ready s \<noteq> []" using assms by (simp add: fw_inv_def)
  obtain r q where get: "k_msgq_get (z_cmdq z) True (fw_running s) = (r, q)" by fastforce
  then show ?thesis
  proof (rule cmdq.getE)
    fix p assume "items (fw_running s) = p # items q" "r = Inr p" "cap q = cap (fw_running s)"
    with get Rec_Loop fill inv_log [OF assms] show ?thesis
      by (simp add: vams_recovery_manager_def Let_def)
         (intro inv_same [OF assms]; simp add: held_def vams_task_progress_def)
  next
    assume "items (fw_running s) = []" "items q = []"
      "r = Inl (if True then EAGAIN else ENOMSG)" "cap q = cap (fw_running s)"
    with get Rec_Loop fill inv_log [OF assms] show ?thesis
      by (simp add: vams_recovery_manager_def Let_def)
         (intro inv_same [OF assms]; simp add: held_def vams_task_progress_def)
  qed
next
  case (Rec_Wait p d)
  have fill: "fw_sched s = Sched_Fill \<longrightarrow> fw_sched_ready s \<noteq> []" using assms by (simp add: fw_inv_def)
  obtain r w where poll: "result_poll (z_board z) d (fw_w s) = (r, w)" by fastforce
  let ?s = "vams_task_progress 6 (s\<lparr> fw_w := w \<rparr>)"
  note s1 = inv_poll(3,4) [OF assms, of 6 w]
  have rec: "fw_rec ?s = Rec_Wait p d" using Rec_Wait by simp
  show ?thesis
  proof (cases r)
    case (Ready result)
    with advances_from [OF recovery_finish_advances [OF s1(1), of p d result] s1(2)] poll Rec_Wait rec
    show ?thesis by (simp add: vams_recovery_manager_def Let_def)
  next
    case Expired
    show ?thesis
    proof (cases "k_uptime_get (z_board z) w < co_deadline_ms (fw_obj s p)")
      case True
      with Expired poll Rec_Wait fill inv_log [OF assms] show ?thesis
        by (simp add: vams_recovery_manager_def Let_def)
           (intro inv_same [OF assms]; simp add: held_def vams_task_progress_def)
    next
      case False
      with advances_from [OF recovery_abort_advances [OF s1(1) rec] s1(2)] Expired poll Rec_Wait
      show ?thesis by (simp add: vams_recovery_manager_def Let_def)
    qed
  next
    case Waiting
    with poll Rec_Wait fill inv_log [OF assms] show ?thesis
      by (simp add: vams_recovery_manager_def Let_def) (intro inv_same [OF assms]; simp)
  qed
next
  case (Rec_Abort p d)
  have fill: "fw_sched s = Sched_Fill \<longrightarrow> fw_sched_ready s \<noteq> []" using assms by (simp add: fw_inv_def)
  obtain r w where poll: "result_poll (z_board z) d (fw_w s) = (r, w)" by fastforce
  let ?s = "s\<lparr> fw_w := w \<rparr>"
  note s1 = inv_poll(1,2) [OF assms, of w]
  have rec: "fw_rec ?s = Rec_Abort p d" using Rec_Abort by simp
  show ?thesis
  proof (cases r)
    case (Ready result)
    with advances_from [OF recovery_finish_advances [OF s1(1), of p d result] s1(2)] poll Rec_Abort rec
    show ?thesis by (simp add: vams_recovery_manager_def Let_def)
  next
    case Expired
    with advances_from [OF recovery_escalated_advances [OF s1(1) rec] s1(2)] poll Rec_Abort
    show ?thesis by (simp add: vams_recovery_manager_def Let_def)
  next
    case Waiting
    with poll Rec_Abort fill inv_log [OF assms] show ?thesis
      by (simp add: vams_recovery_manager_def Let_def) (intro inv_same [OF assms]; simp)
  qed
qed

subsection \<open>The completion task\<close>

lemma completion_retire_ok:
  assumes "fw_inv items cap free s" "fw_comp s = Comp_Publish p d"
  obtains s' where "completion_retire z p s = Some s'" "fw_inv items cap free s'"
    "flight items s = add_mset (co_submission (fw_obj s p)) (flight items s')"
    "answers (co_submission (fw_obj s p)) (co_completion (fw_obj s p))"
proof -
  let ?b = "z_board z" and ?c = "fw_obj s p"
  let ?s0 = "s\<lparr> fw_comp := Comp_Loop \<rparr>"
  have held: "held items s = add_mset (At_Done, p) (held items ?s0)"
    using assms(2) by (simp add: held_def)
  have ok: "place_ok At_Done ?c" by (rule inv_place [OF assms(1)]) (simp add: held)
  note hand = take_in_hand [OF assms(1) held]
  have s0: "in_hand items cap free p ?s0"
    "flight items s = add_mset (co_submission ?c) (flight items ?s0)"
    using assms(1) by (intro hand(1); simp add: fw_inv_def) (use hand(2) assms(1) in \<open>simp add: fw_inv_def\<close>)
  have log: "log_ok (fw_log ?s0)" using s0(1) by (simp add: in_hand_def)
  have pub: "co_publication_count (fw_obj ?s0 p) = 0"
    "co_state (fw_obj ?s0 p) \<in> {VAMS_COMMAND_COMPLETED, VAMS_COMMAND_COMPLETED_ERROR, VAMS_COMMAND_CANCELLED}"
    using ok by auto
  obtain l w where mark: "vams_scheduler_mark_published ?b (z_evq z) (fw_obj ?s0 p, fw_log ?s0, fw_w ?s0) =
      Some ((fw_obj ?s0 p)\<lparr> co_publication_count := 1 \<rparr>, l, w)" "log_ok l"
    using mark_published_ok [OF log pub] .
  obtain s1 where s1: "on_object p (vams_scheduler_mark_published ?b (z_evq z)) ?s0 = Some s1"
    "in_hand items cap free p s1" "fw_obj s1 p = ?c\<lparr> co_publication_count := 1 \<rparr>"
    "flight items s1 = flight items ?s0"
    by (rule on_object_in_hand [where f = "vams_scheduler_mark_published ?b (z_evq z)", OF s0(1) mark]) simp
  obtain s2 l2 w2 where s2: "emit z VAMS_EVENT_COMMAND_COMPLETE
      (cpl_command_id (co_completion (fw_obj s1 p))) (co_generation (fw_obj s1 p))
      (ucast (cpl_status (co_completion (fw_obj s1 p)))) (ucast (cpl_error_code (co_completion (fw_obj s1 p))))
      0 (cpl_user_cookie (co_completion (fw_obj s1 p))) s1 = Some s2"
    "in_hand items cap free p s2" "flight items s2 = flight items s1" "s2 = s1\<lparr> fw_log := l2, fw_w := w2 \<rparr>"
    using emit_in_hand [OF s1(2)] by metis
  have st2: "co_state (fw_obj s2 p) = co_state ?c" using s1(3) s2(4) by simp
  obtain s3 where s3: "on_object p (vams_scheduler_transition ?b (z_evq z) (co_state ?c) VAMS_COMMAND_FREE)
      s2 = Some s3" "in_hand items cap free p s3" "flight items s3 = flight items s2"
    by (rule transition_in_hand [OF s2(2) st2, where b = ?b and eq = "z_evq z" and
          nxt = VAMS_COMMAND_FREE]) simp
  have "retained_wf (log_record (fw_log s3))" using s3(2) by (simp add: in_hand_def log_ok_def)
  then obtain r w4 where clear: "vams_retained_clear_command ?b (log_record (fw_log s3)) (fw_w s3) =
      Some (r, w4)" "retained_wf r"
    using retained_apply_ok [of "log_record (fw_log s3)" ?b Clear_Command "fw_w s3"] by auto
  obtain s4 l4 w5 where s4: "note_retained (vams_retained_clear_command ?b) s3 = Some s4"
    "in_hand items cap free p s4" "flight items s4 = flight items s3" "s4 = s3\<lparr> fw_log := l4, fw_w := w5 \<rparr>"
    using note_in_hand [where f = "vams_retained_clear_command ?b", OF s3(2) clear] by metis
  let ?s5 = "s4\<lparr> fw_obj := (fw_obj s4)(p := zero_command),
      fw_pool := k_mem_slab_free (z_slab z) p (fw_pool s4),
      command_objects_in_use := command_objects_in_use s4 - 1 \<rparr>"
  show ?thesis
  proof (rule that [of ?s5])
    show "completion_retire z p s = Some ?s5"
      using s1(1) s2(1) s3(1) s4(1) by (simp add: completion_retire_def Let_def)
    show "fw_inv items cap free ?s5" by (rule release_in_hand(1) [OF s4(2)])
    show "flight items s = add_mset (co_submission ?c) (flight items ?s5)"
      using release_in_hand(2) [OF s4(2), of zero_command] s0(2) s1(4) s2(3) s3(3) s4(3) by simp
    show "answers (co_submission ?c) (co_completion ?c)" using ok by (auto simp: answers_def)
  qed
qed

lemma completion_advances:
  assumes "fw_inv items cap free s"
  shows "advances s (fw_task z Completion s)"
proof (cases "fw_comp s")
  case Comp_Loop
  have fill: "fw_sched s = Sched_Fill \<longrightarrow> fw_sched_ready s \<noteq> []" using assms by (simp add: fw_inv_def)
  obtain r q where get: "k_msgq_get (z_cmdq z) True (fw_completion s) = (r, q)" by fastforce
  then show ?thesis
  proof (rule cmdq.getE)
    fix p assume "items (fw_completion s) = p # items q" "r = Inr p" "cap q = cap (fw_completion s)"
    with get Comp_Loop fill inv_log [OF assms] show ?thesis
      by (simp add: vams_command_completion_def Let_def)
         (intro inv_same [OF assms]; simp add: held_def vams_task_progress_def)
  next
    assume "items (fw_completion s) = []" "items q = []"
      "r = Inl (if True then EAGAIN else ENOMSG)" "cap q = cap (fw_completion s)"
    with get Comp_Loop fill inv_log [OF assms] show ?thesis
      by (simp add: vams_command_completion_def Let_def)
         (intro inv_same [OF assms]; simp add: held_def vams_task_progress_def)
  qed
next
  case (Comp_Publish p d)
  have fill: "fw_sched s = Sched_Fill \<longrightarrow> fw_sched_ready s \<noteq> []" using assms by (simp add: fw_inv_def)
  obtain r s1 where poll: "publish_poll z (co_completion (fw_obj s p)) d s = (r, s1)" by fastforce
  then show ?thesis
  proof (rule publish_poll_cases)
    fix w assume "r = Retry" "s1 = s\<lparr> fw_w := w \<rparr>"
    with poll Comp_Publish fill inv_log [OF assms] show ?thesis
      by (simp add: vams_command_completion_def Let_def) (intro inv_same [OF assms]; simp)
  next
    fix w n assume "r = Stalled" "s1 = s\<lparr> fw_w := w, portal_stall_count := n \<rparr>"
    with poll Comp_Publish fill inv_log [OF assms] show ?thesis
      by (simp add: vams_command_completion_def Let_def vams_request_overload_reset_def)
         (intro inv_same [OF assms]; simp add: held_def)
  next
    fix w assume pub: "r = Published" "s1 = s\<lparr> fw_w := w \<rparr>"
    have inv1: "fw_inv items cap free s1" "flight items s1 = flight items s"
      using inv_poll(1,2) [OF assms] pub(2) by simp_all
    have "fw_comp s1 = Comp_Publish p d" using pub(2) Comp_Publish by simp
    then obtain s2 where s2: "completion_retire z p s1 = Some s2" "fw_inv items cap free s2"
      "flight items s1 = add_mset (co_submission (fw_obj s1 p)) (flight items s2)"
      "answers (co_submission (fw_obj s1 p)) (co_completion (fw_obj s1 p))"
      using completion_retire_ok [OF inv1(1)] by metis
    have "fw_task z Completion s = Some (Publish (co_completion (fw_obj s p)), s2)"
      using poll pub(1) Comp_Publish s2(1) by (simp add: vams_command_completion_def Let_def)
    with s2 inv1(2) pub(2) show ?thesis by (auto simp: advances_def)
  qed
next
  case (Comp_Parked p)
  have fill: "fw_sched s = Sched_Fill \<longrightarrow> fw_sched_ready s \<noteq> []" using assms by (simp add: fw_inv_def)
  with Comp_Parked inv_log [OF assms] show ?thesis
    by (simp add: vams_command_completion_def) (intro inv_same [OF assms]; simp)
qed

subsection \<open>Runs\<close>

lemma task_advances:
  assumes "fw_inv items cap free s"
  shows "if t = Scheduler \<and> running_overflow z items s then fw_task z t s = None
    else advances s (fw_task z t s)"
proof (cases "t = Scheduler \<and> running_overflow z items s")
  case True
  then obtain p d where "fw_sched s = Sched_Publish p d" "items (fw_running s) \<noteq> []"
    "fst (publish_poll z (co_completion (fw_obj s p)) d s) = Published"
    by (auto simp: running_overflow_def)
  with scheduler_publish_faults [OF assms] True show ?thesis
    by (simp add: vams_command_scheduler_def)
next
  case False
  show ?thesis
  proof (cases t)
    case Scheduler
    with False have "advances s (fw_task z Scheduler s)"
      by (intro scheduler_advances [OF assms]) (auto simp: running_overflow_def)
    with Scheduler False show ?thesis by simp
  qed (use assms receiver_advances validator_advances recovery_advances completion_advances in simp_all)
qed

lemma step_advances:
  assumes "fw_inv items cap free s" "fw_step z s a s'"
  shows "fw_inv items cap free s' \<and> ledger a (flight items s) (flight items s')"
  using assms(2)
proof cases
  case (task t)
  then have "\<not> (t = Scheduler \<and> running_overflow z items s)"
    using task_advances [OF assms(1), of t] by auto
  with task task_advances [OF assms(1), of t] show ?thesis by (auto simp: advances_def)
next
  case (env l w e)
  with assms(1) show ?thesis by (simp add: fw_inv_def flight_def)
qed

lemma initial_inv:
  assumes "fw_initial items cap free s"
  shows "fw_inv items cap free s" "flight items s = {#}"
proof -
  have "held items s = {#}" using assms by (simp add: fw_initial_def held_def)
  then show "fw_inv items cap free s" "flight items s = {#}"
    using assms by (simp_all add: fw_initial_def fw_inv_def owned_def flight_def live_def)
qed

lemma run_ledger:
  assumes "fw_run z s0 tr s" "fw_initial items cap free s0"
  shows "fw_inv items cap free s \<and>
    (\<exists>S. mset (admissions tr) = S + flight items s \<and> rel_mset answers S (mset (publications tr))) \<and>
    (\<forall>c. Dispatch c \<in> set tr \<longrightarrow> (\<exists>sub \<in> set (admissions tr). dispatches sub c))"
  using assms
proof (induction rule: fw_run.induct)
  case (start s)
  then show ?case
    using initial_inv [OF start] by (simp add: admissions_def publications_def rel_mset_Zero)
next
  case (step s0 tr s1 a s2)
  then obtain S where inv: "fw_inv items cap free s1"
    and S: "mset (admissions tr) = S + flight items s1" "rel_mset answers S (mset (publications tr))"
    and D: "\<And>c. Dispatch c \<in> set tr \<Longrightarrow> \<exists>sub \<in> set (admissions tr). dispatches sub c"
    by blast
  from step_advances [OF inv step.hyps(2)]
  have inv2: "fw_inv items cap free s2" and led: "ledger a (flight items s1) (flight items s2)" by auto
  have D2: "\<exists>sub \<in> set (admissions (tr @ [a])). dispatches sub c"
    if "Dispatch c \<in> set (tr @ [a])" for c
  proof (cases "a = Dispatch c")
    case True
    with led obtain sub where sub: "sub \<in># flight items s1" "dispatches sub c" by auto
    then have "sub \<in> set (admissions tr)" using S(1) by (metis set_mset_mset union_iff)
    with sub(2) show ?thesis by auto
  next
    case False
    with that D [of c] show ?thesis by auto
  qed
  have "\<exists>S. mset (admissions (tr @ [a])) = S + flight items s2 \<and>
      rel_mset answers S (mset (publications (tr @ [a])))"
  proof (cases a)
    case (Publish c)
    with led obtain sub where sub: "flight items s1 = add_mset sub (flight items s2)" "answers sub c" by auto
    with S Publish show ?thesis
      by (intro exI [of _ "add_mset sub S"]) (simp add: rel_mset_Plus)
  qed (use led S in \<open>auto intro!: exI [of _ S]\<close>)
  with inv2 D2 show ?case by blast
qed

end

subsection \<open>The reference instance\<close>

definition list_zephyr :: "(ram_world, ptr list_msgq, ptr list, vams_event list_msgq) zephyr" where
  "list_zephyr = \<lparr> z_board = ram_board, z_cmdq = list_msgq_api, z_slab = list_slab_api,
     z_evq = list_msgq_api \<rparr>"

lemma list_zephyr_simps [simp]:
  "z_board list_zephyr = ram_board" "z_cmdq list_zephyr = list_msgq_api"
  "z_slab list_zephyr = list_slab_api" "z_evq list_zephyr = list_msgq_api"
  by (simp_all add: list_zephyr_def)

interpretation list_pipeline: pipeline list_zephyr lq_items lq_cap set
  by unfold_locales
     (simp_all add: list_msgq.put_room list_msgq.put_full list_msgq.cap_put list_msgq.get_message
       list_msgq.get_empty list_msgq.cap_get list_msgq.num_used list_msgq.num_free
       list_slab.alloc_empty list_slab.alloc_block list_slab.free_block list_slab.num_free_blocks)

definition boot_fw :: "(ram_world, ptr list_msgq, ptr list, vams_event list_msgq) fw" where
  "boot_fw = \<lparr> fw_w = ram_zero, fw_log = empty_log, fw_pool = [0..<8], fw_obj = (\<lambda>_. zero_command),
     fw_validation = \<lparr> lq_items = [], lq_cap = 8 \<rparr>, fw_ready = \<lparr> lq_items = [], lq_cap = 8 \<rparr>,
     fw_running = \<lparr> lq_items = [], lq_cap = 1 \<rparr>, fw_completion = \<lparr> lq_items = [], lq_cap = 8 \<rparr>,
     fw_rx = Rx_Loop, fw_val = Val_Loop, fw_sched = Sched_Loop, fw_sched_ready = [],
     fw_rec = Rec_Loop, fw_comp = Comp_Loop, fw_epochs = replicate 8 0, command_objects_in_use = 0,
     command_pool_high_water = 0, validation_queue_high_water = 0, ready_queue_high_water = 0,
     running_queue_high_water = 0, completion_queue_high_water = 0, recovery_attempt_count = 0,
     recovery_escalation_count = 0, admission_defer_count = 0, queue_overload_count = 0,
     portal_stall_count = 0, overload_reset_requested = False, command_generation = 0,
     command_sequence = 0 \<rparr>"

lemma boot_fw_initial: "fw_initial lq_items lq_cap set boot_fw"
  by (simp add: fw_initial_def boot_fw_def vams_const log_ok_def empty_log_def format_wf atLeast0LessThan
      lessThan_def)

subsection \<open>Properties of runs\<close>

text \<open>
  C1. Exactly-once delivery. In every run of the pipeline from a freshly booted state, under any
  interleaving of its tasks and any behaviour of the host, the engine and the clock, the
  submissions taken from the portal split into those still in flight and those answered, and the
  answered ones are matched one to one with the completions published: each completion carries the
  command identifier and the cookie of its submission, and reports success only for a submission
  that passed validation. No completion is lost, duplicated or invented.
\<close>

theorem exactly_once_delivery:
  assumes "pipeline z items cap free" "fw_initial items cap free s0" "fw_run z s0 tr s"
  shows "\<exists>answered. mset (admissions tr) = answered + flight items s \<and>
    rel_mset answers answered (mset (publications tr))"
  using pipeline.run_ledger [OF assms(1,3,2)] by blast

text \<open>A run on the reference instance: the host stages a submission, the receiver takes it.\<close>

definition nop_submission :: vams_submission where
  "nop_submission = zero_submission\<lparr> sub_version := 1, sub_command_id := 7, sub_user_cookie := 99 \<rparr>"

definition staged_fw :: "(ram_world, ptr list_msgq, ptr list, vams_event list_msgq) fw" where
  "staged_fw = boot_fw\<lparr> fw_w := staged_world nop_submission, fw_log := empty_log \<rparr>"

lemma empty_log_ok: "log_ok empty_log"
  by (simp add: log_ok_def empty_log_def format_wf)

lemma staged_pending: "vams_command_pending ram_board (staged_world nop_submission) =
    (True, staged_world nop_submission)"
proof -
  have "ram_cell (staged_world nop_submission) COMMAND_BASE = 1" by code_simp
  then show ?thesis
    by (simp add: vams_command_pending_def portal_status_bit_def ram_board_def vams_const)
qed

lemma staged_receive: "\<exists>w. vams_command_receive 1 ram_board 0 (staged_world nop_submission) =
    Some (Inr nop_submission, w)"
proof -
  let ?base = "COMMAND_BASE + VAMS_COMMAND_SUBMISSION" and ?w = "staged_world nop_submission"
  have "ram_image ?base 16 ?w = submission_words nop_submission"
    using retained_window.write_words_image [OF ram_window_at [of 16 ?base], of 0
        "submission_words nop_submission"]
    by (simp add: staged_world_def ram_image_def)
  then have "read_words ram_board ?base 16 ?w = (submission_words nop_submission, ?w)"
    using retained_window.read_words_image [OF ram_window_at [of 16 ?base], of 0 16 ?w] by simp
  then show ?thesis
    using staged_pending
    by (simp add: vams_command_receive_def portal_poll_def vams_command_pending_def
        portal_take_submission_def VAMS_COMMAND_WORDS_def)
qed

lemma admit_run: "\<exists>s. fw_run list_zephyr boot_fw [Tau, Tau, Admit nop_submission] s"
proof -
  let ?w = "staged_world nop_submission"
  let ?s2 = "receiver_poll list_zephyr staged_fw"
  have inv1: "fw_inv lq_items lq_cap set staged_fw"
    using list_pipeline.initial_inv(1) [OF boot_fw_initial] empty_log_ok
    by (simp add: staged_fw_def fw_inv_def held_def)
  have step1: "fw_step list_zephyr boot_fw Tau staged_fw"
    using fw_step.env [OF empty_log_ok, where s = boot_fw and e = "fw_epochs boot_fw" and w = ?w]
    by (simp add: staged_fw_def)
  have rx: "fw_rx staged_fw = Rx_Loop" by (simp add: staged_fw_def boot_fw_def)
  then have step2: "fw_step list_zephyr staged_fw Tau ?s2"
    by (intro fw_step.task [of _ Receiver]) (simp add: vams_command_receiver_def)
  have "list_pipeline.advances staged_fw (Some (Tau, ?s2))"
    by (rule list_pipeline.receiver_poll_advances [OF inv1 rx])
  then have inv2: "fw_inv lq_items lq_cap set ?s2" by (simp add: list_pipeline.advances_def)
  have pool: "fw_pool staged_fw = [0..<8]" "fw_w staged_fw = ?w"
    by (simp_all add: staged_fw_def boot_fw_def)
  have s2: "fw_rx ?s2 = Rx_Capture 0" "fw_w ?s2 = ?w"
    using pool staged_pending
    by (simp_all add: receiver_poll_def vams_task_progress_def list_slab_api_def
        vams_command_admission_allowed_def upt_rec)
  obtain a s3 where cap: "receiver_capture list_zephyr 0 ?s2 = Some (a, s3)"
    using list_pipeline.receiver_capture_advances [OF inv2 s2(1)]
    by (auto simp: list_pipeline.advances_def)
  have "a = Admit nop_submission"
    using cap staged_receive s2(2)
    by (auto simp: receiver_capture_def Let_def bind_eq_Some_conv)
  with cap s2(1) have step3: "fw_step list_zephyr ?s2 (Admit nop_submission) s3"
    by (intro fw_step.task [of _ Receiver]) (simp add: vams_command_receiver_def)
  have "fw_run list_zephyr boot_fw ((([] @ [Tau]) @ [Tau]) @ [Admit nop_submission]) s3"
    by (rule fw_run.step [OF fw_run.step [OF fw_run.step [OF fw_run.start step1] step2] step3])
  then show ?thesis by auto
qed

theorem exactly_once_delivery_witness:
  "\<exists>s answered. fw_run list_zephyr boot_fw [Tau, Tau, Admit nop_submission] s \<and>
     {#nop_submission#} = answered + flight lq_items s \<and> rel_mset answers answered {#}"
proof -
  obtain s where run: "fw_run list_zephyr boot_fw [Tau, Tau, Admit nop_submission] s"
    using admit_run by blast
  from exactly_once_delivery [OF list_pipeline.pipeline_axioms boot_fw_initial run] run
  show ?thesis by (auto simp: admissions_def publications_def)
qed

text \<open>
  C4. Nothing unvalidated reaches the engine: every completion the scheduler publishes to dispatch a
  payload command belongs to a submission that was taken from the portal earlier in the run, has its
  identifier and cookie, is a payload command, and passed validation.
\<close>

theorem dispatch_only_validated:
  assumes "pipeline z items cap free" "fw_initial items cap free s0" "fw_run z s0 tr s"
    and "Dispatch c \<in> set tr"
  shows "\<exists>sub \<in> set (admissions tr). vams_validate_command sub = VAMS_ERR_NONE \<and>
    vams_is_payload_opcode (sub_opcode sub) \<and>
    cpl_command_id c = sub_command_id sub \<and> cpl_user_cookie c = sub_user_cookie sub"
  using pipeline.run_ledger [OF assms(1,3,2)] assms(4)
  unfolding dispatches_def echoes_def by blast

text \<open>
  C2. The only assertion of the pipeline that can fail is the scheduler's on the running queue. In
  every reachable state, a step of any task fails if and only if it is the scheduler handing over a
  command the portal has just accepted while the running queue, which has a single entry, still
  holds another one. Every other queue always has room, every object is in the state its task
  expects, and no object is published twice.
\<close>

theorem only_running_queue_can_overflow:
  assumes "pipeline z items cap free" "fw_initial items cap free s0" "fw_run z s0 tr s"
  shows "fw_task z t s = None \<longleftrightarrow> t = Scheduler \<and> running_overflow z items s"
  using pipeline.run_ledger [OF assms(1,3,2)] pipeline.task_advances [OF assms(1), of s t]
  by (auto simp: pipeline.advances_def [OF assms(1)] split: if_splits)

theorem only_running_queue_can_overflow_witness:
  "\<exists>s. fw_run list_zephyr boot_fw [Tau, Tau, Admit nop_submission] s \<and>
     (fw_task list_zephyr Validator s = None \<longleftrightarrow>
        Validator = Scheduler \<and> running_overflow list_zephyr lq_items s)"
proof -
  obtain s where run: "fw_run list_zephyr boot_fw [Tau, Tau, Admit nop_submission] s"
    using admit_run by blast
  from only_running_queue_can_overflow [OF list_pipeline.pipeline_axioms boot_fw_initial run] run
  show ?thesis by blast
qed

text \<open>
  C23. A host that keeps one command in flight never makes an assertion fail: in every reachable state
  in which at most one command object is in use, every step of every task succeeds.
\<close>

theorem single_command_never_faults:
  assumes "pipeline z items cap free" "fw_initial items cap free s0" "fw_run z s0 tr s"
    and "command_objects_in_use s \<le> 1"
  shows "\<exists>a s'. fw_task z t s = Some (a, s')"
proof -
  have inv: "fw_inv items cap free s" using pipeline.run_ledger [OF assms(1,3,2)] by blast
  have "size (held items s) \<le> 8" using owned_size [of "fw_obj s" "held items s" "free (fw_pool s)"] inv
    by (simp add: fw_inv_def)
  then have "unat (of_nat (size (held items s)) :: u32) = size (held items s)"
    by (simp add: unsigned_of_nat take_bit_eq_mod)
  with assms(4) inv have "size (held items s) \<le> 1"
    by (simp add: fw_inv_def word_le_nat_alt)
  then have "\<not> running_overflow z items s"
    by (auto simp: running_overflow_def held_def)
  with pipeline.task_advances [OF assms(1) inv, of t] show ?thesis
    by (auto simp: pipeline.advances_def [OF assms(1)])
qed

theorem single_command_never_faults_witness:
  "command_objects_in_use boot_fw \<le> 1 \<and> (\<exists>a s'. fw_task list_zephyr Receiver boot_fw = Some (a, s'))"
proof -
  have le: "command_objects_in_use boot_fw \<le> 1" by (simp add: boot_fw_def)
  with single_command_never_faults [OF list_pipeline.pipeline_axioms boot_fw_initial fw_run.start le]
  show ?thesis by blast
qed

text \<open>
  C24. Command objects are conserved: in every reachable state the free blocks of the pool and the
  blocks in the queues, the ready array and the tasks' hands are the eight blocks of the pool, each
  exactly once, and the in-use counter is the number of blocks outside the pool. So when nothing is
  in flight the pool is complete again.
\<close>

theorem pool_conserved:
  assumes "pipeline z items cap free" "fw_initial items cap free s0" "fw_run z s0 tr s"
  shows "image_mset snd (held items s) + mset_set (free (fw_pool s)) = mset_set {0..<8} \<and>
    unat (command_objects_in_use s) = size (held items s)"
proof -
  have inv: "fw_inv items cap free s" using pipeline.run_ledger [OF assms(1,3,2)] by blast
  have "size (held items s) \<le> 8" using owned_size [of "fw_obj s" "held items s" "free (fw_pool s)"] inv
    by (simp add: fw_inv_def)
  then have "unat (of_nat (size (held items s)) :: u32) = size (held items s)"
    by (simp add: unsigned_of_nat take_bit_eq_mod)
  with inv show ?thesis by (simp add: fw_inv_def owned_def VAMS_COMMAND_POOL_SIZE_def)
qed

theorem pool_conserved_witness:
  "\<exists>s. fw_run list_zephyr boot_fw [Tau, Tau, Admit nop_submission] s \<and>
     image_mset snd (held lq_items s) + mset_set (set (fw_pool s)) = mset_set {0..<8} \<and>
     unat (command_objects_in_use s) = size (held lq_items s)"
proof -
  obtain s where run: "fw_run list_zephyr boot_fw [Tau, Tau, Admit nop_submission] s"
    using admit_run by blast
  from pool_conserved [OF list_pipeline.pipeline_axioms boot_fw_initial run] run
  show ?thesis by blast
qed

end
