(* ===== verification/Vams_Overflow.thy ===== *)
theory Vams_Overflow
  imports Vams_Delivery
begin

text \<open>
  Concrete runs of the pipeline on the reference instance: a payload command taken from the portal,
  validated, scheduled and dispatched; and three payload commands in a row, which overflow the
  single-entry running queue.

  A run is followed on its view: the program counters, the pool and the contents of the queues. The
  devices and the event log may change between steps, so the steps below start from chosen ones.
\<close>

type_synonym list_fw = "(ram_world, ptr list_msgq, ptr list, vams_event list_msgq) fw"

record view =
  v_rx :: receiver_pc
  v_val :: validator_pc
  v_sched :: scheduler_pc
  v_sched_ready :: "ptr list"
  v_rec :: recovery_pc
  v_pool :: "ptr list"
  v_validation :: "ptr list"
  v_ready :: "ptr list"
  v_running :: "ptr list"
  v_generation :: u32

definition view_of :: "list_fw \<Rightarrow> view" where
  "view_of s = \<lparr> v_rx = fw_rx s, v_val = fw_val s, v_sched = fw_sched s,
     v_sched_ready = fw_sched_ready s, v_rec = fw_rec s, v_pool = fw_pool s,
     v_validation = lq_items (fw_validation s), v_ready = lq_items (fw_ready s),
     v_running = lq_items (fw_running s), v_generation = command_generation s \<rparr>"

lemma view_simps:
  "v_rx (view_of s) = fw_rx s" "v_val (view_of s) = fw_val s" "v_sched (view_of s) = fw_sched s"
  "v_sched_ready (view_of s) = fw_sched_ready s" "v_rec (view_of s) = fw_rec s"
  "v_pool (view_of s) = fw_pool s" "v_validation (view_of s) = lq_items (fw_validation s)"
  "v_ready (view_of s) = lq_items (fw_ready s)" "v_running (view_of s) = lq_items (fw_running s)"
  "v_generation (view_of s) = command_generation s"
  by (simp_all add: view_of_def)

text \<open>What the helpers did when they returned.\<close>

lemma on_object_SomeD:
  assumes "on_object p f s = Some s'"
  obtains c l w where "f (fw_obj s p, fw_log s, fw_w s) = Some (c, l, w)"
    "s' = s\<lparr> fw_obj := (fw_obj s)(p := c), fw_log := l, fw_w := w \<rparr>"
  using assms by (auto simp: on_object_def split: option.splits)

lemma on_transition_SomeD:
  assumes "on_object p (vams_scheduler_transition b eq e n) s = Some s'"
  obtains l w where
    "s' = s\<lparr> fw_obj := (fw_obj s)(p := (fw_obj s p)\<lparr> co_state := n \<rparr>), fw_log := l, fw_w := w \<rparr>"
proof -
  obtain c l w where f: "vams_scheduler_transition b eq e n (fw_obj s p, fw_log s, fw_w s) = Some (c, l, w)"
    and s': "s' = s\<lparr> fw_obj := (fw_obj s)(p := c), fw_log := l, fw_w := w \<rparr>"
    using on_object_SomeD [OF assms] .
  show ?thesis
    by (rule that [where l = l and w = w]) (simp add: s' transition_result(1) [OF f])
qed

lemma on_capture_SomeD:
  assumes "on_object p (vams_scheduler_capture b eq g sq now) s = Some s'"
  obtains c l w where "s' = s\<lparr> fw_obj := (fw_obj s)(p := c), fw_log := l, fw_w := w \<rparr>"
    "co_submission c = co_submission (fw_obj s p)" "co_generation c = g"
    "sub_timeout_ms (co_submission (fw_obj s p)) \<noteq> 0 \<Longrightarrow>
       co_deadline_ms c = now + ucast (sub_timeout_ms (co_submission (fw_obj s p)))"
proof -
  obtain c l w where f: "vams_scheduler_capture b eq g sq now (fw_obj s p, fw_log s, fw_w s) =
      Some (c, l, w)" and s': "s' = s\<lparr> fw_obj := (fw_obj s)(p := c), fw_log := l, fw_w := w \<rparr>"
    using on_object_SomeD [OF assms] .
  from f obtain c0 where "vams_scheduler_transition b eq VAMS_COMMAND_FREE VAMS_COMMAND_SUBMITTED
      (c0, fw_log s, fw_w s) = Some (c, l, w)" "co_submission c0 = co_submission (fw_obj s p)"
    "co_generation c0 = g" "sub_timeout_ms (co_submission (fw_obj s p)) \<noteq> 0 \<Longrightarrow>
       co_deadline_ms c0 = now + ucast (sub_timeout_ms (co_submission (fw_obj s p)))"
    by (auto simp: vams_scheduler_capture_def Let_def split: if_splits)
  with transition_result(1) [OF this(1)] s' show ?thesis by (intro that [where c = c and l = l and w = w]) simp_all
qed

lemma note_retained_SomeD:
  assumes "note_retained f s = Some s'"
  obtains l w where "s' = s\<lparr> fw_log := l, fw_w := w \<rparr>"
  using assms by (auto simp: note_retained_def bind_eq_Some_conv)

lemma list_queue_put:
  assumes "vams_queue_put list_msgq_api p q h ov = (RC_OK, q', h', ov')"
  shows "lq_items q' = lq_items q @ [p]"
  using assms by (auto simp: vams_queue_put_def list_msgq_api_def Let_def split: if_splits)

lemma queue_validation_SomeD:
  assumes "queue_validation list_zephyr p s = Some s'"
  shows "view_of s' = (view_of s)\<lparr> v_validation := v_validation (view_of s) @ [p] \<rparr>"
    and "fw_obj s' = fw_obj s"
  using assms
  by (auto simp: queue_validation_def view_of_def dest!: list_queue_put split: prod.splits if_splits)

lemma queue_ready_SomeD:
  assumes "queue_ready list_zephyr p s = Some s'"
  shows "view_of s' = (view_of s)\<lparr> v_ready := v_ready (view_of s) @ [p] \<rparr>"
    and "fw_obj s' = fw_obj s"
  using assms
  by (auto simp: queue_ready_def view_of_def dest!: list_queue_put split: prod.splits if_splits)

lemma queue_running_SomeD:
  assumes "queue_running list_zephyr p s = Some s'"
  shows "view_of s' = (view_of s)\<lparr> v_running := v_running (view_of s) @ [p] \<rparr>"
    and "fw_obj s' = fw_obj s"
  using assms
  by (auto simp: queue_running_def view_of_def dest!: list_queue_put split: prod.splits if_splits)

lemma view_log [simp]:
  "view_of (s\<lparr> fw_obj := f, fw_log := l, fw_w := w \<rparr>) = view_of s"
  "view_of (s\<lparr> fw_log := l, fw_w := w \<rparr>) = view_of s"
  "view_of (s\<lparr> fw_w := w \<rparr>) = view_of s"
  "view_of (s\<lparr> fw_obj := f \<rparr>) = view_of s"
  "view_of (vams_task_progress t s) = view_of s"
  by (simp_all add: view_of_def vams_task_progress_def)

subsection \<open>The steps of a payload command\<close>

text \<open>
  A state that the pipeline reached from boot, with the trace. The event log and the devices can be
  replaced at any moment.
\<close>

definition reached :: "label list \<Rightarrow> list_fw \<Rightarrow> bool" where
  "reached tr s \<longleftrightarrow> fw_run list_zephyr boot_fw tr s"

lemma reached_inv: "reached tr s \<Longrightarrow> fw_inv lq_items lq_cap set s"
  using list_pipeline.run_ledger [OF _ boot_fw_initial] by (simp add: reached_def)

lemma reached_env: "reached tr s \<Longrightarrow> reached (tr @ [Tau]) (s\<lparr> fw_w := w, fw_log := empty_log \<rparr>)"
  unfolding reached_def
  using fw_run.step [OF _ fw_step.env [OF empty_log_ok, where s = s and w = w and e = "fw_epochs s"]] by simp

lemma reached_task:
  assumes "reached tr s" "\<not> (t = Scheduler \<and> running_overflow list_zephyr lq_items s)"
  obtains a s' where "fw_task list_zephyr t s = Some (a, s')" "reached (tr @ [a]) s'"
proof -
  obtain a s' where "fw_task list_zephyr t s = Some (a, s')"
    using list_pipeline.task_advances [OF reached_inv [OF assms(1)], of t] assms(2)
    by (auto simp: list_pipeline.advances_def split: if_splits)
  moreover from this have "reached (tr @ [a]) s'"
    using assms(1) fw_run.step [OF _ fw_step.task] by (auto simp: reached_def)
  ultimately show ?thesis by (rule that)
qed

lemma poll_step:
  assumes "reached tr s" "fw_rx s = Rx_Loop" "fw_pool s = q # qs" "distinct (q # qs)"
    and "fw_w s = staged_world sub" "ram_cell (staged_world sub) COMMAND_BASE = 1"
  obtains s' where "reached (tr @ [Tau]) s'" "fw_w s' = fw_w s" "fw_obj s' = fw_obj s"
    "view_of s' = (view_of s)\<lparr> v_rx := Rx_Capture q, v_pool := qs \<rparr>"
proof -
  obtain a s' where t: "fw_task list_zephyr Receiver s = Some (a, s')" "reached (tr @ [a]) s'"
    by (rule reached_task [OF assms(1), of Receiver]) simp_all
  have pend: "vams_command_pending ram_board (staged_world sub) = (True, staged_world sub)"
    using assms(6)
    by (simp add: vams_command_pending_def portal_status_bit_def ram_board_def vams_const)
  have len: "length qs < 8"
  proof -
    have "owned (fw_obj s) (held lq_items s) (set (fw_pool s))"
      using reached_inv [OF assms(1)] by (simp add: fw_inv_def)
    then have "card (set (fw_pool s)) \<le> 8" using owned_size by fastforce
    with assms(3,4) show ?thesis by (simp add: distinct_card)
  qed
  have "unat (of_nat (Suc (length qs)) :: u32) = Suc (length qs)"
    using len by (simp add: unsigned_of_nat take_bit_eq_mod del: of_nat_Suc)
  moreover have "card (set (q # qs)) = Suc (length qs)" using distinct_card [OF assms(4)] by simp
  ultimately have free: "0 < k_mem_slab_num_free_get list_slab_api (q # qs)"
    by (simp add: list_slab_api_def word_less_nat_alt del: of_nat_Suc list.set)
  have alloc: "k_mem_slab_alloc list_slab_api (q # qs) = (Inr q, qs)"
    using assms(4) by (simp add: list_slab_api_def distinct_remdups_id)
  have poll: "a = Tau" "s' = receiver_poll list_zephyr s"
    using t(1) assms(2) by (simp_all add: vams_command_receiver_def)
  have "receiver_poll list_zephyr s = (vams_task_progress 3 s)\<lparr> fw_pool := qs, fw_w := fw_w s,
      command_objects_in_use := command_objects_in_use s + 1,
      command_pool_high_water := vams_record_high_water []
        (command_objects_in_use s + 1) (command_pool_high_water (vams_task_progress 3 s)),
      fw_rx := Rx_Capture q \<rparr>"
    using pend free alloc assms(3,5)
    by (simp add: receiver_poll_def vams_command_admission_allowed_def vams_task_progress_def Let_def)
  with poll t(2) show ?thesis
    by (intro that [of s']) (simp_all add: view_of_def vams_task_progress_def)
qed

lemma staged_image: "ram_image (COMMAND_BASE + VAMS_COMMAND_SUBMISSION) 16 (staged_world sub) =
    submission_words sub"
  using retained_window.write_words_image [OF ram_window_at
      [of 16 "COMMAND_BASE + VAMS_COMMAND_SUBMISSION"], of 0 "submission_words sub"]
  by (simp add: staged_world_def ram_image_def)

lemma capture_step:
  assumes "reached tr s" "fw_rx s = Rx_Capture q"
    and "fw_w s = staged_world sub" "ram_cell (staged_world sub) COMMAND_BASE = 1"
    and "sub_timeout_ms sub \<noteq> 0"
  obtains s' where "reached (tr @ [Admit sub]) s'"
    "view_of s' = (view_of s)\<lparr> v_rx := Rx_Loop, v_validation := v_validation (view_of s) @ [q] \<rparr>"
    "co_submission (fw_obj s' q) = sub" "co_generation (fw_obj s' q) = command_generation s"
    "co_deadline_ms (fw_obj s' q) = ram_clock (staged_world sub) + ucast (sub_timeout_ms sub)"
proof -
  obtain a s' where t: "fw_task list_zephyr Receiver s = Some (a, s')" "reached (tr @ [a]) s'"
    by (rule reached_task [OF assms(1), of Receiver]) simp_all
  have pend: "portal_status_bit ram_board VAMS_COMMAND_H2F_PENDING (staged_world sub) =
      (True, staged_world sub)"
    using assms(4) by (simp add: portal_status_bit_def ram_board_def vams_const)
  have "read_words ram_board (COMMAND_BASE + VAMS_COMMAND_SUBMISSION) 16 (staged_world sub) =
      (submission_words sub, staged_world sub)"
    using retained_window.read_words_image [OF ram_window_at
      [of 16 "COMMAND_BASE + VAMS_COMMAND_SUBMISSION"], of 0 16 "staged_world sub"] staged_image by simp
  then obtain w where rcv: "vams_command_receive 1 ram_board 0 (fw_w s) = Some (Inr sub, w)"
    and clock: "k_uptime_get ram_board w = ram_clock (staged_world sub)"
    using pend assms(3)
    by (simp add: vams_command_receive_def portal_poll_def portal_take_submission_def
        VAMS_COMMAND_WORDS_def) (simp add: ram_board_def)
  let ?s1 = "s\<lparr> fw_rx := Rx_Loop, fw_obj := (fw_obj s)(q := zero_command\<lparr> co_submission := sub \<rparr>),
      fw_w := w, command_sequence := command_sequence s + 1 \<rparr>"
  from t(1) assms(2) rcv obtain s2 s3 where
    s2: "on_object q (vams_scheduler_capture ram_board list_msgq_api (command_generation s)
        (command_sequence s + 1) (k_uptime_get ram_board w)) ?s1 = Some s2"
    and s3: "note_retained (vams_retained_note_command ram_board (sub_command_id sub)
        (command_generation s2)) s2 = Some s3"
    and s4: "queue_validation list_zephyr q s3 = Some s'" and a: "a = Admit sub"
    by (auto simp: vams_command_receiver_def receiver_capture_def Let_def bind_eq_Some_conv)
  obtain c l w2 where c: "s2 = ?s1\<lparr> fw_obj := (fw_obj ?s1)(q := c), fw_log := l, fw_w := w2 \<rparr>"
    "co_submission c = sub" "co_generation c = command_generation s"
    "co_deadline_ms c = k_uptime_get ram_board w + ucast (sub_timeout_ms sub)"
    by (rule on_capture_SomeD [OF s2]) (use assms(5) that in simp)
  obtain l3 w3 where l3: "s3 = s2\<lparr> fw_log := l3, fw_w := w3 \<rparr>" using note_retained_SomeD [OF s3] .
  have view3: "view_of s3 = (view_of s)\<lparr> v_rx := Rx_Loop \<rparr>" by (simp add: l3 c(1) view_of_def)
  have obj: "fw_obj s' q = c" using queue_validation_SomeD(2) [OF s4] by (simp add: l3 c(1))
  show ?thesis
  proof (rule that [of s'])
    show "reached (tr @ [Admit sub]) s'" using t(2) a by simp
    show "view_of s' = (view_of s)\<lparr> v_rx := Rx_Loop, v_validation := v_validation (view_of s) @ [q] \<rparr>"
      using queue_validation_SomeD(1) [OF s4] by (simp add: view3)
  qed (simp_all add: obj c clock)
qed

lemma validate_steps:
  assumes "reached tr s" "fw_val s = Val_Loop" "lq_items (fw_validation s) = [q]"
    and "vams_validate_command (co_submission (fw_obj s q)) = VAMS_ERR_NONE"
  obtains s' where "reached (tr @ [Tau, Tau]) s'"
    "view_of s' = (view_of s)\<lparr> v_validation := [], v_ready := v_ready (view_of s) @ [q] \<rparr>"
    "co_submission (fw_obj s' q) = co_submission (fw_obj s q)"
    "co_generation (fw_obj s' q) = co_generation (fw_obj s q)"
    "co_deadline_ms (fw_obj s' q) = co_deadline_ms (fw_obj s q)"
proof -
  obtain a1 s1 where t1: "fw_task list_zephyr Validator s = Some (a1, s1)" "reached (tr @ [a1]) s1"
    by (rule reached_task [OF assms(1), of Validator]) simp_all
  have s1: "a1 = Tau" "view_of s1 = (view_of s)\<lparr> v_validation := [], v_val := Val_Work q \<rparr>"
    "fw_obj s1 = fw_obj s" "fw_val s1 = Val_Work q"
    using t1(1) assms(2,3)
    by (auto simp: vams_command_validator_def list_msgq_api_def view_of_def vams_task_progress_def Let_def)
  obtain a2 s2 where t2: "fw_task list_zephyr Validator s1 = Some (a2, s2)" "reached ((tr @ [a1]) @ [a2]) s2"
    by (rule reached_task [OF t1(2), of Validator]) simp_all
  let ?tr = "vams_scheduler_transition ram_board list_msgq_api"
  have work: "validator_work list_zephyr q s1 = Some s2" "a2 = Tau"
    using t2(1) s1(4) by (auto simp: vams_command_validator_def)
  then obtain s3 where s3: "on_object q (?tr VAMS_COMMAND_SUBMITTED VAMS_COMMAND_VALIDATING)
      (s1\<lparr> fw_val := Val_Loop \<rparr>) = Some s3"
    by (auto simp: validator_work_def Let_def bind_eq_Some_conv)
  obtain l w where s3': "s3 = s1\<lparr> fw_val := Val_Loop, fw_obj := (fw_obj s1)(q := (fw_obj s1 q)
      \<lparr> co_state := VAMS_COMMAND_VALIDATING \<rparr>), fw_log := l, fw_w := w \<rparr>"
    by (rule on_transition_SomeD [OF s3]) simp
  let ?cpl = "vams_command_execute (co_submission (fw_obj s3 q)) (k_uptime_get ram_board (fw_w s3))"
  let ?s4 = "s3\<lparr> fw_obj := (fw_obj s3)(q := (fw_obj s3 q)\<lparr> co_completion := ?cpl \<rparr>) \<rparr>"
  have "co_submission (fw_obj s3 q) = co_submission (fw_obj s q)" by (simp add: s3' s1(3))
  then have ok: "cpl_status ?cpl = VAMS_STATUS_SUCCESS"
    using list_pipeline.execute_outcome(2) assms(4) by simp
  obtain s5 where s5: "on_object q (?tr VAMS_COMMAND_VALIDATING VAMS_COMMAND_QUEUED) ?s4 = Some s5"
    and s6: "queue_ready list_zephyr q s5 = Some s2"
    using work(1) s3 ok by (auto simp: validator_work_def Let_def bind_eq_Some_conv)
  obtain l5 w5 where s5': "s5 = ?s4\<lparr> fw_obj := (fw_obj ?s4)(q := (fw_obj ?s4 q)
      \<lparr> co_state := VAMS_COMMAND_QUEUED \<rparr>), fw_log := l5, fw_w := w5 \<rparr>"
    using on_transition_SomeD [OF s5] .
  have "view_of s5 = view_of (s1\<lparr> fw_val := Val_Loop \<rparr>)" by (simp add: s5' s3' view_of_def)
  also have "\<dots> = (view_of s1)\<lparr> v_val := Val_Loop \<rparr>" by (simp add: view_of_def)
  finally have v5: "view_of s5 = (view_of s)\<lparr> v_validation := [] \<rparr>"
    using s1(2) assms(2) by (simp add: view_of_def)
  show ?thesis
  proof (rule that [of s2])
    show "reached (tr @ [Tau, Tau]) s2" using t2(2) s1(1) work(2) by simp
    show "view_of s2 = (view_of s)\<lparr> v_validation := [], v_ready := v_ready (view_of s) @ [q] \<rparr>"
      using queue_ready_SomeD(1) [OF s6] by (simp add: v5)
  qed (simp_all add: queue_ready_SomeD(2) [OF s6] s5' s3' s1(3))
qed

lemma schedule_steps:
  assumes "reached tr s" "fw_sched s = Sched_Loop" "fw_sched_ready s = []" "lq_items (fw_ready s) = [q]"
  obtains s' where "reached (tr @ [Tau, Tau]) s'" "fw_obj s' = fw_obj s" "fw_w s' = fw_w s"
    "view_of s' = (view_of s)\<lparr> v_ready := [], v_sched := Sched_Dispatch q \<rparr>"
proof -
  obtain a1 s1 where t1: "fw_task list_zephyr Scheduler s = Some (a1, s1)" "reached (tr @ [a1]) s1"
    by (rule reached_task [OF assms(1), of Scheduler]) (use assms(2) in \<open>simp_all add: running_overflow_def\<close>)
  have s1: "a1 = Tau" "view_of s1 = (view_of s)\<lparr> v_ready := [], v_sched_ready := [q], v_sched := Sched_Fill \<rparr>"
    "fw_obj s1 = fw_obj s" "fw_w s1 = fw_w s"
    using t1(1) assms(2-4)
    by (auto simp: vams_command_scheduler_def list_msgq_api_def view_of_def vams_task_progress_def Let_def)
  have v1: "fw_sched s1 = Sched_Fill" "fw_sched_ready s1 = [q]" "lq_items (fw_ready s1) = []"
    using arg_cong [OF s1(2), of v_sched] arg_cong [OF s1(2), of v_sched_ready]
      arg_cong [OF s1(2), of v_ready] by (simp_all add: view_simps)
  obtain a2 s2 where t2: "fw_task list_zephyr Scheduler s1 = Some (a2, s2)" "reached ((tr @ [a1]) @ [a2]) s2"
    by (rule reached_task [OF t1(2), of Scheduler]) (use v1(1) in \<open>simp_all add: running_overflow_def\<close>)
  have take: "scheduler_take obj [q] = (q, [])" for obj
    by (simp add: scheduler_take_def vams_scheduler_select_def)
  have s2: "a2 = Tau" "s2 = s1\<lparr> fw_sched_ready := [], fw_sched := Sched_Dispatch q \<rparr>"
    using t2(1) v1
    by (simp_all add: vams_command_scheduler_def list_msgq_api_def vams_const scheduler_pick_def take)
  show ?thesis
  proof (rule that [of s2])
    show "reached (tr @ [Tau, Tau]) s2" using t2(2) s1(1) s2(1) by simp
    have "view_of s2 = (view_of s1)\<lparr> v_sched_ready := [], v_sched := Sched_Dispatch q \<rparr>"
      by (simp add: s2(2) view_of_def)
    then show "view_of s2 = (view_of s)\<lparr> v_ready := [], v_sched := Sched_Dispatch q \<rparr>"
      using s1(2) assms(3) by (simp add: view_of_def)
  qed (simp_all add: s2(2) s1(3,4))
qed

lemma dispatch_step:
  assumes "reached tr s" "fw_sched s = Sched_Dispatch q"
    and "co_generation (fw_obj s q) = command_generation s"
    and "k_uptime_get ram_board (fw_w s) < co_deadline_ms (fw_obj s q)"
    and "vams_is_payload_opcode (sub_opcode (co_submission (fw_obj s q)))"
  obtains s' d where "reached (tr @ [Tau]) s'"
    "view_of s' = (view_of s)\<lparr> v_sched := Sched_Publish q d \<rparr>"
proof -
  obtain a s' where t: "fw_task list_zephyr Scheduler s = Some (a, s')" "reached (tr @ [a]) s'"
    by (rule reached_task [OF assms(1), of Scheduler]) (use assms(2) in \<open>simp_all add: running_overflow_def\<close>)
  let ?tr = "vams_scheduler_transition ram_board list_msgq_api"
  have "\<not> vams_scheduler_deadline_expired (fw_obj s q) (k_uptime_get ram_board (fw_w s))"
    using assms(4) by (simp add: vams_scheduler_deadline_expired_def)
  with t(1) assms(2,3,5) obtain s1 where s1:
    "on_object q (?tr VAMS_COMMAND_QUEUED VAMS_COMMAND_RUNNING) (s\<lparr> fw_sched := Sched_Loop \<rparr>) = Some s1"
    and s': "a = Tau" "s' = s1\<lparr> fw_sched := Sched_Publish q
      (k_uptime_get ram_board (fw_w s1) + VAMS_COMPLETION_PUBLISH_TIMEOUT_MS) \<rparr>"
    by (auto simp: vams_command_scheduler_def scheduler_dispatch_def Let_def bind_eq_Some_conv)
  obtain l w where "s1 = s\<lparr> fw_sched := Sched_Loop, fw_obj := (fw_obj s)(q := (fw_obj s q)
      \<lparr> co_state := VAMS_COMMAND_RUNNING \<rparr>), fw_log := l, fw_w := w \<rparr>"
    by (rule on_transition_SomeD [OF s1]) simp
  then show ?thesis using t(2) s'
    by (intro that [where s' = s' and d = "k_uptime_get ram_board (fw_w s1) +
          VAMS_COMPLETION_PUBLISH_TIMEOUT_MS"]) (simp_all add: view_of_def)
qed

lemma publish_free:
  assumes "fw_w s = ram_zero"
  shows "fst (publish_poll list_zephyr c d s) = Published"
proof -
  have "fst (vams_command_complete ram_board c ram_zero) = RC_OK"
    by (simp add: vams_command_complete_def portal_status_bit_def ram_board_def ram_zero_def Let_def)
  with assms show ?thesis by (simp add: publish_poll_def Let_def case_prod_beta)
qed

lemma publish_step:
  assumes "reached tr s" "fw_sched s = Sched_Publish q d" "lq_items (fw_running s) = []" "fw_w s = ram_zero"
  obtains s' c where "reached (tr @ [Dispatch c]) s'"
    "view_of s' = (view_of s)\<lparr> v_sched := Sched_Loop, v_running := [q] \<rparr>"
proof -
  obtain a s' where t: "fw_task list_zephyr Scheduler s = Some (a, s')" "reached (tr @ [a]) s'"
    by (rule reached_task [OF assms(1), of Scheduler]) (use assms(2,3) in \<open>simp_all add: running_overflow_def\<close>)
  let ?c = "co_completion (fw_obj s q)"
  obtain s1 where poll: "publish_poll list_zephyr ?c d s = (Published, s1)"
    using publish_free [OF assms(4), of ?c d] by (metis prod.collapse)
  obtain w where s1: "s1 = s\<lparr> fw_w := w \<rparr>"
    using list_pipeline.publish_poll_cases [OF poll] by blast
  have s': "a = Dispatch ?c" "queue_running list_zephyr q (s1\<lparr> fw_sched := Sched_Loop \<rparr>) = Some s'"
    using t(1) assms(2) poll by (auto simp: vams_command_scheduler_def scheduler_publish_def Let_def)
  have "view_of (s1\<lparr> fw_sched := Sched_Loop \<rparr>) = (view_of s)\<lparr> v_sched := Sched_Loop \<rparr>"
    by (simp add: s1 view_of_def)
  with queue_running_SomeD(1) [OF s'(2)] t(2) s'(1) assms(3) show ?thesis
    by (intro that [of ?c s']) (simp_all add: view_simps)
qed

lemma recovery_takes:
  assumes "reached tr s" "fw_rec s = Rec_Loop" "lq_items (fw_running s) = [q]"
  obtains s' d where "reached (tr @ [Tau]) s'"
    "view_of s' = (view_of s)\<lparr> v_running := [], v_rec := Rec_Wait q d \<rparr>"
proof -
  obtain a s' where t: "fw_task list_zephyr Recovery s = Some (a, s')" "reached (tr @ [a]) s'"
    by (rule reached_task [OF assms(1), of Recovery]) simp_all
  have "a = Tau" "\<exists>d. view_of s' = (view_of s)\<lparr> v_running := [], v_rec := Rec_Wait q d \<rparr>"
    using t(1) assms(2,3)
    by (auto simp: vams_recovery_manager_def list_msgq_api_def view_of_def vams_task_progress_def Let_def)
  with t(2) that show ?thesis by blast
qed

subsection \<open>Loading the pipeline\<close>

definition copy_submission :: "u32 \<Rightarrow> vams_submission" where
  "copy_submission k = zero_submission\<lparr> sub_version := 1, sub_opcode := VAMS_OP_MEM_COPY,
     sub_command_id := k, sub_source_dma := 0x1000, sub_destination_dma := 0x2000, sub_length := 64,
     sub_timeout_ms := 1000, sub_user_cookie := ucast k \<rparr>"

lemma copy_submission_valid: "vams_validate_command (copy_submission k) = VAMS_ERR_NONE"
  by (simp add: vams_validate_command_def copy_submission_def zero_submission_def vams_const
      vams_range_overflows_def vams_ranges_overlap_def UINT64_MAX_def Let_def)

lemma copy_submission_simps:
  "vams_is_payload_opcode (sub_opcode (copy_submission k))" "sub_timeout_ms (copy_submission k) = 1000"
  by (simp_all add: copy_submission_def vams_is_payload_opcode_def)

lemma staged_status: "ram_cell (staged_world sub) COMMAND_BASE = 1"
proof -
  have "COMMAND_BASE \<noteq> (COMMAND_BASE + VAMS_COMMAND_SUBMISSION) + 4 * of_nat i" if "i < 16" for i
  proof
    assume "COMMAND_BASE = (COMMAND_BASE + VAMS_COMMAND_SUBMISSION) + 4 * of_nat i"
    then have "(of_nat (256 + 4 * i) :: u32) = 0" by (simp add: vams_const)
    then have "unat (of_nat (256 + 4 * i) :: u32) = 0" by simp
    moreover have "unat (of_nat (256 + 4 * i) :: u32) = 256 + 4 * i"
      using that by (simp add: unsigned_of_nat take_bit_eq_mod del: of_nat_add of_nat_mult)
    ultimately show False by simp
  qed
  then show ?thesis
    using ram_write_words_other [of "submission_words sub" COMMAND_BASE
        "COMMAND_BASE + VAMS_COMMAND_SUBMISSION"]
    by (simp add: staged_world_def)
qed

definition load_trace :: "vams_submission \<Rightarrow> label list" where
  "load_trace sub = [Tau, Tau, Admit sub, Tau, Tau, Tau, Tau, Tau, Tau, Tau]"

lemma load:
  assumes "reached tr s" "view_of s = \<lparr> v_rx = Rx_Loop, v_val = Val_Loop, v_sched = Sched_Loop,
      v_sched_ready = [], v_rec = r, v_pool = q # qs, v_validation = [], v_ready = [],
      v_running = run, v_generation = 0 \<rparr>"
    and "distinct (q # qs)"
  obtains s' d where "reached (tr @ load_trace (copy_submission k)) s'" "fw_w s' = ram_zero"
    "view_of s' = \<lparr> v_rx = Rx_Loop, v_val = Val_Loop, v_sched = Sched_Publish q d,
      v_sched_ready = [], v_rec = r, v_pool = qs, v_validation = [], v_ready = [],
      v_running = run, v_generation = 0 \<rparr>"
proof -
  let ?sub = "copy_submission k"
  let ?s0 = "s\<lparr> fw_w := staged_world ?sub, fw_log := empty_log \<rparr>"
  have v: "fw_rx s = Rx_Loop" "fw_pool s = q # qs" "command_generation s = 0"
    using arg_cong [OF assms(2), of v_rx] arg_cong [OF assms(2), of v_pool]
      arg_cong [OF assms(2), of v_generation] by (simp_all add: view_simps)
  have r0: "reached (tr @ [Tau]) ?s0" by (rule reached_env [OF assms(1)])
  have v0: "view_of ?s0 = view_of s" by (simp add: view_of_def)
  obtain s1 where s1: "reached ((tr @ [Tau]) @ [Tau]) s1" "fw_w s1 = staged_world ?sub"
    "view_of s1 = (view_of s)\<lparr> v_rx := Rx_Capture q, v_pool := qs \<rparr>"
    by (rule poll_step [OF r0, of q qs ?sub]) (use v v0 assms(3) staged_status in simp_all)
  have rx1: "fw_rx s1 = Rx_Capture q" "command_generation s1 = 0"
    using arg_cong [OF s1(3), of v_rx] arg_cong [OF s1(3), of v_generation] v(3)
    by (simp_all add: view_simps)
  obtain s2 where s2: "reached (((tr @ [Tau]) @ [Tau]) @ [Admit ?sub]) s2"
    "view_of s2 = (view_of s)\<lparr> v_pool := qs, v_validation := [q] \<rparr>"
    "co_submission (fw_obj s2 q) = ?sub" "co_generation (fw_obj s2 q) = 0"
    "co_deadline_ms (fw_obj s2 q) = ram_clock (staged_world ?sub) + 1000"
    by (rule capture_step [OF s1(1) rx1(1) s1(2) staged_status])
       (use s1(3) rx1(2) assms(2) copy_submission_simps in simp_all)
  have v2: "fw_val s2 = Val_Loop" "lq_items (fw_validation s2) = [q]"
    using arg_cong [OF s2(2), of v_val] arg_cong [OF s2(2), of v_validation] assms(2)
    by (simp_all add: view_simps)
  obtain s3 where s3: "reached ((((tr @ [Tau]) @ [Tau]) @ [Admit ?sub]) @ [Tau, Tau]) s3"
    "view_of s3 = (view_of s)\<lparr> v_pool := qs, v_ready := [q] \<rparr>"
    "co_submission (fw_obj s3 q) = ?sub" "co_generation (fw_obj s3 q) = 0"
    "co_deadline_ms (fw_obj s3 q) = ram_clock (staged_world ?sub) + 1000"
    by (rule validate_steps [OF s2(1) v2]) (use s2 assms(2) copy_submission_valid in simp_all)
  have v3: "fw_sched s3 = Sched_Loop" "fw_sched_ready s3 = []" "lq_items (fw_ready s3) = [q]"
    using arg_cong [OF s3(2), of v_sched] arg_cong [OF s3(2), of v_sched_ready]
      arg_cong [OF s3(2), of v_ready] assms(2) by (simp_all add: view_simps)
  obtain s4 where s4: "reached (((((tr @ [Tau]) @ [Tau]) @ [Admit ?sub]) @ [Tau, Tau]) @ [Tau, Tau]) s4"
    "fw_obj s4 = fw_obj s3" "view_of s4 = (view_of s)\<lparr> v_pool := qs, v_sched := Sched_Dispatch q \<rparr>"
    by (rule schedule_steps [OF s3(1) v3]) (use s3(2) assms(2) in simp_all)
  let ?s5 = "s4\<lparr> fw_w := ram_zero, fw_log := empty_log \<rparr>"
  note r5 = reached_env [OF s4(1), of ram_zero]
  have v5: "fw_sched ?s5 = Sched_Dispatch q" "command_generation ?s5 = 0"
    using arg_cong [OF s4(3), of v_sched] arg_cong [OF s4(3), of v_generation] v(3)
    by (simp_all add: view_simps)
  have clock: "ram_clock (staged_world ?sub) = 5" by (simp add: staged_world_def ram_write_words_clock)
  have due: "k_uptime_get ram_board (fw_w ?s5) < co_deadline_ms (fw_obj ?s5 q)"
    using s4(2) s3(5) clock by (simp add: ram_board_def ram_zero_def)
  obtain s6 d where s6: "reached ((((((tr @ [Tau]) @ [Tau]) @ [Admit ?sub]) @ [Tau, Tau]) @ [Tau, Tau]) @
      [Tau] @ [Tau]) s6" "view_of s6 = (view_of ?s5)\<lparr> v_sched := Sched_Publish q d \<rparr>"
    by (rule dispatch_step [OF r5 v5(1) _ due]) (use s4(2) s3 v5(2) copy_submission_simps in simp_all)
  let ?s7 = "s6\<lparr> fw_w := ram_zero, fw_log := empty_log \<rparr>"
  have "reached (tr @ load_trace ?sub) ?s7"
    using reached_env [OF s6(1), of ram_zero] by (simp add: load_trace_def)
  moreover have "view_of ?s7 = (view_of s)\<lparr> v_pool := qs, v_sched := Sched_Publish q d \<rparr>"
  proof -
    have "view_of ?s7 = view_of s6" "view_of ?s5 = view_of s4" by (simp_all add: view_of_def)
    with s6(2) s4(3) show ?thesis by simp
  qed
  ultimately show ?thesis using assms(2) by (intro that [of ?s7 d]) simp_all
qed

subsection \<open>Three payload commands\<close>

definition pipeline_view :: "scheduler_pc \<Rightarrow> recovery_pc \<Rightarrow> ptr list \<Rightarrow> ptr list \<Rightarrow> view" where
  "pipeline_view p r pool run = \<lparr> v_rx = Rx_Loop, v_val = Val_Loop, v_sched = p, v_sched_ready = [],
     v_rec = r, v_pool = pool, v_validation = [], v_ready = [], v_running = run, v_generation = 0 \<rparr>"

lemma boot_view: "view_of boot_fw = pipeline_view Sched_Loop Rec_Loop [0..<8] []"
  by (simp add: view_of_def boot_fw_def pipeline_view_def)

lemma pipeline_view_simps:
  assumes "view_of s = pipeline_view p r pool run"
  shows "fw_sched s = p" "fw_rec s = r" "lq_items (fw_running s) = run"
  using arg_cong [OF assms, of v_sched] arg_cong [OF assms, of v_rec] arg_cong [OF assms, of v_running]
  by (simp_all add: view_simps pipeline_view_def)

lemma load_view:
  assumes "reached tr s" "view_of s = pipeline_view Sched_Loop r (q # qs) run" "distinct (q # qs)"
  obtains s' d where "reached (tr @ load_trace (copy_submission k)) s'" "fw_w s' = ram_zero"
    "view_of s' = pipeline_view (Sched_Publish q d) r qs run"
  using load [OF assms(1) assms(2) [unfolded pipeline_view_def] assms(3)]
  unfolding pipeline_view_def by metis

lemma publish_view:
  assumes "reached tr s" "view_of s = pipeline_view (Sched_Publish q d) r qs []" "fw_w s = ram_zero"
  obtains s' c where "reached (tr @ [Dispatch c]) s'" "view_of s' = pipeline_view Sched_Loop r qs [q]"
  using publish_step [OF assms(1) pipeline_view_simps(1) [OF assms(2)]
      pipeline_view_simps(3) [OF assms(2)] assms(3)] assms(2)
  by (metis (no_types, lifting) pipeline_view_def view.update_convs(3,9))

lemma first_dispatch:
  obtains s c where "reached (load_trace (copy_submission 1) @ [Dispatch c]) s"
    "view_of s = pipeline_view Sched_Loop Rec_Loop [1, 2, 3, 4, 5, 6, 7] [0]"
proof -
  have "[0..<8] = [0, 1, 2, 3, 4, 5, 6, 7]" by code_simp
  moreover have "reached [] boot_fw" unfolding reached_def by (rule fw_run.start)
  ultimately obtain s d where "reached ([] @ load_trace (copy_submission 1)) s" "fw_w s = ram_zero"
    "view_of s = pipeline_view (Sched_Publish 0 d) Rec_Loop [1, 2, 3, 4, 5, 6, 7] []"
    using load_view [of "[]" boot_fw Rec_Loop 0 "[1, 2, 3, 4, 5, 6, 7]" "[]" 1] boot_view by auto
  then show ?thesis using publish_view that by (metis append_Nil)
qed

theorem dispatch_only_validated_witness:
  "\<exists>s c. fw_run list_zephyr boot_fw (load_trace (copy_submission 1) @ [Dispatch c]) s \<and>
     vams_validate_command (copy_submission 1) = VAMS_ERR_NONE \<and>
     cpl_command_id c = 1 \<and> cpl_user_cookie c = 1"
proof -
  obtain s c where run: "fw_run list_zephyr boot_fw (load_trace (copy_submission 1) @ [Dispatch c]) s"
    using first_dispatch unfolding reached_def by blast
  have "admissions (load_trace (copy_submission 1) @ [Dispatch c]) = [copy_submission 1]"
    by (simp add: load_trace_def admissions_def)
  with dispatch_only_validated [OF list_pipeline.pipeline_axioms boot_fw_initial run, of c] run
  show ?thesis by (auto simp: copy_submission_def)
qed

text \<open>
  C3. The running queue does overflow when several payload commands are in flight. There is a run
  that takes three valid copy commands from the portal: the first is dispatched and the recovery
  manager waits for its result, the second is dispatched and fills the single entry of the running
  queue, and when the scheduler dispatches the third, its assertion that the queue has room fails.
\<close>

theorem three_payloads_overflow_running_queue:
  "\<exists>tr s. fw_run list_zephyr boot_fw tr s \<and>
     admissions tr = [copy_submission 1, copy_submission 2, copy_submission 3] \<and>
     list_all (\<lambda>sub. vams_validate_command sub = VAMS_ERR_NONE) (admissions tr) \<and>
     (\<exists>d. fw_rec s = Rec_Wait 0 d) \<and> lq_items (fw_running s) = [1] \<and>
     (\<exists>d. fw_sched s = Sched_Publish 2 d) \<and>
     fw_task list_zephyr Scheduler s = None"
proof -
  obtain s1 c1 where s1: "reached (load_trace (copy_submission 1) @ [Dispatch c1]) s1"
    "view_of s1 = pipeline_view Sched_Loop Rec_Loop [1, 2, 3, 4, 5, 6, 7] [0]"
    using first_dispatch .
  let ?t2 = "(load_trace (copy_submission 1) @ [Dispatch c1]) @ [Tau]"
  obtain s2 e where s2: "reached ?t2 s2"
    "view_of s2 = (view_of s1)\<lparr> v_running := [], v_rec := Rec_Wait 0 e \<rparr>"
    using recovery_takes [OF s1(1) pipeline_view_simps(2,3) [OF s1(2)]] .
  then have v2: "view_of s2 = pipeline_view Sched_Loop (Rec_Wait 0 e) [1, 2, 3, 4, 5, 6, 7] []"
    by (simp add: s1(2) pipeline_view_def)
  obtain s3 d3 where s3: "reached (?t2 @ load_trace (copy_submission 2)) s3" "fw_w s3 = ram_zero"
    "view_of s3 = pipeline_view (Sched_Publish 1 d3) (Rec_Wait 0 e) [2, 3, 4, 5, 6, 7] []"
    by (rule load_view [OF s2(1) v2, of 2]) simp_all
  let ?t4 = "\<lambda>c. (?t2 @ load_trace (copy_submission 2)) @ [Dispatch c]"
  obtain s4 c4 where s4: "reached (?t4 c4) s4"
    "view_of s4 = pipeline_view Sched_Loop (Rec_Wait 0 e) [2, 3, 4, 5, 6, 7] [1]"
    by (rule publish_view [OF s3(1,3,2)])
  obtain s5 d5 where s5: "reached (?t4 c4 @ load_trace (copy_submission 3)) s5" "fw_w s5 = ram_zero"
    "view_of s5 = pipeline_view (Sched_Publish 2 d5) (Rec_Wait 0 e) [3, 4, 5, 6, 7] [1]"
    by (rule load_view [OF s4(1,2), of 3]) simp_all
  note v5 = pipeline_view_simps [OF s5(3)]
  have "running_overflow list_zephyr lq_items s5"
    using v5(1,3) publish_free [OF s5(2)] by (simp add: running_overflow_def)
  then have "fw_task list_zephyr Scheduler s5 = None"
    using list_pipeline.task_advances [OF reached_inv [OF s5(1)], of Scheduler] by simp
  moreover have "admissions (?t4 c4 @ load_trace (copy_submission 3)) =
      [copy_submission 1, copy_submission 2, copy_submission 3]"
    by (simp add: load_trace_def admissions_def)
  ultimately show ?thesis
    using s5(1) v5 copy_submission_valid
    unfolding reached_def by (intro exI [of _ "?t4 c4 @ load_trace (copy_submission 3)"] exI [of _ s5]) simp
qed

end
