(* ===== verification/Vams_Health.thy ===== *)
theory Vams_Health
  imports Vams_Overload
begin

text \<open>
  The per-task health tracker (\<open>firmware/src/health/vams_health.c\<close>): every service task advances an
  epoch counter, and the tracker samples the eight epochs, counts consecutive samples without
  progress per task and reports the lowest-numbered task whose count reached the limit.

  The properties relate the tracker to the history of samples: it reports a task exactly when that
  task's epoch was the same in the last \<open>miss_limit + 1\<close> samples, and its failure count is the number
  of separate episodes.
\<close>

definition VAMS_HEALTH_TASK_NONE :: u32 where [vams_const]: "VAMS_HEALTH_TASK_NONE = 0"
definition VAMS_HEALTH_TASK_COUNT :: nat where [vams_const]: "VAMS_HEALTH_TASK_COUNT = 8"

record vams_health_tracker =
  last_epoch :: "u32 list"
  missed :: "u32 list"
  failure_count :: u32
  stuck_task :: u32
  startup_grace :: u32
  miss_limit :: u32
  failure_latched :: bool

definition vams_health_tracker_init :: "u32 list \<Rightarrow> u32 \<Rightarrow> u32 \<Rightarrow> vams_health_tracker" where
  "vams_health_tracker_init epochs grace limit =
     \<lparr> last_epoch = epochs, missed = replicate VAMS_HEALTH_TASK_COUNT 0, failure_count = 0,
       stuck_task = 0, startup_grace = grace, miss_limit = limit, failure_latched = False \<rparr>"

text \<open>
  The loop of \<open>vams_health_tracker_update\<close> over the task indices, on the arrays \<open>last_epoch\<close> and
  \<open>missed\<close> and the local \<open>stuck_task\<close>.
\<close>

fun health_scan ::
    "u32 list \<Rightarrow> u32 \<Rightarrow> nat list \<Rightarrow> u32 list \<times> u32 list \<times> u32 \<Rightarrow> u32 list \<times> u32 list \<times> u32" where
  "health_scan epochs limit [] s = s"
| "health_scan epochs limit (index # rest) (seen, miss, stuck) =
     (if epochs ! index \<noteq> seen ! index then
        health_scan epochs limit rest (seen[index := epochs ! index], miss[index := 0], stuck)
      else
        let count = vams_counter_increment (miss ! index);
            stuck = (if stuck = VAMS_HEALTH_TASK_NONE \<and> count \<ge> limit
                     then of_nat index + 1 else stuck)
        in health_scan epochs limit rest (seen, miss[index := count], stuck))"

definition vams_health_tracker_update ::
    "u32 list \<Rightarrow> vams_health_tracker \<Rightarrow> bool \<times> vams_health_tracker" where
  "vams_health_tracker_update epochs t =
     (if startup_grace t > 0 then
        (True, t\<lparr> startup_grace := startup_grace t - 1, last_epoch := epochs \<rparr>)
      else
        let (seen, miss, stuck) =
              health_scan epochs (miss_limit t) [0..<VAMS_HEALTH_TASK_COUNT]
                (last_epoch t, missed t, VAMS_HEALTH_TASK_NONE);
            t = t\<lparr> last_epoch := seen, missed := miss, stuck_task := stuck \<rparr>
        in if stuck = VAMS_HEALTH_TASK_NONE then (True, t\<lparr> failure_latched := False \<rparr>)
           else if \<not> failure_latched t then
             (False, t\<lparr> failure_count := vams_counter_increment (failure_count t),
                        failure_latched := True \<rparr>)
           else (False, t))"

subsection \<open>What one update computes\<close>

definition health_next_missed :: "u32 list \<Rightarrow> u32 list \<Rightarrow> u32 list \<Rightarrow> nat \<Rightarrow> u32" where
  "health_next_missed epochs seen miss i =
     (if epochs ! i \<noteq> seen ! i then 0 else vams_counter_increment (miss ! i))"

definition health_stuck_at :: "u32 list \<Rightarrow> u32 \<Rightarrow> u32 list \<Rightarrow> u32 list \<Rightarrow> nat \<Rightarrow> bool" where
  "health_stuck_at epochs limit seen miss i \<longleftrightarrow>
     epochs ! i = seen ! i \<and> limit \<le> vams_counter_increment (miss ! i)"

definition first_stuck :: "(nat \<Rightarrow> bool) \<Rightarrow> nat list \<Rightarrow> u32" where
  "first_stuck P is = (case List.find P is of None \<Rightarrow> VAMS_HEALTH_TASK_NONE | Some i \<Rightarrow> of_nat i + 1)"

lemma first_stuck_cong:
  assumes "\<And>i. i \<in> set is \<Longrightarrow> P i = Q i"
  shows "first_stuck P is = first_stuck Q is"
proof -
  have "List.find P is = List.find Q is" using assms by (intro find_cong) simp_all
  then show ?thesis by (simp add: first_stuck_def)
qed

lemma task_number_nonzero: "i < 8 \<Longrightarrow> (of_nat i + 1 :: u32) \<noteq> VAMS_HEALTH_TASK_NONE"
proof -
  assume "i < 8"
  then have "unat (of_nat (Suc i) :: u32) = Suc i"
    by (simp add: unsigned_of_nat take_bit_eq_mod del: of_nat_Suc)
  then show ?thesis
    by (metis VAMS_HEALTH_TASK_NONE_def add.commute nat.distinct(1) of_nat_Suc unsigned_0)
qed

lemma health_scan_stays_stuck:
  assumes "stuck \<noteq> VAMS_HEALTH_TASK_NONE"
  shows "snd (snd (health_scan epochs limit is (seen, miss, stuck))) = stuck"
  using assms by (induction "is" arbitrary: seen miss) (simp_all add: Let_def)

lemma health_scan_arrays:
  assumes "distinct is" "\<forall>i \<in> set is. i < length seen" "length miss = length seen"
    and "health_scan epochs limit is (seen, miss, stuck) = (seen', miss', stuck')"
  shows "length seen' = length seen \<and> length miss' = length seen \<and>
    (\<forall>i < length seen.
       seen' ! i = (if i \<in> set is then epochs ! i else seen ! i) \<and>
       miss' ! i = (if i \<in> set is then health_next_missed epochs seen miss i else miss ! i))"
  using assms
proof (induction "is" arbitrary: seen miss stuck)
  case (Cons k ks)
  show ?case
  proof (cases "epochs ! k \<noteq> seen ! k")
    case True
    let ?l = "seen[k := epochs ! k]" and ?m = "miss[k := 0]"
    have "length seen' = length ?l \<and> length miss' = length ?l \<and>
      (\<forall>i < length ?l. seen' ! i = (if i \<in> set ks then epochs ! i else ?l ! i) \<and>
        miss' ! i = (if i \<in> set ks then health_next_missed epochs ?l ?m i else ?m ! i))"
      using Cons.prems True by (intro Cons.IH [of ?l ?m stuck]) simp_all
    with Cons.prems True show ?thesis
      by (auto simp: health_next_missed_def nth_list_update)
  next
    case False
    let ?c = "vams_counter_increment (miss ! k)"
    let ?m = "miss[k := ?c]"
    let ?s = "if stuck = VAMS_HEALTH_TASK_NONE \<and> ?c \<ge> limit then of_nat k + 1 else stuck"
    have "length seen' = length seen \<and> length miss' = length seen \<and>
      (\<forall>i < length seen. seen' ! i = (if i \<in> set ks then epochs ! i else seen ! i) \<and>
        miss' ! i = (if i \<in> set ks then health_next_missed epochs seen ?m i else ?m ! i))"
      using Cons.prems False by (intro Cons.IH [of seen ?m ?s]) (simp_all add: Let_def)
    with Cons.prems False show ?thesis
      by (auto simp: health_next_missed_def nth_list_update)
  qed
qed simp

lemma health_scan_stuck:
  assumes "distinct is" "\<forall>i \<in> set is. i < 8"
  shows "snd (snd (health_scan epochs limit is (seen, miss, VAMS_HEALTH_TASK_NONE))) =
    first_stuck (health_stuck_at epochs limit seen miss) is"
  using assms
proof (induction "is" arbitrary: seen miss)
  case (Cons k ks)
  have frame: "first_stuck (health_stuck_at epochs limit (seen[k := x]) (miss[k := y])) ks =
      first_stuck (health_stuck_at epochs limit seen miss) ks" for x y
  proof (rule first_stuck_cong)
    fix j assume "j \<in> set ks"
    then have "k \<noteq> j" using Cons.prems(1) by auto
    then show "health_stuck_at epochs limit (seen[k := x]) (miss[k := y]) j =
        health_stuck_at epochs limit seen miss j"
      by (simp add: health_stuck_at_def)
  qed
  show ?case
  proof (cases "health_stuck_at epochs limit seen miss k")
    case True
    with Cons.prems task_number_nonzero [of k] show ?thesis
      by (simp add: health_stuck_at_def Let_def first_stuck_def health_scan_stays_stuck)
  next
    case False
    have "first_stuck (health_stuck_at epochs limit seen miss) (k # ks) =
        first_stuck (health_stuck_at epochs limit seen miss) ks"
      using False by (simp add: first_stuck_def)
    moreover have "epochs ! k = seen ! k \<Longrightarrow> \<not> limit \<le> vams_counter_increment (miss ! k)"
      using False by (simp add: health_stuck_at_def)
    ultimately show ?thesis
      using Cons.prems Cons.IH [of "seen[k := epochs ! k]" "miss[k := 0]"]
        Cons.IH [of seen "miss[k := vams_counter_increment (miss ! k)]"]
        frame [of "epochs ! k" 0] frame [of "seen ! k" "vams_counter_increment (miss ! k)"]
      by (simp add: Let_def)
  qed
qed (simp add: first_stuck_def)

lemma first_stuck_None: "first_stuck P is = VAMS_HEALTH_TASK_NONE \<longleftrightarrow> (\<forall>i \<in> set is. \<not> P i)"
  if "\<forall>i \<in> set is. i < 8"
proof (cases "List.find P is")
  case None
  then have "\<forall>i \<in> set is. \<not> P i" by (simp add: find_None_iff)
  with None show ?thesis by (simp add: first_stuck_def)
next
  case (Some i)
  then have "i \<in> set is" "P i" by (auto simp: find_Some_iff)
  with that task_number_nonzero [of i] Some show ?thesis by (auto simp: first_stuck_def)
qed

lemma health_update_watching:
  assumes "startup_grace t = 0" "length (last_epoch t) = 8" "length (missed t) = 8"
    and "length epochs = 8"
  defines "stuck \<equiv> first_stuck (health_stuck_at epochs (miss_limit t) (last_epoch t) (missed t)) [0..<8]"
  defines "r \<equiv> vams_health_tracker_update epochs t"
  shows "last_epoch (snd r) = epochs"
    and "length (missed (snd r)) = 8"
    and "i < 8 \<Longrightarrow> missed (snd r) ! i = health_next_missed epochs (last_epoch t) (missed t) i"
    and "stuck_task (snd r) = stuck" and "fst r \<longleftrightarrow> stuck = VAMS_HEALTH_TASK_NONE"
    and "startup_grace (snd r) = 0" and "miss_limit (snd r) = miss_limit t"
    and "failure_latched (snd r) \<longleftrightarrow> \<not> fst r"
    and "failure_count (snd r) =
      (if \<not> fst r \<and> \<not> failure_latched t then vams_counter_increment (failure_count t)
       else failure_count t)"
proof -
  obtain seen miss s where scan: "health_scan epochs (miss_limit t) [0..<8]
      (last_epoch t, missed t, VAMS_HEALTH_TASK_NONE) = (seen, miss, s)"
    by (metis prod_cases3)
  have arrays: "length seen = 8 \<and> length miss = 8 \<and> (\<forall>i < 8. seen ! i = epochs ! i \<and>
      miss ! i = health_next_missed epochs (last_epoch t) (missed t) i)"
    using health_scan_arrays [OF _ _ _ scan] assms(2,3) by simp
  have s: "s = stuck"
    using health_scan_stuck [of "[0..<8]" epochs "miss_limit t" "last_epoch t" "missed t"] scan
    by (simp add: stuck_def)
  have seen: "seen = epochs" using arrays assms(4) by (intro nth_equalityI) simp_all
  have r: "r = (let t = t\<lparr> last_epoch := epochs, missed := miss, stuck_task := stuck \<rparr> in
      if stuck = VAMS_HEALTH_TASK_NONE then (True, t\<lparr> failure_latched := False \<rparr>)
      else if \<not> failure_latched t then
        (False, t\<lparr> failure_count := vams_counter_increment (failure_count t),
                   failure_latched := True \<rparr>)
      else (False, t))"
    using assms(1) scan
    by (simp add: r_def vams_health_tracker_update_def VAMS_HEALTH_TASK_COUNT_def s seen Let_def)
  show "last_epoch (snd r) = epochs" "length (missed (snd r)) = 8"
    "stuck_task (snd r) = stuck" "fst r \<longleftrightarrow> stuck = VAMS_HEALTH_TASK_NONE"
    "startup_grace (snd r) = 0" "miss_limit (snd r) = miss_limit t"
    "failure_latched (snd r) \<longleftrightarrow> \<not> fst r"
    "failure_count (snd r) = (if \<not> fst r \<and> \<not> failure_latched t
       then vams_counter_increment (failure_count t) else failure_count t)"
    using arrays assms(1) by (simp_all add: r Let_def)
  show "i < 8 \<Longrightarrow> missed (snd r) ! i = health_next_missed epochs (last_epoch t) (missed t) i"
    using arrays by (simp add: r Let_def)
qed

subsection \<open>The tracker and the history of samples\<close>

text \<open>\<open>E n\<close> is the \<open>n\<close>-th sample of the epochs, \<open>E 0\<close> the one taken at initialisation.\<close>

fun health_after :: "(nat \<Rightarrow> u32 list) \<Rightarrow> u32 \<Rightarrow> u32 \<Rightarrow> nat \<Rightarrow> vams_health_tracker" where
  "health_after E g limit 0 = vams_health_tracker_init (E 0) g limit"
| "health_after E g limit (Suc n) =
     snd (vams_health_tracker_update (E (Suc n)) (health_after E g limit n))"

definition health_verdict :: "(nat \<Rightarrow> u32 list) \<Rightarrow> u32 \<Rightarrow> u32 \<Rightarrow> nat \<Rightarrow> bool" where
  "health_verdict E g limit n =
     fst (vams_health_tracker_update (E (Suc n)) (health_after E g limit n))"

fun streak :: "(nat \<Rightarrow> u32 list) \<Rightarrow> nat \<Rightarrow> nat \<Rightarrow> nat \<Rightarrow> nat" where
  "streak E g 0 i = 0"
| "streak E g (Suc n) i =
     (if g < Suc n \<and> E (Suc n) ! i = E n ! i then Suc (streak E g n i) else 0)"

text \<open>The epoch of task \<open>i\<close> was the same in the last \<open>m + 1\<close> samples, all compared after the grace.\<close>

definition stalled :: "(nat \<Rightarrow> u32 list) \<Rightarrow> nat \<Rightarrow> nat \<Rightarrow> nat \<Rightarrow> nat \<Rightarrow> bool" where
  "stalled E g m n i \<longleftrightarrow> g + m \<le> n \<and> (\<forall>j \<in> {n - m..n}. E j ! i = E n ! i)"

lemma streak_stalled: "0 < m \<Longrightarrow> m \<le> streak E g n i \<longleftrightarrow> stalled E g m n i"
proof (induction n arbitrary: m)
  case 0
  then show ?case by (simp add: stalled_def)
next
  case (Suc n)
  show ?case
  proof (cases "g < Suc n \<and> E (Suc n) ! i = E n ! i")
    case True
    obtain m' where m: "m = Suc m'" using Suc.prems gr0_implies_Suc by blast
    have window: "{Suc n - Suc m'..Suc n} = insert (Suc n) {n - m'..n}" by auto
    have step: "stalled E g m (Suc n) i \<longleftrightarrow> g + m' \<le> n \<and> (\<forall>j \<in> {n - m'..n}. E j ! i = E n ! i)"
      using True unfolding stalled_def m window by auto
    show ?thesis
    proof (cases m')
      case 0
      with True m step show ?thesis by simp
    next
      case (Suc k)
      with Suc.IH [of m'] True m step show ?thesis by (simp add: stalled_def)
    qed
  next
    case False
    have "n \<in> {Suc n - m..Suc n}" using Suc.prems by simp
    then have "\<not> stalled E g m (Suc n) i"
      using False Suc.prems unfolding stalled_def by fastforce
    with False Suc.prems show ?thesis by auto
  qed
qed

definition health_inv :: "(nat \<Rightarrow> u32 list) \<Rightarrow> u32 \<Rightarrow> u32 \<Rightarrow> nat \<Rightarrow> vams_health_tracker \<Rightarrow> bool" where
  "health_inv E g limit n t \<longleftrightarrow>
     last_epoch t = E n \<and> length (missed t) = 8 \<and> miss_limit t = limit \<and>
     unat (startup_grace t) = unat g - n \<and> (startup_grace t > 0 \<longrightarrow> \<not> failure_latched t) \<and>
     (\<forall>i < 8. unat (missed t ! i) = min (streak E (unat g) n i) (2 ^ 32 - 1))"

lemma streak_grace: "n \<le> g \<Longrightarrow> streak E g n i = 0"
  by (cases n) simp_all

lemma health_inv_after:
  assumes "\<forall>n. length (E n) = 8"
  shows "health_inv E g limit n (health_after E g limit n)"
proof (induction n)
  case 0
  then show ?case
    by (simp add: health_inv_def vams_health_tracker_init_def VAMS_HEALTH_TASK_COUNT_def)
next
  case (Suc n)
  let ?t = "health_after E g limit n"
  have inv: "last_epoch ?t = E n" "length (missed ?t) = 8" "miss_limit ?t = limit"
    "unat (startup_grace ?t) = unat g - n" "startup_grace ?t > 0 \<longrightarrow> \<not> failure_latched ?t"
    "\<And>i. i < 8 \<Longrightarrow> unat (missed ?t ! i) = min (streak E (unat g) n i) (2 ^ 32 - 1)"
    using Suc.IH by (simp_all add: health_inv_def)
  show ?case
  proof (cases "startup_grace ?t > 0")
    case True
    then have grace: "0 < unat g - n" using inv(4) by (simp add: word_less_nat_alt)
    have "unat (startup_grace ?t - 1) = unat (startup_grace ?t) - 1"
      using True by (simp add: unat_sub word_le_nat_alt word_less_nat_alt)
    with True inv grace show ?thesis
      by (simp add: health_inv_def vams_health_tracker_update_def streak_grace)
  next
    case False
    then have grace: "startup_grace ?t = 0" "unat g \<le> n"
      using inv(4) by (simp_all add: word_gt_0)
    note upd = health_update_watching [OF grace(1) _ inv(2) assms [rule_format, of "Suc n"],
        unfolded inv(1), OF assms [rule_format]]
    have "unat (health_next_missed (E (Suc n)) (E n) (missed ?t) i) =
        min (streak E (unat g) (Suc n) i) (2 ^ 32 - 1)" if "i < 8" for i
      using inv(6) [OF that] grace(2) by (simp add: health_next_missed_def unat_counter_increment min_def)
    with upd inv(3) grace(2) show ?thesis by (simp add: health_inv_def)
  qed
qed

lemma health_verdict_stalled:
  assumes "\<forall>n. length (E n) = 8" "0 < limit"
  shows "stuck_task (health_after E g limit (Suc n)) =
      (if unat g \<le> n then first_stuck (stalled E (unat g) (unat limit) (Suc n)) [0..<8]
       else stuck_task (health_after E g limit n))"
    and "health_verdict E g limit n \<longleftrightarrow>
      \<not> (\<exists>i < 8. stalled E (unat g) (unat limit) (Suc n) i)"
proof -
  let ?t = "health_after E g limit n"
  have inv: "last_epoch ?t = E n" "length (missed ?t) = 8" "miss_limit ?t = limit"
    "unat (startup_grace ?t) = unat g - n"
    "\<And>i. i < 8 \<Longrightarrow> unat (missed ?t ! i) = min (streak E (unat g) n i) (2 ^ 32 - 1)"
    using health_inv_after [OF assms(1), of g limit n] by (simp_all add: health_inv_def)
  have lim: "0 < unat limit" "unat limit \<le> 2 ^ 32 - 1"
    using assms(2) unat_u32_less [of limit] by (simp_all add: word_less_nat_alt)
  show "stuck_task (health_after E g limit (Suc n)) =
      (if unat g \<le> n then first_stuck (stalled E (unat g) (unat limit) (Suc n)) [0..<8]
       else stuck_task ?t)"
    "health_verdict E g limit n \<longleftrightarrow> \<not> (\<exists>i < 8. stalled E (unat g) (unat limit) (Suc n) i)"
  proof (atomize (full), cases "unat g \<le> n")
    case True
    then have grace: "startup_grace ?t = 0" using inv(4) by (simp add: unat_eq_0)
    note upd = health_update_watching [OF grace _ inv(2) assms(1) [rule_format, of "Suc n"],
        unfolded inv(1,3), OF assms(1) [rule_format]]
    have "health_stuck_at (E (Suc n)) limit (E n) (missed ?t) i =
        stalled E (unat g) (unat limit) (Suc n) i" if "i < 8" for i
    proof -
      have "unat (vams_counter_increment (missed ?t ! i)) = min (Suc (streak E (unat g) n i)) (2 ^ 32 - 1)"
        using inv(5) [OF that] by (simp add: unat_counter_increment min_def)
      with lim have "limit \<le> vams_counter_increment (missed ?t ! i) \<longleftrightarrow>
          unat limit \<le> Suc (streak E (unat g) n i)"
        by (simp add: word_le_nat_alt) linarith
      with True streak_stalled [OF lim(1), of E "unat g" "Suc n" i] lim show ?thesis
        by (simp add: health_stuck_at_def split: if_splits)
    qed
    then have "first_stuck (health_stuck_at (E (Suc n)) limit (E n) (missed ?t)) [0..<8] =
        first_stuck (stalled E (unat g) (unat limit) (Suc n)) [0..<8]"
      by (intro first_stuck_cong) simp
    with upd(4,5) True show "stuck_task (health_after E g limit (Suc n)) =
      (if unat g \<le> n then first_stuck (stalled E (unat g) (unat limit) (Suc n)) [0..<8]
       else stuck_task ?t) \<and>
      health_verdict E g limit n = (\<not> (\<exists>i < 8. stalled E (unat g) (unat limit) (Suc n) i))"
      by (auto simp: health_verdict_def first_stuck_None)
  next
    case False
    then have "startup_grace ?t > 0" using inv(4) by (simp add: word_less_nat_alt)
    moreover have "\<not> stalled E (unat g) (unat limit) (Suc n) i" for i
      using False lim by (simp add: stalled_def)
    ultimately show "stuck_task (health_after E g limit (Suc n)) =
      (if unat g \<le> n then first_stuck (stalled E (unat g) (unat limit) (Suc n)) [0..<8]
       else stuck_task ?t) \<and>
      health_verdict E g limit n = (\<not> (\<exists>i < 8. stalled E (unat g) (unat limit) (Suc n) i))"
      using False by (simp add: health_verdict_def vams_health_tracker_update_def)
  qed
qed

lemma first_stuck_least:
  assumes "i < 8" "P i" "\<forall>j < i. \<not> P j"
  shows "first_stuck P [0..<8] = of_nat i + 1"
proof -
  have "List.find P [0..<8] = Some i"
    using assms by (auto simp: find_Some_iff intro!: exI [of _ i])
  then show ?thesis by (simp add: first_stuck_def)
qed

text \<open>
  C29. Detection is exact. With samples \<open>E 0\<close> (at initialisation), \<open>E 1\<close>, \<open>E 2\<close>, ... and a positive
  miss limit, the update on sample \<open>n + 1\<close> reports a failure if and only if some task's epoch was
  the same in that sample and the \<open>miss_limit\<close> samples before it, all of them at or after the end of
  the startup grace; and the task it names is the lowest-numbered such task.
\<close>

theorem health_detection_exact:
  assumes "\<forall>n. length (E n) = 8" "0 < limit"
  shows "(\<not> health_verdict E g limit n \<longleftrightarrow> (\<exists>i < 8. stalled E (unat g) (unat limit) (Suc n) i)) \<and>
    (\<forall>i < 8. stalled E (unat g) (unat limit) (Suc n) i \<and>
        (\<forall>j < i. \<not> stalled E (unat g) (unat limit) (Suc n) j) \<longrightarrow>
       stuck_task (health_after E g limit (Suc n)) = of_nat i + 1)"
proof -
  have "unat g \<le> n" if "stalled E (unat g) (unat limit) (Suc n) i" for i
    using that assms(2) by (auto simp: stalled_def word_less_nat_alt)
  then show ?thesis
    using health_verdict_stalled [OF assms, of g n]
      first_stuck_least [of _ "stalled E (unat g) (unat limit) (Suc n)"] by auto
qed

text \<open>The samples of a run in which task 5 stops after the second sample.\<close>

definition frozen_sixth :: "nat \<Rightarrow> u32 list" where
  "frozen_sixth n = (replicate 8 (of_nat n))[5 := of_nat (min n 2)]"

theorem health_detection_exact_witness:
  "(\<not> health_verdict frozen_sixth 2 2 3 \<longleftrightarrow> (\<exists>i < 8. stalled frozen_sixth 2 2 4 i)) \<and>
   \<not> health_verdict frozen_sixth 2 2 3 \<and> stuck_task (health_after frozen_sixth 2 2 4) = 6"
proof -
  have len: "\<forall>n. length (frozen_sixth n) = 8" by (simp add: frozen_sixth_def)
  have window: "{2 :: nat..4} = {2, 3, 4}" by auto
  have st: "stalled frozen_sixth 2 2 4 5"
    by (simp add: stalled_def frozen_sixth_def window)
  have other: "\<not> stalled frozen_sixth 2 2 4 j" if "j < 5" for j
    using that by (simp add: stalled_def frozen_sixth_def window)
  have "(\<not> health_verdict frozen_sixth 2 2 3 \<longleftrightarrow> (\<exists>i < 8. stalled frozen_sixth 2 2 4 i)) \<and>
    (\<forall>i < 8. stalled frozen_sixth 2 2 4 i \<and> (\<forall>j < i. \<not> stalled frozen_sixth 2 2 4 j) \<longrightarrow>
       stuck_task (health_after frozen_sixth 2 2 4) = of_nat i + 1)"
    using health_detection_exact [OF len, of 2 2 3] by simp
  with st other show ?thesis by (auto dest!: spec [of _ 5])
qed

subsection \<open>The failure count\<close>

text \<open>The number of failure episodes among the first \<open>n\<close> updates: maximal runs of failing ones.\<close>

fun episodes :: "(nat \<Rightarrow> bool) \<Rightarrow> nat \<Rightarrow> nat" where
  "episodes verdict 0 = 0"
| "episodes verdict (Suc n) =
     episodes verdict n + (if \<not> verdict n \<and> (n = 0 \<or> verdict (n - 1)) then 1 else 0)"

lemma health_latch:
  assumes "\<forall>n. length (E n) = 8"
  shows "failure_latched (health_after E g limit (Suc n)) \<longleftrightarrow> \<not> health_verdict E g limit n"
    and "failure_count (health_after E g limit (Suc n)) =
      (if \<not> health_verdict E g limit n \<and> \<not> failure_latched (health_after E g limit n)
       then vams_counter_increment (failure_count (health_after E g limit n))
       else failure_count (health_after E g limit n))"
proof -
  let ?t = "health_after E g limit n"
  have inv: "last_epoch ?t = E n" "length (missed ?t) = 8"
    "startup_grace ?t > 0 \<longrightarrow> \<not> failure_latched ?t"
    using health_inv_after [OF assms, of g limit n] by (simp_all add: health_inv_def)
  show "failure_latched (health_after E g limit (Suc n)) \<longleftrightarrow> \<not> health_verdict E g limit n"
    "failure_count (health_after E g limit (Suc n)) =
      (if \<not> health_verdict E g limit n \<and> \<not> failure_latched ?t
       then vams_counter_increment (failure_count ?t) else failure_count ?t)"
  proof (atomize (full), cases "startup_grace ?t > 0")
    case True
    with inv(3) show "(failure_latched (health_after E g limit (Suc n)) =
        (\<not> health_verdict E g limit n)) \<and> failure_count (health_after E g limit (Suc n)) =
      (if \<not> health_verdict E g limit n \<and> \<not> failure_latched ?t
       then vams_counter_increment (failure_count ?t) else failure_count ?t)"
      by (simp add: health_verdict_def vams_health_tracker_update_def)
  next
    case False
    then have "startup_grace ?t = 0" by (simp add: word_gt_0)
    from health_update_watching(8,9) [OF this _ inv(2) assms [rule_format, of "Suc n"],
        unfolded inv(1), OF assms [rule_format]]
    show "(failure_latched (health_after E g limit (Suc n)) =
        (\<not> health_verdict E g limit n)) \<and> failure_count (health_after E g limit (Suc n)) =
      (if \<not> health_verdict E g limit n \<and> \<not> failure_latched ?t
       then vams_counter_increment (failure_count ?t) else failure_count ?t)"
      by (simp add: health_verdict_def)
  qed
qed

text \<open>
  C30. The failure count is the number of failure episodes, not of failing samples: consecutive
  failing updates count once, a recovery in between starts a new episode, and the count saturates
  at \<open>UINT32_MAX\<close> instead of wrapping to zero.
\<close>

theorem failure_count_episodes:
  assumes "\<forall>n. length (E n) = 8"
  shows "unat (failure_count (health_after E g limit n)) =
    min (episodes (health_verdict E g limit) n) (2 ^ 32 - 1)"
proof (induction n)
  case 0
  then show ?case by (simp add: vams_health_tracker_init_def)
next
  case (Suc n)
  have "failure_latched (health_after E g limit n) \<longleftrightarrow> n \<noteq> 0 \<and> \<not> health_verdict E g limit (n - 1)"
    using health_latch(1) [OF assms, of g limit "n - 1"]
    by (cases n) (simp_all add: vams_health_tracker_init_def)
  with Suc.IH health_latch(2) [OF assms, of g limit n] show ?case
    by (simp add: unat_counter_increment min_def)
qed

theorem failure_count_episodes_witness:
  "unat (failure_count (health_after frozen_sixth 2 2 4)) =
     min (episodes (health_verdict frozen_sixth 2 2) 4) (2 ^ 32 - 1)"
  by (rule failure_count_episodes) (simp add: frozen_sixth_def)

end
