(* ===== verification/Vams_Mailbox.thy ===== *)
theory Vams_Mailbox
  imports Vams_Zephyr Vams_Management
begin

text \<open>
  The mailbox driver (\<open>firmware/drivers/vams_mailbox.c\<close>): the interrupt handler moves a message from
  the device into a four-entry message queue; the service task takes it from there and answers.

  The receive queue is a Zephyr message queue, a parameter with the laws of \<open>msgq_laws\<close>. \<open>ready\<close> is
  \<open>device_is_ready\<close>.
\<close>

definition MAILBOX_BASE :: u32 where [vams_const]: "MAILBOX_BASE = 0x10010000"
definition VAMS_MAILBOX_MESSAGE :: u32 where [vams_const]: "VAMS_MAILBOX_MESSAGE = 0x00"
definition VAMS_MAILBOX_ACK :: u32 where [vams_const]: "VAMS_MAILBOX_ACK = 0x04"
definition VAMS_MAILBOX_RESPONSE :: u32 where [vams_const]: "VAMS_MAILBOX_RESPONSE = 0x08"
definition VAMS_MAILBOX_RESPONSE_DOORBELL :: u32 where
  [vams_const]: "VAMS_MAILBOX_RESPONSE_DOORBELL = 0x0c"
definition VAMS_MAILBOX_STATUS :: u32 where [vams_const]: "VAMS_MAILBOX_STATUS = 0x10"
definition VAMS_MAILBOX_H2F_PENDING :: u32 where [vams_const]: "VAMS_MAILBOX_H2F_PENDING = 1"
definition VAMS_MAILBOX_F2H_PENDING :: u32 where [vams_const]: "VAMS_MAILBOX_F2H_PENDING = 2"

definition VAMS_MAILBOX_PING :: u32 where [vams_const]: "VAMS_MAILBOX_PING = 1"
definition VAMS_MAILBOX_PING_RESPONSE :: u32 where
  [vams_const]: "VAMS_MAILBOX_PING_RESPONSE = 0x80000001"
definition VAMS_MAILBOX_UNSUPPORTED :: u32 where
  [vams_const]: "VAMS_MAILBOX_UNSUPPORTED = 0xffffffff"

definition vams_mailbox_isr ::
    "'w board \<Rightarrow> ('m, u32) msgq_api \<Rightarrow> 'm \<Rightarrow> 'w \<Rightarrow> 'm \<times> 'w" where
  "vams_mailbox_isr b mq q w =
     (let (status, w) = sys_read32 b (MAILBOX_BASE + VAMS_MAILBOX_STATUS) w
      in if status AND VAMS_MAILBOX_H2F_PENDING = 0 then (q, w)
         else let (message, w) = sys_read32 b (MAILBOX_BASE + VAMS_MAILBOX_MESSAGE) w;
                  w = sys_write32 b 1 (MAILBOX_BASE + VAMS_MAILBOX_ACK) w
              in (snd (k_msgq_put mq message q), w))"

definition vams_mailbox_receive ::
    "('m, u32) msgq_api \<Rightarrow> bool \<Rightarrow> bool \<Rightarrow> 'm \<Rightarrow> (errno + u32) \<times> 'm" where
  "vams_mailbox_receive mq ready wait q =
     (if \<not> ready then (Inl EINVAL, q) else k_msgq_get mq wait q)"

definition vams_mailbox_respond ::
    "'w board \<Rightarrow> bool \<Rightarrow> u32 \<Rightarrow> 'w \<Rightarrow> rc \<times> 'w" where
  "vams_mailbox_respond b ready response w =
     (if \<not> ready then (RC_ERR EINVAL, w)
      else let (status, w) = sys_read32 b (MAILBOX_BASE + VAMS_MAILBOX_STATUS) w
           in if status AND VAMS_MAILBOX_F2H_PENDING \<noteq> 0 then (RC_ERR EBUSY, w)
              else let w = sys_write32 b response (MAILBOX_BASE + VAMS_MAILBOX_RESPONSE) w
                   in (RC_OK, sys_write32 b 1 (MAILBOX_BASE + VAMS_MAILBOX_RESPONSE_DOORBELL) w))"

text \<open>
  The initialisation runs the handler once on the empty queue \<open>q\<close>, for a message posted before the
  interrupt was wired.
\<close>

definition vams_mailbox_init ::
    "'w board \<Rightarrow> ('m, u32) msgq_api \<Rightarrow> 'm \<Rightarrow> 'w \<Rightarrow> 'm \<times> 'w" where
  "vams_mailbox_init b mq q w = vams_mailbox_isr b mq q w"

text \<open>The answer the service task gives to a message.\<close>

definition mailbox_answer :: "u32 \<Rightarrow> u32" where
  "mailbox_answer message =
     (if message = VAMS_MAILBOX_PING then VAMS_MAILBOX_PING_RESPONSE else VAMS_MAILBOX_UNSUPPORTED)"

subsection \<open>Messages keep their order; a full queue loses the newest one\<close>

text \<open>
  A sequence of interrupts, each with the device as the host left it: the message register holds
  the message and the pending bit is set.
\<close>

definition mailbox_posted :: "'w board \<Rightarrow> u32 \<Rightarrow> 'w \<Rightarrow> bool" where
  "mailbox_posted b message w \<longleftrightarrow>
     (let (status, w1) = sys_read32 b (MAILBOX_BASE + VAMS_MAILBOX_STATUS) w
      in status AND VAMS_MAILBOX_H2F_PENDING \<noteq> 0 \<and>
         fst (sys_read32 b (MAILBOX_BASE + VAMS_MAILBOX_MESSAGE) w1) = message)"

fun mailbox_interrupts ::
    "'w board \<Rightarrow> ('m, u32) msgq_api \<Rightarrow> 'w list \<Rightarrow> 'm \<Rightarrow> 'm" where
  "mailbox_interrupts b mq [] q = q"
| "mailbox_interrupts b mq (w # ws) q = mailbox_interrupts b mq ws (fst (vams_mailbox_isr b mq q w))"

lemma isr_posted:
  assumes "msgq_laws mq items cap" "mailbox_posted b message w"
  shows "items (fst (vams_mailbox_isr b mq q w)) =
      (if length (items q) < cap q then items q @ [message] else items q)"
    and "cap (fst (vams_mailbox_isr b mq q w)) = cap q"
proof -
  have isr: "fst (vams_mailbox_isr b mq q w) = snd (k_msgq_put mq message q)"
    using assms(2) by (auto simp: vams_mailbox_isr_def mailbox_posted_def Let_def split: prod.splits)
  obtain st q' where put: "k_msgq_put mq message q = (st, q')" by fastforce
  show "items (fst (vams_mailbox_isr b mq q w)) =
      (if length (items q) < cap q then items q @ [message] else items q)"
    "cap (fst (vams_mailbox_isr b mq q w)) = cap q"
    unfolding isr by (rule msgq_laws.putE [OF assms(1) put]; simp add: put)+
qed

text \<open>
  C36. Mailbox messages are delivered in order and the queue is bounded: after any sequence of
  interrupts with no reader running, the queue holds its old content followed by the first
  messages that fit, in the order the host posted them; the later ones are lost although the
  handler acknowledged them.
\<close>

theorem mailbox_fifo_bounded:
  assumes "msgq_laws mq items cap" "length (items q) \<le> cap q"
    and "list_all2 (mailbox_posted b) messages ws"
  shows "items (mailbox_interrupts b mq ws q) =
    items q @ take (cap q - length (items q)) messages"
  using assms(3,2)
proof (induction messages ws arbitrary: q rule: list_all2_induct)
  case (Cons message messages w ws)
  note step = isr_posted [OF assms(1) Cons.hyps(1), of q]
  show ?case
  proof (cases "length (items q) < cap q")
    case True
    then have "cap q - length (items q) = Suc (cap q - length (items q @ [message]))" by simp
    with True step Cons.IH [of "fst (vams_mailbox_isr b mq q w)"] show ?thesis by simp
  next
    case False
    with step Cons.prems Cons.IH [of "fst (vams_mailbox_isr b mq q w)"] show ?thesis by simp
  qed
qed simp

definition posted_world :: "u32 \<Rightarrow> ram_world" where
  "posted_world message = \<lparr> ram_cell = (\<lambda>addr. if addr = MAILBOX_BASE + VAMS_MAILBOX_STATUS then 1
     else if addr = MAILBOX_BASE + VAMS_MAILBOX_MESSAGE then message else 0), ram_clock = 0 \<rparr>"

theorem mailbox_fifo_bounded_witness:
  "lq_items (mailbox_interrupts ram_board list_msgq_api (map posted_world [1, 2, 3, 4, 5])
      \<lparr> lq_items = [], lq_cap = 4 \<rparr>) = [1, 2, 3, 4]"
proof -
  have "mailbox_posted ram_board m (posted_world m)" for m
    by (simp add: mailbox_posted_def posted_world_def ram_board_def vams_const)
  then have "list_all2 (mailbox_posted ram_board) [1, 2, 3, 4, 5] (map posted_world [1, 2, 3, 4, 5])"
    by simp
  from mailbox_fifo_bounded [OF list_msgq.msgq_laws_axioms _ this, of "\<lparr> lq_items = [], lq_cap = 4 \<rparr>"]
  show ?thesis by simp
qed

end
