(* ===== verification/Vams_Services.thy ===== *)
theory Vams_Services
  imports Vams_Delivery Vams_Health Vams_Mailbox
begin

text \<open>
  The service tasks of \<open>firmware/src/main.c\<close> around the command pipeline: the heartbeat producer and
  monitor, the mailbox service, the health monitor that pets the watchdog, and the boot sequence in
  \<open>main\<close>. The state of the whole firmware is the state of the pipeline with the queues, counters and
  locals of the services; a run interleaves their rounds with the steps of the pipeline.

  The properties: the services are an environment the pipeline tolerates, no heartbeat is lost
  without being counted, the watchdog is petted exactly in the rounds in which every task made
  progress, and the exact conditions under which an assertion of a service task fails.
\<close>

definition VAMS_HEARTBEAT_PERIOD :: u64 where [vams_const]: "VAMS_HEARTBEAT_PERIOD = 250"
definition VAMS_WATCHDOG_TIMEOUT_MS :: u32 where [vams_const]: "VAMS_WATCHDOG_TIMEOUT_MS = 1000"
definition VAMS_HEALTH_STARTUP_GRACE :: u32 where [vams_const]: "VAMS_HEALTH_STARTUP_GRACE = 2"
definition VAMS_HEALTH_MISS_LIMIT :: u32 where [vams_const]: "VAMS_HEALTH_MISS_LIMIT = 2"
definition VAMS_FIRMWARE_VERSION :: u32 where [vams_const]: "VAMS_FIRMWARE_VERSION = 0x00010000"
definition VAMS_TASK_STACK_SIZE :: u32 where [vams_const]: "VAMS_TASK_STACK_SIZE = 1024"
definition VAMS_COMMAND_STACK_SIZE :: u32 where [vams_const]: "VAMS_COMMAND_STACK_SIZE = 1536"
definition VAMS_VALIDATOR_STACK_SIZE :: u32 where [vams_const]: "VAMS_VALIDATOR_STACK_SIZE = 2048"

record vams_heartbeat =
  hb_sequence :: u32
  hb_uptime_ms :: u64

text \<open>
  What the services call of the kernel, besides the pipeline's calls: two more message queues, the
  readiness of the devices, and the unused stack of a thread, numbered in the order of the report.
\<close>

record ('h, 'm) services =
  sv_hbq :: "('h, vams_heartbeat) msgq_api"
  sv_mbq :: "('m, u32) msgq_api"
  sv_ready :: bool
  k_thread_stack_space_get :: "nat \<Rightarrow> errno + u32"

text \<open>The locals of \<open>vams_health_monitor\<close>.\<close>

record health_monitor =
  mon_tracker :: vams_health_tracker
  mon_heartbeat :: u32
  mon_reported_failure_count :: u32
  mon_resources_reported :: bool
  mon_last_pet_ms :: u64
  mon_watchdog_max_interval_ms :: u64

record ('w, 'q, 's, 'e, 'h, 'm) system =
  sys_fw :: "('w, 'q, 's, 'e) fw"
  sys_heartbeats :: 'h
  sys_mailbox :: 'm
  producer_sequence :: u32
  heartbeat_drop_count :: u32
  health_failure_count :: u32
  health_stuck_task :: u32
  sys_monitor :: "health_monitor option"

text \<open>What a round of a service shows: the heartbeat and whether the queue took it, the heartbeat
  logged, the message answered, the epochs sampled, and the result of the pet if there was one,
  with the reset flag the monitor saw.\<close>

datatype service_label =
    Idle
  | Beat vams_heartbeat bool
  | Seen vams_heartbeat
  | Answered u32 u32
  | Watch_Start "u32 list"
  | Watch "u32 list" bool "rc option"

subsection \<open>Heartbeats\<close>

definition vams_producer ::
    "('w, 'q, 's, 'e) zephyr \<Rightarrow> ('h, 'm) services \<Rightarrow> ('w, 'q, 's, 'e, 'h, 'm) system \<Rightarrow>
       service_label \<times> ('w, 'q, 's, 'e, 'h, 'm) system" where
  "vams_producer z sv s =
     (let b = z_board z;
          heartbeat = \<lparr> hb_sequence = producer_sequence s,
                        hb_uptime_ms = k_uptime_get b (fw_w (sys_fw s)) \<rparr>;
          (status, q) = k_msgq_put (sv_hbq sv) heartbeat (sys_heartbeats s);
          drops = (if status \<noteq> RC_OK then vams_saturating_atomic_inc [] (heartbeat_drop_count s)
                   else heartbeat_drop_count s);
          fw = vams_task_progress 0 (sys_fw s)
      in (Beat heartbeat (status = RC_OK),
          s\<lparr> sys_fw := fw\<lparr> fw_w := k_sleep_ms b VAMS_HEARTBEAT_PERIOD (fw_w fw) \<rparr>,
             sys_heartbeats := q, heartbeat_drop_count := drops,
             producer_sequence := producer_sequence s + 1 \<rparr>))"

definition vams_monitor ::
    "('w, 'q, 's, 'e) zephyr \<Rightarrow> ('h, 'm) services \<Rightarrow> ('w, 'q, 's, 'e, 'h, 'm) system \<Rightarrow>
       (service_label \<times> ('w, 'q, 's, 'e, 'h, 'm) system) option" where
  "vams_monitor z sv s =
     (let (r, q) = k_msgq_get (sv_hbq sv) True (sys_heartbeats s);
          fw = vams_task_progress 1 (sys_fw s)
      in case r of
           Inl e \<Rightarrow> do { c_assert (e = EAGAIN);
                         Some (Idle, s\<lparr> sys_fw := fw, sys_heartbeats := q \<rparr>) }
         | Inr heartbeat \<Rightarrow> do {
             fw \<leftarrow> emit z VAMS_EVENT_HEARTBEAT 0 (command_generation fw) (hb_sequence heartbeat)
                     0 0 (hb_uptime_ms heartbeat) fw;
             Some (Seen heartbeat, s\<lparr> sys_fw := fw, sys_heartbeats := q \<rparr>) })"

subsection \<open>The mailbox service\<close>

definition vams_mailbox_service ::
    "('w, 'q, 's, 'e) zephyr \<Rightarrow> ('h, 'm) services \<Rightarrow> ('w, 'q, 's, 'e, 'h, 'm) system \<Rightarrow>
       (service_label \<times> ('w, 'q, 's, 'e, 'h, 'm) system) option" where
  "vams_mailbox_service z sv s =
     (let (r, q) = vams_mailbox_receive (sv_mbq sv) (sv_ready sv) True (sys_mailbox s);
          fw = vams_task_progress 2 (sys_fw s)
      in case r of
           Inl e \<Rightarrow> do { c_assert (e = EAGAIN);
                         Some (Idle, s\<lparr> sys_fw := fw, sys_mailbox := q \<rparr>) }
         | Inr message \<Rightarrow> do {
             let response = mailbox_answer message;
             let (status, w) = vams_mailbox_respond (z_board z) (sv_ready sv) response (fw_w fw);
             c_assert (status = RC_OK);
             fw \<leftarrow> emit z VAMS_EVENT_MAILBOX 0 (command_generation fw) message response 0 0
                     (fw\<lparr> fw_w := w \<rparr>);
             Some (Answered message response, s\<lparr> sys_fw := fw, sys_mailbox := q \<rparr>) })"

text \<open>The interrupt of the mailbox device.\<close>

definition mailbox_interrupt ::
    "('w, 'q, 's, 'e) zephyr \<Rightarrow> ('h, 'm) services \<Rightarrow> ('w, 'q, 's, 'e, 'h, 'm) system \<Rightarrow>
       ('w, 'q, 's, 'e, 'h, 'm) system" where
  "mailbox_interrupt z sv s =
     (let (q, w) = vams_mailbox_isr (z_board z) (sv_mbq sv) (sys_mailbox s) (fw_w (sys_fw s))
      in s\<lparr> sys_fw := (sys_fw s)\<lparr> fw_w := w \<rparr>, sys_mailbox := q \<rparr>)"

subsection \<open>The resource report\<close>

text \<open>\<open>vams_stack_used\<close>: \<open>None\<close> is the failing assertion on the kernel's answer.\<close>

definition vams_stack_used :: "('h, 'm) services \<Rightarrow> nat \<Rightarrow> u32 \<Rightarrow> u32 option" where
  "vams_stack_used sv thread capacity =
     (case k_thread_stack_space_get sv thread of
        Inl e \<Rightarrow> None
      | Inr unused \<Rightarrow> Some (capacity - unused))"

text \<open>The stack sizes in the order of the report: producer to event logger.\<close>

definition stack_capacities :: "u32 list" where
  "stack_capacities =
     [VAMS_TASK_STACK_SIZE, VAMS_TASK_STACK_SIZE, VAMS_TASK_STACK_SIZE, VAMS_COMMAND_STACK_SIZE,
      VAMS_VALIDATOR_STACK_SIZE, VAMS_COMMAND_STACK_SIZE, VAMS_COMMAND_STACK_SIZE,
      VAMS_COMMAND_STACK_SIZE, VAMS_TASK_STACK_SIZE, VAMS_TASK_STACK_SIZE]"

fun stacks_used :: "('h, 'm) services \<Rightarrow> nat \<Rightarrow> u32 list \<Rightarrow> u32 list option" where
  "stacks_used sv thread [] = Some []"
| "stacks_used sv thread (capacity # rest) = do {
     used \<leftarrow> vams_stack_used sv thread capacity;
     more \<leftarrow> stacks_used sv (Suc thread) rest;
     Some (used # more)
   }"

definition watchdog_margin_ms :: "u64 \<Rightarrow> u64" where
  "watchdog_margin_ms watchdog_max_interval_ms =
     (if watchdog_max_interval_ms < ucast VAMS_WATCHDOG_TIMEOUT_MS
      then ucast VAMS_WATCHDOG_TIMEOUT_MS - watchdog_max_interval_ms else 0)"

text \<open>
  The values the report prints: the high-water marks and the counters, the stacks, and the margin of
  the watchdog. The text around them goes to the console and is not modelled.
\<close>

definition vams_report_resources ::
    "('h, 'm) services \<Rightarrow> ('w, 'q, 's, 'e, 'h, 'm) system \<Rightarrow> u64 \<Rightarrow>
       (u32 list \<times> u32 list \<times> u64) option" where
  "vams_report_resources sv s watchdog_max_interval_ms = do {
     let fw = sys_fw s;
     let counters = [command_pool_high_water fw, validation_queue_high_water fw,
       ready_queue_high_water fw, running_queue_high_water fw, completion_queue_high_water fw,
       recovery_attempt_count fw, recovery_escalation_count fw, admission_defer_count fw,
       heartbeat_drop_count s, queue_overload_count fw, portal_stall_count fw,
       vams_event_drop_count (fw_log fw), health_failure_count s, health_stuck_task s];
     stacks \<leftarrow> stacks_used sv 0 stack_capacities;
     Some (counters, stacks, watchdog_margin_ms watchdog_max_interval_ms)
   }"

subsection \<open>The health monitor\<close>

definition vams_health_epochs :: "('w, 'q, 's, 'e) fw \<Rightarrow> u32 list" where
  "vams_health_epochs fw = map (\<lambda>index. fw_epochs fw ! index) [0..<VAMS_HEALTH_TASK_COUNT]"

definition health_monitor_start ::
    "('w, 'q, 's, 'e) zephyr \<Rightarrow> ('w, 'q, 's, 'e, 'h, 'm) system \<Rightarrow>
       service_label \<times> ('w, 'q, 's, 'e, 'h, 'm) system" where
  "health_monitor_start z s =
     (let epochs = vams_health_epochs (sys_fw s);
          m = \<lparr> mon_tracker = vams_health_tracker_init epochs VAMS_HEALTH_STARTUP_GRACE
                  VAMS_HEALTH_MISS_LIMIT,
                mon_heartbeat = 0, mon_reported_failure_count = 0, mon_resources_reported = False,
                mon_last_pet_ms = k_uptime_get (z_board z) (fw_w (sys_fw s)),
                mon_watchdog_max_interval_ms = 0 \<rparr>
      in (Watch_Start epochs, s\<lparr> sys_monitor := Some m \<rparr>))"

text \<open>A new failure is noted in the retained record and logged, once per failure count.\<close>

definition health_note_failure ::
    "('w, 'q, 's, 'e) zephyr \<Rightarrow> bool \<Rightarrow> health_monitor \<times> ('w, 'q, 's, 'e) fw \<Rightarrow>
       (health_monitor \<times> ('w, 'q, 's, 'e) fw) option" where
  "health_note_failure z healthy = (\<lambda>(m, fw).
     let tracker = mon_tracker m in
     if \<not> healthy \<and> failure_count tracker \<noteq> mon_reported_failure_count m then do {
       fw \<leftarrow> note_retained (vams_retained_note_health (z_board z) (stuck_task tracker)
               (failure_count tracker)) fw;
       fw \<leftarrow> emit z VAMS_EVENT_HEALTH_STUCK 0 (command_generation fw) (stuck_task tracker)
               (failure_count tracker) 0 0 fw;
       Some (m\<lparr> mon_reported_failure_count := failure_count tracker \<rparr>, fw)
     } else Some (m, fw))"

text \<open>A healthy round publishes the heartbeat, the uptime and the version to the host.\<close>

definition health_publish ::
    "('w, 'q, 's, 'e) zephyr \<Rightarrow> bool \<Rightarrow> u64 \<Rightarrow> health_monitor \<times> ('w, 'q, 's, 'e) fw \<Rightarrow>
       (health_monitor \<times> ('w, 'q, 's, 'e) fw) option" where
  "health_publish z healthy uptime_ms = (\<lambda>(m, fw).
     if healthy then do {
       let heartbeat = mon_heartbeat m + 1;
       let fw = fw\<lparr> fw_w := vams_management_publish (z_board z) heartbeat uptime_ms
                            VAMS_FIRMWARE_VERSION (fw_w fw) \<rparr>;
       fw \<leftarrow> emit z VAMS_EVENT_TELEMETRY 0 (command_generation fw) heartbeat 0 0 uptime_ms fw;
       Some (m\<lparr> mon_heartbeat := heartbeat \<rparr>, fw)
     } else Some (m, fw))"

definition health_pet ::
    "('w, 'q, 's, 'e) zephyr \<Rightarrow> bool \<Rightarrow> bool \<Rightarrow> u64 \<Rightarrow> health_monitor \<times> ('w, 'q, 's, 'e) fw \<Rightarrow>
       (rc option \<times> health_monitor \<times> ('w, 'q, 's, 'e) fw) option" where
  "health_pet z ready healthy uptime_ms = (\<lambda>(m, fw).
     if healthy \<and> \<not> overload_reset_requested fw then do {
       let (status, w) = vams_management_watchdog_pet (z_board z) ready (fw_w fw);
       let pet_interval_ms = uptime_ms - mon_last_pet_ms m;
       c_assert (status = RC_OK);
       let m = m\<lparr> mon_last_pet_ms := uptime_ms \<rparr>;
       let m = (if pet_interval_ms > mon_watchdog_max_interval_ms m
                then m\<lparr> mon_watchdog_max_interval_ms := pet_interval_ms \<rparr> else m);
       Some (Some status, m, fw\<lparr> fw_w := w \<rparr>)
     } else Some (None, m, fw))"

text \<open>The report, once, after the fourth heartbeat.\<close>

definition health_report ::
    "('h, 'm) services \<Rightarrow> ('w, 'q, 's, 'e, 'h, 'm) system \<Rightarrow> health_monitor \<Rightarrow> health_monitor option" where
  "health_report sv s m =
     (if \<not> mon_resources_reported m \<and> mon_heartbeat m \<ge> 4 then do {
        report \<leftarrow> vams_report_resources sv s (mon_watchdog_max_interval_ms m);
        Some (m\<lparr> mon_resources_reported := True \<rparr>)
      } else Some m)"

definition health_monitor_round ::
    "('w, 'q, 's, 'e) zephyr \<Rightarrow> ('h, 'm) services \<Rightarrow> health_monitor \<Rightarrow>
       ('w, 'q, 's, 'e, 'h, 'm) system \<Rightarrow>
       (service_label \<times> ('w, 'q, 's, 'e, 'h, 'm) system) option" where
  "health_monitor_round z sv m s = do {
     let b = z_board z;
     let fw = (sys_fw s)\<lparr> fw_w := k_sleep_ms b VAMS_HEARTBEAT_PERIOD (fw_w (sys_fw s)) \<rparr>;
     let uptime_ms = k_uptime_get b (fw_w fw);
     let epochs = vams_health_epochs fw;
     let (healthy, tracker) = vams_health_tracker_update epochs (mon_tracker m);
     let s = s\<lparr> health_failure_count := failure_count tracker,
                health_stuck_task := stuck_task tracker \<rparr>;
     (m, fw) \<leftarrow> health_note_failure z healthy (m\<lparr> mon_tracker := tracker \<rparr>, fw);
     (m, fw) \<leftarrow> health_publish z healthy uptime_ms (m, fw);
     let reset = overload_reset_requested fw;
     (pet, m, fw) \<leftarrow> health_pet z (sv_ready sv) healthy uptime_ms (m, fw);
     let s = s\<lparr> sys_fw := fw \<rparr>;
     m \<leftarrow> health_report sv s m;
     Some (Watch epochs reset pet, s\<lparr> sys_monitor := Some m \<rparr>)
   }"

definition vams_health_monitor ::
    "('w, 'q, 's, 'e) zephyr \<Rightarrow> ('h, 'm) services \<Rightarrow> ('w, 'q, 's, 'e, 'h, 'm) system \<Rightarrow>
       (service_label \<times> ('w, 'q, 's, 'e, 'h, 'm) system) option" where
  "vams_health_monitor z sv s =
     (case sys_monitor s of
        None \<Rightarrow> Some (health_monitor_start z s)
      | Some m \<Rightarrow> health_monitor_round z sv m s)"

subsection \<open>Runs of the whole firmware\<close>

datatype sys_label = Pipeline label | Service service_label

inductive sys_step ::
    "('w, 'q, 's, 'e) zephyr \<Rightarrow> ('h, 'm) services \<Rightarrow> ('w, 'q, 's, 'e, 'h, 'm) system \<Rightarrow> sys_label \<Rightarrow>
       ('w, 'q, 's, 'e, 'h, 'm) system \<Rightarrow> bool"
  for z sv where
  pipeline: "fw_step z (sys_fw s) a fw \<Longrightarrow> sys_step z sv s (Pipeline a) (s\<lparr> sys_fw := fw \<rparr>)"
| producer: "vams_producer z sv s = (a, s') \<Longrightarrow> sys_step z sv s (Service a) s'"
| monitor: "vams_monitor z sv s = Some (a, s') \<Longrightarrow> sys_step z sv s (Service a) s'"
| mailbox: "vams_mailbox_service z sv s = Some (a, s') \<Longrightarrow> sys_step z sv s (Service a) s'"
| interrupt: "sys_step z sv s (Service Idle) (mailbox_interrupt z sv s)"
| health: "vams_health_monitor z sv s = Some (a, s') \<Longrightarrow> sys_step z sv s (Service a) s'"

inductive sys_run ::
    "('w, 'q, 's, 'e) zephyr \<Rightarrow> ('h, 'm) services \<Rightarrow> ('w, 'q, 's, 'e, 'h, 'm) system \<Rightarrow>
       sys_label list \<Rightarrow> ('w, 'q, 's, 'e, 'h, 'm) system \<Rightarrow> bool"
  for z sv where
  start: "sys_run z sv s [] s"
| step: "sys_run z sv s tr s1 \<Longrightarrow> sys_step z sv s1 a s2 \<Longrightarrow> sys_run z sv s (tr @ [a]) s2"

subsection \<open>The services are an environment of the pipeline\<close>

text \<open>What a service may change of the pipeline's state.\<close>

definition served :: "('w, 'q, 's, 'e) fw \<Rightarrow> ('w, 'q, 's, 'e) fw \<Rightarrow> bool" where
  "served fw fw' \<longleftrightarrow>
     (\<exists>w l e. log_ok l \<and> fw' = fw\<lparr> fw_w := w, fw_log := l, fw_epochs := e \<rparr>)"

lemma servedI: "log_ok l \<Longrightarrow> served fw (fw\<lparr> fw_w := w, fw_log := l, fw_epochs := e \<rparr>)"
  by (auto simp: served_def)

lemma servedE:
  assumes "served fw fw'"
  obtains w l e where "log_ok l" "fw' = fw\<lparr> fw_w := w, fw_log := l, fw_epochs := e \<rparr>"
  using assms by (auto simp: served_def)

lemma served_refl [simp]: "log_ok (fw_log fw) \<Longrightarrow> served fw fw"
  using servedI [where l = "fw_log fw" and fw = fw and w = "fw_w fw" and e = "fw_epochs fw"] by simp

lemma served_trans: "served a b \<Longrightarrow> served b c \<Longrightarrow> served a c"
  by (elim servedE) (simp add: servedI)

lemma served_log: "served fw fw' \<Longrightarrow> log_ok (fw_log fw')"
  by (elim servedE) simp

lemma served_keeps:
  "served fw fw' \<Longrightarrow> command_generation fw' = command_generation fw"
  "served fw fw' \<Longrightarrow> overload_reset_requested fw' = overload_reset_requested fw"
  by (elim servedE, simp)+

lemma served_world [simp]: "log_ok (fw_log fw) \<Longrightarrow> served fw (fw\<lparr> fw_w := w \<rparr>)"
  using servedI [where l = "fw_log fw" and fw = fw and w = w and e = "fw_epochs fw"] by simp

lemma served_progress [simp]: "log_ok (fw_log fw) \<Longrightarrow> served fw (vams_task_progress t fw)"
  using servedI [where l = "fw_log fw" and fw = fw and w = "fw_w fw"] by (simp add: vams_task_progress_def)

lemma served_logged: "log_ok l \<Longrightarrow> served fw (fw\<lparr> fw_log := l, fw_w := w \<rparr>)"
proof -
  have "fw\<lparr> fw_log := l, fw_w := w \<rparr> = fw\<lparr> fw_w := w, fw_log := l, fw_epochs := fw_epochs fw \<rparr>" by simp
  then show "log_ok l \<Longrightarrow> ?thesis" using servedI by metis
qed

lemma emit_served:
  assumes "log_ok (fw_log fw)"
  obtains fw' where "emit z i c g a0 a1 a2 v fw = Some fw'" "served fw fw'"
proof -
  obtain l w where "vams_event_emit (z_board z) (z_evq z) i c g a0 a1 a2 v (fw_log fw) (fw_w fw) =
      Some (l, w)" "log_ok l"
    by (rule event_emit_okE [OF assms])
  then show ?thesis
    by (intro that [of "fw\<lparr> fw_log := l, fw_w := w \<rparr>"]) (simp_all add: emit_def served_logged)
qed

lemma note_health_served:
  assumes "log_ok (fw_log fw)"
  obtains fw' where "note_retained (vams_retained_note_health b t n) fw = Some fw'" "served fw fw'"
proof -
  obtain r w where "vams_retained_note_health b t n (log_record (fw_log fw)) (fw_w fw) = Some (r, w)"
    "retained_wf r"
    using retained_apply_ok [of "log_record (fw_log fw)" b "Note_Health t n" "fw_w fw"] assms
    by (auto simp: log_ok_def)
  then show ?thesis
    by (intro that [of "fw\<lparr> fw_log := (fw_log fw)\<lparr> log_record := r \<rparr>, fw_w := w \<rparr>"])
       (simp_all add: note_retained_def served_logged log_ok_def)
qed

lemma health_note_failure_served:
  assumes "log_ok (fw_log fw)"
  obtains m' fw' where "health_note_failure z healthy (m, fw) = Some (m', fw')" "served fw fw'"
    "mon_tracker m' = mon_tracker m"
proof (cases "\<not> healthy \<and> failure_count (mon_tracker m) \<noteq> mon_reported_failure_count m")
  case True
  let ?t = "mon_tracker m"
  obtain fw1 where 1: "note_retained (vams_retained_note_health (z_board z) (stuck_task ?t)
      (failure_count ?t)) fw = Some fw1" "served fw fw1"
    by (rule note_health_served [OF assms])
  obtain fw2 where 2: "emit z VAMS_EVENT_HEALTH_STUCK 0 (command_generation fw1) (stuck_task ?t)
      (failure_count ?t) 0 0 fw1 = Some fw2" "served fw1 fw2"
    by (rule emit_served [OF served_log [OF 1(2)]])
  show ?thesis
    by (rule that [of "m\<lparr> mon_reported_failure_count := failure_count ?t \<rparr>" fw2])
       (use True 1 2 served_trans in \<open>simp_all add: health_note_failure_def Let_def\<close>)
next
  case False
  with assms show ?thesis by (intro that [of m fw]) (auto simp: health_note_failure_def Let_def)
qed

lemma health_publish_served:
  assumes "log_ok (fw_log fw)"
  obtains m' fw' where "health_publish z healthy u (m, fw) = Some (m', fw')" "served fw fw'"
    "mon_tracker m' = mon_tracker m"
proof (cases healthy)
  case True
  let ?fw = "fw\<lparr> fw_w := vams_management_publish (z_board z) (mon_heartbeat m + 1) u
      VAMS_FIRMWARE_VERSION (fw_w fw) \<rparr>"
  have 1: "served fw ?fw" using assms by simp
  obtain fw2 where 2: "emit z VAMS_EVENT_TELEMETRY 0 (command_generation fw) (mon_heartbeat m + 1)
      0 0 u ?fw = Some fw2" "served ?fw fw2"
    by (rule emit_served [OF served_log [OF 1]])
  show ?thesis
    by (rule that [of "m\<lparr> mon_heartbeat := mon_heartbeat m + 1 \<rparr>" fw2])
       (use True 2 served_trans [OF 1] in \<open>simp_all add: health_publish_def Let_def\<close>)
next
  case False
  with assms show ?thesis by (intro that [of m fw]) (simp_all add: health_publish_def)
qed

lemma health_pet_served:
  assumes "log_ok (fw_log fw)" "health_pet z ready healthy u (m, fw) = Some (pet, m', fw')"
  shows "served fw fw'" "mon_tracker m' = mon_tracker m"
    "pet = (if healthy \<and> \<not> overload_reset_requested fw then Some RC_OK else None)"
  using assms by (auto simp: health_pet_def Let_def bind_eq_Some_conv split: if_splits prod.splits)

lemma health_report_tracker: "health_report sv s m = Some m' \<Longrightarrow> mon_tracker m' = mon_tracker m"
  by (auto simp: health_report_def bind_eq_Some_conv split: if_splits)

lemma bind_SomeE:
  assumes "Option.bind x f = Some y"
  obtains v where "x = Some v" "f v = Some y"
  using assms by (cases x) simp_all

text \<open>A round of the health monitor that returns: the sample, the verdict, and the pet.\<close>

lemma health_round_effect:
  assumes "log_ok (fw_log (sys_fw s))" "health_monitor_round z sv m s = Some (a, s')"
  obtains epochs reset pet m' where "a = Watch epochs reset pet" "length epochs = 8"
    "served (sys_fw s) (sys_fw s')" "sys_monitor s' = Some m'"
    "mon_tracker m' = snd (vams_health_tracker_update epochs (mon_tracker m))"
    "pet = (if fst (vams_health_tracker_update epochs (mon_tracker m)) \<and> \<not> reset
            then Some RC_OK else None)"
    "reset = overload_reset_requested (sys_fw s)"
    "sys_heartbeats s' = sys_heartbeats s" "producer_sequence s' = producer_sequence s"
    "heartbeat_drop_count s' = heartbeat_drop_count s"
proof -
  let ?b = "z_board z"
  let ?fw = "(sys_fw s)\<lparr> fw_w := k_sleep_ms ?b VAMS_HEARTBEAT_PERIOD (fw_w (sys_fw s)) \<rparr>"
  let ?u = "k_uptime_get ?b (fw_w ?fw)" and ?epochs = "vams_health_epochs ?fw"
  obtain healthy tracker where up: "vams_health_tracker_update ?epochs (mon_tracker m) = (healthy, tracker)"
    by fastforce
  have 0: "served (sys_fw s) ?fw" using assms(1) by simp
  obtain m1 fw1 where 1: "health_note_failure z healthy (m\<lparr> mon_tracker := tracker \<rparr>, ?fw) = Some (m1, fw1)"
    "served ?fw fw1" "mon_tracker m1 = tracker"
    by (rule health_note_failure_served [OF served_log [OF 0], of z healthy "m\<lparr> mon_tracker := tracker \<rparr>"])
       simp
  obtain m2 fw2 where 2: "health_publish z healthy ?u (m1, fw1) = Some (m2, fw2)"
    "served fw1 fw2" "mon_tracker m2 = mon_tracker m1"
    by (rule health_publish_served [OF served_log [OF 1(2)]])
  let ?s = "s\<lparr> health_failure_count := failure_count tracker, health_stuck_task := stuck_task tracker \<rparr>"
  obtain pet m3 fw3 m4 where
    3: "health_pet z (sv_ready sv) healthy ?u (m2, fw2) = Some (pet, m3, fw3)"
    and 4: "health_report sv (?s\<lparr> sys_fw := fw3 \<rparr>) m3 = Some m4"
    and 5: "a = Watch ?epochs (overload_reset_requested fw2) pet"
    "s' = ?s\<lparr> sys_fw := fw3, sys_monitor := Some m4 \<rparr>"
    using assms(2) unfolding health_monitor_round_def Let_def up prod.case 1(1) 2(1) bind.bind_lunit
    by (auto simp only: prod.case option.inject Pair_inject elim!: bind_SomeE)
  note pet = health_pet_served [OF served_log [OF 2(2)] 3]
  have all: "served (sys_fw s) fw2" by (rule served_trans [OF 0 served_trans [OF 1(2) 2(2)]])
  show ?thesis
  proof (rule that [of ?epochs "overload_reset_requested fw2" pet m4])
    show "served (sys_fw s) (sys_fw s')" using served_trans [OF all pet(1)] by (simp add: 5(2))
    show "mon_tracker m4 = snd (vams_health_tracker_update ?epochs (mon_tracker m))"
      using health_report_tracker [OF 4] pet(2) 2(3) 1(3) up by simp
    show "pet = (if fst (vams_health_tracker_update ?epochs (mon_tracker m)) \<and>
        \<not> overload_reset_requested fw2 then Some RC_OK else None)"
      using pet(3) up by simp
    show "overload_reset_requested fw2 = overload_reset_requested (sys_fw s)"
      by (rule served_keeps(2) [OF all])
  qed (simp_all add: 5 vams_health_epochs_def VAMS_HEALTH_TASK_COUNT_def)
qed

text \<open>
  Every step of a service changes the pipeline's state only where the pipeline expects the rest of
  the system to change it.
\<close>

lemma producer_served:
  assumes "log_ok (fw_log (sys_fw s))" "vams_producer z sv s = (a, s')"
  shows "served (sys_fw s) (sys_fw s')"
proof -
  let ?fw = "vams_task_progress 0 (sys_fw s)"
  have "sys_fw s' = ?fw\<lparr> fw_w := k_sleep_ms (z_board z) VAMS_HEARTBEAT_PERIOD (fw_w ?fw) \<rparr>"
    using assms(2) by (auto simp: vams_producer_def Let_def split: prod.splits)
  moreover have 1: "served (sys_fw s) ?fw" using assms(1) by simp
  ultimately show ?thesis using served_trans [OF 1 served_world [OF served_log [OF 1]]] by simp
qed

lemma monitor_served:
  assumes "log_ok (fw_log (sys_fw s))" "vams_monitor z sv s = Some (a, s')"
  shows "served (sys_fw s) (sys_fw s')"
proof -
  let ?fw = "vams_task_progress 1 (sys_fw s)"
  have 1: "served (sys_fw s) ?fw" using assms(1) by simp
  obtain r q where get: "k_msgq_get (sv_hbq sv) True (sys_heartbeats s) = (r, q)" by fastforce
  show ?thesis
  proof (cases r)
    case (Inl e)
    with assms(2) get 1 show ?thesis
      by (auto simp: vams_monitor_def Let_def bind_eq_Some_conv split: if_splits)
  next
    case (Inr hb)
    obtain fw2 where 2: "emit z VAMS_EVENT_HEARTBEAT 0 (command_generation ?fw) (hb_sequence hb)
        0 0 (hb_uptime_ms hb) ?fw = Some fw2" "served ?fw fw2"
      by (rule emit_served [OF served_log [OF 1]])
    with Inr assms(2) get served_trans [OF 1 2(2)] show ?thesis
      by (auto simp: vams_monitor_def Let_def)
  qed
qed

lemma mailbox_served:
  assumes "log_ok (fw_log (sys_fw s))" "vams_mailbox_service z sv s = Some (a, s')"
  shows "served (sys_fw s) (sys_fw s')"
proof -
  let ?fw = "vams_task_progress 2 (sys_fw s)"
  have 1: "served (sys_fw s) ?fw" using assms(1) by simp
  obtain r q where get: "vams_mailbox_receive (sv_mbq sv) (sv_ready sv) True (sys_mailbox s) = (r, q)"
    by fastforce
  show ?thesis
  proof (cases r)
    case (Inl e)
    with assms(2) get 1 show ?thesis
      by (auto simp: vams_mailbox_service_def Let_def bind_eq_Some_conv split: if_splits)
  next
    case (Inr msg)
    obtain st w where resp: "vams_mailbox_respond (z_board z) (sv_ready sv) (mailbox_answer msg) (fw_w ?fw)
        = (st, w)" by fastforce
    have 2: "served (sys_fw s) (?fw\<lparr> fw_w := w \<rparr>)"
      using served_trans [OF 1 served_world [OF served_log [OF 1]]] .
    obtain fw2 where 3: "emit z VAMS_EVENT_MAILBOX 0 (command_generation ?fw) msg (mailbox_answer msg)
        0 0 (?fw\<lparr> fw_w := w \<rparr>) = Some fw2" "served (?fw\<lparr> fw_w := w \<rparr>) fw2"
      by (rule emit_served [OF served_log [OF 2]])
    with Inr assms(2) get resp served_trans [OF 2 3(2)] show ?thesis
      by (auto simp: vams_mailbox_service_def Let_def bind_eq_Some_conv split: if_splits)
  qed
qed

lemma interrupt_served:
  "log_ok (fw_log (sys_fw s)) \<Longrightarrow> served (sys_fw s) (sys_fw (mailbox_interrupt z sv s))"
  by (simp add: mailbox_interrupt_def Let_def split: prod.split)

lemma health_served:
  assumes "log_ok (fw_log (sys_fw s))" "vams_health_monitor z sv s = Some (a, s')"
  shows "served (sys_fw s) (sys_fw s')"
proof (cases "sys_monitor s")
  case None
  with assms show ?thesis by (auto simp: vams_health_monitor_def health_monitor_start_def Let_def)
next
  case (Some m)
  with assms(2) have "health_monitor_round z sv m s = Some (a, s')" by (simp add: vams_health_monitor_def)
  from health_round_effect [OF assms(1) this] show ?thesis .
qed

text \<open>The labels of the pipeline in a run of the firmware: a service's round is silent.\<close>

fun pipeline_label :: "sys_label \<Rightarrow> label" where
  "pipeline_label (Pipeline a) = a"
| "pipeline_label (Service a) = Tau"

lemma sys_step_refines:
  assumes "sys_step z sv s a s'" "log_ok (fw_log (sys_fw s))"
  shows "fw_step z (sys_fw s) (pipeline_label a) (sys_fw s')"
proof -
  have env: "fw_step z (sys_fw s) Tau (sys_fw s')" if "served (sys_fw s) (sys_fw s')"
    using that by (elim servedE) (simp add: fw_step.env)
  from assms(1) show ?thesis
  proof cases
    case (producer l)
    from env [OF producer_served [OF assms(2) producer(2)]] producer(1) show ?thesis by simp
  next
    case (monitor l)
    from env [OF monitor_served [OF assms(2) monitor(2)]] monitor(1) show ?thesis by simp
  next
    case (mailbox l)
    from env [OF mailbox_served [OF assms(2) mailbox(2)]] mailbox(1) show ?thesis by simp
  next
    case interrupt
    from interrupt_served [OF assms(2), of z sv] have "served (sys_fw s) (sys_fw s')"
      by (simp only: interrupt(2))
    from env [OF this] interrupt(1) show ?thesis by simp
  next
    case (health l)
    from env [OF health_served [OF assms(2) health(2)]] health(1) show ?thesis by simp
  qed simp
qed

lemma sys_run_refines:
  assumes "pipeline z items cap free" "fw_initial items cap free (sys_fw s0)" "sys_run z sv s0 tr s"
  shows "fw_run z (sys_fw s0) (map pipeline_label tr) (sys_fw s)"
  using assms(3,2)
proof induction
  case (step s tr s1 a s2)
  have run: "fw_run z (sys_fw s) (map pipeline_label tr) (sys_fw s1)" by (rule step.IH [OF step.prems])
  have "log_ok (fw_log (sys_fw s1))"
    using pipeline.run_ledger [OF assms(1) run step.prems] by (simp add: fw_inv_def)
  from fw_run.step [OF run sys_step_refines [OF step.hyps(2) this]] show ?case by simp
qed (simp add: fw_run.start)

subsection \<open>What a run of the services shows\<close>

fun beats :: "sys_label list \<Rightarrow> (vams_heartbeat \<times> bool) list" where
  "beats [] = []"
| "beats (Service (Beat h ok) # tr) = (h, ok) # beats tr"
| "beats (_ # tr) = beats tr"

fun seen :: "sys_label list \<Rightarrow> vams_heartbeat list" where
  "seen [] = []"
| "seen (Service (Seen h) # tr) = h # seen tr"
| "seen (_ # tr) = seen tr"

fun watches :: "sys_label list \<Rightarrow> (u32 list \<times> bool \<times> rc option) list" where
  "watches [] = []"
| "watches (Service (Watch e r p) # tr) = (e, r, p) # watches tr"
| "watches (_ # tr) = watches tr"

fun epoch_samples :: "sys_label list \<Rightarrow> u32 list list" where
  "epoch_samples [] = []"
| "epoch_samples (Service (Watch_Start e) # tr) = e # epoch_samples tr"
| "epoch_samples (Service (Watch e r p) # tr) = e # epoch_samples tr"
| "epoch_samples (_ # tr) = epoch_samples tr"

lemma beats_append [simp]: "beats (tr @ tr') = beats tr @ beats tr'"
  by (induction tr rule: beats.induct) simp_all

lemma seen_append [simp]: "seen (tr @ tr') = seen tr @ seen tr'"
  by (induction tr rule: seen.induct) simp_all

lemma watches_append [simp]: "watches (tr @ tr') = watches tr @ watches tr'"
  by (induction tr rule: watches.induct) simp_all

lemma epoch_samples_append [simp]: "epoch_samples (tr @ tr') = epoch_samples tr @ epoch_samples tr'"
  by (induction tr rule: epoch_samples.induct) simp_all

text \<open>The effect of each kind of step on the heartbeats.\<close>

definition beat_state :: "('w, 'q, 's, 'e, 'h, 'm) system \<Rightarrow> 'h \<times> u32 \<times> u32" where
  "beat_state s = (sys_heartbeats s, producer_sequence s, heartbeat_drop_count s)"

lemma quiet_beats:
  "beat_state (s\<lparr> sys_fw := fw \<rparr>) = beat_state s"
  "beat_state (mailbox_interrupt z sv s) = beat_state s"
  by (simp_all add: beat_state_def mailbox_interrupt_def Let_def split: prod.split)

lemma mailbox_effect:
  assumes "vams_mailbox_service z sv s = Some (a, s')"
  shows "beat_state s' = beat_state s" "sys_monitor s' = sys_monitor s"
    "a = Idle \<or> (\<exists>msg. a = Answered msg (mailbox_answer msg))"
  using assms
  by (auto simp: vams_mailbox_service_def beat_state_def Let_def bind_eq_Some_conv
      split: prod.splits sum.splits if_splits)

lemma health_effect:
  assumes "log_ok (fw_log (sys_fw s))" "vams_health_monitor z sv s = Some (a, s')"
  shows "beat_state s' = beat_state s" "beats [Service a] = []" "seen [Service a] = []"
proof -
  have "beat_state s' = beat_state s \<and> beats [Service a] = [] \<and> seen [Service a] = []"
  proof (cases "sys_monitor s")
    case None
    with assms(2) show ?thesis
      by (auto simp: vams_health_monitor_def health_monitor_start_def beat_state_def Let_def)
  next
    case (Some m)
    with assms(2) have round: "health_monitor_round z sv m s = Some (a, s')"
      by (simp add: vams_health_monitor_def)
    show ?thesis by (rule health_round_effect [OF assms(1) round]) (simp add: beat_state_def)
  qed
  then show "beat_state s' = beat_state s" "beats [Service a] = []" "seen [Service a] = []" by simp_all
qed

lemma producer_effect:
  assumes "msgq_laws (sv_hbq sv) items cap" "vams_producer z sv s = (a, s')"
  obtains h ok where "a = Beat h ok" "hb_sequence h = producer_sequence s"
    "producer_sequence s' = producer_sequence s + 1" "sys_monitor s' = sys_monitor s"
    "if ok then items (sys_heartbeats s') = items (sys_heartbeats s) @ [h] \<and>
        heartbeat_drop_count s' = heartbeat_drop_count s
     else items (sys_heartbeats s') = items (sys_heartbeats s) \<and>
        heartbeat_drop_count s' = vams_counter_increment (heartbeat_drop_count s)"
proof -
  let ?h = "\<lparr> hb_sequence = producer_sequence s,
      hb_uptime_ms = k_uptime_get (z_board z) (fw_w (sys_fw s)) \<rparr>"
  obtain st q where put: "k_msgq_put (sv_hbq sv) ?h (sys_heartbeats s) = (st, q)" by fastforce
  have s': "a = Beat ?h (st = RC_OK)" "sys_heartbeats s' = q" "producer_sequence s' = producer_sequence s + 1"
    "heartbeat_drop_count s' = (if st \<noteq> RC_OK then vams_saturating_atomic_inc [] (heartbeat_drop_count s)
       else heartbeat_drop_count s)" "sys_monitor s' = sys_monitor s"
    using assms(2) put by (auto simp: vams_producer_def Let_def)
  show ?thesis
    by (rule msgq_laws.putE [OF assms(1) put]; rule that [of ?h "st = RC_OK"])
       (simp_all add: s' vams_counter_increment_def)
qed

lemma monitor_effect:
  assumes "msgq_laws (sv_hbq sv) items cap" "vams_monitor z sv s = Some (a, s')"
  shows "items (sys_heartbeats s) = seen [Service a] @ items (sys_heartbeats s')"
    "beats [Service a] = []" "watches [Service a] = []" "epoch_samples [Service a] = []"
    "producer_sequence s' = producer_sequence s"
    "heartbeat_drop_count s' = heartbeat_drop_count s" "sys_monitor s' = sys_monitor s"
proof -
  obtain r q where get: "k_msgq_get (sv_hbq sv) True (sys_heartbeats s) = (r, q)" by fastforce
  note cases = msgq_laws.getE [OF assms(1) get]
  have *: "sys_heartbeats s' = q" "producer_sequence s' = producer_sequence s"
    "heartbeat_drop_count s' = heartbeat_drop_count s" "sys_monitor s' = sys_monitor s"
    "case r of Inl e \<Rightarrow> a = Idle | Inr h \<Rightarrow> a = Seen h"
    using assms(2) get
    by (auto simp: vams_monitor_def Let_def bind_eq_Some_conv split: sum.splits if_splits)
  show "items (sys_heartbeats s) = seen [Service a] @ items (sys_heartbeats s')"
    "beats [Service a] = []" "watches [Service a] = []" "epoch_samples [Service a] = []"
    by (rule cases; use * in simp)+
qed (use assms(2) in \<open>auto simp: vams_monitor_def Let_def bind_eq_Some_conv
    split: sum.splits if_splits prod.splits\<close>)

subsection \<open>Heartbeat accounting\<close>

definition beat_ledger ::
    "('h \<Rightarrow> vams_heartbeat list) \<Rightarrow> sys_label list \<Rightarrow> ('w, 'q, 's, 'e, 'h, 'm) system \<Rightarrow> bool" where
  "beat_ledger items tr s \<longleftrightarrow>
     map fst (filter snd (beats tr)) = seen tr @ items (sys_heartbeats s) \<and>
     map (hb_sequence \<circ> fst) (beats tr) = map of_nat [1..<Suc (length (beats tr))] \<and>
     producer_sequence s = of_nat (Suc (length (beats tr))) \<and>
     unat (heartbeat_drop_count s) = min (length (filter (\<lambda>(h, ok). \<not> ok) (beats tr))) (2 ^ 32 - 1)"

lemma beat_ledger_quiet:
  assumes "beat_ledger items tr s" "beat_state s' = beat_state s" "beats [a] = []" "seen [a] = []"
  shows "beat_ledger items (tr @ [a]) s'"
  using assms by (simp add: beat_ledger_def beat_state_def)

lemma beat_ledger_step:
  assumes "msgq_laws (sv_hbq sv) items cap" "sys_step z sv s a s'" "log_ok (fw_log (sys_fw s))"
    and "beat_ledger items tr s"
  shows "beat_ledger items (tr @ [a]) s'"
  using assms(2)
proof cases
  case (pipeline l fw)
  with assms(4) show ?thesis by (intro beat_ledger_quiet) (simp_all add: quiet_beats)
next
  case (producer l)
  from producer_effect [OF assms(1) producer(2)] obtain h ok where
    "l = Beat h ok" "hb_sequence h = producer_sequence s"
    "producer_sequence s' = producer_sequence s + 1"
    "if ok then items (sys_heartbeats s') = items (sys_heartbeats s) @ [h] \<and>
        heartbeat_drop_count s' = heartbeat_drop_count s
     else items (sys_heartbeats s') = items (sys_heartbeats s) \<and>
        heartbeat_drop_count s' = vams_counter_increment (heartbeat_drop_count s)"
    by metis
  with assms(4) producer(1) show ?thesis
    by (cases ok) (simp_all add: beat_ledger_def unat_counter_increment min_def)
next
  case (monitor l)
  with monitor_effect [OF assms(1) monitor(2)] assms(4) show ?thesis by (simp add: beat_ledger_def)
next
  case (mailbox l)
  with mailbox_effect [OF mailbox(2)] assms(4) show ?thesis by (auto intro!: beat_ledger_quiet)
next
  case interrupt
  with assms(4) show ?thesis by (intro beat_ledger_quiet) (simp_all add: quiet_beats)
next
  case (health l)
  with health_effect [OF assms(3) health(2)] assms(4) show ?thesis by (intro beat_ledger_quiet) simp_all
qed

text \<open>Rule induction over runs of the firmware, with the invariant of the pipeline at hand.\<close>

lemma sys_run_invariant:
  assumes "pipeline z items cap free" "fw_initial items cap free (sys_fw s0)" "sys_run z sv s0 tr s"
    and "P [] s0"
    and "\<forall>tr s a s'. log_ok (fw_log (sys_fw s)) \<longrightarrow> sys_step z sv s a s' \<longrightarrow> P tr s \<longrightarrow> P (tr @ [a]) s'"
  shows "P tr s"
  using assms(3,2,4)
proof induction
  case (step s0 tr s1 a s2)
  have "log_ok (fw_log (sys_fw s1))"
    using pipeline.run_ledger [OF assms(1) sys_run_refines [OF assms(1) step.prems(1) step.hyps(1)]
        step.prems(1)] by (simp add: fw_inv_def)
  with assms(5) step show ?case by blast
qed

text \<open>
  C32. No heartbeat is lost without being counted. In every run of the firmware, under any
  interleaving, the producer numbers its heartbeats 1, 2, 3, ... (modulo 2^32); those the queue took
  are, in order, the ones the monitor has logged followed by the ones still queued; and the drop
  counter is the number of those it refused, saturating at \<open>UINT32_MAX\<close>.
\<close>

theorem heartbeat_accounting:
  assumes "pipeline z items cap free" "fw_initial items cap free (sys_fw s0)" "sys_run z sv s0 tr s"
    and "msgq_laws (sv_hbq sv) hb_items hb_cap"
    and "hb_items (sys_heartbeats s0) = []" "producer_sequence s0 = 1" "heartbeat_drop_count s0 = 0"
  shows "map fst (filter snd (beats tr)) = seen tr @ hb_items (sys_heartbeats s) \<and>
    map (hb_sequence \<circ> fst) (beats tr) = map of_nat [1..<Suc (length (beats tr))] \<and>
    unat (heartbeat_drop_count s) = min (length (filter (\<lambda>(h, ok). \<not> ok) (beats tr))) (2 ^ 32 - 1)"
proof -
  have "beat_ledger hb_items tr s"
  proof (rule sys_run_invariant [OF assms(1-3)])
    show "beat_ledger hb_items [] s0" using assms(5-7) by (simp add: beat_ledger_def)
  qed (use beat_ledger_step [OF assms(4)] in blast)
  then show ?thesis by (simp add: beat_ledger_def)
qed

subsection \<open>The watchdog is petted only while every task makes progress\<close>

text \<open>The samples of a run as a history; beyond its end the history is not looked at.\<close>

definition history :: "u32 list list \<Rightarrow> nat \<Rightarrow> u32 list" where
  "history xs n = (if n < length xs then xs ! n else replicate 8 0)"

definition pet_correct :: "u32 list list \<Rightarrow> (u32 list \<times> bool \<times> rc option) list \<Rightarrow> bool" where
  "pet_correct xs ws \<longleftrightarrow> (\<forall>k < length ws. case ws ! k of (e, reset, pet) \<Rightarrow>
     pet = (if health_verdict (history xs) VAMS_HEALTH_STARTUP_GRACE VAMS_HEALTH_MISS_LIMIT k \<and> \<not> reset
            then Some RC_OK else None))"

definition watch_inv :: "sys_label list \<Rightarrow> ('w, 'q, 's, 'e, 'h, 'm) system \<Rightarrow> bool" where
  "watch_inv tr s \<longleftrightarrow>
     (\<forall>e \<in> set (epoch_samples tr). length e = 8) \<and> pet_correct (epoch_samples tr) (watches tr) \<and>
     (case sys_monitor s of
        None \<Rightarrow> epoch_samples tr = [] \<and> watches tr = []
      | Some m \<Rightarrow> length (epoch_samples tr) = Suc (length (watches tr)) \<and>
          mon_tracker m = health_after (history (epoch_samples tr)) VAMS_HEALTH_STARTUP_GRACE
            VAMS_HEALTH_MISS_LIMIT (length (watches tr)))"

lemma health_after_cong:
  "\<forall>j \<le> n. E j = E' j \<Longrightarrow> health_after E g limit n = health_after E' g limit n"
  by (induction n) simp_all

lemma health_verdict_cong:
  "\<forall>j \<le> Suc n. E j = E' j \<Longrightarrow> health_verdict E g limit n = health_verdict E' g limit n"
  using health_after_cong [of n E E' g limit] by (simp add: health_verdict_def)

lemma history_snoc: "j < length xs \<Longrightarrow> history (xs @ [x]) j = history xs j"
  by (simp add: history_def nth_append)

lemma pet_correct_snoc:
  assumes "pet_correct xs ws" "length xs = Suc (length ws)"
    and "pet = (if health_verdict (history (xs @ [e])) VAMS_HEALTH_STARTUP_GRACE VAMS_HEALTH_MISS_LIMIT
            (length ws) \<and> \<not> reset then Some RC_OK else None)"
  shows "pet_correct (xs @ [e]) (ws @ [(e, reset, pet)])"
  unfolding pet_correct_def
proof (intro allI impI)
  fix k assume k: "k < length (ws @ [(e, reset, pet)])"
  show "case (ws @ [(e, reset, pet)]) ! k of (e', reset, pet) \<Rightarrow>
      pet = (if health_verdict (history (xs @ [e])) VAMS_HEALTH_STARTUP_GRACE VAMS_HEALTH_MISS_LIMIT k \<and>
        \<not> reset then Some RC_OK else None)"
  proof (cases "k = length ws")
    case True
    with assms(3) show ?thesis by simp
  next
    case False
    then have "k < length ws" using k by simp
    moreover have "health_verdict (history (xs @ [e])) g l k = health_verdict (history xs) g l k" for g l
      using calculation assms(2) by (intro health_verdict_cong) (simp add: history_snoc)
    ultimately show ?thesis using assms(1) by (simp add: pet_correct_def nth_append)
  qed
qed

lemma watch_inv_quiet:
  assumes "watch_inv tr s" "sys_monitor s' = sys_monitor s" "watches [a] = []" "epoch_samples [a] = []"
  shows "watch_inv (tr @ [a]) s'"
proof -
  have "watches (tr @ [a]) = watches tr" "epoch_samples (tr @ [a]) = epoch_samples tr"
    using assms(3,4) by simp_all
  with assms(1,2) show ?thesis by (auto simp only: watch_inv_def)
qed

lemma watch_inv_round:
  assumes "log_ok (fw_log (sys_fw s))" "health_monitor_round z sv m s = Some (a, s')"
    and "watch_inv tr s" "sys_monitor s = Some m"
  shows "watch_inv (tr @ [Service a]) s'"
proof -
  let ?xs = "epoch_samples tr" and ?ws = "watches tr"
  let ?after = "\<lambda>xs. health_after (history xs) VAMS_HEALTH_STARTUP_GRACE VAMS_HEALTH_MISS_LIMIT"
  have inv: "\<forall>e \<in> set ?xs. length e = 8" "pet_correct ?xs ?ws" "length ?xs = Suc (length ?ws)"
    "mon_tracker m = ?after ?xs (length ?ws)"
    using assms(3,4) by (simp_all add: watch_inv_def)
  obtain e reset pet m' where r: "a = Watch e reset pet" "length e = 8" "sys_monitor s' = Some m'"
    "mon_tracker m' = snd (vams_health_tracker_update e (mon_tracker m))"
    "pet = (if fst (vams_health_tracker_update e (mon_tracker m)) \<and> \<not> reset then Some RC_OK else None)"
    by (rule health_round_effect [OF assms(1,2)])
  have last: "history (?xs @ [e]) (Suc (length ?ws)) = e" using inv(3) by (simp add: history_def nth_append)
  have before: "?after (?xs @ [e]) (length ?ws) = mon_tracker m"
    unfolding inv(4) using inv(3) by (intro health_after_cong) (simp add: history_snoc)
  have "pet_correct (?xs @ [e]) (?ws @ [(e, reset, pet)])"
    using inv(2,3) r(5) last before by (intro pet_correct_snoc) (simp_all add: health_verdict_def)
  with inv r last before show ?thesis by (simp add: watch_inv_def)
qed

lemma watch_inv_step:
  assumes "msgq_laws (sv_hbq sv) items cap" "sys_step z sv s a s'" "log_ok (fw_log (sys_fw s))"
    and "watch_inv tr s"
  shows "watch_inv (tr @ [a]) s'"
  using assms(2)
proof cases
  case (pipeline l fw)
  with assms(4) show ?thesis by (intro watch_inv_quiet) simp_all
next
  case (producer l)
  from producer_effect [OF assms(1) producer(2)] obtain h ok where
    "l = Beat h ok" "sys_monitor s' = sys_monitor s" by metis
  with assms(4) producer(1) show ?thesis by (intro watch_inv_quiet) simp_all
next
  case (monitor l)
  with monitor_effect [OF assms(1) monitor(2)] assms(4) show ?thesis by (intro watch_inv_quiet) simp_all
next
  case (mailbox l)
  with mailbox_effect [OF mailbox(2)] assms(4) show ?thesis by (auto intro!: watch_inv_quiet)
next
  case interrupt
  moreover have "sys_monitor (mailbox_interrupt z sv s) = sys_monitor s"
    by (simp add: mailbox_interrupt_def Let_def split: prod.split)
  ultimately show ?thesis using assms(4) by (intro watch_inv_quiet) simp_all
next
  case (health l)
  show ?thesis
  proof (cases "sys_monitor s")
    case None
    with health assms(4) show ?thesis
      by (auto simp: vams_health_monitor_def health_monitor_start_def watch_inv_def pet_correct_def
          vams_health_epochs_def VAMS_HEALTH_TASK_COUNT_def history_def Let_def)
  next
    case (Some m)
    with health watch_inv_round [OF assms(3) _ assms(4) Some] show ?thesis
      by (simp add: vams_health_monitor_def)
  qed
qed

text \<open>
  C17. The watchdog is petted exactly in the rounds in which every task made progress. In every run of
  the firmware, the health monitor pets the watchdog in its round \<open>k\<close> if and only if it saw no
  request for an overload reset and no task's epoch was the same in the sample of that round and the
  two samples before it, all taken after the two rounds of startup grace; and every pet it does is
  accepted. So a task that stops is never covered by a pet, and a firmware whose tasks all run is
  never reset for lack of one.
\<close>

theorem watchdog_pet_iff_progress:
  assumes "pipeline z items cap free" "fw_initial items cap free (sys_fw s0)" "sys_run z sv s0 tr s"
    and "msgq_laws (sv_hbq sv) hb_items hb_cap" "sys_monitor s0 = None"
    and "k < length (watches tr)" "watches tr ! k = (e, reset, pet)"
  shows "pet = (if reset \<or> (\<exists>i < 8. stalled (history (epoch_samples tr)) 2 2 (Suc k) i)
    then None else Some RC_OK)"
proof -
  let ?E = "history (epoch_samples tr)"
  have inv: "watch_inv tr s"
  proof (rule sys_run_invariant [OF assms(1-3)])
    show "watch_inv [] s0" using assms(5) by (simp add: watch_inv_def pet_correct_def)
  qed (use watch_inv_step [OF assms(4)] in blast)
  have "\<forall>n. length (?E n) = 8" using inv by (simp add: history_def watch_inv_def)
  from health_verdict_stalled(2) [OF this, of VAMS_HEALTH_MISS_LIMIT VAMS_HEALTH_STARTUP_GRACE k]
  have "health_verdict ?E VAMS_HEALTH_STARTUP_GRACE VAMS_HEALTH_MISS_LIMIT k \<longleftrightarrow>
      \<not> (\<exists>i < 8. stalled ?E 2 2 (Suc k) i)"
    by (auto simp: vams_const)
  moreover have "case watches tr ! k of (e, reset, pet) \<Rightarrow>
      pet = (if health_verdict ?E VAMS_HEALTH_STARTUP_GRACE VAMS_HEALTH_MISS_LIMIT k \<and> \<not> reset
             then Some RC_OK else None)"
    using inv assms(6) by (simp add: watch_inv_def pet_correct_def)
  ultimately show ?thesis using assms(7) by simp
qed

subsection \<open>When a service task can fail\<close>

lemma emit_keeps_watchdog:
  assumes "watchdog_registers (z_board z) ctl tmo" "log_ok (fw_log fw)"
    and "emit z i c g a0 a1 a2 v fw = Some fw'"
  shows "ctl (fw_w fw') = ctl (fw_w fw)"
proof -
  obtain r where "vams_retained_note_event (z_board z) (event_code i) c g
      (ucast (k_uptime_get (z_board z) (fw_w fw))) (log_record (fw_log fw)) (fw_w fw) =
      Some (r, write_words (z_board z) RETENTION_WINDOW (retained_words r) (fw_w fw))"
    using note_event_ok [of "log_record (fw_log fw)" "z_board z" "event_code i" c g
        "ucast (k_uptime_get (z_board z) (fw_w fw))" "fw_w fw"] assms(2)
    unfolding log_ok_def by blast
  then have "fw_w fw' = write_words (z_board z) RETENTION_WINDOW (retained_words r) (fw_w fw)"
    using assms(3) by (auto simp: emit_def vams_event_emit_def Let_def split: prod.splits)
  with watchdog_registers.window_keeps(1) [OF assms(1), of 0 "retained_words r" "fw_w fw"] show ?thesis
    by (simp add: retained_words_def)
qed

lemma note_health_keeps_watchdog:
  assumes "watchdog_registers (z_board z) ctl tmo" "log_ok (fw_log fw)"
    and "note_retained (vams_retained_note_health (z_board z) t n) fw = Some fw'"
  shows "ctl (fw_w fw') = ctl (fw_w fw)"
proof -
  obtain r where "vams_retained_note_health (z_board z) t n (log_record (fw_log fw)) (fw_w fw) =
      Some (r, write_words (z_board z) RETENTION_WINDOW (retained_words r) (fw_w fw))"
    using retained_apply_ok [of "log_record (fw_log fw)" "z_board z" "Note_Health t n" "fw_w fw"] assms(2)
    by (auto simp: log_ok_def)
  then have "fw_w fw' = write_words (z_board z) RETENTION_WINDOW (retained_words r) (fw_w fw)"
    using assms(3) by (auto simp: note_retained_def)
  with watchdog_registers.window_keeps(1) [OF assms(1), of 0 "retained_words r" "fw_w fw"] show ?thesis
    by (simp add: retained_words_def)
qed

lemma health_note_failure_keeps_watchdog:
  assumes "watchdog_registers (z_board z) ctl tmo" "log_ok (fw_log fw)"
    and "health_note_failure z healthy (m, fw) = Some (m', fw')"
  shows "ctl (fw_w fw') = ctl (fw_w fw)"
proof (cases "\<not> healthy \<and> failure_count (mon_tracker m) \<noteq> mon_reported_failure_count m")
  case True
  let ?t = "mon_tracker m"
  obtain fw1 where 1: "note_retained (vams_retained_note_health (z_board z) (stuck_task ?t)
      (failure_count ?t)) fw = Some fw1" "served fw fw1"
    by (rule note_health_served [OF assms(2)])
  then have "emit z VAMS_EVENT_HEALTH_STUCK 0 (command_generation fw1) (stuck_task ?t)
      (failure_count ?t) 0 0 fw1 = Some fw'"
    using assms(3) True by (auto simp: health_note_failure_def Let_def bind_eq_Some_conv)
  from emit_keeps_watchdog [OF assms(1) served_log [OF 1(2)] this]
    note_health_keeps_watchdog [OF assms(1,2) 1(1)] show ?thesis by simp
next
  case False
  with assms(3) show ?thesis by (auto simp: health_note_failure_def Let_def split: if_splits)
qed

lemma health_publish_keeps_watchdog:
  assumes "watchdog_registers (z_board z) ctl tmo" "log_ok (fw_log fw)"
    and "health_publish z healthy u (m, fw) = Some (m', fw')"
  shows "ctl (fw_w fw') = ctl (fw_w fw)"
proof (cases healthy)
  case True
  let ?fw = "fw\<lparr> fw_w := vams_management_publish (z_board z) (mon_heartbeat m + 1) u
      VAMS_FIRMWARE_VERSION (fw_w fw) \<rparr>"
  have "emit z VAMS_EVENT_TELEMETRY 0 (command_generation fw) (mon_heartbeat m + 1) 0 0 u ?fw = Some fw'"
    using assms(3) True by (auto simp: health_publish_def Let_def bind_eq_Some_conv)
  from emit_keeps_watchdog [OF assms(1) _ this] assms(2)
    watchdog_registers.publish_keeps [OF assms(1)] show ?thesis by simp
next
  case False
  with assms(3) show ?thesis by (simp add: health_publish_def)
qed

lemma health_pet_armed:
  assumes "watchdog_registers (z_board z) ctl tmo" "ctl (fw_w fw) AND VAMS_WDT_ENABLE \<noteq> 0"
  obtains pet m' fw' where "health_pet z True healthy u (m, fw) = Some (pet, m', fw')"
    "ctl (fw_w fw') = ctl (fw_w fw)"
proof -
  let ?p = "vams_management_watchdog_pet (z_board z) True (fw_w fw)"
  have ok: "fst ?p = RC_OK" by (rule watchdog_registers.pet_accepted [OF assms])
  have "ctl (sys_write32 (z_board z) VAMS_WDT_PET_MAGIC (MANAGEMENT_BASE + VAMS_CONTROL_WDT_PET) (fw_w fw)) =
      ctl (fw_w fw)"
    using watchdog_registers.write_other [OF assms(1),
        of "MANAGEMENT_BASE + VAMS_CONTROL_WDT_PET" VAMS_WDT_PET_MAGIC "fw_w fw"]
    by (simp add: vams_const)
  then have "ctl (snd ?p) = ctl (fw_w fw)"
    using assms(2) by (simp add: vams_management_watchdog_pet_def mgmt_read_def mgmt_write_def
        watchdog_registers.read_ctl [OF assms(1)])
  moreover obtain w where w: "?p = (RC_OK, w)" using ok by (metis prod.collapse)
  ultimately have keeps: "ctl w = ctl (fw_w fw)" by simp
  show ?thesis
  proof (cases "healthy \<and> \<not> overload_reset_requested fw")
    case True
    with w keeps that show ?thesis by (simp add: health_pet_def Let_def)
  next
    case False
    then show ?thesis by (intro that [of None m fw]) (auto simp: health_pet_def)
  qed
qed

lemma stacks_used_total:
  "\<forall>t < n + length cs. \<exists>unused. k_thread_stack_space_get sv t = Inr unused \<Longrightarrow>
    \<exists>used. stacks_used sv n cs = Some used"
proof (induction cs arbitrary: n)
  case (Cons c cs)
  then obtain unused where "k_thread_stack_space_get sv n = Inr unused" by force
  moreover obtain used where "stacks_used sv (Suc n) cs = Some used" using Cons by force
  ultimately show ?case by (simp add: vams_stack_used_def)
qed simp

lemma health_monitor_returns:
  assumes "watchdog_registers (z_board z) ctl tmo" "ctl (fw_w (sys_fw s)) AND VAMS_WDT_ENABLE \<noteq> 0"
    and "log_ok (fw_log (sys_fw s))" "sv_ready sv"
    and "\<forall>t < 10. \<exists>unused. k_thread_stack_space_get sv t = Inr unused"
  shows "\<exists>a s'. vams_health_monitor z sv s = Some (a, s') \<and>
    ctl (fw_w (sys_fw s')) AND VAMS_WDT_ENABLE \<noteq> 0"
proof (cases "sys_monitor s")
  case None
  with assms(2) show ?thesis by (simp add: vams_health_monitor_def health_monitor_start_def Let_def)
next
  case (Some m)
  let ?b = "z_board z"
  let ?fw = "(sys_fw s)\<lparr> fw_w := k_sleep_ms ?b VAMS_HEARTBEAT_PERIOD (fw_w (sys_fw s)) \<rparr>"
  let ?u = "k_uptime_get ?b (fw_w ?fw)" and ?epochs = "vams_health_epochs ?fw"
  obtain healthy tracker where up: "vams_health_tracker_update ?epochs (mon_tracker m) = (healthy, tracker)"
    by fastforce
  let ?s = "s\<lparr> health_failure_count := failure_count tracker, health_stuck_task := stuck_task tracker \<rparr>"
  have log0: "log_ok (fw_log ?fw)" and ctl0: "ctl (fw_w ?fw) = ctl (fw_w (sys_fw s))"
    using assms(3) watchdog_registers.sleep_keeps [OF assms(1)] by simp_all
  obtain m1 fw1 where 1: "health_note_failure z healthy (m\<lparr> mon_tracker := tracker \<rparr>, ?fw) = Some (m1, fw1)"
    "served ?fw fw1"
    by (rule health_note_failure_served [OF log0, of z healthy "m\<lparr> mon_tracker := tracker \<rparr>"])
  obtain m2 fw2 where 2: "health_publish z healthy ?u (m1, fw1) = Some (m2, fw2)"
    by (rule health_publish_served [OF served_log [OF 1(2)]])
  have ctl2: "ctl (fw_w fw2) = ctl (fw_w (sys_fw s))"
    using health_publish_keeps_watchdog [OF assms(1) served_log [OF 1(2)] 2]
      health_note_failure_keeps_watchdog [OF assms(1) log0 1(1)] ctl0 by simp
  obtain pet m3 fw3 where 3: "health_pet z True healthy ?u (m2, fw2) = Some (pet, m3, fw3)"
    "ctl (fw_w fw3) = ctl (fw_w fw2)"
    by (rule health_pet_armed [OF assms(1), of fw2 healthy ?u m2]) (use assms(2) ctl2 in simp)
  have "length stack_capacities = 10" by (simp add: stack_capacities_def)
  then obtain used where "stacks_used sv 0 stack_capacities = Some used"
    using stacks_used_total [of 0 stack_capacities sv] assms(5) by auto
  then obtain m4 where 4: "health_report sv (?s\<lparr> sys_fw := fw3 \<rparr>) m3 = Some m4"
    by (cases "\<not> mon_resources_reported m3 \<and> 4 \<le> mon_heartbeat m3")
       (simp_all add: health_report_def vams_report_resources_def Let_def)
  have "vams_health_monitor z sv s = Some (Watch ?epochs (overload_reset_requested fw2) pet,
      ?s\<lparr> sys_fw := fw3, sys_monitor := Some m4 \<rparr>)"
    unfolding vams_health_monitor_def Some option.case health_monitor_round_def Let_def up prod.case
      1(1) 2 bind.bind_lunit using 3(1) 4 assms(4) by (simp only: prod.case bind.bind_lunit)
  with assms(2) ctl2 3(2) show ?thesis by simp
qed

text \<open>Consecutive rounds of the health monitor.\<close>

fun health_rounds ::
    "('w, 'q, 's, 'e) zephyr \<Rightarrow> ('h, 'm) services \<Rightarrow> nat \<Rightarrow> ('w, 'q, 's, 'e, 'h, 'm) system \<Rightarrow>
       ('w, 'q, 's, 'e, 'h, 'm) system option" where
  "health_rounds z sv 0 s = Some s"
| "health_rounds z sv (Suc n) s = do {
     (a, s) \<leftarrow> vams_health_monitor z sv s;
     health_rounds z sv n s
   }"

text \<open>
  C31. Once the watchdog is armed, no assertion of the health monitor can fail: on a board whose
  watchdog control register has the enable bit set, with the management device ready and the
  kernel able to report every stack, any number of rounds of the monitor returns, across failure
  notes, telemetry, pets and the resource report, and leaves the watchdog armed.
\<close>

theorem health_monitor_never_faults:
  assumes "watchdog_registers (z_board z) ctl tmo" "ctl (fw_w (sys_fw s)) AND VAMS_WDT_ENABLE \<noteq> 0"
    and "log_ok (fw_log (sys_fw s))" "sv_ready sv"
    and "\<forall>t < 10. \<exists>unused. k_thread_stack_space_get sv t = Inr unused"
  shows "\<exists>s'. health_rounds z sv n s = Some s' \<and> ctl (fw_w (sys_fw s')) AND VAMS_WDT_ENABLE \<noteq> 0"
  using assms(2,3)
proof (induction n arbitrary: s)
  case (Suc n)
  obtain a s1 where 1: "vams_health_monitor z sv s = Some (a, s1)"
    "ctl (fw_w (sys_fw s1)) AND VAMS_WDT_ENABLE \<noteq> 0"
    using health_monitor_returns [OF assms(1) Suc.prems assms(4,5)] by blast
  from Suc.IH [OF 1(2) served_log [OF health_served [OF Suc.prems(2) 1(1)]]] 1(1) show ?case by simp
qed simp

text \<open>
  C33. The monitor never fails, and the mailbox service fails exactly when the host has not yet taken
  the previous response: with a message in the receive queue and the response-pending bit set, the
  driver returns \<open>-EBUSY\<close> and the assertion of the service on it fails.
\<close>

theorem mailbox_service_faults_iff:
  assumes "msgq_laws (sv_hbq sv) hb_items hb_cap" "msgq_laws (sv_mbq sv) mb_items mb_cap"
    and "sv_ready sv" "log_ok (fw_log (sys_fw s))"
  shows "vams_monitor z sv s \<noteq> None \<and>
    (vams_mailbox_service z sv s = None \<longleftrightarrow> mb_items (sys_mailbox s) \<noteq> [] \<and>
       fst (sys_read32 (z_board z) (MAILBOX_BASE + VAMS_MAILBOX_STATUS) (fw_w (sys_fw s)))
         AND VAMS_MAILBOX_F2H_PENDING \<noteq> 0)"
proof
  let ?fw = "vams_task_progress 1 (sys_fw s)"
  obtain r q where get: "k_msgq_get (sv_hbq sv) True (sys_heartbeats s) = (r, q)" by fastforce
  have emit: "emit z i c g a0 a1 a2 v fw \<noteq> None" if "log_ok (fw_log fw)" for i c g a0 a1 a2 v fw
    by (rule emit_served [OF that, of z i c g a0 a1 a2 v]) simp
  have log: "log_ok (fw_log (vams_task_progress t (sys_fw s)))" for t
    using assms(4) by (simp add: vams_task_progress_def)
  show "vams_monitor z sv s \<noteq> None"
    by (rule msgq_laws.getE [OF assms(1) get])
       (use get emit [OF log] in \<open>auto simp: vams_monitor_def Let_def bind_eq_None_conv\<close>)
  obtain r' q' where mb: "k_msgq_get (sv_mbq sv) True (sys_mailbox s) = (r', q')" by fastforce
  let ?st = "sys_read32 (z_board z) (MAILBOX_BASE + VAMS_MAILBOX_STATUS) (fw_w (sys_fw s))"
  have w: "fw_w (vams_task_progress t (sys_fw s)) = fw_w (sys_fw s)" for t
    by (simp add: vams_task_progress_def)
  have logged: "(emit z i c g a0 a1 a2 v (vams_task_progress 2 (sys_fw s)\<lparr> fw_w := x \<rparr>) = None) = False"
    for i c g a0 a1 a2 v x
    using log [of 2] emit [of "vams_task_progress 2 (sys_fw s)\<lparr> fw_w := x \<rparr>"] by simp
  have respond: "fst (vams_mailbox_respond (z_board z) True a (fw_w (sys_fw s))) = RC_OK \<longleftrightarrow>
      fst ?st AND VAMS_MAILBOX_F2H_PENDING = 0" for a
    by (simp add: vams_mailbox_respond_def Let_def split: prod.split)
  show "vams_mailbox_service z sv s = None \<longleftrightarrow> mb_items (sys_mailbox s) \<noteq> [] \<and>
      fst ?st AND VAMS_MAILBOX_F2H_PENDING \<noteq> 0"
  proof (rule msgq_laws.getE [OF assms(2) mb])
    fix msg assume "mb_items (sys_mailbox s) = msg # mb_items q'" "r' = Inr msg"
    with assms(3) mb respond [of "mailbox_answer msg"] show ?thesis
      by (auto simp: logged vams_mailbox_service_def vams_mailbox_receive_def w Let_def bind_eq_None_conv
          split: prod.splits)
  next
    assume "mb_items (sys_mailbox s) = []" "r' = Inl (if True then EAGAIN else ENOMSG)"
    with assms(3) mb show ?thesis
      by (simp add: vams_mailbox_service_def vams_mailbox_receive_def Let_def)
  qed
qed

subsection \<open>Boot\<close>

text \<open>The kernel objects the firmware defines statically, as the kernel hands them over at boot.\<close>

record ('q, 's, 'e, 'h, 'm) kernel_objects =
  ko_pool :: 's
  ko_validation :: 'q
  ko_ready :: 'q
  ko_running :: 'q
  ko_completion :: 'q
  ko_events :: 'e
  ko_heartbeats :: 'h
  ko_mailbox :: 'm

text \<open>
  \<open>main\<close>: the snapshot of the reset registers, the retained record, the watchdog. Its result is the
  snapshot, whether the retained record was valid, and the firmware with every thread at the head of
  its loop. The creation and start of the threads and the messages on the console are not modelled.
\<close>

definition vams_main ::
    "('w, 'q, 's, 'e) zephyr \<Rightarrow> ('h, 'm) services \<Rightarrow> ('q, 's, 'e, 'h, 'm) kernel_objects \<Rightarrow> 'w \<Rightarrow>
       (vams_management_snapshot \<times> bool \<times> ('w, 'q, 's, 'e, 'h, 'm) system) option" where
  "vams_main z sv ko w = do {
     let b = z_board z;
     c_assert (sv_ready sv);
     let (boot_snapshot, w) = vams_management_snapshot b w;
     (retained_valid, r, w) \<leftarrow> vams_retained_boot b (snap_reset_reason boot_snapshot)
       (snap_reset_generation boot_snapshot) w;
     let (status, w) = vams_management_watchdog_start b (sv_ready sv) VAMS_WATCHDOG_TIMEOUT_MS w;
     c_assert (status = RC_OK);
     Some (boot_snapshot, retained_valid, \<lparr>
       sys_fw = \<lparr>
         fw_w = w, fw_log = \<lparr> log_record = r, log_queue = ko_events ko, log_drops = 0 \<rparr>,
         fw_pool = ko_pool ko, fw_obj = (\<lambda>_. zero_command), fw_validation = ko_validation ko,
         fw_ready = ko_ready ko, fw_running = ko_running ko, fw_completion = ko_completion ko,
         fw_rx = Rx_Loop, fw_val = Val_Loop, fw_sched = Sched_Loop, fw_sched_ready = [],
         fw_rec = Rec_Loop, fw_comp = Comp_Loop, fw_epochs = replicate VAMS_HEALTH_TASK_COUNT 0,
         command_objects_in_use = 0, command_pool_high_water = 0, validation_queue_high_water = 0,
         ready_queue_high_water = 0, running_queue_high_water = 0, completion_queue_high_water = 0,
         recovery_attempt_count = 0, recovery_escalation_count = 0, admission_defer_count = 0,
         queue_overload_count = 0, portal_stall_count = 0, overload_reset_requested = False,
         command_generation = snap_reset_generation boot_snapshot, command_sequence = 0 \<rparr>,
       sys_heartbeats = ko_heartbeats ko, sys_mailbox = ko_mailbox ko, producer_sequence = 1,
       heartbeat_drop_count = 0, health_failure_count = 0, health_stuck_task = 0,
       sys_monitor = None \<rparr>)
   }"

definition ko_initial ::
    "('q \<Rightarrow> ptr list) \<Rightarrow> ('q \<Rightarrow> nat) \<Rightarrow> ('s \<Rightarrow> ptr set) \<Rightarrow> ('q, 's, 'e, 'h, 'm) kernel_objects \<Rightarrow> bool" where
  "ko_initial items cap free ko \<longleftrightarrow>
     free (ko_pool ko) = {0..<VAMS_COMMAND_POOL_SIZE} \<and>
     items (ko_validation ko) = [] \<and> items (ko_ready ko) = [] \<and> items (ko_running ko) = [] \<and>
     items (ko_completion ko) = [] \<and> cap (ko_validation ko) = VAMS_COMMAND_POOL_SIZE \<and>
     cap (ko_ready ko) = VAMS_COMMAND_POOL_SIZE \<and> cap (ko_running ko) = 1 \<and>
     cap (ko_completion ko) = VAMS_COMMAND_POOL_SIZE"

lemma snapshot_keeps_watchdog:
  assumes "watchdog_registers b ctl tmo"
  shows "ctl (snd (vams_management_snapshot b w)) = ctl w" "tmo (snd (vams_management_snapshot b w)) = tmo w"
  using watchdog_registers.read_other [OF assms]
  by (simp_all add: vams_management_snapshot_def Let_def case_prod_beta mgmt_read_def)

lemma retained_boot_effect:
  assumes "read_words b RETENTION_WINDOW 30 w = (ws, w1)"
    and "vams_retained_validate (retained_of_words ws) \<longrightarrow> retained_wf (retained_of_words ws)"
  obtains r where "vams_retained_boot b reason gen w = Some (vams_retained_validate (retained_of_words ws),
      r, write_words b RETENTION_WINDOW (retained_words r) w1)" "retained_wf r"
    "ret_reset_reason r = reason" "ret_reset_generation r = gen"
proof -
  obtain r w2 where boot: "vams_retained_boot b reason gen w =
      Some (vams_retained_validate (retained_of_words ws), r, w2)" "retained_wf r"
    using boot_ok [OF assms] by blast
  moreover have "w2 = write_words b RETENTION_WINDOW (retained_words r) w1"
    "ret_reset_reason r = reason" "ret_reset_generation r = gen"
    using boot(1) unfolding boot_eq [OF assms(1)] Let_def
    by (auto simp: commit_eq vams_retained_format_def Let_def simp del: crc32_ignores_crc
        split: if_splits)
  ultimately show ?thesis by (intro that [of r]) simp_all
qed


subsection \<open>The services around the pipeline\<close>

text \<open>
  C5. The service tasks do not disturb the pipeline. Every run of the whole firmware, with the
  heartbeat, mailbox and health tasks interleaved in any way, is a run of the pipeline in which their
  rounds are silent steps of the environment; so the invariant of the pipeline holds in it and
  commands are delivered exactly once.
\<close>

theorem services_preserve_delivery:
  assumes "pipeline z items cap free" "fw_initial items cap free (sys_fw s0)" "sys_run z sv s0 tr s"
  shows "fw_run z (sys_fw s0) (map pipeline_label tr) (sys_fw s) \<and>
    fw_inv items cap free (sys_fw s) \<and>
    (\<exists>answered. mset (admissions (map pipeline_label tr)) = answered + flight items (sys_fw s) \<and>
       rel_mset answers answered (mset (publications (map pipeline_label tr))))"
  using pipeline.run_ledger [OF assms(1) sys_run_refines [OF assms] assms(2)] sys_run_refines [OF assms]
  by blast

subsection \<open>The reference instance\<close>

definition list_services :: "(vams_heartbeat list_msgq, u32 list_msgq) services" where
  "list_services = \<lparr> sv_hbq = list_msgq_api, sv_mbq = list_msgq_api, sv_ready = True,
     k_thread_stack_space_get = (\<lambda>_. Inr 100) \<rparr>"

definition list_objects ::
    "(ptr list_msgq, ptr list, vams_event list_msgq, vams_heartbeat list_msgq, u32 list_msgq)
       kernel_objects" where
  "list_objects = \<lparr> ko_pool = [0..<8], ko_validation = \<lparr> lq_items = [], lq_cap = 8 \<rparr>,
     ko_ready = \<lparr> lq_items = [], lq_cap = 8 \<rparr>, ko_running = \<lparr> lq_items = [], lq_cap = 1 \<rparr>,
     ko_completion = \<lparr> lq_items = [], lq_cap = 8 \<rparr>, ko_events = \<lparr> lq_items = [], lq_cap = 32 \<rparr>,
     ko_heartbeats = \<lparr> lq_items = [], lq_cap = 4 \<rparr>, ko_mailbox = \<lparr> lq_items = [], lq_cap = 4 \<rparr> \<rparr>"

text \<open>The watchdog of \<open>armed_world\<close> is on; its mailbox holds a response the host has not taken.\<close>

definition armed_world :: ram_world where
  "armed_world = \<lparr> ram_cell = (\<lambda>addr.
     if addr = MANAGEMENT_BASE + VAMS_CONTROL_WDT_CONTROL then VAMS_WDT_ENABLE
     else if addr = MAILBOX_BASE + VAMS_MAILBOX_STATUS then VAMS_MAILBOX_F2H_PENDING else 0),
     ram_clock = 0 \<rparr>"

definition boot_system ::
    "(ram_world, ptr list_msgq, ptr list, vams_event list_msgq, vams_heartbeat list_msgq, u32 list_msgq)
       system" where
  "boot_system = \<lparr> sys_fw = boot_fw\<lparr> fw_w := armed_world \<rparr>,
     sys_heartbeats = \<lparr> lq_items = [], lq_cap = 4 \<rparr>, sys_mailbox = \<lparr> lq_items = [1], lq_cap = 4 \<rparr>,
     producer_sequence = 1, heartbeat_drop_count = 0, health_failure_count = 0,
     health_stuck_task = 0, sys_monitor = None \<rparr>"

lemma boot_system_initial:
  "fw_initial lq_items lq_cap set (sys_fw boot_system)" "log_ok (fw_log (sys_fw boot_system))"
  using boot_fw_initial by (simp_all add: boot_system_def fw_initial_def)

lemma list_services_simps [simp]:
  "sv_hbq list_services = list_msgq_api" "sv_mbq list_services = list_msgq_api" "sv_ready list_services"
  "k_thread_stack_space_get list_services t = Inr 100"
  by (simp_all add: list_services_def)

abbreviation first_beat :: vams_heartbeat where
  "first_beat \<equiv> \<lparr> hb_sequence = 1, hb_uptime_ms = 0 \<rparr>"

lemma first_beat_run:
  "\<exists>s. sys_run list_zephyr list_services boot_system [Service (Beat first_beat True)] s"
proof -
  have "fst (vams_producer list_zephyr list_services boot_system) = Beat first_beat True"
    by (simp add: vams_producer_def boot_system_def boot_fw_def list_msgq_api_def ram_board_def
        armed_world_def Let_def)
  then obtain s where "vams_producer list_zephyr list_services boot_system = (Beat first_beat True, s)"
    by (metis prod.collapse)
  from sys_run.step [OF sys_run.start sys_step.producer [OF this]] show ?thesis by auto
qed

theorem heartbeat_accounting_witness:
  "\<exists>s. sys_run list_zephyr list_services boot_system [Service (Beat first_beat True)] s \<and>
     lq_items (sys_heartbeats s) = [first_beat] \<and> heartbeat_drop_count s = 0"
proof -
  obtain s where run: "sys_run list_zephyr list_services boot_system [Service (Beat first_beat True)] s"
    using first_beat_run by blast
  have laws: "msgq_laws (sv_hbq list_services) lq_items lq_cap"
    by (simp add: list_msgq.msgq_laws_axioms)
  from heartbeat_accounting [OF list_pipeline.pipeline_axioms boot_system_initial(1) run laws] run
  show ?thesis by (auto simp: boot_system_def unat_eq_0)
qed

theorem services_preserve_delivery_witness:
  "\<exists>s. sys_run list_zephyr list_services boot_system [Service (Beat first_beat True)] s \<and>
     fw_run list_zephyr (sys_fw boot_system) [Tau] (sys_fw s)"
proof -
  obtain s where run: "sys_run list_zephyr list_services boot_system [Service (Beat first_beat True)] s"
    using first_beat_run by blast
  from services_preserve_delivery [OF list_pipeline.pipeline_axioms boot_system_initial(1) run] run
  show ?thesis by auto
qed

theorem mailbox_service_faults_iff_witness:
  "vams_mailbox_service list_zephyr list_services boot_system = None"
proof -
  have laws: "msgq_laws (sv_hbq list_services) lq_items lq_cap" "msgq_laws (sv_mbq list_services) lq_items lq_cap"
    by (simp_all add: list_msgq.msgq_laws_axioms)
  have "lq_items (sys_mailbox boot_system) \<noteq> [] \<and>
      fst (sys_read32 (z_board list_zephyr) (MAILBOX_BASE + VAMS_MAILBOX_STATUS) (fw_w (sys_fw boot_system)))
        AND VAMS_MAILBOX_F2H_PENDING \<noteq> 0"
    by (simp add: boot_system_def ram_board_def armed_world_def vams_const)
  with mailbox_service_faults_iff [OF laws _ boot_system_initial(2), of list_zephyr] show ?thesis by simp
qed

lemma armed: "ram_cell (fw_w (sys_fw boot_system)) (MANAGEMENT_BASE + VAMS_CONTROL_WDT_CONTROL)
    AND VAMS_WDT_ENABLE \<noteq> 0"
  by (simp add: boot_system_def armed_world_def vams_const)

lemma ram_armed: "watchdog_registers (z_board list_zephyr)
    (\<lambda>w. ram_cell w (MANAGEMENT_BASE + VAMS_CONTROL_WDT_CONTROL))
    (\<lambda>w. ram_cell w (MANAGEMENT_BASE + VAMS_CONTROL_WDT_TIMEOUT_MS))"
  by (simp add: ram_watchdog)

theorem health_monitor_never_faults_witness:
  "\<exists>s'. health_rounds list_zephyr list_services 6 boot_system = Some s' \<and>
     ram_cell (fw_w (sys_fw s')) (MANAGEMENT_BASE + VAMS_CONTROL_WDT_CONTROL) AND VAMS_WDT_ENABLE \<noteq> 0"
  by (rule health_monitor_never_faults [OF ram_armed armed boot_system_initial(2)]) simp_all

theorem watchdog_pet_iff_progress_witness:
  "\<exists>s e0 e. sys_run list_zephyr list_services boot_system
     [Service (Watch_Start e0), Service (Watch e False (Some RC_OK))] s"
proof -
  obtain a s1 where 1: "vams_health_monitor list_zephyr list_services boot_system = Some (a, s1)"
    "ram_cell (fw_w (sys_fw s1)) (MANAGEMENT_BASE + VAMS_CONTROL_WDT_CONTROL) AND VAMS_WDT_ENABLE \<noteq> 0"
    using health_monitor_returns [OF ram_armed armed boot_system_initial(2), of list_services] by auto
  then obtain e0 m where a: "a = Watch_Start e0" "sys_monitor s1 = Some m" "sys_fw s1 = sys_fw boot_system"
    by (auto simp: vams_health_monitor_def boot_system_def health_monitor_start_def Let_def)
  note log1 = served_log [OF health_served [OF boot_system_initial(2) 1(1)]]
  obtain b s2 where 2: "vams_health_monitor list_zephyr list_services s1 = Some (b, s2)"
    using health_monitor_returns [OF ram_armed 1(2) log1, of list_services] by auto
  then have round: "health_monitor_round list_zephyr list_services m s1 = Some (b, s2)"
    by (simp add: vams_health_monitor_def a(2))
  obtain e reset pet where b: "b = Watch e reset pet" "reset = overload_reset_requested (sys_fw s1)"
    by (rule health_round_effect [OF log1 round])
  have reset: "\<not> reset" using b(2) a(3) by (simp add: boot_system_def boot_fw_def)
  let ?tr = "[Service (Watch_Start e0), Service (Watch e reset pet)]"
  have "sys_run list_zephyr list_services boot_system (([] @ [Service a]) @ [Service b]) s2"
    by (rule sys_run.step [OF sys_run.step [OF sys_run.start sys_step.health [OF 1(1)]] sys_step.health [OF 2]])
  then have run: "sys_run list_zephyr list_services boot_system ?tr s2" using a(1) b(1) by simp
  have laws: "msgq_laws (sv_hbq list_services) lq_items lq_cap"
    by (simp add: list_msgq.msgq_laws_axioms)
  have "pet = (if reset \<or> (\<exists>i < 8. stalled (history (epoch_samples ?tr)) 2 2 (Suc 0) i)
      then None else Some RC_OK)"
    by (rule watchdog_pet_iff_progress [OF list_pipeline.pipeline_axioms boot_system_initial(1) run laws])
       (simp_all add: boot_system_def)
  with reset have "pet = Some RC_OK" by (simp add: stalled_def)
  with run reset show ?thesis by auto
qed


end
