(* ===== verification/Vams_Pci_Regs.thy ===== *)
theory Vams_Pci_Regs
  imports Vams_Abi
begin

text \<open>
  The host side of the interface: the BAR0 registers of the endpoint (\<open>kernel/vams_regs.h\<close>), the
  structures of the character device (\<open>kernel/include/uapi/linux/vams.h\<close>), and the kernel services
  the driver calls.

  Register access and xarrays are code outside the repository: \<open>('w, 'x) linux\<close> holds the calls the
  driver makes, and the locale \<open>xarray_laws\<close> states their documented behaviour over the partial map
  an xarray holds.
\<close>

subsection \<open>Registers of BAR0\<close>

definition VAMS_BAR0_SIZE :: u32 where [vams_const]: "VAMS_BAR0_SIZE = 0x1000"
definition VAMS_REG_DEVICE_ID :: u32 where [vams_const]: "VAMS_REG_DEVICE_ID = 0x000"
definition VAMS_REG_HW_IF_VERSION :: u32 where [vams_const]: "VAMS_REG_HW_IF_VERSION = 0x004"
definition VAMS_REG_FW_VERSION :: u32 where [vams_const]: "VAMS_REG_FW_VERSION = 0x008"
definition VAMS_REG_DESC_VERSION :: u32 where [vams_const]: "VAMS_REG_DESC_VERSION = 0x00c"
definition VAMS_REG_CAPABILITIES :: u32 where [vams_const]: "VAMS_REG_CAPABILITIES = 0x010"
definition VAMS_REG_MAX_TRANSFER :: u32 where [vams_const]: "VAMS_REG_MAX_TRANSFER = 0x014"
definition VAMS_REG_QUEUE_LIMITS :: u32 where [vams_const]: "VAMS_REG_QUEUE_LIMITS = 0x018"
definition VAMS_REG_DEVICE_STATUS :: u32 where [vams_const]: "VAMS_REG_DEVICE_STATUS = 0x01c"
definition VAMS_REG_DEVICE_CONTROL :: u32 where [vams_const]: "VAMS_REG_DEVICE_CONTROL = 0x020"
definition VAMS_REG_ERROR_STATUS :: u32 where [vams_const]: "VAMS_REG_ERROR_STATUS = 0x024"
definition VAMS_REG_RESET_GENERATION :: u32 where [vams_const]: "VAMS_REG_RESET_GENERATION = 0x028"
definition VAMS_REG_LAST_FATAL :: u32 where [vams_const]: "VAMS_REG_LAST_FATAL = 0x02c"
definition VAMS_REG_SQ_BASE_LO :: u32 where [vams_const]: "VAMS_REG_SQ_BASE_LO = 0x100"
definition VAMS_REG_SQ_BASE_HI :: u32 where [vams_const]: "VAMS_REG_SQ_BASE_HI = 0x104"
definition VAMS_REG_SQ_DEPTH :: u32 where [vams_const]: "VAMS_REG_SQ_DEPTH = 0x108"
definition VAMS_REG_SQ_HEAD :: u32 where [vams_const]: "VAMS_REG_SQ_HEAD = 0x10c"
definition VAMS_REG_SQ_TAIL :: u32 where [vams_const]: "VAMS_REG_SQ_TAIL = 0x110"
definition VAMS_REG_SQ_DOORBELL :: u32 where [vams_const]: "VAMS_REG_SQ_DOORBELL = 0x114"
definition VAMS_REG_SQ_CONTROL :: u32 where [vams_const]: "VAMS_REG_SQ_CONTROL = 0x118"
definition VAMS_REG_SQ_STATUS :: u32 where [vams_const]: "VAMS_REG_SQ_STATUS = 0x11c"
definition VAMS_REG_CQ_BASE_LO :: u32 where [vams_const]: "VAMS_REG_CQ_BASE_LO = 0x200"
definition VAMS_REG_CQ_BASE_HI :: u32 where [vams_const]: "VAMS_REG_CQ_BASE_HI = 0x204"
definition VAMS_REG_CQ_DEPTH :: u32 where [vams_const]: "VAMS_REG_CQ_DEPTH = 0x208"
definition VAMS_REG_CQ_HEAD :: u32 where [vams_const]: "VAMS_REG_CQ_HEAD = 0x20c"
definition VAMS_REG_CQ_TAIL :: u32 where [vams_const]: "VAMS_REG_CQ_TAIL = 0x210"
definition VAMS_REG_CQ_DOORBELL :: u32 where [vams_const]: "VAMS_REG_CQ_DOORBELL = 0x214"
definition VAMS_REG_CQ_CONTROL :: u32 where [vams_const]: "VAMS_REG_CQ_CONTROL = 0x218"
definition VAMS_REG_CQ_STATUS :: u32 where [vams_const]: "VAMS_REG_CQ_STATUS = 0x21c"
definition VAMS_REG_CQ_WATERMARK :: u32 where [vams_const]: "VAMS_REG_CQ_WATERMARK = 0x220"
definition VAMS_REG_CQ_HIGH_WATER :: u32 where [vams_const]: "VAMS_REG_CQ_HIGH_WATER = 0x224"
definition VAMS_REG_CQ_BACKPRESSURE_COUNT :: u32 where
  [vams_const]: "VAMS_REG_CQ_BACKPRESSURE_COUNT = 0x228"
definition VAMS_REG_INTR_STATUS :: u32 where [vams_const]: "VAMS_REG_INTR_STATUS = 0x300"
definition VAMS_REG_INTR_MASK :: u32 where [vams_const]: "VAMS_REG_INTR_MASK = 0x304"
definition VAMS_REG_INTR_FORCE :: u32 where [vams_const]: "VAMS_REG_INTR_FORCE = 0x308"
definition VAMS_REG_LAST_RESET_REASON :: u32 where
  [vams_const]: "VAMS_REG_LAST_RESET_REASON = 0x610"
definition VAMS_DEVICE_ID_VALUE :: u32 where [vams_const]: "VAMS_DEVICE_ID_VALUE = 0x11001b36"
definition VAMS_HW_IF_MAJOR_SUPPORTED :: u32 where [vams_const]: "VAMS_HW_IF_MAJOR_SUPPORTED = 1"
definition VAMS_DESC_VERSION_SUPPORTED :: u32 where [vams_const]: "VAMS_DESC_VERSION_SUPPORTED = 1"
definition VAMS_CAP_DMA :: u32 where [vams_const]: "VAMS_CAP_DMA = 1"
definition VAMS_CAP_MSIX :: u32 where [vams_const]: "VAMS_CAP_MSIX = 2"
definition VAMS_CAP_WATCHDOG :: u32 where [vams_const]: "VAMS_CAP_WATCHDOG = 4"
definition VAMS_CAP_TELEMETRY :: u32 where [vams_const]: "VAMS_CAP_TELEMETRY = 8"
definition VAMS_CAP_ENGINE_RESET :: u32 where [vams_const]: "VAMS_CAP_ENGINE_RESET = 16"
definition VAMS_CAP_POLLING_CQ :: u32 where [vams_const]: "VAMS_CAP_POLLING_CQ = 32"
definition VAMS_CAP_DEBUG_FAULT :: u32 where [vams_const]: "VAMS_CAP_DEBUG_FAULT = 64"
definition VAMS_CAP_CQ_WATERMARK :: u32 where [vams_const]: "VAMS_CAP_CQ_WATERMARK = 128"
definition VAMS_CAP_KNOWN :: u32 where [vams_const]: "VAMS_CAP_KNOWN = 0xff"
definition VAMS_STATUS_READY :: u32 where [vams_const]: "VAMS_STATUS_READY = 1"
definition VAMS_STATUS_FW_RUNNING :: u32 where [vams_const]: "VAMS_STATUS_FW_RUNNING = 2"
definition VAMS_STATUS_QUEUES_READY :: u32 where [vams_const]: "VAMS_STATUS_QUEUES_READY = 4"
definition VAMS_STATUS_RESETTING :: u32 where [vams_const]: "VAMS_STATUS_RESETTING = 16"
definition VAMS_STATUS_FATAL :: u32 where [vams_const]: "VAMS_STATUS_FATAL = 32"
definition VAMS_INTR_CQ :: u32 where [vams_const]: "VAMS_INTR_CQ = 1"
definition VAMS_INTR_ERROR :: u32 where [vams_const]: "VAMS_INTR_ERROR = 2"
definition VAMS_INTR_FW_EVENT :: u32 where [vams_const]: "VAMS_INTR_FW_EVENT = 4"
definition VAMS_INTR_RESET_DONE :: u32 where [vams_const]: "VAMS_INTR_RESET_DONE = 8"
definition VAMS_INTR_ASYNC :: u32 where
  [vams_const]: "VAMS_INTR_ASYNC = VAMS_INTR_ERROR OR VAMS_INTR_FW_EVENT OR VAMS_INTR_RESET_DONE"
definition VAMS_INTR_ALL :: u32 where
  [vams_const]: "VAMS_INTR_ALL = VAMS_INTR_CQ OR VAMS_INTR_ASYNC"
definition VAMS_DEVICE_ENABLE :: u32 where [vams_const]: "VAMS_DEVICE_ENABLE = 1"
definition VAMS_DEVICE_QUIESCE :: u32 where [vams_const]: "VAMS_DEVICE_QUIESCE = 4"
definition VAMS_RESET_REASON_HOST_DEVICE :: u32 where
  [vams_const]: "VAMS_RESET_REASON_HOST_DEVICE = 1"
definition VAMS_RESET_REASON_HOST_QUEUE :: u32 where
  [vams_const]: "VAMS_RESET_REASON_HOST_QUEUE = 2"
definition VAMS_QUEUE_ENABLE :: u32 where [vams_const]: "VAMS_QUEUE_ENABLE = 1"
definition VAMS_QUEUE_RESET :: u32 where [vams_const]: "VAMS_QUEUE_RESET = 2"
definition VAMS_QUEUE_STATUS_ENABLED :: u32 where [vams_const]: "VAMS_QUEUE_STATUS_ENABLED = 1"
definition VAMS_QUEUE_STATUS_BACKPRESSURE :: u32 where
  [vams_const]: "VAMS_QUEUE_STATUS_BACKPRESSURE = 8"
definition VAMS_QUEUE_DEPTH :: u32 where [vams_const]: "VAMS_QUEUE_DEPTH = 16"
definition VAMS_CQ_WATERMARK_HIGH :: u32 where [vams_const]: "VAMS_CQ_WATERMARK_HIGH = 12"
definition VAMS_CQ_WATERMARK_LOW :: u32 where [vams_const]: "VAMS_CQ_WATERMARK_LOW = 8"
definition VAMS_MSIX_VECTORS :: u32 where [vams_const]: "VAMS_MSIX_VECTORS = 2"
definition VAMS_MSIX_CQ_VECTOR :: u32 where [vams_const]: "VAMS_MSIX_CQ_VECTOR = 0"
definition VAMS_MSIX_ASYNC_VECTOR :: u32 where [vams_const]: "VAMS_MSIX_ASYNC_VECTOR = 1"

subsection \<open>The structures of the character device\<close>

definition VAMS_UAPI_VERSION :: u32 where [vams_const]: "VAMS_UAPI_VERSION = 1"
definition VAMS_BUFFER_READ :: u32 where [vams_const]: "VAMS_BUFFER_READ = 1"
definition VAMS_BUFFER_WRITE :: u32 where [vams_const]: "VAMS_BUFFER_WRITE = 2"
definition VAMS_BUFFER_FLAGS :: u32 where
  [vams_const]: "VAMS_BUFFER_FLAGS = VAMS_BUFFER_READ OR VAMS_BUFFER_WRITE"
definition VAMS_SUBMIT_VERIFY_CRC :: u16 where [vams_const]: "VAMS_SUBMIT_VERIFY_CRC = 1"

record vams_ioc_info =
  info_size :: u32
  info_version :: u32
  info_hw_if_version :: u32
  info_fw_version :: u32
  info_capabilities :: u32
  info_queue_depth :: u32
  info_reset_generation :: u32
  info_reserved :: u32

record vams_ioc_nop =
  nop_size :: u32
  nop_version :: u32
  nop_flags :: u32
  nop_timeout_ms :: u32
  nop_user_cookie :: u64
  nop_command_id :: u32
  nop_status :: u16
  nop_error_code :: u16
  nop_bytes_processed :: u32
  nop_result_crc :: u32
  nop_device_timestamp :: u64
  nop_reserved :: u64

record vams_ioc_buffer_register =
  breg_size :: u32
  breg_version :: u32
  breg_flags :: u32
  breg_handle :: u32
  breg_user_address :: u64
  breg_length :: u64
  breg_reserved :: u64

record vams_ioc_buffer_unregister =
  bunreg_size :: u32
  bunreg_version :: u32
  bunreg_handle :: u32
  bunreg_flags :: u32
  bunreg_reserved :: u64

record vams_ioc_submit =
  ios_size :: u32
  ios_version :: u32
  ios_opcode :: u16
  ios_flags :: u16
  ios_source_handle :: u32
  ios_destination_handle :: u32
  ios_length :: u32
  ios_timeout_ms :: u32
  ios_source_offset :: u64
  ios_destination_offset :: u64
  ios_user_cookie :: u64
  ios_expected_crc :: u32
  ios_command_id :: u32

text \<open>\<open>driver_status\<close> is the return code the driver stores in the signed field.\<close>

record vams_ioc_wait =
  iow_size :: u32
  iow_version :: u32
  iow_command_id :: u32
  iow_flags :: u32
  iow_timeout_ms :: u32
  iow_driver_status :: rc
  iow_status :: u16
  iow_error_code :: u16
  iow_bytes_processed :: u32
  iow_result_crc :: u32
  iow_reserved0 :: u32
  iow_user_cookie :: u64
  iow_device_timestamp :: u64
  iow_reserved1 :: u64

subsection \<open>Kernel services\<close>

text \<open>
  \<open>ioread32\<close> and \<open>iowrite32\<close> act on BAR0; \<open>'w\<close> is the state of the device behind it. An xarray maps
  32-bit indices to pointers: \<open>xa_insert\<close> returns \<open>-EBUSY\<close> on a present index, \<open>xa_alloc\<close> picks an
  unused nonzero one, \<open>xa_keys\<close> are the indices \<open>xa_for_each\<close> visits. Both insertions may fail for
  lack of memory. \<open>page_shift\<close> is \<open>PAGE_SHIFT\<close> of the architecture.
\<close>

type_synonym ref = nat

record ('w, 'x) linux =
  ioread32 :: "u32 \<Rightarrow> 'w \<Rightarrow> u32 \<times> 'w"
  iowrite32 :: "u32 \<Rightarrow> u32 \<Rightarrow> 'w \<Rightarrow> 'w"
  xa_empty :: 'x
  xa_load :: "'x \<Rightarrow> u32 \<Rightarrow> ref option"
  xa_insert :: "u32 \<Rightarrow> ref \<Rightarrow> 'x \<Rightarrow> rc \<times> 'x"
  xa_alloc :: "ref \<Rightarrow> 'x \<Rightarrow> (errno + u32) \<times> 'x"
  xa_erase :: "u32 \<Rightarrow> 'x \<Rightarrow> ref option \<times> 'x"
  xa_keys :: "'x \<Rightarrow> u32 list"
  page_shift :: nat

locale xarray_laws =
  fixes k :: "('w, 'x) linux"
    and tab :: "'x \<Rightarrow> u32 \<Rightarrow> ref option"
  assumes tab_empty: "tab (xa_empty k) = Map.empty"
    and load: "xa_load k x i = tab x i"
    and insert_busy: "tab x i \<noteq> None \<Longrightarrow> xa_insert k i p x = (RC_ERR EBUSY, x)"
    and insert_free: "tab x i = None \<Longrightarrow>
      (fst (xa_insert k i p x) = RC_OK \<and> tab (snd (xa_insert k i p x)) = (tab x)(i \<mapsto> p)) \<or>
      xa_insert k i p x = (RC_ERR ENOMEM, x)"
    and alloc: "(\<exists>i. i \<noteq> 0 \<and> tab x i = None \<and> fst (xa_alloc k p x) = Inr i \<and>
        tab (snd (xa_alloc k p x)) = (tab x)(i \<mapsto> p)) \<or>
      (\<exists>e \<in> {ENOMEM, EBUSY}. xa_alloc k p x = (Inl e, x))"
    and erase: "fst (xa_erase k i x) = tab x i \<and> tab (snd (xa_erase k i x)) = (tab x)(i := None)"
    and keys: "set (xa_keys k x) = dom (tab x)" "distinct (xa_keys k x)"
begin

lemma finite_tab: "finite (dom (tab x))"
  using keys(1) [of x] by (metis List.finite_set)

end

text \<open>The reference instance: BAR0 of plain registers, an xarray as an association list.\<close>

definition alist_alloc :: "ref \<Rightarrow> (u32 \<times> ref) list \<Rightarrow> (errno + u32) \<times> (u32 \<times> ref) list" where
  "alist_alloc p x =
     (case List.find (\<lambda>i. i \<noteq> 0 \<and> map_of x i = None) (map of_nat [1..<Suc (Suc (length x))]) of
        None \<Rightarrow> (Inl EBUSY, x)
      | Some i \<Rightarrow> (Inr i, (i, p) # x))"

definition ram_linux :: "(u32 \<Rightarrow> u32, (u32 \<times> ref) list) linux" where
  "ram_linux = \<lparr>
     ioread32 = (\<lambda>off w. (w off, w)),
     iowrite32 = (\<lambda>v off w. w(off := v)),
     xa_empty = [],
     xa_load = map_of,
     xa_insert = (\<lambda>i p x. if map_of x i = None then (RC_OK, (i, p) # x) else (RC_ERR EBUSY, x)),
     xa_alloc = alist_alloc,
     xa_erase = (\<lambda>i x. (map_of x i, filter (\<lambda>(j, p). j \<noteq> i) x)),
     xa_keys = (\<lambda>x. remdups (map fst x)), page_shift = 12 \<rparr>"

lemma map_of_filter_key: "map_of (filter (\<lambda>(j, p). j \<noteq> i) x) = (map_of x)(i := None)"
  by (induction x) (auto simp: fun_eq_iff)

interpretation ram_linux: xarray_laws ram_linux map_of
proof unfold_locales
  fix p :: ref and x :: "(u32 \<times> ref) list"
  show "(\<exists>i. i \<noteq> 0 \<and> map_of x i = None \<and> fst (xa_alloc ram_linux p x) = Inr i \<and>
      map_of (snd (xa_alloc ram_linux p x)) = (map_of x)(i \<mapsto> p)) \<or>
    (\<exists>e\<in>{ENOMEM, EBUSY}. xa_alloc ram_linux p x = (Inl e, x))"
    by (auto simp: ram_linux_def alist_alloc_def find_Some_iff split: option.split)
qed (auto simp: ram_linux_def map_of_filter_key dom_map_of_conv_image_fst)

end
