(* ===== verification/Vams_Pci_Objects.thy ===== *)
theory Vams_Pci_Objects
  imports Vams_Pci_Regs
begin

text \<open>
  The objects of the host driver (\<open>kernel/vams_pci.c\<close>) and their lifetime: the device, the open
  files, the registered buffers and the requests, each counted by references. An object is a record
  in a store of the kernel heap; \<open>None\<close> in the store is memory that was never allocated or has been
  freed, and an access to it is a fault, the value \<open>None\<close> of the operation.

  The invariant \<open>hinv\<close> says that every count is the number of references that exist: the entries
  of the tables, the pointers between objects, and the local pointers \<open>locals\<close> of the calls in
  progress. So no operation reaches freed memory and nothing that is unreachable stays allocated.
\<close>

subsection \<open>Objects\<close>

datatype dma_data_direction = DMA_TO_DEVICE | DMA_FROM_DEVICE | DMA_BIDIRECTIONAL

record vams_mapping =
  mp_refs :: nat
  mp_dma_addr :: u64
  mp_direction :: dma_data_direction
  mp_npages :: u32
  mp_user_address :: u64
  mp_length :: u64
  mp_flags :: u32
  mp_handle :: u32

record vams_request =
  rq_done :: bool
  rq_refs :: nat
  rq_result :: vams_completion
  rq_owner :: "ref option"
  rq_source :: "ref option"
  rq_destination :: "ref option"
  rq_driver_status :: rc
  rq_command_id :: u32
  rq_reset_generation :: u32

record 'x vams_file =
  vf_refs :: nat
  vf_mappings :: 'x
  vf_requests :: 'x
  vf_completed_requests :: int
  vf_closing :: bool

text \<open>
  The rings are DMA memory shared with the device: the driver writes \<open>vd_sq\<close>, the device writes
  \<open>vd_cq\<close>; \<open>None\<close> is the null pointer. The two work items are the flags that they
  are scheduled.
\<close>

record 'x vams_device =
  vd_hw_if_version :: u32
  vd_fw_version :: u32
  vd_capabilities :: u32
  vd_reset_generation :: u32
  vd_reset_reason :: u32
  vd_sq :: "vams_submission list option"
  vd_sq_dma :: u64
  vd_cq :: "vams_completion list option"
  vd_cq_dma :: u64
  vd_sq_tail :: u32
  vd_cq_head :: u32
  vd_queues_ready :: bool
  vd_removing :: bool
  vd_requests :: 'x
  vd_next_command_id :: u32
  vd_pending_requests :: int
  vd_cq_poll_work :: bool
  vd_reset_work :: bool
  vd_refs :: nat
  vd_cq_interrupts :: u64
  vd_async_interrupts :: u64

text \<open>
  \<open>h_pinned\<close> and \<open>h_dma_maps\<close> count the user pages the driver has pinned and the scatter lists it
  has mapped for DMA, over all buffers. \<open>h_unpinned\<close> records the releases of user pages: the buffer, whether its pages were marked dirty,
  and whether the release ran in process context or in an interrupt handler under a spin lock.
\<close>

datatype exec_context = Process | Atomic

text \<open>The resources of the PCI function that the driver acquires one by one and gives back.\<close>

datatype resource = R_pdev | R_enabled | R_region | R_iomap | R_sq | R_cq | R_vectors | R_cq_irq |
  R_async_irq | R_drvdata | R_master | R_instance | R_misc_name | R_misc

record ('w, 'x) host =
  h_w :: 'w
  h_dev :: "'x vams_device option"
  h_requests :: "ref \<Rightarrow> vams_request option"
  h_mappings :: "ref \<Rightarrow> vams_mapping option"
  h_files :: "ref \<Rightarrow> 'x vams_file option"
  h_pinned :: nat
  h_dma_maps :: nat
  h_unpinned :: "(ref \<times> bool \<times> exec_context) list"
  h_res :: "resource set"

definition set_dev :: "'x vams_device \<Rightarrow> ('w, 'x) host \<Rightarrow> ('w, 'x) host" where
  "set_dev dev s = s\<lparr> h_dev := Some dev \<rparr>"

definition set_request :: "ref \<Rightarrow> vams_request \<Rightarrow> ('w, 'x) host \<Rightarrow> ('w, 'x) host" where
  "set_request r q s = s\<lparr> h_requests := (h_requests s)(r \<mapsto> q) \<rparr>"

definition set_file :: "ref \<Rightarrow> 'x vams_file \<Rightarrow> ('w, 'x) host \<Rightarrow> ('w, 'x) host" where
  "set_file f file s = s\<lparr> h_files := (h_files s)(f \<mapsto> file) \<rparr>"

definition set_mapping :: "ref \<Rightarrow> vams_mapping \<Rightarrow> ('w, 'x) host \<Rightarrow> ('w, 'x) host" where
  "set_mapping m mapping s = s\<lparr> h_mappings := (h_mappings s)(m \<mapsto> mapping) \<rparr>"

subsection \<open>References to buffers\<close>

definition vams_mapping_release :: "exec_context \<Rightarrow> ref \<Rightarrow> ('w, 'x) host \<Rightarrow> ('w, 'x) host option" where
  "vams_mapping_release ctx m s = do {
     mapping \<leftarrow> h_mappings s m;
     dev \<leftarrow> h_dev s;
     Some (s\<lparr> h_mappings := (h_mappings s)(m := None),
              h_pinned := h_pinned s - unat (mp_npages mapping), h_dma_maps := h_dma_maps s - 1,
              h_unpinned := h_unpinned s @ [(m, mp_flags mapping AND VAMS_BUFFER_WRITE \<noteq> 0, ctx)] \<rparr>)
   }"

definition vams_mapping_get :: "ref \<Rightarrow> ('w, 'x) host \<Rightarrow> ('w, 'x) host option" where
  "vams_mapping_get m s = do {
     mapping \<leftarrow> h_mappings s m;
     Some (set_mapping m (mapping\<lparr> mp_refs := mp_refs mapping + 1 \<rparr>) s)
   }"

definition vams_mapping_put :: "exec_context \<Rightarrow> ref option \<Rightarrow> ('w, 'x) host \<Rightarrow> ('w, 'x) host option" where
  "vams_mapping_put ctx mp s =
     (case mp of
        None \<Rightarrow> Some s
      | Some m \<Rightarrow> do {
          mapping \<leftarrow> h_mappings s m;
          if mp_refs mapping = 1 then vams_mapping_release ctx m s
          else Some (set_mapping m (mapping\<lparr> mp_refs := mp_refs mapping - 1 \<rparr>) s) })"

subsection \<open>References to the device and to files\<close>

text \<open>
  \<open>kref_put\<close> on the device with \<open>vams_device_release\<close>, which frees the instance number and the name,
  drops the PCI device and frees the object.
\<close>

definition vams_device_release :: "('w, 'x) host \<Rightarrow> ('w, 'x) host" where
  "vams_device_release s = s\<lparr> h_dev := None, h_res := h_res s - {R_instance, R_misc_name, R_pdev} \<rparr>"

definition vams_device_put :: "('w, 'x) host \<Rightarrow> ('w, 'x) host option" where
  "vams_device_put s = do {
     dev \<leftarrow> h_dev s;
     if vd_refs dev = 1 then Some (vams_device_release s)
     else Some (set_dev (dev\<lparr> vd_refs := vd_refs dev - 1 \<rparr>) s)
   }"

definition vams_file_release_refs :: "ref \<Rightarrow> ('w, 'x) host \<Rightarrow> ('w, 'x) host option" where
  "vams_file_release_refs f s = do {
     file \<leftarrow> h_files s f;
     s \<leftarrow> vams_device_put s;
     Some (s\<lparr> h_files := (h_files s)(f := None) \<rparr>)
   }"

definition vams_file_put :: "ref \<Rightarrow> ('w, 'x) host \<Rightarrow> ('w, 'x) host option" where
  "vams_file_put f s = do {
     file \<leftarrow> h_files s f;
     if vf_refs file = 1 then vams_file_release_refs f s
     else Some (set_file f (file\<lparr> vf_refs := vf_refs file - 1 \<rparr>) s)
   }"

subsection \<open>References to requests\<close>

definition zero_request :: vams_request where
  "zero_request = \<lparr> rq_done = False, rq_refs = 0, rq_result = zero_completion, rq_owner = None,
     rq_source = None, rq_destination = None, rq_driver_status = RC_OK, rq_command_id = 0,
     rq_reset_generation = 0 \<rparr>"

text \<open>\<open>alloc\<close> is the result of \<open>kzalloc\<close>: a pointer to memory not in use, or null.\<close>

definition vams_request_alloc ::
    "ref option \<Rightarrow> ref option \<Rightarrow> ('w, 'x) host \<Rightarrow> (ref option \<times> ('w, 'x) host) option" where
  "vams_request_alloc alloc owner s =
     (case alloc of
        None \<Rightarrow> Some (None, s)
      | Some r \<Rightarrow> do {
          let s = set_request r (zero_request\<lparr> rq_refs := 1, rq_owner := owner \<rparr>) s;
          case owner of
            None \<Rightarrow> Some (Some r, s)
          | Some f \<Rightarrow> do {
              file \<leftarrow> h_files s f;
              Some (Some r, set_file f (file\<lparr> vf_refs := vf_refs file + 1 \<rparr>) s) } })"

definition vams_request_get :: "ref \<Rightarrow> ('w, 'x) host \<Rightarrow> ('w, 'x) host option" where
  "vams_request_get r s = do {
     request \<leftarrow> h_requests s r;
     Some (set_request r (request\<lparr> rq_refs := rq_refs request + 1 \<rparr>) s)
   }"

definition vams_request_put :: "exec_context \<Rightarrow> ref \<Rightarrow> ('w, 'x) host \<Rightarrow> ('w, 'x) host option" where
  "vams_request_put ctx r s = do {
     request \<leftarrow> h_requests s r;
     if rq_refs request = 1 then do {
       s \<leftarrow> vams_mapping_put ctx (rq_source request) s;
       s \<leftarrow> vams_mapping_put ctx (rq_destination request) s;
       s \<leftarrow> (case rq_owner request of None \<Rightarrow> Some s | Some f \<Rightarrow> vams_file_put f s);
       Some (s\<lparr> h_requests := (h_requests s)(r := None) \<rparr>)
     } else Some (set_request r (request\<lparr> rq_refs := rq_refs request - 1 \<rparr>) s)
   }"

text \<open>
  \<open>vams_request_sync_for_cpu\<close> and \<open>vams_request_sync_for_device\<close> reach the device through the owner
  and hand the buffers over; they change none of the objects.
\<close>

definition live_mapping :: "('w, 'x) host \<Rightarrow> ref option \<Rightarrow> bool" where
  "live_mapping s mp = (case mp of None \<Rightarrow> True | Some m \<Rightarrow> h_mappings s m \<noteq> None)"

definition vams_request_sync_for_cpu :: "ref \<Rightarrow> ('w, 'x) host \<Rightarrow> ('w, 'x) host option" where
  "vams_request_sync_for_cpu r s = do {
     request \<leftarrow> h_requests s r;
     if rq_source request = None \<and> rq_destination request = None then Some s
     else do {
       f \<leftarrow> rq_owner request;
       file \<leftarrow> h_files s f;
       dev \<leftarrow> h_dev s;
       c_assert (live_mapping s (rq_source request));
       c_assert (live_mapping s (rq_destination request));
       Some s
     }
   }"

definition vams_request_sync_for_device :: "ref \<Rightarrow> ('w, 'x) host \<Rightarrow> ('w, 'x) host option" where
  "vams_request_sync_for_device r s = vams_request_sync_for_cpu r s"

subsection \<open>Who holds what\<close>

text \<open>The references that tables and objects hold; \<open>tab\<close> reads an xarray as a partial map.\<close>

definition req_dev :: "('x \<Rightarrow> u32 \<Rightarrow> ref option) \<Rightarrow> ('w, 'x) host \<Rightarrow> ref \<Rightarrow> u32 set" where
  "req_dev tab s r = {i. \<exists>dev. h_dev s = Some dev \<and> tab (vd_requests dev) i = Some r}"

definition req_file :: "('x \<Rightarrow> u32 \<Rightarrow> ref option) \<Rightarrow> ('w, 'x) host \<Rightarrow> ref \<Rightarrow> (ref \<times> u32) set" where
  "req_file tab s r = {(f, i). \<exists>file. h_files s f = Some file \<and> tab (vf_requests file) i = Some r}"

definition map_file :: "('x \<Rightarrow> u32 \<Rightarrow> ref option) \<Rightarrow> ('w, 'x) host \<Rightarrow> ref \<Rightarrow> (ref \<times> u32) set" where
  "map_file tab s m = {(f, i). \<exists>file. h_files s f = Some file \<and> tab (vf_mappings file) i = Some m}"

definition map_source :: "('w, 'x) host \<Rightarrow> ref \<Rightarrow> ref set" where
  "map_source s m = {r. \<exists>q. h_requests s r = Some q \<and> rq_source q = Some m}"

definition map_destination :: "('w, 'x) host \<Rightarrow> ref \<Rightarrow> ref set" where
  "map_destination s m = {r. \<exists>q. h_requests s r = Some q \<and> rq_destination q = Some m}"

definition file_owned :: "('w, 'x) host \<Rightarrow> ref \<Rightarrow> ref set" where
  "file_owned s f = {r. \<exists>q. h_requests s r = Some q \<and> rq_owner q = Some f}"

text \<open>
  The references held by calls in progress, by open file descriptors, and by the binding of the
  driver to the device.
\<close>

record locals =
  lc_requests :: "ref \<Rightarrow> nat"
  lc_mappings :: "ref \<Rightarrow> nat"
  lc_files :: "ref \<Rightarrow> nat"
  lc_open :: "ref \<Rightarrow> bool"
  lc_probe :: nat

definition requests_ok :: "('x \<Rightarrow> u32 \<Rightarrow> ref option) \<Rightarrow> locals \<Rightarrow> ('w, 'x) host \<Rightarrow> bool" where
  "requests_ok tab L s \<longleftrightarrow> finite (dom (h_requests s)) \<and>
     (\<forall>r. h_requests s r = None \<longrightarrow>
        req_dev tab s r = {} \<and> req_file tab s r = {} \<and> lc_requests L r = 0) \<and>
     (\<forall>r q. h_requests s r = Some q \<longrightarrow>
        rq_refs q = card (req_dev tab s r) + card (req_file tab s r) + lc_requests L r \<and>
        0 < rq_refs q \<and>
        (rq_source q \<noteq> None \<or> rq_destination q \<noteq> None \<longrightarrow> rq_owner q \<noteq> None))"

definition mappings_ok :: "('x \<Rightarrow> u32 \<Rightarrow> ref option) \<Rightarrow> locals \<Rightarrow> ('w, 'x) host \<Rightarrow> bool" where
  "mappings_ok tab L s \<longleftrightarrow>
     (\<forall>m. h_mappings s m = None \<longrightarrow> map_file tab s m = {} \<and> map_source s m = {} \<and>
        map_destination s m = {} \<and> lc_mappings L m = 0) \<and>
     (\<forall>m mapping. h_mappings s m = Some mapping \<longrightarrow>
        mp_refs mapping = card (map_file tab s m) + card (map_source s m) +
          card (map_destination s m) + lc_mappings L m \<and> 0 < mp_refs mapping)"

definition files_ok :: "('x \<Rightarrow> u32 \<Rightarrow> ref option) \<Rightarrow> locals \<Rightarrow> ('w, 'x) host \<Rightarrow> bool" where
  "files_ok tab L s \<longleftrightarrow> finite (dom (h_files s)) \<and>
     (\<forall>f. h_files s f = None \<longrightarrow> file_owned s f = {} \<and> lc_files L f = 0 \<and> \<not> lc_open L f) \<and>
     (\<forall>f file. h_files s f = Some file \<longrightarrow>
        vf_refs file = of_bool (lc_open L f) + card (file_owned s f) + lc_files L f \<and>
        0 < vf_refs file \<and>
        (\<not> lc_open L f \<longrightarrow> tab (vf_mappings file) = Map.empty \<and> tab (vf_requests file) = Map.empty))"

definition device_ok :: "('x \<Rightarrow> u32 \<Rightarrow> ref option) \<Rightarrow> locals \<Rightarrow> ('w, 'x) host \<Rightarrow> bool" where
  "device_ok tab L s \<longleftrightarrow>
     (h_dev s = None \<longrightarrow> h_files s = Map.empty \<and> lc_probe L = 0) \<and>
     (\<forall>dev. h_dev s = Some dev \<longrightarrow>
        vd_refs dev = lc_probe L + card (dom (h_files s)) \<and> 0 < vd_refs dev \<and>
        (lc_probe L = 0 \<longrightarrow> tab (vd_requests dev) = Map.empty))"

text \<open>A table entry is filed under the command identifier of its request.\<close>

definition tables_ok :: "('x \<Rightarrow> u32 \<Rightarrow> ref option) \<Rightarrow> ('w, 'x) host \<Rightarrow> bool" where
  "tables_ok tab s \<longleftrightarrow>
     (\<forall>r i. i \<in> req_dev tab s r \<longrightarrow>
        (\<exists>q. h_requests s r = Some q \<and> rq_command_id q = i \<and> \<not> rq_done q)) \<and>
     (\<forall>r f i. (f, i) \<in> req_file tab s r \<longrightarrow>
        (\<exists>q. h_requests s r = Some q \<and> rq_command_id q = i \<and> rq_owner q = Some f))"

text \<open>The pages of the registered buffers, and no others, are pinned and mapped.\<close>

definition pages_ok :: "('w, 'x) host \<Rightarrow> bool" where
  "pages_ok s \<longleftrightarrow> finite (dom (h_mappings s)) \<and>
     h_pinned s = (\<Sum>m \<in> dom (h_mappings s). unat (mp_npages (the (h_mappings s m)))) \<and>
     h_dma_maps s = card (dom (h_mappings s))"

definition hinv :: "('x \<Rightarrow> u32 \<Rightarrow> ref option) \<Rightarrow> locals \<Rightarrow> ('w, 'x) host \<Rightarrow> bool" where
  "hinv tab L s \<longleftrightarrow> requests_ok tab L s \<and> mappings_ok tab L s \<and> files_ok tab L s \<and>
     device_ok tab L s \<and> tables_ok tab s \<and> pages_ok s"

lemmas holder_defs = req_dev_def req_file_def map_file_def map_source_def map_destination_def file_owned_def

text \<open>Reading the invariant off for one object.\<close>

lemma requests_okD:
  assumes "hinv tab L s" "h_requests s r = Some q"
  shows "rq_refs q = card (req_dev tab s r) + card (req_file tab s r) + lc_requests L r" "0 < rq_refs q"
    "rq_source q \<noteq> None \<or> rq_destination q \<noteq> None \<Longrightarrow> rq_owner q \<noteq> None"
  using assms unfolding hinv_def requests_ok_def by blast+

lemma request_dead:
  assumes "hinv tab L s" "h_requests s r = None"
  shows "req_dev tab s r = {}" "req_file tab s r = {}" "lc_requests L r = 0"
  using assms unfolding hinv_def requests_ok_def by blast+

lemma request_live:
  assumes "hinv tab L s" "0 < lc_requests L r \<or> req_dev tab s r \<noteq> {} \<or> req_file tab s r \<noteq> {}"
  obtains q where "h_requests s r = Some q"
  using assms request_dead [OF assms(1)] by (cases "h_requests s r") auto

lemma mappings_okD:
  assumes "hinv tab L s" "h_mappings s m = Some mapping"
  shows "mp_refs mapping = card (map_file tab s m) + card (map_source s m) +
      card (map_destination s m) + lc_mappings L m" "0 < mp_refs mapping"
  using assms unfolding hinv_def mappings_ok_def by blast+

lemma mapping_dead:
  assumes "hinv tab L s" "h_mappings s m = None"
  shows "map_file tab s m = {}" "map_source s m = {}" "map_destination s m = {}" "lc_mappings L m = 0"
  using assms unfolding hinv_def mappings_ok_def by blast+

lemma mapping_live:
  assumes "hinv tab L s" "0 < lc_mappings L m \<or> map_file tab s m \<noteq> {} \<or> map_source s m \<noteq> {} \<or>
    map_destination s m \<noteq> {}"
  obtains mapping where "h_mappings s m = Some mapping"
  using assms mapping_dead [OF assms(1)] by (cases "h_mappings s m") auto

lemma files_okD:
  assumes "hinv tab L s" "h_files s f = Some file"
  shows "vf_refs file = of_bool (lc_open L f) + card (file_owned s f) + lc_files L f"
    "0 < vf_refs file"
    "\<not> lc_open L f \<Longrightarrow> tab (vf_mappings file) = Map.empty \<and> tab (vf_requests file) = Map.empty"
  using assms unfolding hinv_def files_ok_def by blast+

lemma file_dead:
  assumes "hinv tab L s" "h_files s f = None"
  shows "file_owned s f = {}" "lc_files L f = 0" "\<not> lc_open L f"
  using assms unfolding hinv_def files_ok_def by blast+

lemma file_live:
  assumes "hinv tab L s" "0 < lc_files L f \<or> lc_open L f \<or> file_owned s f \<noteq> {}"
  obtains fl where "h_files s f = Some fl"
  using assms file_dead [OF assms(1)] by (cases "h_files s f") auto

lemma device_okD:
  assumes "hinv tab L s" "h_dev s = Some dev"
  shows "vd_refs dev = lc_probe L + card (dom (h_files s))" "0 < vd_refs dev"
    "lc_probe L = 0 \<Longrightarrow> tab (vd_requests dev) = Map.empty"
  using assms unfolding hinv_def device_ok_def by blast+

lemma device_live:
  assumes "hinv tab L s" "h_files s f = Some file \<or> 0 < lc_probe L"
  obtains dev where "h_dev s = Some dev"
  using assms by (cases "h_dev s") (auto simp: hinv_def device_ok_def)

lemma holders_finite:
  assumes "hinv tab L s"
  shows "finite (map_source s m)" "finite (map_destination s m)" "finite (file_owned s f)"
    "finite (dom (h_requests s))" "finite (dom (h_files s))"
proof -
  show fin: "finite (dom (h_requests s))" "finite (dom (h_files s))"
    using assms by (simp_all add: hinv_def requests_ok_def files_ok_def)
  have "map_source s m \<subseteq> dom (h_requests s)" "map_destination s m \<subseteq> dom (h_requests s)"
    "file_owned s f \<subseteq> dom (h_requests s)" by (auto simp: holder_defs)
  with fin(1) show "finite (map_source s m)" "finite (map_destination s m)" "finite (file_owned s f)"
    using finite_subset by blast+
qed

end
