(* ===== verification/Vams_Pci_Refs.thy ===== *)
theory Vams_Pci_Refs
  imports Vams_Pci_Objects
begin

text \<open>
  The reference primitives of the host driver keep the invariant. A local reference of a call is
  added to \<open>locals\<close> by \<open>add_request\<close>, \<open>add_mapping\<close> and \<open>add_file\<close>; each put consumes one and cannot
  fault, each get needs an object that is alive and adds one. \<open>shrinks\<close> says what a put can do to the
  objects: lower their counts and free them, nothing else.
\<close>

subsection \<open>Local references\<close>

definition add_request :: "ref \<Rightarrow> locals \<Rightarrow> locals" where
  "add_request r L = L\<lparr> lc_requests := (\<lambda>i. lc_requests L i + of_bool (i = r)) \<rparr>"

definition add_mapping :: "ref option \<Rightarrow> locals \<Rightarrow> locals" where
  "add_mapping mp L = L\<lparr> lc_mappings := (\<lambda>i. lc_mappings L i + of_bool (mp = Some i)) \<rparr>"

definition add_file :: "ref option \<Rightarrow> locals \<Rightarrow> locals" where
  "add_file fp L = L\<lparr> lc_files := (\<lambda>i. lc_files L i + of_bool (fp = Some i)) \<rparr>"

lemma add_request_simps [simp]:
  "lc_requests (add_request r L) i = lc_requests L i + of_bool (i = r)"
  "lc_mappings (add_request r L) = lc_mappings L" "lc_files (add_request r L) = lc_files L"
  "lc_probe (add_request r L) = lc_probe L" "lc_open (add_request r L) = lc_open L"
  by (simp_all add: add_request_def)

lemma add_mapping_simps [simp]:
  "lc_mappings (add_mapping mp L) i = lc_mappings L i + of_bool (mp = Some i)"
  "lc_requests (add_mapping mp L) = lc_requests L" "lc_files (add_mapping mp L) = lc_files L"
  "lc_probe (add_mapping mp L) = lc_probe L" "lc_open (add_mapping mp L) = lc_open L" "add_mapping None L = L"
  by (simp_all add: add_mapping_def)

lemma add_file_simps [simp]:
  "lc_files (add_file fp L) i = lc_files L i + of_bool (fp = Some i)"
  "lc_requests (add_file fp L) = lc_requests L" "lc_mappings (add_file fp L) = lc_mappings L"
  "lc_probe (add_file fp L) = lc_probe L" "lc_open (add_file fp L) = lc_open L" "add_file None L = L"
  by (simp_all add: add_file_def)

subsection \<open>What a put leaves alone\<close>

definition shrinks :: "('w, 'x) host \<Rightarrow> ('w, 'x) host \<Rightarrow> bool" where
  "shrinks s s' \<longleftrightarrow> h_w s' = h_w s \<and>
     h_res s' = (if h_dev s' = h_dev s \<or> h_dev s' \<noteq> None then h_res s
       else h_res s - {R_instance, R_misc_name, R_pdev}) \<and>
     (\<forall>dev'. h_dev s' = Some dev' \<longrightarrow>
        (\<exists>dev. h_dev s = Some dev \<and> dev'\<lparr> vd_refs := 0 \<rparr> = dev\<lparr> vd_refs := 0 \<rparr>)) \<and>
     (\<forall>r q'. h_requests s' r = Some q' \<longrightarrow>
        (\<exists>q. h_requests s r = Some q \<and> q'\<lparr> rq_refs := 0 \<rparr> = q\<lparr> rq_refs := 0 \<rparr>)) \<and>
     (\<forall>m mapping'. h_mappings s' m = Some mapping' \<longrightarrow>
        (\<exists>mapping. h_mappings s m = Some mapping \<and> mapping'\<lparr> mp_refs := 0 \<rparr> = mapping\<lparr> mp_refs := 0 \<rparr>)) \<and>
     (\<forall>f file'. h_files s' f = Some file' \<longrightarrow>
        (\<exists>file. h_files s f = Some file \<and> file'\<lparr> vf_refs := 0 \<rparr> = file\<lparr> vf_refs := 0 \<rparr>))"

lemma shrinks_refl [simp]: "shrinks s s"
  by (simp add: shrinks_def)

lemma shrinks_trans [trans]:
  assumes "shrinks s t" "shrinks t u"
  shows "shrinks s u"
proof -
  have "h_dev u \<noteq> None \<Longrightarrow> h_dev t \<noteq> None" "h_dev t \<noteq> None \<Longrightarrow> h_dev s \<noteq> None"
    using assms unfolding shrinks_def by auto
  then have "h_res u = (if h_dev u = h_dev s \<or> h_dev u \<noteq> None then h_res s
      else h_res s - {R_instance, R_misc_name, R_pdev})"
    using assms unfolding shrinks_def by (cases "h_dev u"; cases "h_dev t"; cases "h_dev s") simp_all
  then show ?thesis using assms unfolding shrinks_def by (elim conjE, intro conjI) (simp, assumption, metis+)
qed

lemma vd_core:
  assumes "dev'\<lparr> vd_refs := 0 \<rparr> = dev\<lparr> vd_refs := 0 \<rparr>"
  obtains n where "dev' = dev\<lparr> vd_refs := n \<rparr>"
proof -
  have "dev' = (dev'\<lparr> vd_refs := 0 \<rparr>)\<lparr> vd_refs := vd_refs dev' \<rparr>" by simp
  then show ?thesis using that assms by simp
qed

lemma rq_core:
  assumes "q'\<lparr> rq_refs := 0 \<rparr> = q\<lparr> rq_refs := 0 \<rparr>"
  obtains n where "q' = q\<lparr> rq_refs := n \<rparr>"
proof -
  have "q' = (q'\<lparr> rq_refs := 0 \<rparr>)\<lparr> rq_refs := rq_refs q' \<rparr>" by simp
  then show ?thesis using that assms by simp
qed

lemma mp_core:
  assumes "mapping'\<lparr> mp_refs := 0 \<rparr> = mapping\<lparr> mp_refs := 0 \<rparr>"
  obtains n where "mapping' = mapping\<lparr> mp_refs := n \<rparr>"
proof -
  have "mapping' = (mapping'\<lparr> mp_refs := 0 \<rparr>)\<lparr> mp_refs := mp_refs mapping' \<rparr>" by simp
  then show ?thesis using that assms by simp
qed

lemma vf_core:
  assumes "fl'\<lparr> vf_refs := 0 \<rparr> = fl\<lparr> vf_refs := 0 \<rparr>"
  obtains n where "fl' = fl\<lparr> vf_refs := n \<rparr>"
proof -
  have "fl' = (fl'\<lparr> vf_refs := 0 \<rparr>)\<lparr> vf_refs := vf_refs fl' \<rparr>" by simp
  then show ?thesis using that assms by simp
qed

lemma shrinksD:
  assumes "shrinks s s'"
  shows "h_dev s' = Some dev' \<Longrightarrow> \<exists>dev n. h_dev s = Some dev \<and> dev' = dev\<lparr> vd_refs := n \<rparr>"
    "h_requests s' r = Some q' \<Longrightarrow> \<exists>q n. h_requests s r = Some q \<and> q' = q\<lparr> rq_refs := n \<rparr>"
    "h_mappings s' m = Some mapping' \<Longrightarrow>
      \<exists>mapping n. h_mappings s m = Some mapping \<and> mapping' = mapping\<lparr> mp_refs := n \<rparr>"
    "h_files s' f = Some fl' \<Longrightarrow> \<exists>fl n. h_files s f = Some fl \<and> fl' = fl\<lparr> vf_refs := n \<rparr>"
    "h_dev s' \<noteq> None \<Longrightarrow> h_res s' = h_res s"
    "h_w s' = h_w s"
proof -
  show "\<exists>dev n. h_dev s = Some dev \<and> dev' = dev\<lparr> vd_refs := n \<rparr>" if "h_dev s' = Some dev'"
    using assms that vd_core unfolding shrinks_def by metis
  show "\<exists>q n. h_requests s r = Some q \<and> q' = q\<lparr> rq_refs := n \<rparr>" if "h_requests s' r = Some q'"
    using assms that rq_core unfolding shrinks_def by metis
  show "\<exists>mapping n. h_mappings s m = Some mapping \<and> mapping' = mapping\<lparr> mp_refs := n \<rparr>"
    if "h_mappings s' m = Some mapping'"
    using assms that mp_core unfolding shrinks_def by metis
  show "\<exists>fl n. h_files s f = Some fl \<and> fl' = fl\<lparr> vf_refs := n \<rparr>" if "h_files s' f = Some fl'"
    using assms that vf_core unfolding shrinks_def by metis
qed (use assms in \<open>auto simp: shrinks_def\<close>)

subsection \<open>Holders under updates\<close>

lemma holders_mappings [simp]:
  "req_dev tab (s\<lparr>h_mappings := M\<rparr>) = req_dev tab s" "req_file tab (s\<lparr>h_mappings := M\<rparr>) = req_file tab s"
  "map_file tab (s\<lparr>h_mappings := M\<rparr>) = map_file tab s" "map_source (s\<lparr>h_mappings := M\<rparr>) = map_source s"
  "map_destination (s\<lparr>h_mappings := M\<rparr>) = map_destination s" "file_owned (s\<lparr>h_mappings := M\<rparr>) = file_owned s"
  by (simp_all add: holder_defs fun_eq_iff)

lemma holders_pages [simp]:
  "req_dev tab (s\<lparr>h_pinned := p, h_dma_maps := d, h_unpinned := u\<rparr>) = req_dev tab s"
  "req_file tab (s\<lparr>h_pinned := p, h_dma_maps := d, h_unpinned := u\<rparr>) = req_file tab s"
  "map_file tab (s\<lparr>h_pinned := p, h_dma_maps := d, h_unpinned := u\<rparr>) = map_file tab s"
  "map_source (s\<lparr>h_pinned := p, h_dma_maps := d, h_unpinned := u\<rparr>) = map_source s"
  "map_destination (s\<lparr>h_pinned := p, h_dma_maps := d, h_unpinned := u\<rparr>) = map_destination s"
  "file_owned (s\<lparr>h_pinned := p, h_dma_maps := d, h_unpinned := u\<rparr>) = file_owned s"
  by (simp_all add: holder_defs fun_eq_iff)

lemma holders_requests [simp]:
  "req_dev tab (s\<lparr>h_requests := R\<rparr>) = req_dev tab s" "req_file tab (s\<lparr>h_requests := R\<rparr>) = req_file tab s"
  "map_file tab (s\<lparr>h_requests := R\<rparr>) = map_file tab s"
  by (simp_all add: holder_defs fun_eq_iff)

lemma holders_dev [simp]:
  "req_file tab (s\<lparr>h_dev := D\<rparr>) = req_file tab s" "map_file tab (s\<lparr>h_dev := D\<rparr>) = map_file tab s"
  "map_source (s\<lparr>h_dev := D\<rparr>) = map_source s" "map_destination (s\<lparr>h_dev := D\<rparr>) = map_destination s"
  "file_owned (s\<lparr>h_dev := D\<rparr>) = file_owned s"
  by (simp_all add: holder_defs fun_eq_iff)

lemma holders_files [simp]:
  "req_dev tab (s\<lparr>h_files := F\<rparr>) = req_dev tab s" "map_source (s\<lparr>h_files := F\<rparr>) = map_source s"
  "map_destination (s\<lparr>h_files := F\<rparr>) = map_destination s" "file_owned (s\<lparr>h_files := F\<rparr>) = file_owned s"
  by (simp_all add: holder_defs fun_eq_iff)

lemma holders_world [simp]:
  "req_dev tab (s\<lparr>h_w := w\<rparr>) = req_dev tab s" "req_file tab (s\<lparr>h_w := w\<rparr>) = req_file tab s"
  "map_file tab (s\<lparr>h_w := w\<rparr>) = map_file tab s" "map_source (s\<lparr>h_w := w\<rparr>) = map_source s"
  "map_destination (s\<lparr>h_w := w\<rparr>) = map_destination s" "file_owned (s\<lparr>h_w := w\<rparr>) = file_owned s"
  by (simp_all add: holder_defs fun_eq_iff)

lemma holders_res [simp]:
  "req_dev tab (s\<lparr>h_res := w\<rparr>) = req_dev tab s" "req_file tab (s\<lparr>h_res := w\<rparr>) = req_file tab s"
  "map_file tab (s\<lparr>h_res := w\<rparr>) = map_file tab s" "map_source (s\<lparr>h_res := w\<rparr>) = map_source s"
  "map_destination (s\<lparr>h_res := w\<rparr>) = map_destination s" "file_owned (s\<lparr>h_res := w\<rparr>) = file_owned s"
  by (simp_all add: holder_defs fun_eq_iff)

lemma hinv_res [simp]: "hinv tab L (s\<lparr>h_res := w\<rparr>) = hinv tab L s"
  by (simp add: hinv_def requests_ok_def mappings_ok_def files_ok_def device_ok_def tables_ok_def pages_ok_def)

lemma hinv_world [simp]: "hinv tab L (s\<lparr>h_w := w\<rparr>) = hinv tab L s"
  by (simp add: hinv_def requests_ok_def mappings_ok_def files_ok_def device_ok_def tables_ok_def pages_ok_def)

subsection \<open>The parts of the invariant\<close>

lemma requests_ok_same:
  assumes "requests_ok tab L s" "h_requests s' = h_requests s" "req_dev tab s' = req_dev tab s" "req_file tab s' = req_file tab s"
    "lc_requests L' = lc_requests L"
  shows "requests_ok tab L' s'"
  using assms(1) unfolding requests_ok_def assms(2-) .

lemma mappings_ok_same:
  assumes "mappings_ok tab L s" "h_mappings s' = h_mappings s" "map_file tab s' = map_file tab s" "map_source s' = map_source s"
    "map_destination s' = map_destination s" "lc_mappings L' = lc_mappings L"
  shows "mappings_ok tab L' s'"
  using assms(1) unfolding mappings_ok_def assms(2-) .

lemma files_ok_same:
  assumes "files_ok tab L s" "h_files s' = h_files s" "file_owned s' = file_owned s" "lc_files L' = lc_files L"
    "lc_open L' = lc_open L"
  shows "files_ok tab L' s'"
  using assms(1) unfolding files_ok_def assms(2-) .

lemma device_ok_same:
  assumes "device_ok tab L s" "h_files s' = h_files s" "h_dev s' = h_dev s" "lc_probe L' = lc_probe L"
  shows "device_ok tab L' s'"
  using assms(1) unfolding device_ok_def assms(2-) .

lemma tables_ok_same:
  assumes "tables_ok tab s" "h_requests s' = h_requests s" "req_dev tab s' = req_dev tab s" "req_file tab s' = req_file tab s"
  shows "tables_ok tab s'"
  using assms(1) unfolding tables_ok_def assms(2-) .

lemma pages_ok_same:
  assumes "pages_ok s" "h_mappings s' = h_mappings s" "h_pinned s' = h_pinned s" "h_dma_maps s' = h_dma_maps s"
  shows "pages_ok s'"
  using assms(1) unfolding pages_ok_def assms(2-) .

lemma requests_okI:
  assumes "finite (dom (h_requests s))"
    "\<And>r. h_requests s r = None \<Longrightarrow> req_dev tab s r = {} \<and> req_file tab s r = {} \<and> lc_requests L r = 0"
    "\<And>r q. h_requests s r = Some q \<Longrightarrow>
      rq_refs q = card (req_dev tab s r) + card (req_file tab s r) + lc_requests L r \<and> 0 < rq_refs q \<and>
      (rq_source q \<noteq> None \<or> rq_destination q \<noteq> None \<longrightarrow> rq_owner q \<noteq> None)"
  shows "requests_ok tab L s"
  using assms unfolding requests_ok_def by blast

lemma mappings_okI:
  assumes "\<And>m. h_mappings s m = None \<Longrightarrow> map_file tab s m = {} \<and> map_source s m = {} \<and>
      map_destination s m = {} \<and> lc_mappings L m = 0"
    "\<And>m mapping. h_mappings s m = Some mapping \<Longrightarrow>
      mp_refs mapping = card (map_file tab s m) + card (map_source s m) +
        card (map_destination s m) + lc_mappings L m \<and> 0 < mp_refs mapping"
  shows "mappings_ok tab L s"
  using assms unfolding mappings_ok_def by blast

lemma files_okI:
  assumes "finite (dom (h_files s))"
    "\<And>f. h_files s f = None \<Longrightarrow> file_owned s f = {} \<and> lc_files L f = 0 \<and> \<not> lc_open L f"
    "\<And>f fl. h_files s f = Some fl \<Longrightarrow>
      vf_refs fl = of_bool (lc_open L f) + card (file_owned s f) + lc_files L f \<and> 0 < vf_refs fl \<and>
      (\<not> lc_open L f \<longrightarrow> tab (vf_mappings fl) = Map.empty \<and> tab (vf_requests fl) = Map.empty)"
  shows "files_ok tab L s"
  using assms unfolding files_ok_def by blast

lemma hinv_parts:
  assumes "hinv tab L s"
  shows "requests_ok tab L s" "mappings_ok tab L s" "files_ok tab L s" "device_ok tab L s"
    "tables_ok tab s" "pages_ok s"
  using assms by (simp_all add: hinv_def)

lemma hinvI:
  assumes "requests_ok tab L s" "mappings_ok tab L s" "files_ok tab L s" "device_ok tab L s"
    "tables_ok tab s" "pages_ok s"
  shows "hinv tab L s"
  using assms by (simp add: hinv_def)

subsection \<open>Buffers\<close>

lemma pages_without:
  assumes "pages_ok s" "h_mappings s m = Some mapping"
  shows "pages_ok (s\<lparr> h_mappings := (h_mappings s)(m := None),
    h_pinned := h_pinned s - unat (mp_npages mapping), h_dma_maps := h_dma_maps s - 1, h_unpinned := u \<rparr>)"
proof -
  let ?D = "dom (h_mappings s)"
  have fin: "finite ?D" and m: "m \<in> ?D" using assms by (auto simp: pages_ok_def)
  have "(\<Sum>i \<in> ?D - {m}. unat (mp_npages (the (((h_mappings s)(m := None)) i)))) =
      (\<Sum>i \<in> ?D - {m}. unat (mp_npages (the (h_mappings s i))))"
    by (intro sum.cong) auto
  moreover have "(\<Sum>i \<in> ?D. unat (mp_npages (the (h_mappings s i)))) =
      unat (mp_npages mapping) + (\<Sum>i \<in> ?D - {m}. unat (mp_npages (the (h_mappings s i))))"
    using sum.remove [OF fin m, of "\<lambda>i. unat (mp_npages (the (h_mappings s i)))"] assms(2) by simp
  ultimately show ?thesis using assms(1) fin m by (simp add: pages_ok_def)
qed

lemma pages_ok_dom:
  assumes "pages_ok s" "h_mappings s m = Some mapping"
  shows "pages_ok (s\<lparr> h_mappings := (h_mappings s)(m \<mapsto> mapping\<lparr> mp_refs := n \<rparr>) \<rparr>)"
proof -
  have "insert m (dom (h_mappings s)) = dom (h_mappings s)" using assms(2) by auto
  moreover have "unat (mp_npages (the (((h_mappings s)(m \<mapsto> mapping\<lparr> mp_refs := n \<rparr>)) i))) =
      unat (mp_npages (the (h_mappings s i)))" for i using assms(2) by simp
  ultimately show ?thesis using assms(1) by (simp add: pages_ok_def del: fun_upd_apply)
qed

context xarray_laws
begin

lemma table_holders_finite:
  assumes "hinv tab L s"
  shows "finite (map_file tab s m)" "finite (req_file tab s r)" "finite (req_dev tab s r)"
proof -
  let ?S = "Sigma (dom (h_files s)) (\<lambda>f. dom (tab (vf_mappings (the (h_files s f)))) \<union>
    dom (tab (vf_requests (the (h_files s f)))))"
  have "finite ?S" using holders_finite(5) [OF assms] finite_tab by auto
  moreover have "map_file tab s m \<subseteq> ?S" "req_file tab s r \<subseteq> ?S" by (force simp: holder_defs)+
  ultimately show "finite (map_file tab s m)" "finite (req_file tab s r)" using finite_subset by blast+
  have "req_dev tab s r \<subseteq> (case h_dev s of None \<Rightarrow> {} | Some dev \<Rightarrow> dom (tab (vd_requests dev)))"
    by (auto simp: holder_defs split: option.split)
  moreover have "finite (case h_dev s of None \<Rightarrow> {} | Some dev \<Rightarrow> dom (tab (vd_requests dev)))"
    using finite_tab by (simp split: option.split)
  ultimately show "finite (req_dev tab s r)" by (rule finite_subset)
qed

lemma last_mapping_reference:
  assumes inv: "hinv tab (add_mapping (Some m) L) s" and "h_mappings s m = Some mapping" "mp_refs mapping = 1"
  shows "map_file tab s m = {}" "map_source s m = {}" "map_destination s m = {}" "lc_mappings L m = 0"
  using mappings_okD(1) [OF inv assms(2)] assms(3) holders_finite [OF inv] table_holders_finite [OF inv]
  by simp_all

lemma mapping_put_ok:
  assumes inv: "hinv tab (add_mapping mp L) s" and dev: "mp = None \<or> h_dev s \<noteq> None"
  obtains s' where "vams_mapping_put ctx mp s = Some s'" "hinv tab L s'" "shrinks s s'"
    "h_requests s' = h_requests s" "h_files s' = h_files s" "h_dev s' = h_dev s"
proof (cases mp)
  case None
  then show ?thesis using that [of s] inv by (simp add: vams_mapping_put_def)
next
  case (Some m)
  have inv': "hinv tab (add_mapping (Some m) L) s" using inv Some by simp
  obtain mapping where m: "h_mappings s m = Some mapping"
    by (rule mapping_live [OF inv', where m = m]) simp_all
  obtain d where d: "h_dev s = Some d" using dev Some by auto
  show ?thesis
  proof (cases "mp_refs mapping = 1")
    case True
    let ?s = "s\<lparr> h_mappings := (h_mappings s)(m := None),
      h_pinned := h_pinned s - unat (mp_npages mapping), h_dma_maps := h_dma_maps s - 1,
      h_unpinned := h_unpinned s @ [(m, mp_flags mapping AND VAMS_BUFFER_WRITE \<noteq> 0, ctx)] \<rparr>"
    have inv_new: "hinv tab L ?s"
    proof (rule hinvI)
      show "mappings_ok tab L ?s"
      proof (rule mappings_okI)
        fix i assume "h_mappings ?s i = None"
        then show "map_file tab ?s i = {} \<and> map_source ?s i = {} \<and> map_destination ?s i = {} \<and> lc_mappings L i = 0"
          using last_mapping_reference [OF inv' m True] mapping_dead [OF inv', of i] by (cases "i = m") simp_all
      next
        fix i v assume "h_mappings ?s i = Some v"
        then show "mp_refs v = card (map_file tab ?s i) + card (map_source ?s i) + card (map_destination ?s i) +
            lc_mappings L i \<and> 0 < mp_refs v"
          using mappings_okD [OF inv', of i v] by (cases "i = m") auto
      qed
      show "pages_ok ?s" by (rule pages_without) (use hinv_parts [OF inv'] m in simp_all)
      show "requests_ok tab L ?s" by (rule requests_ok_same [OF hinv_parts(1) [OF inv']]) simp_all
      show "files_ok tab L ?s" by (rule files_ok_same [OF hinv_parts(3) [OF inv']]) simp_all
      show "device_ok tab L ?s" by (rule device_ok_same [OF hinv_parts(4) [OF inv']]) simp_all
      show "tables_ok tab ?s" by (rule tables_ok_same [OF hinv_parts(5) [OF inv']]) simp_all
    qed
    have "shrinks s ?s" by (simp add: shrinks_def)
    with inv_new show ?thesis
      by (intro that [of ?s]) (simp_all add: Some vams_mapping_put_def vams_mapping_release_def m d True)
  next
    case False
    let ?s = "set_mapping m (mapping\<lparr> mp_refs := mp_refs mapping - 1 \<rparr>) s"
    have "hinv tab L ?s"
    proof (rule hinvI)
      show "mappings_ok tab L ?s"
      proof (rule mappings_okI)
        fix i assume "h_mappings ?s i = None"
        then show "map_file tab ?s i = {} \<and> map_source ?s i = {} \<and> map_destination ?s i = {} \<and> lc_mappings L i = 0"
          using mapping_dead [OF inv', of i] by (cases "i = m") (simp_all add: set_mapping_def)
      next
        fix i v assume "h_mappings ?s i = Some v"
        then show "mp_refs v = card (map_file tab ?s i) + card (map_source ?s i) + card (map_destination ?s i) +
            lc_mappings L i \<and> 0 < mp_refs v"
          using mappings_okD [OF inv', of i] m False by (cases "i = m") (auto simp: set_mapping_def)
      qed
      show "pages_ok ?s" unfolding set_mapping_def by (rule pages_ok_dom) (use hinv_parts [OF inv'] m in simp_all)
      show "requests_ok tab L ?s" by (rule requests_ok_same [OF hinv_parts(1) [OF inv']]) (simp_all add: set_mapping_def)
      show "files_ok tab L ?s" by (rule files_ok_same [OF hinv_parts(3) [OF inv']]) (simp_all add: set_mapping_def)
      show "device_ok tab L ?s" by (rule device_ok_same [OF hinv_parts(4) [OF inv']]) (simp_all add: set_mapping_def)
      show "tables_ok tab ?s" by (rule tables_ok_same [OF hinv_parts(5) [OF inv']]) (simp_all add: set_mapping_def)
    qed
    moreover have "shrinks s ?s"
      by (simp add: shrinks_def set_mapping_def m)
    ultimately show ?thesis
      by (intro that [of ?s]) (use False in \<open>simp_all add: Some vams_mapping_put_def m set_mapping_def\<close>)
  qed
qed

end

subsection \<open>Files and the device\<close>

text \<open>Changing a file.\<close>

lemma set_file_hinv:
  assumes inv: "hinv tab L0 s" and f: "h_files s f = Some fl"
    and refs: "vf_refs fl' = of_bool (lc_open L f) + card (file_owned s f) + lc_files L f" "0 < vf_refs fl'"
    and closing: "\<not> lc_open L f \<Longrightarrow> tab (vf_mappings fl') = Map.empty \<and> tab (vf_requests fl') = Map.empty"
    and lc: "lc_probe L = lc_probe L0" "\<And>i. i \<noteq> f \<Longrightarrow> lc_files L i = lc_files L0 i"
      "\<And>i. i \<noteq> f \<Longrightarrow> lc_open L i = lc_open L0 i"
    and rcount: "\<And>r. card (req_file tab (set_file f fl' s) r) + lc_requests L r =
      card (req_file tab s r) + lc_requests L0 r"
    and mcount: "\<And>m. card (map_file tab (set_file f fl' s) m) + lc_mappings L m =
      card (map_file tab s m) + lc_mappings L0 m"
    and dead: "\<And>r. h_requests s r = None \<Longrightarrow> lc_requests L r = 0"
      "\<And>m. h_mappings s m = None \<Longrightarrow> lc_mappings L m = 0"
    and rentries: "\<And>i r. tab (vf_requests fl') i = Some r \<Longrightarrow>
      \<exists>q. h_requests s r = Some q \<and> rq_command_id q = i \<and> rq_owner q = Some f"
    and mentries: "\<And>i m. tab (vf_mappings fl') i = Some m \<Longrightarrow> h_mappings s m \<noteq> None"
  shows "hinv tab L (set_file f fl' s)"
proof -
  let ?s = "set_file f fl' s"
  have same: "req_dev tab ?s = req_dev tab s" "map_source ?s = map_source s"
    "map_destination ?s = map_destination s" "file_owned ?s = file_owned s" by (simp_all add: set_file_def)
  have members: "(g, i) \<in> req_file tab ?s r \<longleftrightarrow>
      (if g = f then tab (vf_requests fl') i = Some r else (g, i) \<in> req_file tab s r)"
    "(g, i) \<in> map_file tab ?s r \<longleftrightarrow>
      (if g = f then tab (vf_mappings fl') i = Some r else (g, i) \<in> map_file tab s r)" for g i r
    by (simp_all add: req_file_def map_file_def set_file_def)
  have dom: "dom (h_files ?s) = dom (h_files s)" using f by (auto simp: set_file_def)
  show ?thesis
  proof (rule hinvI)
    show "requests_ok tab L ?s"
    proof (rule requests_okI)
      show "finite (dom (h_requests ?s))" using holders_finite(4) [OF inv] by (simp add: set_file_def)
    next
      fix r assume "h_requests ?s r = None"
      then have r: "h_requests s r = None" by (simp add: set_file_def)
      have "x \<notin> req_file tab ?s r" for x
        using rentries [of "snd x" r] request_dead [OF inv r] r members(1) [of "fst x" "snd x" r]
        by (auto split: if_splits)
      then show "req_dev tab ?s r = {} \<and> req_file tab ?s r = {} \<and> lc_requests L r = 0"
        using request_dead [OF inv r] dead(1) [OF r] same by auto
    next
      fix r q assume "h_requests ?s r = Some q"
      then have q: "h_requests s r = Some q" by (simp add: set_file_def)
      show "rq_refs q = card (req_dev tab ?s r) + card (req_file tab ?s r) + lc_requests L r \<and> 0 < rq_refs q \<and>
          (rq_source q \<noteq> None \<or> rq_destination q \<noteq> None \<longrightarrow> rq_owner q \<noteq> None)"
        using requests_okD [OF inv q] rcount [of r] unfolding same by auto
    qed
    show "mappings_ok tab L ?s"
    proof (rule mappings_okI)
      fix m assume "h_mappings ?s m = None"
      then have m: "h_mappings s m = None" by (simp add: set_file_def)
      have "x \<notin> map_file tab ?s m" for x
        using mentries [of "snd x" m] mapping_dead [OF inv m] m members(2) [of "fst x" "snd x" m]
        by (auto split: if_splits)
      then show "map_file tab ?s m = {} \<and> map_source ?s m = {} \<and> map_destination ?s m = {} \<and> lc_mappings L m = 0"
        using mapping_dead [OF inv m] dead(2) [OF m] same by auto
    next
      fix m v assume "h_mappings ?s m = Some v"
      then have v: "h_mappings s m = Some v" by (simp add: set_file_def)
      show "mp_refs v = card (map_file tab ?s m) + card (map_source ?s m) + card (map_destination ?s m) +
          lc_mappings L m \<and> 0 < mp_refs v"
        using mappings_okD [OF inv v] mcount [of m] unfolding same by auto
    qed
    show "files_ok tab L ?s"
    proof (rule files_okI)
      show "finite (dom (h_files ?s))" using holders_finite(5) [OF inv] dom by simp
    next
      fix i assume "h_files ?s i = None"
      then show "file_owned ?s i = {} \<and> lc_files L i = 0 \<and> \<not> lc_open L i"
        using file_dead [OF inv, of i] lc(2,3) [of i] by (cases "i = f") (auto simp: set_file_def)
    next
      fix i v assume v: "h_files ?s i = Some v"
      show "vf_refs v = of_bool (lc_open L i) + card (file_owned ?s i) + lc_files L i \<and> 0 < vf_refs v \<and>
        (\<not> lc_open L i \<longrightarrow> tab (vf_mappings v) = Map.empty \<and> tab (vf_requests v) = Map.empty)"
        using v refs closing files_okD [OF inv, of i v] lc(2,3) [of i] by (cases "i = f") (auto simp: set_file_def)
    qed
    show "device_ok tab L ?s"
      using hinv_parts(4) [OF inv] dom lc f by (auto simp: device_ok_def set_file_def insert_absorb domI)
    show "tables_ok tab ?s"
      using hinv_parts(5) [OF inv] rentries unfolding tables_ok_def same members
      by (simp add: set_file_def)
    show "pages_ok ?s" by (rule pages_ok_same [OF hinv_parts(6) [OF inv]]) (simp_all add: set_file_def)
  qed
qed

lemma file_entry:
  assumes "hinv tab L s" "h_files s f = Some fl" "tab (vf_requests fl) i = Some r"
  obtains q where "h_requests s r = Some q" "rq_command_id q = i" "rq_owner q = Some f"
proof -
  have "(f, i) \<in> req_file tab s r" using assms by (simp add: req_file_def)
  then show ?thesis using hinv_parts(5) [OF assms(1)] that unfolding tables_ok_def by blast
qed

lemma file_mapping_entry:
  assumes "hinv tab L s" "h_files s f = Some fl" "tab (vf_mappings fl) i = Some m"
  obtains mapping where "h_mappings s m = Some mapping"
proof -
  have "(f, i) \<in> map_file tab s m" using assms by (simp add: map_file_def)
  then show ?thesis using mapping_dead(1) [OF assms(1), of m] that by (cases "h_mappings s m") auto
qed

context xarray_laws
begin

lemma mapping_get_ok:
  assumes inv: "hinv tab L s" and m: "h_mappings s m = Some mapping"
  obtains s' where "vams_mapping_get m s = Some s'" "hinv tab (add_mapping (Some m) L) s'" "shrinks s s'"
    "h_requests s' = h_requests s" "h_files s' = h_files s" "h_dev s' = h_dev s"
    "dom (h_mappings s') = dom (h_mappings s)"
proof -
  let ?s = "set_mapping m (mapping\<lparr> mp_refs := mp_refs mapping + 1 \<rparr>) s"
  have "hinv tab (add_mapping (Some m) L) ?s"
  proof (rule hinvI)
    show "mappings_ok tab (add_mapping (Some m) L) ?s"
    proof (rule mappings_okI)
      fix i assume "h_mappings ?s i = None"
      then show "map_file tab ?s i = {} \<and> map_source ?s i = {} \<and> map_destination ?s i = {} \<and>
          lc_mappings (add_mapping (Some m) L) i = 0"
        using mapping_dead [OF inv, of i] by (cases "i = m") (simp_all add: set_mapping_def)
    next
      fix i v assume "h_mappings ?s i = Some v"
      then show "mp_refs v = card (map_file tab ?s i) + card (map_source ?s i) + card (map_destination ?s i) +
          lc_mappings (add_mapping (Some m) L) i \<and> 0 < mp_refs v"
        using mappings_okD [OF inv, of i] m by (cases "i = m") (auto simp: set_mapping_def)
    qed
    show "pages_ok ?s" unfolding set_mapping_def by (rule pages_ok_dom) (use hinv_parts [OF inv] m in simp_all)
    show "requests_ok tab (add_mapping (Some m) L) ?s"
      by (rule requests_ok_same [OF hinv_parts(1) [OF inv]]) (simp_all add: set_mapping_def)
    show "files_ok tab (add_mapping (Some m) L) ?s"
      by (rule files_ok_same [OF hinv_parts(3) [OF inv]]) (simp_all add: set_mapping_def)
    show "device_ok tab (add_mapping (Some m) L) ?s"
      by (rule device_ok_same [OF hinv_parts(4) [OF inv]]) (simp_all add: set_mapping_def)
    show "tables_ok tab ?s" by (rule tables_ok_same [OF hinv_parts(5) [OF inv]]) (simp_all add: set_mapping_def)
  qed
  moreover have "shrinks s ?s" by (simp add: shrinks_def set_mapping_def m)
  ultimately show ?thesis
    by (intro that [of ?s]) (use m in \<open>auto simp: vams_mapping_get_def set_mapping_def\<close>)
qed

lemma last_file_reference:
  assumes inv: "hinv tab (add_file (Some f) L) s" and f: "h_files s f = Some fl" and "vf_refs fl = 1"
  shows "\<not> lc_open L f" "file_owned s f = {}" "lc_files L f = 0"
    "tab (vf_mappings fl) = Map.empty" "tab (vf_requests fl) = Map.empty"
proof -
  have "of_bool (lc_open L f) + card (file_owned s f) + lc_files L f = 0"
    using files_okD(1) [OF inv f] assms(3) by simp
  then show "\<not> lc_open L f" "file_owned s f = {}" "lc_files L f = 0"
    using holders_finite(3) [OF inv, of f] by (cases "lc_open L f"; simp)+
  then show "tab (vf_mappings fl) = Map.empty" "tab (vf_requests fl) = Map.empty"
    using files_okD(3) [OF inv f] by simp_all
qed

lemma empty_file_holds_nothing:
  assumes "h_files s f = Some fl" "tab (vf_mappings fl) = Map.empty" "tab (vf_requests fl) = Map.empty"
  shows "req_file tab (s\<lparr> h_files := (h_files s)(f := None) \<rparr>) = req_file tab s"
    "map_file tab (s\<lparr> h_files := (h_files s)(f := None) \<rparr>) = map_file tab s"
  using assms by (auto simp: req_file_def map_file_def fun_eq_iff split: if_splits)

lemma file_release_ok:
  fixes s :: "('v, 'x) host"
  assumes inv: "hinv tab (add_file (Some f) L) s" and f: "h_files s f = Some fl" and one: "vf_refs fl = 1"
  obtains s' where "vams_file_release_refs f s = Some s'" "hinv tab L s'" "shrinks s s'"
    "h_requests s' = h_requests s" "h_mappings s' = h_mappings s"
proof -
  note last = last_file_reference [OF inv f one]
  obtain dev where d: "h_dev s = Some dev" by (rule device_live [OF inv, of f fl]) (simp_all add: f)
  note dok = device_okD [OF inv d]
  let ?F = "(h_files s)(f := None)"
  have fin: "finite (dom (h_files s))" by (rule holders_finite [OF inv])
  have card_files: "card (dom (h_files s)) = Suc (card (dom ?F))"
    using card_Suc_Diff1 [OF fin, of f] f by (simp add: domI)
  have files: "files_ok tab L (t\<lparr> h_files := ?F \<rparr>)" if "h_requests t = h_requests s" for t :: "('v, 'x) host"
  proof -
    have owned: "file_owned (t\<lparr> h_files := ?F \<rparr>) = file_owned s" using that by (simp add: file_owned_def fun_eq_iff)
    show ?thesis
    proof (rule files_okI)
      fix i assume "h_files (t\<lparr> h_files := ?F \<rparr>) i = None"
      then show "file_owned (t\<lparr> h_files := ?F \<rparr>) i = {} \<and> lc_files L i = 0 \<and> \<not> lc_open L i"
        using last file_dead [OF inv, of i] unfolding owned by (cases "i = f") auto
    next
      fix i v assume "h_files (t\<lparr> h_files := ?F \<rparr>) i = Some v"
      then show "vf_refs v = of_bool (lc_open L i) + card (file_owned (t\<lparr> h_files := ?F \<rparr>) i) + lc_files L i \<and>
          0 < vf_refs v \<and>
          (\<not> lc_open L i \<longrightarrow> tab (vf_mappings v) = Map.empty \<and> tab (vf_requests v) = Map.empty)"
        using files_okD [OF inv, of i v] unfolding owned by (cases "i = f") auto
    qed (use fin in simp)
  qed
  show ?thesis
  proof (cases "vd_refs dev = 1")
    case True
    then have "lc_probe L = 0" "card (dom ?F) = 0" using dok(1) card_files by simp_all
    then have empty: "lc_probe L = 0" "?F = Map.empty" using fin by (auto simp: fun_eq_iff domIff)
    have none: "req_dev tab s r = {}" for r using dok(3) empty(1) d by (simp add: req_dev_def)
    let ?s = "s\<lparr> h_dev := None, h_res := h_res s - {R_instance, R_misc_name, R_pdev}, h_files := ?F \<rparr>"
    have dev': "req_dev tab ?s = req_dev tab s" using none by (simp add: req_dev_def fun_eq_iff)
    have file': "req_file tab ?s = req_file tab s" "map_file tab ?s = map_file tab s"
      using empty_file_holds_nothing [OF f last(4,5)] by (simp_all add: req_file_def map_file_def fun_eq_iff)
    have "hinv tab L ?s"
    proof (rule hinvI)
      show "requests_ok tab L ?s"
        by (rule requests_ok_same [OF hinv_parts(1) [OF inv] _ dev' file'(1)]) simp_all
      show "mappings_ok tab L ?s"
        by (rule mappings_ok_same [OF hinv_parts(2) [OF inv] _ file'(2)]) simp_all
      show "files_ok tab L ?s" using files [of "s\<lparr> h_dev := None, h_res := h_res s - {R_instance, R_misc_name, R_pdev} \<rparr>"] by simp
      show "device_ok tab L ?s" using empty by (simp add: device_ok_def)
      show "tables_ok tab ?s" by (rule tables_ok_same [OF hinv_parts(5) [OF inv] _ dev' file'(1)]) simp
      show "pages_ok ?s" by (rule pages_ok_same [OF hinv_parts(6) [OF inv]]) simp_all
    qed
    moreover have "shrinks s ?s" by (simp add: shrinks_def d)
    ultimately show ?thesis
      by (intro that [of ?s])
        (use True in \<open>simp_all add: vams_file_release_refs_def vams_device_put_def vams_device_release_def f d\<close>)
  next
    case False
    let ?d = "dev\<lparr> vd_refs := vd_refs dev - 1 \<rparr>"
    let ?s = "s\<lparr> h_dev := Some ?d, h_files := ?F \<rparr>"
    have dev': "req_dev tab ?s = req_dev tab s" by (simp add: req_dev_def fun_eq_iff d)
    have file': "req_file tab ?s = req_file tab s" "map_file tab ?s = map_file tab s"
      using empty_file_holds_nothing [OF f last(4,5)] by (simp_all add: req_file_def map_file_def fun_eq_iff)
    have "hinv tab L ?s"
    proof (rule hinvI)
      show "requests_ok tab L ?s"
        by (rule requests_ok_same [OF hinv_parts(1) [OF inv] _ dev' file'(1)]) simp_all
      show "mappings_ok tab L ?s"
        by (rule mappings_ok_same [OF hinv_parts(2) [OF inv] _ file'(2)]) simp_all
      show "files_ok tab L ?s" using files [of "s\<lparr> h_dev := Some ?d \<rparr>"] by simp
      show "device_ok tab L ?s" using dok card_files False by (simp add: device_ok_def)
      show "tables_ok tab ?s" by (rule tables_ok_same [OF hinv_parts(5) [OF inv] _ dev' file'(1)]) simp
      show "pages_ok ?s" by (rule pages_ok_same [OF hinv_parts(6) [OF inv]]) simp_all
    qed
    moreover have "shrinks s ?s" by (simp add: shrinks_def d)
    ultimately show ?thesis
      by (intro that [of ?s])
        (use False in \<open>simp_all add: vams_file_release_refs_def vams_device_put_def set_dev_def f d\<close>)
  qed
qed

text \<open>Changing the count of one file.\<close>

lemma file_refs_hinv:
  assumes inv: "hinv tab L0 s" and f: "h_files s f = Some fl"
    and lc: "lc_requests L = lc_requests L0" "lc_mappings L = lc_mappings L0" "lc_probe L = lc_probe L0"
      "lc_open L = lc_open L0" "\<And>i. i \<noteq> f \<Longrightarrow> lc_files L i = lc_files L0 i"
    and n: "n = of_bool (lc_open L f) + card (file_owned s f) + lc_files L f" "0 < n"
  shows "hinv tab L (set_file f (fl\<lparr> vf_refs := n \<rparr>) s)"
proof -
  let ?s = "set_file f (fl\<lparr> vf_refs := n \<rparr>) s"
  have same: "req_file tab ?s = req_file tab s" "map_file tab ?s = map_file tab s"
    using f by (auto simp: req_file_def map_file_def set_file_def fun_eq_iff split: if_splits)
  show ?thesis
  proof (rule set_file_hinv [OF inv f])
    fix i r assume "tab (vf_requests (fl\<lparr> vf_refs := n \<rparr>)) i = Some r"
    then show "\<exists>q. h_requests s r = Some q \<and> rq_command_id q = i \<and> rq_owner q = Some f"
      using file_entry [OF inv f, of i r] by auto
  next
    fix i m assume "tab (vf_mappings (fl\<lparr> vf_refs := n \<rparr>)) i = Some m"
    then show "h_mappings s m \<noteq> None" using file_mapping_entry [OF inv f, of i m] by auto
  qed (use n lc files_okD(3) [OF inv f] same request_dead(3) [OF inv] mapping_dead(4) [OF inv] in simp_all)
qed

lemma file_put_ok:
  assumes inv: "hinv tab (add_file (Some f) L) s"
  obtains s' where "vams_file_put f s = Some s'" "hinv tab L s'" "shrinks s s'"
    "h_requests s' = h_requests s" "h_mappings s' = h_mappings s"
proof -
  obtain fl where f: "h_files s f = Some fl" by (rule file_live [OF inv, where f = f]) simp_all
  show ?thesis
  proof (cases "vf_refs fl = 1")
    case True
    obtain s' where "vams_file_release_refs f s = Some s'" "hinv tab L s'" "shrinks s s'"
      "h_requests s' = h_requests s" "h_mappings s' = h_mappings s"
      by (rule file_release_ok [OF inv f True])
    then show ?thesis by (intro that [of s']) (simp_all add: vams_file_put_def f True)
  next
    case False
    let ?s = "set_file f (fl\<lparr> vf_refs := vf_refs fl - 1 \<rparr>) s"
    have "hinv tab L ?s"
      by (rule file_refs_hinv [OF inv f]) (use files_okD [OF inv f] False in auto)
    moreover have "shrinks s ?s" by (simp add: shrinks_def set_file_def f)
    ultimately show ?thesis
      by (intro that [of ?s]) (use False in \<open>simp_all add: vams_file_put_def f set_file_def\<close>)
  qed
qed

text \<open>The binding of the driver gives up its reference to the device.\<close>

lemma probe_put_ok:
  assumes inv: "hinv tab (L\<lparr> lc_probe := 1 \<rparr>) s" and "\<And>r. req_dev tab s r = {}"
  obtains s' where "vams_device_put s = Some s'" "hinv tab (L\<lparr> lc_probe := 0 \<rparr>) s'" "shrinks s s'"
    "h_requests s' = h_requests s" "h_mappings s' = h_mappings s" "h_files s' = h_files s"
proof -
  obtain dev where d: "h_dev s = Some dev" by (rule device_live [OF inv]) simp_all
  note dok = device_okD [OF inv d]
  have tab: "tab (vd_requests dev) = Map.empty"
  proof (rule ext)
    fix i
    show "tab (vd_requests dev) i = None"
      using assms(2) [of "the (tab (vd_requests dev) i)"] d
      by (cases "tab (vd_requests dev) i") (auto simp: req_dev_def)
  qed
  let ?D = "if vd_refs dev = 1 then None else Some (dev\<lparr> vd_refs := vd_refs dev - 1 \<rparr>)"
  let ?s = "s\<lparr> h_dev := ?D, h_res := (if vd_refs dev = 1 then h_res s - {R_instance, R_misc_name, R_pdev}
    else h_res s) \<rparr>"
  have dev': "req_dev tab ?s = req_dev tab s" using assms(2) d by (auto simp: req_dev_def fun_eq_iff)
  have none: "h_files s = Map.empty" if "vd_refs dev = 1"
    using dok(1) that holders_finite(5) [OF inv] by simp
  have "hinv tab (L\<lparr> lc_probe := 0 \<rparr>) ?s"
  proof (rule hinvI)
    show "device_ok tab (L\<lparr> lc_probe := 0 \<rparr>) ?s" 
    proof (cases "vd_refs dev = 1")
      case True
      then show ?thesis using none [OF True] by (simp add: device_ok_def)
    next
      case False
      then show ?thesis using dok(1,2) tab by (simp add: device_ok_def)
    qed
    show "requests_ok tab (L\<lparr> lc_probe := 0 \<rparr>) ?s"
      by (rule requests_ok_same [OF hinv_parts(1) [OF inv] _ dev']) simp_all
    show "mappings_ok tab (L\<lparr> lc_probe := 0 \<rparr>) ?s"
      by (rule mappings_ok_same [OF hinv_parts(2) [OF inv]]) simp_all
    show "files_ok tab (L\<lparr> lc_probe := 0 \<rparr>) ?s" by (rule files_ok_same [OF hinv_parts(3) [OF inv]]) simp_all
    show "tables_ok tab ?s" by (rule tables_ok_same [OF hinv_parts(5) [OF inv] _ dev']) simp_all
    show "pages_ok ?s" by (rule pages_ok_same [OF hinv_parts(6) [OF inv]]) simp_all
  qed
  moreover have "shrinks s ?s" by (simp add: shrinks_def d)
  ultimately show ?thesis
    by (intro that [of ?s]) (simp_all add: vams_device_put_def vams_device_release_def set_dev_def d)
qed

end

subsection \<open>Requests\<close>

text \<open>The puts of buffers and files do not look at the requests.\<close>

lemma mapping_put_requests:
  "vams_mapping_put ctx mp (s\<lparr> h_requests := R \<rparr>) =
     map_option (\<lambda>t. t\<lparr> h_requests := R \<rparr>) (vams_mapping_put ctx mp s)"
  by (auto simp: vams_mapping_put_def vams_mapping_release_def set_mapping_def
      split: option.split Option.bind_split)

lemma file_put_requests:
  "vams_file_put f (s\<lparr> h_requests := R \<rparr>) = map_option (\<lambda>t. t\<lparr> h_requests := R \<rparr>) (vams_file_put f s)"
  by (auto simp: vams_file_put_def vams_file_release_refs_def vams_device_put_def vams_device_release_def
      set_file_def set_dev_def split: Option.bind_split)

lemma card_without:
  assumes "finite A" "B = A - {r}" "r \<in> A \<longleftrightarrow> P"
  shows "card A = card B + of_bool P"
  using assms card_Suc_Diff1 [of A r] by (cases P) auto

context xarray_laws
begin

lemma last_request_reference:
  assumes inv: "hinv tab (add_request r L) s" and q: "h_requests s r = Some q" and "rq_refs q = 1"
  shows "req_dev tab s r = {}" "req_file tab s r = {}" "lc_requests L r = 0"
  using requests_okD(1) [OF inv q] assms(3) table_holders_finite [OF inv] by simp_all

lemma request_detach:
  assumes inv: "hinv tab (add_request r L) s" and q: "h_requests s r = Some q" and one: "rq_refs q = 1"
  shows "hinv tab (add_file (rq_owner q) (add_mapping (rq_destination q) (add_mapping (rq_source q) L)))
    (s\<lparr> h_requests := (h_requests s)(r := None) \<rparr>)" (is "hinv tab ?L ?s")
proof -
  note last = last_request_reference [OF inv q one]
  note fin = holders_finite [OF inv]
  have src: "card (map_source s m) = card (map_source ?s m) + of_bool (rq_source q = Some m)" for m
    by (rule card_without [where r = r]) (use fin q in \<open>auto simp: map_source_def split: if_splits\<close>)
  have dst: "card (map_destination s m) = card (map_destination ?s m) + of_bool (rq_destination q = Some m)" for m
    by (rule card_without [where r = r]) (use fin q in \<open>auto simp: map_destination_def split: if_splits\<close>)
  have own: "card (file_owned s f) = card (file_owned ?s f) + of_bool (rq_owner q = Some f)" for f
    by (rule card_without [where r = r]) (use fin q in \<open>auto simp: file_owned_def split: if_splits\<close>)
  have sub: "map_source ?s m \<subseteq> map_source s m" "map_destination ?s m \<subseteq> map_destination s m"
    "file_owned ?s f \<subseteq> file_owned s f" for m f
    by (auto simp: map_source_def map_destination_def file_owned_def split: if_splits)
  show ?thesis
  proof (rule hinvI)
    show "requests_ok tab ?L ?s"
    proof (rule requests_okI)
      fix i assume "h_requests ?s i = None"
      then show "req_dev tab ?s i = {} \<and> req_file tab ?s i = {} \<and> lc_requests ?L i = 0"
        using last request_dead [OF inv, of i] by (cases "i = r") simp_all
    next
      fix i v assume "h_requests ?s i = Some v"
      then show "rq_refs v = card (req_dev tab ?s i) + card (req_file tab ?s i) + lc_requests ?L i \<and> 0 < rq_refs v \<and>
          (rq_source v \<noteq> None \<or> rq_destination v \<noteq> None \<longrightarrow> rq_owner v \<noteq> None)"
        using requests_okD [OF inv, of i v] by (cases "i = r") auto
    qed (use fin in simp)
    show "mappings_ok tab ?L ?s"
    proof (rule mappings_okI)
      fix m assume "h_mappings ?s m = None"
      then have "h_mappings s m = None" by simp
      note dead = mapping_dead [OF inv this]
      show "map_file tab ?s m = {} \<and> map_source ?s m = {} \<and> map_destination ?s m = {} \<and> lc_mappings ?L m = 0"
        using dead src [of m] dst [of m] sub(1,2) [of m] by simp
    next
      fix m v assume "h_mappings ?s m = Some v"
      then have "h_mappings s m = Some v" by simp
      note live = mappings_okD [OF inv this]
      show "mp_refs v = card (map_file tab ?s m) + card (map_source ?s m) + card (map_destination ?s m) +
          lc_mappings ?L m \<and> 0 < mp_refs v"
        using live src [of m] dst [of m] by simp
    qed
    show "files_ok tab ?L ?s"
    proof (rule files_okI)
      fix f assume "h_files ?s f = None"
      then have "h_files s f = None" by simp
      note dead = file_dead [OF inv this]
      show "file_owned ?s f = {} \<and> lc_files ?L f = 0 \<and> \<not> lc_open ?L f" using dead own [of f] sub(3) [of f] by simp
    next
      fix f v assume "h_files ?s f = Some v"
      then have "h_files s f = Some v" by simp
      note live = files_okD [OF inv this]
      show "vf_refs v = of_bool (lc_open ?L f) + card (file_owned ?s f) + lc_files ?L f \<and> 0 < vf_refs v \<and>
          (\<not> lc_open ?L f \<longrightarrow> tab (vf_mappings v) = Map.empty \<and> tab (vf_requests v) = Map.empty)"
        using live own [of f] by simp
    qed (use fin in simp)
    show "device_ok tab ?L ?s" by (rule device_ok_same [OF hinv_parts(4) [OF inv]]) simp_all
    show "tables_ok tab ?s" using hinv_parts(5) [OF inv] last by (auto simp: tables_ok_def)
    show "pages_ok ?s" by (rule pages_ok_same [OF hinv_parts(6) [OF inv]]) simp_all
  qed
qed

end

lemma mapping_put_keeps_requests: "vams_mapping_put ctx mp s = Some t \<Longrightarrow> h_requests t = h_requests s"
  by (auto simp: vams_mapping_put_def vams_mapping_release_def set_mapping_def
      split: option.splits Option.bind_splits if_splits)

lemma file_put_keeps_requests: "vams_file_put f s = Some t \<Longrightarrow> h_requests t = h_requests s"
  by (auto simp: vams_file_put_def vams_file_release_refs_def vams_device_put_def vams_device_release_def
      set_file_def set_dev_def split: Option.bind_splits if_splits)

context xarray_laws
begin

text \<open>Changing one request, its links apart.\<close>

lemma request_update_hinv:
  assumes inv: "hinv tab L0 s" and q: "h_requests s r = Some q"
    and lc: "lc_files L = lc_files L0" "lc_mappings L = lc_mappings L0" "lc_probe L = lc_probe L0"
      "\<And>i. i \<noteq> r \<Longrightarrow> lc_requests L i = lc_requests L0 i" "lc_open L = lc_open L0"
    and links: "rq_owner q' = rq_owner q" "rq_source q' = rq_source q" "rq_destination q' = rq_destination q"
    and n: "rq_refs q' = card (req_dev tab s r) + card (req_file tab s r) + lc_requests L r" "0 < rq_refs q'"
    and cid: "rq_command_id q' = rq_command_id q \<or> req_dev tab s r = {} \<and> req_file tab s r = {}"
    and don: "rq_done q' = rq_done q \<or> req_dev tab s r = {}"
  shows "hinv tab L (set_request r q' s)"
proof -
  let ?s = "set_request r q' s"
  have same: "map_source ?s = map_source s" "map_destination ?s = map_destination s" "file_owned ?s = file_owned s"
    using q links by (auto simp: map_source_def map_destination_def file_owned_def set_request_def fun_eq_iff)
  have tabs: "req_dev tab ?s = req_dev tab s" "req_file tab ?s = req_file tab s"
    by (simp_all add: set_request_def)
  show ?thesis
  proof (rule hinvI)
    show "requests_ok tab L ?s"
    proof (rule requests_okI)
      show "finite (dom (h_requests ?s))" using holders_finite(4) [OF inv] by (simp add: set_request_def)
    next
      fix i assume "h_requests ?s i = None"
      then show "req_dev tab ?s i = {} \<and> req_file tab ?s i = {} \<and> lc_requests L i = 0"
        using request_dead [OF inv, of i] lc(4) [of i] by (cases "i = r") (simp_all add: set_request_def)
    next
      fix i v assume v: "h_requests ?s i = Some v"
      show "rq_refs v = card (req_dev tab ?s i) + card (req_file tab ?s i) + lc_requests L i \<and> 0 < rq_refs v \<and>
          (rq_source v \<noteq> None \<or> rq_destination v \<noteq> None \<longrightarrow> rq_owner v \<noteq> None)"
      proof (cases "i = r")
        case True
        then have "v = q'" using v by (simp add: set_request_def)
        then show ?thesis using True n requests_okD(3) [OF inv q] links unfolding tabs by auto
      next
        case False
        then have "h_requests s i = Some v" using v by (simp add: set_request_def)
        then show ?thesis using requests_okD [OF inv, of i v] lc(4) [OF False] unfolding tabs by auto
      qed
    qed
    show "mappings_ok tab L ?s"
      by (rule mappings_ok_same [OF hinv_parts(2) [OF inv] _ _ same(1,2)]) (simp_all add: set_request_def lc)
    show "files_ok tab L ?s"
      by (rule files_ok_same [OF hinv_parts(3) [OF inv] _ same(3)]) (simp_all add: set_request_def lc)
    show "device_ok tab L ?s"
      by (rule device_ok_same [OF hinv_parts(4) [OF inv]]) (simp_all add: set_request_def lc)
    show "tables_ok tab ?s"
      unfolding tables_ok_def tabs
    proof (intro conjI allI impI)
      fix i c assume c: "c \<in> req_dev tab s i"
      then obtain v where "h_requests s i = Some v" "rq_command_id v = c" "\<not> rq_done v"
        using hinv_parts(5) [OF inv] unfolding tables_ok_def by blast
      then show "\<exists>v. h_requests ?s i = Some v \<and> rq_command_id v = c \<and> \<not> rq_done v"
        using c q cid don by (cases "i = r") (auto simp: set_request_def)
    next
      fix i f c assume c: "(f, c) \<in> req_file tab s i"
      then obtain v where "h_requests s i = Some v" "rq_command_id v = c" "rq_owner v = Some f"
        using hinv_parts(5) [OF inv] unfolding tables_ok_def by blast
      then show "\<exists>v. h_requests ?s i = Some v \<and> rq_command_id v = c \<and> rq_owner v = Some f"
        using c q cid links by (cases "i = r") (auto simp: set_request_def)
    qed
    show "pages_ok ?s" by (rule pages_ok_same [OF hinv_parts(6) [OF inv]]) (simp_all add: set_request_def)
  qed
qed

lemma request_get_ok:
  assumes inv: "hinv tab L s" and q: "h_requests s r = Some q"
  shows "hinv tab (add_request r L) (set_request r (q\<lparr> rq_refs := rq_refs q + 1 \<rparr>) s)"
  by (rule request_update_hinv [OF inv q]) (use requests_okD [OF inv q] in auto)

lemma buffers_need_device:
  assumes inv: "hinv tab L s" and q: "h_requests s r = Some q" and "rq_source q \<noteq> None \<or> rq_destination q \<noteq> None"
  shows "h_dev s \<noteq> None"
proof -
  obtain f where "rq_owner q = Some f" using requests_okD(3) [OF inv q assms(3)] by auto
  then have "file_owned s f \<noteq> {}" using q by (auto simp: file_owned_def)
  then obtain fl where f: "h_files s f = Some fl" using file_live [OF inv] by metis
  obtain dev where "h_dev s = Some dev" by (rule device_live [OF inv, of f fl]) (simp_all add: f)
  then show ?thesis by simp
qed

lemma request_put_ok:
  assumes inv: "hinv tab (add_request r L) s"
  obtains s' where "vams_request_put ctx r s = Some s'" "hinv tab L s'" "shrinks s s'"
    "\<And>i. i \<noteq> r \<Longrightarrow> h_requests s' i = h_requests s i"
proof -
  obtain q where q: "h_requests s r = Some q" by (rule request_live [OF inv, where r = r]) simp_all
  show ?thesis
  proof (cases "rq_refs q = 1")
    case True
    let ?R = "(h_requests s)(r := None)"
    let ?L1 = "add_file (rq_owner q) L" and ?s0 = "s\<lparr> h_requests := ?R \<rparr>"
    let ?L2 = "add_file (rq_owner q) (add_mapping (rq_destination q) L)"
    have eq: "add_file (rq_owner q) (add_mapping (rq_destination q) (add_mapping (rq_source q) L)) =
        add_mapping (rq_source q) ?L2" "?L2 = add_mapping (rq_destination q) ?L1"
      by (simp_all add: add_file_def add_mapping_def ac_simps)
    have dev: "rq_source q = None \<or> h_dev s \<noteq> None" "rq_destination q = None \<or> h_dev s \<noteq> None"
      using buffers_need_device [OF inv q] by blast+
    have i0: "hinv tab (add_mapping (rq_source q) ?L2) ?s0"
      using request_detach [OF inv q True] unfolding eq(1) .
    obtain t1 where t1: "vams_mapping_put ctx (rq_source q) ?s0 = Some t1" "hinv tab ?L2 t1" "shrinks ?s0 t1"
      "h_dev t1 = h_dev s" "h_requests t1 = ?R"
      by (rule mapping_put_ok [OF i0, of ctx]) (use dev in auto)
    obtain t2 where t2: "vams_mapping_put ctx (rq_destination q) t1 = Some t2" "hinv tab ?L1 t2" "shrinks t1 t2"
      "h_requests t2 = ?R"
      by (rule mapping_put_ok [OF t1(2) [unfolded eq(2)], of ctx]) (use dev t1 in auto)
    obtain t3 where t3: "(case rq_owner q of None \<Rightarrow> Some t2 | Some f \<Rightarrow> vams_file_put f t2) = Some t3"
      "hinv tab L t3" "shrinks t2 t3" "h_requests t3 = ?R"
    proof (cases "rq_owner q")
      case None
      then show ?thesis using that [of t2] t2 by simp
    next
      case (Some f)
      have "hinv tab (add_file (Some f) L) t2" using t2(2) Some by simp
      then show ?thesis by (rule file_put_ok) (use that Some t2 in simp)
    qed
    obtain u1 where u1: "vams_mapping_put ctx (rq_source q) s = Some u1" "t1 = u1\<lparr> h_requests := ?R \<rparr>"
      using t1(1) unfolding mapping_put_requests by auto
    obtain u2 where u2: "vams_mapping_put ctx (rq_destination q) u1 = Some u2" "t2 = u2\<lparr> h_requests := ?R \<rparr>"
      using t2(1) unfolding u1(2) mapping_put_requests by auto
    obtain u3 where u3: "(case rq_owner q of None \<Rightarrow> Some u2 | Some f \<Rightarrow> vams_file_put f u2) = Some u3"
      "t3 = u3\<lparr> h_requests := ?R \<rparr>"
      using t3(1) unfolding u2(2) file_put_requests by (cases "rq_owner q") auto
    have "(h_requests u3)(r := None) = ?R"
      using mapping_put_keeps_requests [OF u1(1)] mapping_put_keeps_requests [OF u2(1)] u3(1)
        file_put_keeps_requests [of _ u2 u3] by (cases "rq_owner q") simp_all
    then have "vams_request_put ctx r s = Some t3"
      using q True u1(1) u2(1) u3 by (simp add: vams_request_put_def)
    moreover have "shrinks s ?s0" by (simp add: shrinks_def)
    then have "shrinks s t3" using t1(3) t2(3) t3(3) shrinks_trans by blast
    ultimately show ?thesis using that [of t3] t3(2,4) by simp
  next
    case False
    let ?s = "set_request r (q\<lparr> rq_refs := rq_refs q - 1 \<rparr>) s"
    have "hinv tab L ?s"
      by (rule request_update_hinv [OF inv q]) (use requests_okD [OF inv q] False in auto)
    moreover have "shrinks s ?s" by (simp add: shrinks_def set_request_def q)
    ultimately show ?thesis
      by (intro that [of ?s]) (use False in \<open>simp_all add: vams_request_put_def q set_request_def\<close>)
  qed
qed

end

subsection \<open>The tables\<close>

text \<open>Changing the device: an entry of its table is a reference like a local one.\<close>

lemma set_dev_hinv:
  assumes inv: "hinv tab L0 s" and d: "h_dev s = Some dev" and refs: "vd_refs dev' = vd_refs dev"
    and lc: "lc_files L = lc_files L0" "lc_mappings L = lc_mappings L0" "lc_probe L = lc_probe L0"
      "lc_open L = lc_open L0"
    and counts: "\<And>r. card (req_dev tab (set_dev dev' s) r) + lc_requests L r = card (req_dev tab s r) + lc_requests L0 r"
    and dead: "\<And>r. h_requests s r = None \<Longrightarrow> lc_requests L r = 0"
    and entries: "\<And>i r. tab (vd_requests dev') i = Some r \<Longrightarrow>
      \<exists>q. h_requests s r = Some q \<and> rq_command_id q = i \<and> \<not> rq_done q"
    and probe: "lc_probe L = 0 \<Longrightarrow> tab (vd_requests dev') = Map.empty"
  shows "hinv tab L (set_dev dev' s)"
proof -
  let ?s = "set_dev dev' s"
  have same: "req_file tab ?s = req_file tab s" "map_file tab ?s = map_file tab s" "map_source ?s = map_source s"
    "map_destination ?s = map_destination s" "file_owned ?s = file_owned s" by (simp_all add: set_dev_def)
  have members: "i \<in> req_dev tab ?s r \<longleftrightarrow> tab (vd_requests dev') i = Some r" for i r
    by (simp add: req_dev_def set_dev_def)
  show ?thesis
  proof (rule hinvI)
    show "requests_ok tab L ?s"
    proof (rule requests_okI)
      show "finite (dom (h_requests ?s))" using holders_finite(4) [OF inv] by (simp add: set_dev_def)
    next
      fix r assume "h_requests ?s r = None"
      then have r: "h_requests s r = None" by (simp add: set_dev_def)
      then have "i \<notin> req_dev tab ?s r" for i using entries [of i r] members by auto
      then show "req_dev tab ?s r = {} \<and> req_file tab ?s r = {} \<and> lc_requests L r = 0"
        using request_dead [OF inv r] dead [OF r] same by auto
    next
      fix r q assume "h_requests ?s r = Some q"
      then have q: "h_requests s r = Some q" by (simp add: set_dev_def)
      show "rq_refs q = card (req_dev tab ?s r) + card (req_file tab ?s r) + lc_requests L r \<and> 0 < rq_refs q \<and>
          (rq_source q \<noteq> None \<or> rq_destination q \<noteq> None \<longrightarrow> rq_owner q \<noteq> None)"
        using requests_okD [OF inv q] counts [of r] unfolding same by auto
    qed
    show "mappings_ok tab L ?s"
      by (rule mappings_ok_same [OF hinv_parts(2) [OF inv] _ same(2-4)]) (simp_all add: set_dev_def lc)
    show "files_ok tab L ?s"
      by (rule files_ok_same [OF hinv_parts(3) [OF inv] _ same(5)]) (simp_all add: set_dev_def lc)
    show "device_ok tab L ?s"
      using device_okD [OF inv d] refs lc probe unfolding device_ok_def by (simp add: set_dev_def)
    show "tables_ok tab ?s"
      using hinv_parts(5) [OF inv] entries unfolding tables_ok_def same members by (simp add: set_dev_def)
    show "pages_ok ?s" by (rule pages_ok_same [OF hinv_parts(6) [OF inv]]) (simp_all add: set_dev_def)
  qed
qed

lemma dev_entry:
  assumes "hinv tab L s" "h_dev s = Some dev" "tab (vd_requests dev) i = Some r"
  obtains q where "h_requests s r = Some q" "rq_command_id q = i" "\<not> rq_done q"
proof -
  have "i \<in> req_dev tab s r" using assms by (simp add: req_dev_def)
  then show ?thesis using hinv_parts(5) [OF assms(1)] that unfolding tables_ok_def by blast
qed

lemma set_dev_fields_hinv:
  assumes inv: "hinv tab L s" and d: "h_dev s = Some dev"
    and same: "vd_refs dev' = vd_refs dev" "tab (vd_requests dev') = tab (vd_requests dev)"
  shows "hinv tab L (set_dev dev' s)"
proof (rule set_dev_hinv [OF inv d same(1)])
  fix r
  show "card (req_dev tab (set_dev dev' s) r) + lc_requests L r = card (req_dev tab s r) + lc_requests L r"
    by (simp add: req_dev_def set_dev_def d same)
next
  fix r assume "h_requests s r = None"
  then show "lc_requests L r = 0" using request_dead [OF inv] by simp
next
  fix i r assume "tab (vd_requests dev') i = Some r"
  then show "\<exists>q. h_requests s r = Some q \<and> rq_command_id q = i \<and> \<not> rq_done q"
    using dev_entry [OF inv d, of i r] same by auto
qed (use device_okD [OF inv d] same in simp_all)

context xarray_laws
begin

lemma dev_erase_hinv:
  assumes inv: "hinv tab L s" and d: "h_dev s = Some dev" and i: "tab (vd_requests dev) i = Some r"
    and same: "vd_refs dev' = vd_refs dev" "tab (vd_requests dev') = (tab (vd_requests dev))(i := None)"
  shows "hinv tab (add_request r L) (set_dev dev' s)"
proof (rule set_dev_hinv [OF inv d same(1)])
  fix j
  have "card (req_dev tab s j) = card (req_dev tab (set_dev dev' s) j) + of_bool (j = r)"
    by (rule card_without [where r = i])
      (use table_holders_finite [OF inv] i d same in \<open>auto simp: req_dev_def set_dev_def split: if_splits\<close>)
  then show "card (req_dev tab (set_dev dev' s) j) + lc_requests (add_request r L) j =
      card (req_dev tab s j) + lc_requests L j" by simp
next
  fix j assume j: "h_requests s j = None"
  obtain q where "h_requests s r = Some q" by (rule dev_entry [OF inv d i])
  then show "lc_requests (add_request r L) j = 0" using j request_dead [OF inv j] by auto
next
  fix j p assume "tab (vd_requests dev') j = Some p"
  then show "\<exists>q. h_requests s p = Some q \<and> rq_command_id q = j \<and> \<not> rq_done q"
    using dev_entry [OF inv d, of j p] same by (auto split: if_splits)
qed (use device_okD [OF inv d] same in \<open>auto simp: fun_eq_iff\<close>)

lemma dev_insert_hinv:
  assumes inv: "hinv tab (add_request r L) s" and d: "h_dev s = Some dev" and i: "tab (vd_requests dev) i = None"
    and same: "vd_refs dev' = vd_refs dev" "tab (vd_requests dev') = (tab (vd_requests dev))(i \<mapsto> r)"
    and q: "h_requests s r = Some q" "rq_command_id q = i" "\<not> rq_done q" and probe: "0 < lc_probe L"
  shows "hinv tab L (set_dev dev' s)"
proof (rule set_dev_hinv [OF inv d same(1)])
  fix j
  have fin: "finite (req_dev tab (set_dev dev' s) j)"
    by (rule finite_subset [of _ "dom (tab (vd_requests dev'))"])
      (use finite_tab in \<open>auto simp: req_dev_def set_dev_def\<close>)
  have "card (req_dev tab (set_dev dev' s) j) = card (req_dev tab s j) + of_bool (j = r)"
    by (rule card_without [where r = i, OF fin])
      (use i d same in \<open>auto simp: req_dev_def set_dev_def split: if_splits\<close>)
  then show "card (req_dev tab (set_dev dev' s) j) + lc_requests L j =
      card (req_dev tab s j) + lc_requests (add_request r L) j" by simp
next
  fix j assume "h_requests s j = None"
  then show "lc_requests L j = 0" using request_dead(3) [OF inv, of j] by simp
next
  fix j p assume "tab (vd_requests dev') j = Some p"
  then show "\<exists>q. h_requests s p = Some q \<and> rq_command_id q = j \<and> \<not> rq_done q"
    using dev_entry [OF inv d, of j p] same q by (auto split: if_splits)
qed (use probe in simp_all)

end

subsection \<open>The tables of a file\<close>

lemma set_file_tables:
  assumes "h_files s f = Some fl"
  shows "req_file tab (set_file f fl' s) r =
      {x \<in> req_file tab s r. fst x \<noteq> f} \<union> {(f, i) | i. tab (vf_requests fl') i = Some r}"
    "map_file tab (set_file f fl' s) m =
      {x \<in> map_file tab s m. fst x \<noteq> f} \<union> {(f, i) | i. tab (vf_mappings fl') i = Some m}"
  by (auto simp: req_file_def map_file_def set_file_def split: if_splits)

context xarray_laws
begin

lemma set_file_finite:
  assumes inv: "hinv tab L s" and f: "h_files s f = Some fl"
  shows "finite (req_file tab (set_file f fl' s) r)" "finite (map_file tab (set_file f fl' s) m)"
proof -
  have "finite {(f, i) | i. tab x i = Some p}" for x p
    by (rule finite_subset [of _ "Pair f ` dom (tab x)"]) (use finite_tab in auto)
  then show "finite (req_file tab (set_file f fl' s) r)" "finite (map_file tab (set_file f fl' s) m)"
    unfolding set_file_tables [OF f] using table_holders_finite [OF inv] by simp_all
qed

lemma set_file_fields_hinv:
  assumes inv: "hinv tab L s" and f: "h_files s f = Some fl"
    and same: "vf_refs fl' = vf_refs fl" "tab (vf_requests fl') = tab (vf_requests fl)"
      "tab (vf_mappings fl') = tab (vf_mappings fl)"
  shows "hinv tab L (set_file f fl' s)"
proof (rule set_file_hinv [OF inv f])
  have "req_file tab (set_file f fl' s) = req_file tab s" "map_file tab (set_file f fl' s) = map_file tab s"
    using f same by (auto simp: req_file_def map_file_def set_file_def fun_eq_iff split: if_splits)
  then show "card (req_file tab (set_file f fl' s) r) + lc_requests L r = card (req_file tab s r) + lc_requests L r"
    "card (map_file tab (set_file f fl' s) m) + lc_mappings L m = card (map_file tab s m) + lc_mappings L m" for r m
    by simp_all
next
  fix i r assume "tab (vf_requests fl') i = Some r"
  then show "\<exists>q. h_requests s r = Some q \<and> rq_command_id q = i \<and> rq_owner q = Some f"
    using file_entry [OF inv f, of i r] same by auto
next
  fix i m assume "tab (vf_mappings fl') i = Some m"
  then show "h_mappings s m \<noteq> None" using file_mapping_entry [OF inv f, of i m] same by auto
qed (use same files_okD [OF inv f] request_dead(3) [OF inv] mapping_dead(4) [OF inv] in simp_all)

lemma file_request_erase_hinv:
  assumes inv: "hinv tab L s" and f: "h_files s f = Some fl" and i: "tab (vf_requests fl) i = Some r"
    and same: "vf_refs fl' = vf_refs fl" "tab (vf_requests fl') = (tab (vf_requests fl))(i := None)"
      "tab (vf_mappings fl') = tab (vf_mappings fl)"
  shows "hinv tab (add_request r L) (set_file f fl' s)"
proof (rule set_file_hinv [OF inv f])
  fix j
  have "card (req_file tab s j) = card (req_file tab (set_file f fl' s) j) + of_bool (j = r)"
    by (rule card_without [where r = "(f, i)"])
      (use table_holders_finite [OF inv] i f same in \<open>auto simp: req_file_def set_file_def split: if_splits\<close>)
  then show "card (req_file tab (set_file f fl' s) j) + lc_requests (add_request r L) j =
      card (req_file tab s j) + lc_requests L j" by simp
  have "map_file tab (set_file f fl' s) j = map_file tab s j"
    using f same by (auto simp: map_file_def set_file_def split: if_splits)
  then show "card (map_file tab (set_file f fl' s) j) + lc_mappings (add_request r L) j =
      card (map_file tab s j) + lc_mappings L j" by simp
next
  fix j assume j: "h_requests s j = None"
  obtain q where "h_requests s r = Some q" by (rule file_entry [OF inv f i])
  then show "lc_requests (add_request r L) j = 0" using j request_dead [OF inv j] by auto
next
  fix j p assume "tab (vf_requests fl') j = Some p"
  then show "\<exists>q. h_requests s p = Some q \<and> rq_command_id q = j \<and> rq_owner q = Some f"
    using file_entry [OF inv f, of j p] same by (auto split: if_splits)
next
  fix j m assume "tab (vf_mappings fl') j = Some m"
  then show "h_mappings s m \<noteq> None" using file_mapping_entry [OF inv f, of j m] same by auto
qed (use same files_okD [OF inv f] mapping_dead(4) [OF inv] in \<open>simp_all add: fun_eq_iff\<close>)

lemma file_request_insert_hinv:
  assumes inv: "hinv tab (add_request r L) s" and f: "h_files s f = Some fl" and i: "tab (vf_requests fl) i = None"
    and same: "vf_refs fl' = vf_refs fl" "tab (vf_requests fl') = (tab (vf_requests fl))(i \<mapsto> r)"
      "tab (vf_mappings fl') = tab (vf_mappings fl)"
    and q: "h_requests s r = Some q" "rq_command_id q = i" "rq_owner q = Some f" and op: "lc_open L f"
  shows "hinv tab L (set_file f fl' s)"
proof (rule set_file_hinv [OF inv f])
  fix j
  have "card (req_file tab (set_file f fl' s) j) = card (req_file tab s j) + of_bool (j = r)"
    by (rule card_without [where r = "(f, i)", OF set_file_finite(1) [OF inv f]])
      (use i f same in \<open>auto simp: req_file_def set_file_def split: if_splits\<close>)
  then show "card (req_file tab (set_file f fl' s) j) + lc_requests L j =
      card (req_file tab s j) + lc_requests (add_request r L) j" by simp
  have "map_file tab (set_file f fl' s) j = map_file tab s j"
    using f same by (auto simp: map_file_def set_file_def split: if_splits)
  then show "card (map_file tab (set_file f fl' s) j) + lc_mappings L j =
      card (map_file tab s j) + lc_mappings (add_request r L) j" by simp
next
  fix j assume "h_requests s j = None"
  then show "lc_requests L j = 0" using request_dead(3) [OF inv, of j] by simp
next
  fix j p assume "tab (vf_requests fl') j = Some p"
  then show "\<exists>q. h_requests s p = Some q \<and> rq_command_id q = j \<and> rq_owner q = Some f"
    using file_entry [OF inv f, of j p] same q by (auto split: if_splits)
next
  fix j m assume "tab (vf_mappings fl') j = Some m"
  then show "h_mappings s m \<noteq> None" using file_mapping_entry [OF inv f, of j m] same by auto
qed (use same files_okD [OF inv f] mapping_dead(4) [OF inv] op in simp_all)

lemma file_mapping_erase_hinv:
  assumes inv: "hinv tab L s" and f: "h_files s f = Some fl" and i: "tab (vf_mappings fl) i = Some m"
    and same: "vf_refs fl' = vf_refs fl" "tab (vf_mappings fl') = (tab (vf_mappings fl))(i := None)"
      "tab (vf_requests fl') = tab (vf_requests fl)"
  shows "hinv tab (add_mapping (Some m) L) (set_file f fl' s)"
proof (rule set_file_hinv [OF inv f])
  fix j
  have "card (map_file tab s j) = card (map_file tab (set_file f fl' s) j) + of_bool (m = j)"
    by (rule card_without [where r = "(f, i)"])
      (use table_holders_finite [OF inv] i f same in \<open>auto simp: map_file_def set_file_def split: if_splits\<close>)
  then show "card (map_file tab (set_file f fl' s) j) + lc_mappings (add_mapping (Some m) L) j =
      card (map_file tab s j) + lc_mappings L j" by simp
  have "req_file tab (set_file f fl' s) j = req_file tab s j"
    using f same by (auto simp: req_file_def set_file_def split: if_splits)
  then show "card (req_file tab (set_file f fl' s) j) + lc_requests (add_mapping (Some m) L) j =
      card (req_file tab s j) + lc_requests L j" by simp
next
  fix j assume j: "h_mappings s j = None"
  obtain mapping where "h_mappings s m = Some mapping" by (rule file_mapping_entry [OF inv f i])
  then show "lc_mappings (add_mapping (Some m) L) j = 0" using j mapping_dead [OF inv j] by auto
next
  fix j p assume "tab (vf_requests fl') j = Some p"
  then show "\<exists>q. h_requests s p = Some q \<and> rq_command_id q = j \<and> rq_owner q = Some f"
    using file_entry [OF inv f, of j p] same by auto
next
  fix j p assume "tab (vf_mappings fl') j = Some p"
  then show "h_mappings s p \<noteq> None" using file_mapping_entry [OF inv f, of j p] same by (auto split: if_splits)
qed (use same files_okD [OF inv f] request_dead(3) [OF inv] in \<open>simp_all add: fun_eq_iff\<close>)

lemma file_mapping_insert_hinv:
  assumes inv: "hinv tab (add_mapping (Some m) L) s" and f: "h_files s f = Some fl"
    and i: "tab (vf_mappings fl) i = None"
    and same: "vf_refs fl' = vf_refs fl" "tab (vf_mappings fl') = (tab (vf_mappings fl))(i \<mapsto> m)"
      "tab (vf_requests fl') = tab (vf_requests fl)" and op: "lc_open L f"
  shows "hinv tab L (set_file f fl' s)"
proof (rule set_file_hinv [OF inv f])
  fix j
  have "card (map_file tab (set_file f fl' s) j) = card (map_file tab s j) + of_bool (m = j)"
    by (rule card_without [where r = "(f, i)", OF set_file_finite(2) [OF inv f]])
      (use i f same in \<open>auto simp: map_file_def set_file_def split: if_splits\<close>)
  then show "card (map_file tab (set_file f fl' s) j) + lc_mappings L j =
      card (map_file tab s j) + lc_mappings (add_mapping (Some m) L) j" by simp
  have "req_file tab (set_file f fl' s) j = req_file tab s j"
    using f same by (auto simp: req_file_def set_file_def split: if_splits)
  then show "card (req_file tab (set_file f fl' s) j) + lc_requests L j =
      card (req_file tab s j) + lc_requests (add_mapping (Some m) L) j" by simp
next
  fix j assume "h_mappings s j = None"
  then show "lc_mappings L j = 0" using mapping_dead(4) [OF inv, of j] by simp
next
  fix j p assume "tab (vf_requests fl') j = Some p"
  then show "\<exists>q. h_requests s p = Some q \<and> rq_command_id q = j \<and> rq_owner q = Some f"
    using file_entry [OF inv f, of j p] same by auto
next
  obtain mapping where "h_mappings s m = Some mapping"
    by (rule mapping_live [OF inv, where m = m]) simp_all
  fix j p assume "tab (vf_mappings fl') j = Some p"
  then show "h_mappings s p \<noteq> None"
    using \<open>h_mappings s m = Some mapping\<close> file_mapping_entry [OF inv f, of j p] same by (auto split: if_splits)
qed (use same files_okD [OF inv f] request_dead(3) [OF inv] op in simp_all)

end

subsection \<open>New objects\<close>

definition open_file :: "ref \<Rightarrow> locals \<Rightarrow> locals" where
  "open_file f L = L\<lparr> lc_open := (lc_open L)(f := True) \<rparr>"

definition close_file :: "ref \<Rightarrow> locals \<Rightarrow> locals" where
  "close_file f L = L\<lparr> lc_open := (lc_open L)(f := False) \<rparr>"

lemma open_close_simps [simp]:
  "lc_requests (open_file f L) = lc_requests L" "lc_mappings (open_file f L) = lc_mappings L"
  "lc_files (open_file f L) = lc_files L" "lc_probe (open_file f L) = lc_probe L"
  "lc_open (open_file f L) i = (i = f \<or> lc_open L i)"
  "lc_requests (close_file f L) = lc_requests L" "lc_mappings (close_file f L) = lc_mappings L"
  "lc_files (close_file f L) = lc_files L" "lc_probe (close_file f L) = lc_probe L"
  "lc_open (close_file f L) i = (i \<noteq> f \<and> lc_open L i)"
  by (simp_all add: open_file_def close_file_def)

text \<open>The reference of the descriptor becomes the one that \<open>vams_release\<close> puts.\<close>

lemma close_file_hinv:
  assumes inv: "hinv tab L s" and f: "h_files s f = Some fl" and op: "lc_open L f"
    and empty: "tab (vf_mappings fl) = Map.empty" "tab (vf_requests fl) = Map.empty"
  shows "hinv tab (add_file (Some f) (close_file f L)) s" (is "hinv tab ?L s")
proof (rule hinvI)
  show "files_ok tab ?L s"
  proof (rule files_okI)
    fix i assume "h_files s i = None"
    then show "file_owned s i = {} \<and> lc_files ?L i = 0 \<and> \<not> lc_open ?L i" using file_dead [OF inv, of i] f by auto
  next
    fix i v assume "h_files s i = Some v"
    then show "vf_refs v = of_bool (lc_open ?L i) + card (file_owned s i) + lc_files ?L i \<and> 0 < vf_refs v \<and>
      (\<not> lc_open ?L i \<longrightarrow> tab (vf_mappings v) = Map.empty \<and> tab (vf_requests v) = Map.empty)"
      using files_okD [OF inv, of i v] f op empty by (cases "i = f") auto
  qed (rule holders_finite [OF inv])
  show "requests_ok tab ?L s" by (rule requests_ok_same [OF hinv_parts(1) [OF inv]]) simp_all
  show "mappings_ok tab ?L s" by (rule mappings_ok_same [OF hinv_parts(2) [OF inv]]) simp_all
  show "device_ok tab ?L s" by (rule device_ok_same [OF hinv_parts(4) [OF inv]]) simp_all
qed (use hinv_parts [OF inv] in simp_all)

lemma new_file_hinv:
  assumes inv: "hinv tab L s" and f: "h_files s f = None" and d: "h_dev s = Some dev"
    and fl: "vf_refs fl = 1" "tab (vf_mappings fl) = Map.empty" "tab (vf_requests fl) = Map.empty"
  shows "hinv tab (open_file f L) (set_file f fl (set_dev (dev\<lparr> vd_refs := vd_refs dev + 1 \<rparr>) s))"
    (is "hinv tab ?L ?s")
proof -
  have same: "req_dev tab ?s = req_dev tab s" "req_file tab ?s = req_file tab s" "map_file tab ?s = map_file tab s"
    "map_source ?s = map_source s" "map_destination ?s = map_destination s" "file_owned ?s = file_owned s"
    using f d fl by (auto simp: holder_defs set_file_def set_dev_def fun_eq_iff split: if_splits)
  note proj = set_file_def set_dev_def
  show ?thesis
  proof (rule hinvI)
    show "files_ok tab ?L ?s"
    proof (rule files_okI)
      fix i assume "h_files ?s i = None"
      then show "file_owned ?s i = {} \<and> lc_files ?L i = 0 \<and> \<not> lc_open ?L i"
        using file_dead [OF inv, of i] unfolding same by (cases "i = f") (simp_all add: proj)
    next
      fix i v assume v: "h_files ?s i = Some v"
      show "vf_refs v = of_bool (lc_open ?L i) + card (file_owned ?s i) + lc_files ?L i \<and> 0 < vf_refs v \<and>
        (\<not> lc_open ?L i \<longrightarrow> tab (vf_mappings v) = Map.empty \<and> tab (vf_requests v) = Map.empty)"
        using v files_okD [OF inv, of i v] file_dead [OF inv f] fl unfolding same
        by (cases "i = f") (auto simp: proj)
    qed (use holders_finite(5) [OF inv] in \<open>simp add: proj\<close>)
    have "card (insert f (dom (h_files s))) = Suc (card (dom (h_files s)))"
      using holders_finite(5) [OF inv] f by (simp add: card_insert_if domIff)
    then show "device_ok tab ?L ?s"
      using device_okD [OF inv d] by (simp add: device_ok_def proj)
    show "requests_ok tab ?L ?s" by (rule requests_ok_same [OF hinv_parts(1) [OF inv] _ same(1,2)]) (simp_all add: proj)
    show "mappings_ok tab ?L ?s" by (rule mappings_ok_same [OF hinv_parts(2) [OF inv] _ same(3-5)]) (simp_all add: proj)
    show "tables_ok tab ?s" by (rule tables_ok_same [OF hinv_parts(5) [OF inv] _ same(1,2)]) (simp_all add: proj)
    show "pages_ok ?s" by (rule pages_ok_same [OF hinv_parts(6) [OF inv]]) (simp_all add: proj)
  qed
qed

lemma new_mapping_hinv:
  assumes inv: "hinv tab L s" and m: "h_mappings s m = None" and one: "mp_refs mapping = 1"
  shows "hinv tab (add_mapping (Some m) L) (s\<lparr> h_mappings := (h_mappings s)(m \<mapsto> mapping),
    h_pinned := h_pinned s + unat (mp_npages mapping), h_dma_maps := h_dma_maps s + 1 \<rparr>)" (is "hinv tab ?L ?s")
proof -
  have same: "req_dev tab ?s = req_dev tab s" "req_file tab ?s = req_file tab s" "map_file tab ?s = map_file tab s"
    "map_source ?s = map_source s" "map_destination ?s = map_destination s" "file_owned ?s = file_owned s"
    by (simp_all add: holder_defs fun_eq_iff)
  show ?thesis
  proof (rule hinvI)
    show "mappings_ok tab ?L ?s"
    proof (rule mappings_okI)
      fix i assume "h_mappings ?s i = None"
      then show "map_file tab ?s i = {} \<and> map_source ?s i = {} \<and> map_destination ?s i = {} \<and> lc_mappings ?L i = 0"
        using mapping_dead [OF inv, of i] unfolding same by (cases "i = m") auto
    next
      fix i v assume "h_mappings ?s i = Some v"
      then show "mp_refs v = card (map_file tab ?s i) + card (map_source ?s i) + card (map_destination ?s i) +
          lc_mappings ?L i \<and> 0 < mp_refs v"
        using mappings_okD [OF inv, of i v] mapping_dead [OF inv m] one unfolding same by (cases "i = m") auto
    qed
    show "requests_ok tab ?L ?s" by (rule requests_ok_same [OF hinv_parts(1) [OF inv] _ same(1,2)]) simp_all
    show "files_ok tab ?L ?s" by (rule files_ok_same [OF hinv_parts(3) [OF inv] _ same(6)]) simp_all
    show "device_ok tab ?L ?s" by (rule device_ok_same [OF hinv_parts(4) [OF inv]]) simp_all
    show "tables_ok tab ?s" by (rule tables_ok_same [OF hinv_parts(5) [OF inv] _ same(1,2)]) simp_all
    have "(\<Sum>i \<in> dom (h_mappings s). unat (mp_npages (the (((h_mappings s)(m \<mapsto> mapping)) i)))) =
        (\<Sum>i \<in> dom (h_mappings s). unat (mp_npages (the (h_mappings s i))))"
      using m by (intro sum.cong) auto
    then show "pages_ok ?s" using hinv_parts(6) [OF inv] m by (simp add: pages_ok_def domIff)
  qed
qed

lemma request_attach:
  assumes inv: "hinv tab (add_file (rq_owner q) (add_mapping (rq_destination q) (add_mapping (rq_source q) L))) s"
      (is "hinv tab ?L0 s")
    and r: "h_requests s r = None" and one: "rq_refs q = 1"
    and owner: "rq_source q \<noteq> None \<or> rq_destination q \<noteq> None \<Longrightarrow> rq_owner q \<noteq> None"
  shows "hinv tab (add_request r L) (set_request r q s)" (is "hinv tab ?L ?s")
proof -
  note fin = holders_finite [OF inv]
  note dead = request_dead [OF inv r]
  have src: "card (map_source ?s m) = card (map_source s m) + of_bool (rq_source q = Some m)" for m
  proof (rule card_without [where r = r])
    show "finite (map_source ?s m)"
      by (rule finite_subset [of _ "insert r (map_source s m)"]) (use fin in \<open>auto simp: map_source_def set_request_def\<close>)
  qed (use r in \<open>auto simp: map_source_def set_request_def split: if_splits\<close>)
  have dst: "card (map_destination ?s m) = card (map_destination s m) + of_bool (rq_destination q = Some m)" for m
  proof (rule card_without [where r = r])
    show "finite (map_destination ?s m)"
      by (rule finite_subset [of _ "insert r (map_destination s m)"])
        (use fin in \<open>auto simp: map_destination_def set_request_def\<close>)
  qed (use r in \<open>auto simp: map_destination_def set_request_def split: if_splits\<close>)
  have own: "card (file_owned ?s f) = card (file_owned s f) + of_bool (rq_owner q = Some f)" for f
  proof (rule card_without [where r = r])
    show "finite (file_owned ?s f)"
      by (rule finite_subset [of _ "insert r (file_owned s f)"]) (use fin in \<open>auto simp: file_owned_def set_request_def\<close>)
  qed (use r in \<open>auto simp: file_owned_def set_request_def split: if_splits\<close>)
  have tabs: "req_dev tab ?s = req_dev tab s" "req_file tab ?s = req_file tab s" "map_file tab ?s = map_file tab s"
    by (simp_all add: set_request_def)
  show ?thesis
  proof (rule hinvI)
    show "requests_ok tab ?L ?s"
    proof (rule requests_okI)
      fix i assume "h_requests ?s i = None"
      then show "req_dev tab ?s i = {} \<and> req_file tab ?s i = {} \<and> lc_requests ?L i = 0"
        using request_dead [OF inv, of i] unfolding tabs by (cases "i = r") (simp_all add: set_request_def)
    next
      fix i v assume v: "h_requests ?s i = Some v"
      show "rq_refs v = card (req_dev tab ?s i) + card (req_file tab ?s i) + lc_requests ?L i \<and> 0 < rq_refs v \<and>
          (rq_source v \<noteq> None \<or> rq_destination v \<noteq> None \<longrightarrow> rq_owner v \<noteq> None)"
        using v requests_okD [OF inv, of i v] dead one owner unfolding tabs
        by (cases "i = r") (auto simp: set_request_def)
    qed (use fin in \<open>simp add: set_request_def\<close>)
    show "mappings_ok tab ?L ?s"
    proof (rule mappings_okI)
      fix m assume "h_mappings ?s m = None"
      then have "h_mappings s m = None" by (simp add: set_request_def)
      note none = mapping_dead [OF inv this]
      have "rq_source q \<noteq> Some m" "rq_destination q \<noteq> Some m" using none(4) by auto
      then show "map_file tab ?s m = {} \<and> map_source ?s m = {} \<and> map_destination ?s m = {} \<and> lc_mappings ?L m = 0"
        using none by (auto simp: tabs map_source_def map_destination_def set_request_def split: if_splits)
    next
      fix m v assume "h_mappings ?s m = Some v"
      then have "h_mappings s m = Some v" by (simp add: set_request_def)
      note live = mappings_okD [OF inv this]
      show "mp_refs v = card (map_file tab ?s m) + card (map_source ?s m) + card (map_destination ?s m) +
          lc_mappings ?L m \<and> 0 < mp_refs v"
        using live src [of m] dst [of m] unfolding tabs by simp
    qed
    show "files_ok tab ?L ?s"
    proof (rule files_okI)
      fix f assume "h_files ?s f = None"
      then have "h_files s f = None" by (simp add: set_request_def)
      note none = file_dead [OF inv this]
      then have "rq_owner q \<noteq> Some f" by auto
      then show "file_owned ?s f = {} \<and> lc_files ?L f = 0 \<and> \<not> lc_open ?L f"
        using none by (auto simp: file_owned_def set_request_def split: if_splits)
    next
      fix f v assume "h_files ?s f = Some v"
      then have "h_files s f = Some v" by (simp add: set_request_def)
      note live = files_okD [OF inv this]
      show "vf_refs v = of_bool (lc_open ?L f) + card (file_owned ?s f) + lc_files ?L f \<and> 0 < vf_refs v \<and>
          (\<not> lc_open ?L f \<longrightarrow> tab (vf_mappings v) = Map.empty \<and> tab (vf_requests v) = Map.empty)"
        using live own [of f] by simp
    qed (use fin in \<open>simp add: set_request_def\<close>)
    show "device_ok tab ?L ?s" by (rule device_ok_same [OF hinv_parts(4) [OF inv]]) (simp_all add: set_request_def)
    show "tables_ok tab ?s"
      using hinv_parts(5) [OF inv] dead unfolding tables_ok_def tabs by (auto simp: set_request_def)
    show "pages_ok ?s" by (rule pages_ok_same [OF hinv_parts(6) [OF inv]]) (simp_all add: set_request_def)
  qed
qed

context xarray_laws
begin

lemma request_alloc_ok:
  assumes inv: "hinv tab L s" and r: "h_requests s r = None" and f: "h_files s f = Some fl"
  shows "vams_request_alloc (Some r) (Some f) s = Some (Some r,
      set_request r (zero_request\<lparr> rq_refs := 1, rq_owner := Some f \<rparr>) (set_file f (fl\<lparr> vf_refs := vf_refs fl + 1 \<rparr>) s))"
    "hinv tab (add_request r L)
      (set_request r (zero_request\<lparr> rq_refs := 1, rq_owner := Some f \<rparr>) (set_file f (fl\<lparr> vf_refs := vf_refs fl + 1 \<rparr>) s))"
proof -
  show "vams_request_alloc (Some r) (Some f) s = Some (Some r,
      set_request r (zero_request\<lparr> rq_refs := 1, rq_owner := Some f \<rparr>) (set_file f (fl\<lparr> vf_refs := vf_refs fl + 1 \<rparr>) s))"
    using f by (simp add: vams_request_alloc_def set_request_def set_file_def)
  have "hinv tab (add_file (Some f) L) (set_file f (fl\<lparr> vf_refs := vf_refs fl + 1 \<rparr>) s)"
    by (rule file_refs_hinv [OF inv f]) (use files_okD [OF inv f] in simp_all)
  then show "hinv tab (add_request r L)
      (set_request r (zero_request\<lparr> rq_refs := 1, rq_owner := Some f \<rparr>) (set_file f (fl\<lparr> vf_refs := vf_refs fl + 1 \<rparr>) s))"
    by (intro request_attach) (use r in \<open>simp_all add: zero_request_def set_file_def\<close>)
qed

lemma request_alloc_unowned_ok:
  assumes inv: "hinv tab L s" and r: "h_requests s r = None"
  shows "hinv tab (add_request r L) (set_request r (zero_request\<lparr> rq_refs := 1 \<rparr>) s)"
  by (rule request_attach) (use inv r in \<open>simp_all add: zero_request_def\<close>)

lemma request_link_hinv:
  assumes inv: "hinv tab (add_request r (add_mapping dst (add_mapping src L))) s" and q: "h_requests s r = Some q"
    and fresh: "rq_refs q = 1" "rq_source q = None" "rq_destination q = None" "rq_owner q \<noteq> None"
  shows "hinv tab (add_request r L) (set_request r (q\<lparr> rq_source := src, rq_destination := dst \<rparr>) s)"
proof -
  let ?s0 = "s\<lparr> h_requests := (h_requests s)(r := None) \<rparr>"
  have "hinv tab (add_file (rq_owner q) (add_mapping dst (add_mapping src L))) ?s0"
    using request_detach [OF inv q fresh(1)] fresh by simp
  then have "hinv tab (add_request r L) (set_request r (q\<lparr> rq_source := src, rq_destination := dst \<rparr>) ?s0)"
    by (intro request_attach) (use fresh in simp_all)
  then show ?thesis by (simp add: set_request_def)
qed

end

end
