(* ===== verification/Vams_Pci_Queue.thy ===== *)
theory Vams_Pci_Queue
  imports Vams_Pci_Refs
begin

text \<open>
  The rings and interrupts of the host driver (\<open>kernel/vams_pci.c\<close>): register access, ring memory,
  completion handling, reset observation, cancellation, queue configuration, the interrupt handlers,
  command identifiers and submission. Each function runs to completion in one step; a register
  access while BAR0 is not mapped, an access to freed memory and a ring index out of range are
  faults.
\<close>

subsection \<open>Registers\<close>

definition vams_readl :: "('w, 'x) linux \<Rightarrow> u32 \<Rightarrow> ('w, 'x) host \<Rightarrow> (u32 \<times> ('w, 'x) host) option" where
  "vams_readl k offset s = do {
     c_assert (R_iomap \<in> h_res s);
     let (v, w) = ioread32 k offset (h_w s);
     Some (v, s\<lparr> h_w := w \<rparr>)
   }"

definition vams_writel :: "('w, 'x) linux \<Rightarrow> u32 \<Rightarrow> u32 \<Rightarrow> ('w, 'x) host \<Rightarrow> ('w, 'x) host option" where
  "vams_writel k offset v s = do {
     c_assert (R_iomap \<in> h_res s);
     Some (s\<lparr> h_w := iowrite32 k v offset (h_w s) \<rparr>)
   }"

definition vams_mask_interrupts :: "('w, 'x) linux \<Rightarrow> ('w, 'x) host \<Rightarrow> ('w, 'x) host option" where
  "vams_mask_interrupts k s = do {
     s \<leftarrow> vams_writel k VAMS_REG_INTR_MASK VAMS_INTR_ALL s;
     (_, s) \<leftarrow> vams_readl k VAMS_REG_INTR_MASK s;
     Some s
   }"

subsection \<open>Ring memory\<close>

text \<open>
  \<open>sq_mem\<close> and \<open>cq_mem\<close> are the results of the two calls of \<open>dma_alloc_coherent\<close>: a bus address, or
  null. The memory comes zeroed.
\<close>

definition vams_alloc_queues ::
    "u64 option \<Rightarrow> u64 option \<Rightarrow> ('w, 'x) host \<Rightarrow> (rc \<times> ('w, 'x) host) option" where
  "vams_alloc_queues sq_mem cq_mem s = do {
     dev \<leftarrow> h_dev s;
     case sq_mem of
       None \<Rightarrow> Some (RC_ERR ENOMEM, set_dev (dev\<lparr> vd_sq := None \<rparr>) s)
     | Some sq_dma \<Rightarrow> (case cq_mem of
         None \<Rightarrow> Some (RC_ERR ENOMEM, set_dev (dev\<lparr> vd_sq := None, vd_sq_dma := sq_dma, vd_cq := None \<rparr>) s)
       | Some cq_dma \<Rightarrow>
           if sq_dma AND 63 \<noteq> 0 \<or> cq_dma AND 63 \<noteq> 0
           then Some (RC_ERR EFAULT, set_dev (dev\<lparr> vd_sq := None, vd_sq_dma := sq_dma,
             vd_cq := None, vd_cq_dma := cq_dma \<rparr>) s)
           else Some (RC_OK, (set_dev (dev\<lparr>
             vd_sq := Some (replicate (unat VAMS_QUEUE_DEPTH) zero_submission), vd_sq_dma := sq_dma,
             vd_cq := Some (replicate (unat VAMS_QUEUE_DEPTH) zero_completion), vd_cq_dma := cq_dma \<rparr>) s)
             \<lparr> h_res := h_res s \<union> {R_sq, R_cq} \<rparr>))
   }"

definition vams_free_queues :: "('w, 'x) host \<Rightarrow> ('w, 'x) host option" where
  "vams_free_queues s = do {
     dev \<leftarrow> h_dev s;
     c_assert (vd_cq dev \<noteq> None \<longrightarrow> R_cq \<in> h_res s);
     c_assert (vd_sq dev \<noteq> None \<longrightarrow> R_sq \<in> h_res s);
     Some ((set_dev (dev\<lparr> vd_cq := None, vd_sq := None \<rparr>) s)\<lparr> h_res := h_res s -
       (if vd_cq dev \<noteq> None then {R_cq} else {}) - (if vd_sq dev \<noteq> None then {R_sq} else {}) \<rparr>)
   }"

subsection \<open>Completions\<close>

text \<open>
  The end of a request, common to its completion and its cancellation: \<open>complete_all\<close>, the count of
  the owner unless it is closing, the count of the device, and the reference of the table.
\<close>

definition notify_owner :: "vams_request \<Rightarrow> ('w, 'x) host \<Rightarrow> ('w, 'x) host option" where
  "notify_owner request s =
     (case rq_owner request of
        None \<Rightarrow> Some s
      | Some f \<Rightarrow> do {
          file \<leftarrow> h_files s f;
          if vf_closing file then Some s
          else Some (set_file f (file\<lparr> vf_completed_requests := vf_completed_requests file + 1 \<rparr>) s) })"

definition end_request :: "exec_context \<Rightarrow> ref \<Rightarrow> ('w, 'x) host \<Rightarrow> ('w, 'x) host option" where
  "end_request ctx r s = do {
     s \<leftarrow> vams_request_sync_for_cpu r s;
     request \<leftarrow> h_requests s r;
     let s = set_request r (request\<lparr> rq_done := True \<rparr>) s;
     s \<leftarrow> notify_owner request s;
     dev \<leftarrow> h_dev s;
     let s = set_dev (dev\<lparr> vd_pending_requests := vd_pending_requests dev - 1 \<rparr>) s;
     vams_request_put ctx r s
   }"

definition vams_finish_request ::
    "('w, 'x) linux \<Rightarrow> vams_completion \<Rightarrow> ('w, 'x) host \<Rightarrow> (bool \<times> ('w, 'x) host) option" where
  "vams_finish_request k completion s = do {
     dev \<leftarrow> h_dev s;
     let (found, x) = xa_erase k (cpl_command_id completion) (vd_requests dev);
     let s = set_dev (dev\<lparr> vd_requests := x \<rparr>) s;
     case found of
       None \<Rightarrow> Some (False, s)
     | Some r \<Rightarrow> do {
         request \<leftarrow> h_requests s r;
         let s = set_request r (request\<lparr> rq_result := completion, rq_driver_status := RC_OK \<rparr>) s;
         s \<leftarrow> end_request Atomic r s;
         Some (True, s) }
   }"

text \<open>
  The loop of \<open>vams_drain_cq\<close>, which runs under \<open>cq_lock\<close>; the result counts the entries consumed.
  Fuel \<open>VAMS_QUEUE_DEPTH\<close> covers a full ring; running out of it is a fault.
\<close>

primrec drain_loop ::
    "('w, 'x) linux \<Rightarrow> u32 \<Rightarrow> nat \<Rightarrow> nat \<Rightarrow> ('w, 'x) host \<Rightarrow> (nat \<times> ('w, 'x) host) option" where
  "drain_loop k tail drained 0 s = do {
     dev \<leftarrow> h_dev s;
     if vd_cq_head dev = tail then Some (drained, s) else None
   }"
| "drain_loop k tail drained (Suc fuel) s = do {
     dev \<leftarrow> h_dev s;
     if vd_cq_head dev = tail then Some (drained, s)
     else do {
       cq \<leftarrow> vd_cq dev;
       c_assert (unat (vd_cq_head dev) < length cq);
       let completion = cq ! unat (vd_cq_head dev);
       let s = set_dev (dev\<lparr> vd_cq_head := (vd_cq_head dev + 1) AND (VAMS_QUEUE_DEPTH - 1) \<rparr>) s;
       (_, s) \<leftarrow> vams_finish_request k completion s;
       drain_loop k tail (drained + 1) fuel s
     }
   }"

definition vams_drain_cq :: "('w, 'x) linux \<Rightarrow> ('w, 'x) host \<Rightarrow> (nat \<times> ('w, 'x) host) option" where
  "vams_drain_cq k s = do {
     dev \<leftarrow> h_dev s;
     if \<not> vd_queues_ready dev then Some (0, s)
     else do {
       (tail, s) \<leftarrow> vams_readl k VAMS_REG_CQ_TAIL s;
       if tail \<ge> VAMS_QUEUE_DEPTH then Some (0, s)
       else do {
         (drained, s) \<leftarrow> drain_loop k tail 0 (unat VAMS_QUEUE_DEPTH) s;
         if drained \<noteq> 0 then do {
           dev \<leftarrow> h_dev s;
           s \<leftarrow> vams_writel k VAMS_REG_CQ_DOORBELL (vd_cq_head dev) s;
           Some (drained, s)
         } else Some (drained, s)
       }
     }
   }"

subsection \<open>Resets, polling and cancellation\<close>

definition vams_observe_reset :: "('w, 'x) linux \<Rightarrow> ('w, 'x) host \<Rightarrow> ('w, 'x) host option" where
  "vams_observe_reset k s = do {
     (generation, s) \<leftarrow> vams_readl k VAMS_REG_RESET_GENERATION s;
     dev \<leftarrow> h_dev s;
     if generation = vd_reset_generation dev then Some s
     else do {
       (reason, s) \<leftarrow> vams_readl k VAMS_REG_LAST_RESET_REASON s;
       Some (set_dev (dev\<lparr> vd_reset_reason := reason, vd_reset_generation := generation,
         vd_reset_work := True \<rparr>) s)
     }
   }"

text \<open>Running a work item takes it off its queue first.\<close>

definition vams_cq_poll_work :: "('w, 'x) linux \<Rightarrow> ('w, 'x) host \<Rightarrow> ('w, 'x) host option" where
  "vams_cq_poll_work k s = do {
     dev \<leftarrow> h_dev s;
     let s = set_dev (dev\<lparr> vd_cq_poll_work := False \<rparr>) s;
     if vd_removing dev then Some s
     else do {
       s \<leftarrow> vams_observe_reset k s;
       (_, s) \<leftarrow> vams_drain_cq k s;
       dev \<leftarrow> h_dev s;
       if vd_pending_requests dev > 0 then Some (set_dev (dev\<lparr> vd_cq_poll_work := True \<rparr>) s)
       else Some s
     }
   }"

definition cancel_request ::
    "('w, 'x) linux \<Rightarrow> rc \<Rightarrow> bool \<Rightarrow> u32 \<Rightarrow> ('w, 'x) host \<Rightarrow> ('w, 'x) host option" where
  "cancel_request k status stale_only command_id s = do {
     dev \<leftarrow> h_dev s;
     case xa_load k (vd_requests dev) command_id of
       None \<Rightarrow> Some s
     | Some r \<Rightarrow> do {
         request \<leftarrow> h_requests s r;
         if stale_only \<and> rq_reset_generation request = vd_reset_generation dev then Some s
         else do {
           let s = set_dev (dev\<lparr> vd_requests := snd (xa_erase k command_id (vd_requests dev)) \<rparr>) s;
           let s = set_request r (request\<lparr> rq_driver_status := status \<rparr>) s;
           end_request Process r s
         } }
   }"

primrec cancel_loop ::
    "('w, 'x) linux \<Rightarrow> rc \<Rightarrow> bool \<Rightarrow> u32 list \<Rightarrow> ('w, 'x) host \<Rightarrow> ('w, 'x) host option" where
  "cancel_loop k status stale_only [] s = Some s"
| "cancel_loop k status stale_only (command_id # ids) s =
     cancel_request k status stale_only command_id s \<bind> cancel_loop k status stale_only ids"

definition vams_cancel_requests ::
    "('w, 'x) linux \<Rightarrow> rc \<Rightarrow> bool \<Rightarrow> ('w, 'x) host \<Rightarrow> ('w, 'x) host option" where
  "vams_cancel_requests k status stale_only s = do {
     dev \<leftarrow> h_dev s;
     cancel_loop k status stale_only (xa_keys k (vd_requests dev)) s
   }"

definition vams_reset_work :: "('w, 'x) linux \<Rightarrow> ('w, 'x) host \<Rightarrow> ('w, 'x) host option" where
  "vams_reset_work k s = do {
     dev \<leftarrow> h_dev s;
     let dev = dev\<lparr> vd_reset_work := False \<rparr>;
     if vd_removing dev then Some (set_dev dev s)
     else do {
       let dev = (if vd_reset_reason dev = VAMS_RESET_REASON_HOST_DEVICE \<or>
                     vd_reset_reason dev = VAMS_RESET_REASON_HOST_QUEUE
                  then dev\<lparr> vd_queues_ready := False \<rparr> else dev);
       vams_cancel_requests k (RC_ERR ECANCELED) True (set_dev dev s)
     }
   }"

subsection \<open>Queue configuration\<close>

definition vams_disable_queues :: "('w, 'x) linux \<Rightarrow> ('w, 'x) host \<Rightarrow> ('w, 'x) host option" where
  "vams_disable_queues k s = do {
     dev \<leftarrow> h_dev s;
     if \<not> vd_queues_ready dev then Some s
     else do {
       s \<leftarrow> vams_writel k VAMS_REG_DEVICE_CONTROL VAMS_DEVICE_QUIESCE s;
       s \<leftarrow> vams_writel k VAMS_REG_SQ_CONTROL VAMS_QUEUE_RESET s;
       (_, s) \<leftarrow> vams_readl k VAMS_REG_DEVICE_STATUS s;
       Some (set_dev (dev\<lparr> vd_queues_ready := False \<rparr>) s)
     }
   }"

definition program_rings :: "('w, 'x) linux \<Rightarrow> ('w, 'x) host \<Rightarrow> ('w, 'x) host option" where
  "program_rings k s = do {
     dev \<leftarrow> h_dev s;
     s \<leftarrow> vams_writel k VAMS_REG_CQ_BASE_LO (ucast (vd_cq_dma dev)) s;
     s \<leftarrow> vams_writel k VAMS_REG_CQ_BASE_HI (ucast (drop_bit 32 (vd_cq_dma dev))) s;
     s \<leftarrow> vams_writel k VAMS_REG_CQ_DEPTH VAMS_QUEUE_DEPTH s;
     s \<leftarrow> (if vd_capabilities dev AND VAMS_CAP_CQ_WATERMARK \<noteq> 0
          then vams_writel k VAMS_REG_CQ_WATERMARK
            (push_bit 16 VAMS_CQ_WATERMARK_HIGH OR VAMS_CQ_WATERMARK_LOW) s
          else Some s);
     s \<leftarrow> vams_writel k VAMS_REG_SQ_BASE_LO (ucast (vd_sq_dma dev)) s;
     s \<leftarrow> vams_writel k VAMS_REG_SQ_BASE_HI (ucast (drop_bit 32 (vd_sq_dma dev))) s;
     s \<leftarrow> vams_writel k VAMS_REG_SQ_DEPTH VAMS_QUEUE_DEPTH s;
     s \<leftarrow> vams_writel k VAMS_REG_CQ_CONTROL VAMS_QUEUE_ENABLE s;
     vams_writel k VAMS_REG_SQ_CONTROL VAMS_QUEUE_ENABLE s
   }"

definition reset_failed :: "('w, 'x) linux \<Rightarrow> ('w, 'x) host \<Rightarrow> (rc \<times> ('w, 'x) host) option" where
  "reset_failed k s = do {
     s \<leftarrow> vams_disable_queues k s;
     Some (RC_ERR EIO, s)
   }"

definition vams_configure_queues :: "('w, 'x) linux \<Rightarrow> ('w, 'x) host \<Rightarrow> (rc \<times> ('w, 'x) host) option" where
  "vams_configure_queues k s = do {
     s \<leftarrow> program_rings k s;
     dev \<leftarrow> h_dev s;
     let s = set_dev (dev\<lparr> vd_queues_ready := True \<rparr>) s;
     (status, s) \<leftarrow> vams_readl k VAMS_REG_CQ_STATUS s;
     if status AND VAMS_QUEUE_STATUS_ENABLED = 0 then reset_failed k s
     else do {
       (status, s) \<leftarrow> vams_readl k VAMS_REG_SQ_STATUS s;
       if status AND VAMS_QUEUE_STATUS_ENABLED = 0 then reset_failed k s
       else do {
         dev \<leftarrow> h_dev s;
         let s = set_dev (dev\<lparr> vd_sq_tail := 0, vd_cq_head := 0 \<rparr>) s;
         s \<leftarrow> vams_writel k VAMS_REG_DEVICE_CONTROL VAMS_DEVICE_ENABLE s;
         (status, s) \<leftarrow> vams_readl k VAMS_REG_DEVICE_STATUS s;
         if status AND VAMS_STATUS_QUEUES_READY = 0 then reset_failed k s
         else Some (RC_OK, s)
       }
     }
   }"

subsection \<open>Interrupt handlers\<close>

datatype irqreturn = IRQ_NONE | IRQ_HANDLED

definition vams_cq_irq :: "('w, 'x) linux \<Rightarrow> ('w, 'x) host \<Rightarrow> (irqreturn \<times> ('w, 'x) host) option" where
  "vams_cq_irq k s = do {
     (status, s) \<leftarrow> vams_readl k VAMS_REG_INTR_STATUS s;
     let pending = status AND VAMS_INTR_CQ;
     if pending = 0 then Some (IRQ_NONE, s)
     else do {
       (_, s) \<leftarrow> vams_drain_cq k s;
       s \<leftarrow> vams_writel k VAMS_REG_INTR_STATUS pending s;
       dev \<leftarrow> h_dev s;
       Some (IRQ_HANDLED, set_dev (dev\<lparr> vd_cq_interrupts := vd_cq_interrupts dev + 1 \<rparr>) s)
     }
   }"

definition vams_async_irq :: "('w, 'x) linux \<Rightarrow> ('w, 'x) host \<Rightarrow> (irqreturn \<times> ('w, 'x) host) option" where
  "vams_async_irq k s = do {
     (status, s) \<leftarrow> vams_readl k VAMS_REG_INTR_STATUS s;
     let pending = status AND VAMS_INTR_ASYNC;
     if pending = 0 then Some (IRQ_NONE, s)
     else do {
       s \<leftarrow> (if pending AND VAMS_INTR_ERROR \<noteq> 0 then do {
               (error, s) \<leftarrow> vams_readl k VAMS_REG_ERROR_STATUS s;
               (fatal, s) \<leftarrow> vams_readl k VAMS_REG_LAST_FATAL s;
               Some s }
             else Some s);
       s \<leftarrow> (if pending AND VAMS_INTR_RESET_DONE \<noteq> 0 then vams_observe_reset k s else Some s);
       s \<leftarrow> vams_writel k VAMS_REG_INTR_STATUS pending s;
       dev \<leftarrow> h_dev s;
       Some (IRQ_HANDLED, set_dev (dev\<lparr> vd_async_interrupts := vd_async_interrupts dev + 1 \<rparr>) s)
     }
   }"

subsection \<open>Command identifiers\<close>

text \<open>
  The second half of an attempt of \<open>vams_track_request\<close>: the entry in the table of the device, undone
  on failure together with the entry in the table of the owner.
\<close>

definition track_device ::
    "('w, 'x) linux \<Rightarrow> ref \<Rightarrow> u32 \<Rightarrow> ('w, 'x) host \<Rightarrow> (rc \<times> ('w, 'x) host) option" where
  "track_device k r command_id s = do {
     s \<leftarrow> vams_request_get r s;
     dev \<leftarrow> h_dev s;
     let (ret, x) = xa_insert k command_id r (vd_requests dev);
     let s = set_dev (dev\<lparr> vd_requests := x \<rparr>) s;
     if ret = RC_OK then Some (RC_OK, s)
     else do {
       s \<leftarrow> vams_request_put Process r s;
       request \<leftarrow> h_requests s r;
       case rq_owner request of
         None \<Rightarrow> Some (ret, s)
       | Some f \<Rightarrow> do {
           file \<leftarrow> h_files s f;
           Some (ret, set_file f (file\<lparr> vf_requests := snd (xa_erase k command_id (vf_requests file)) \<rparr>) s) }
     }
   }"

text \<open>
  One attempt with a nonzero identifier. The entry in the table of the owner takes over the
  reference the request was allocated with.
\<close>

definition track_attempt ::
    "('w, 'x) linux \<Rightarrow> ref \<Rightarrow> u32 \<Rightarrow> ('w, 'x) host \<Rightarrow> (rc \<times> ('w, 'x) host) option" where
  "track_attempt k r command_id s = do {
     request \<leftarrow> h_requests s r;
     let s = set_request r (request\<lparr> rq_command_id := command_id \<rparr>) s;
     case rq_owner request of
       None \<Rightarrow> track_device k r command_id s
     | Some f \<Rightarrow> do {
         file \<leftarrow> h_files s f;
         let (ret, x) = xa_insert k command_id r (vf_requests file);
         let s = set_file f (file\<lparr> vf_requests := x \<rparr>) s;
         if ret \<noteq> RC_OK then Some (ret, s) else track_device k r command_id s }
   }"

primrec track_loop ::
    "('w, 'x) linux \<Rightarrow> ref \<Rightarrow> nat \<Rightarrow> ('w, 'x) host \<Rightarrow> (rc \<times> ('w, 'x) host) option" where
  "track_loop k r 0 s = Some (RC_ERR ENOSPC, s)"
| "track_loop k r (Suc attempts) s = do {
     dev \<leftarrow> h_dev s;
     let command_id = vd_next_command_id dev + 1;
     let s = set_dev (dev\<lparr> vd_next_command_id := command_id \<rparr>) s;
     if command_id = 0 then track_loop k r attempts s
     else do {
       (ret, s) \<leftarrow> track_attempt k r command_id s;
       if ret = RC_ERR EBUSY then track_loop k r attempts s else Some (ret, s)
     }
   }"

definition vams_track_request ::
    "('w, 'x) linux \<Rightarrow> ref \<Rightarrow> ('w, 'x) host \<Rightarrow> (rc \<times> ('w, 'x) host) option" where
  "vams_track_request k r s = track_loop k r (unat VAMS_QUEUE_DEPTH * 2) s"

subsection \<open>Submission\<close>

definition publish_submission ::
    "('w, 'x) linux \<Rightarrow> ref \<Rightarrow> vams_submission \<Rightarrow> u32 \<Rightarrow> ('w, 'x) host \<Rightarrow> ('w, 'x) host option" where
  "publish_submission k r descriptor next_tail s = do {
     dev \<leftarrow> h_dev s;
     sq \<leftarrow> vd_sq dev;
     c_assert (unat (vd_sq_tail dev) < length sq);
     request \<leftarrow> h_requests s r;
     let sq = sq[unat (vd_sq_tail dev) := descriptor\<lparr> sub_command_id := rq_command_id request \<rparr>];
     let s = set_dev (dev\<lparr> vd_sq := Some sq \<rparr>) s;
     s \<leftarrow> vams_request_sync_for_device r s;
     dev \<leftarrow> h_dev s;
     let s = set_request r (request\<lparr> rq_reset_generation := vd_reset_generation dev \<rparr>) s;
     let pending = vd_pending_requests dev + 1;
     let s = set_dev (dev\<lparr> vd_pending_requests := pending, vd_sq_tail := next_tail \<rparr>) s;
     s \<leftarrow> vams_writel k VAMS_REG_SQ_DOORBELL next_tail s;
     if pending > 0
     then Some (set_dev (dev\<lparr> vd_pending_requests := pending, vd_sq_tail := next_tail,
       vd_cq_poll_work := True \<rparr>) s)
     else Some s
   }"

definition vams_submit ::
    "('w, 'x) linux \<Rightarrow> ref \<Rightarrow> vams_submission \<Rightarrow> ('w, 'x) host \<Rightarrow> (rc \<times> ('w, 'x) host) option" where
  "vams_submit k r descriptor s = do {
     dev \<leftarrow> h_dev s;
     if vd_removing dev then Some (RC_ERR ENODEV, s)
     else if \<not> vd_queues_ready dev then Some (RC_ERR EOPNOTSUPP, s)
     else do {
       (_, s) \<leftarrow> vams_drain_cq k s;
       (sq_head, s) \<leftarrow> vams_readl k VAMS_REG_SQ_HEAD s;
       if sq_head \<ge> VAMS_QUEUE_DEPTH then Some (RC_ERR EIO, s)
       else do {
         dev \<leftarrow> h_dev s;
         let next_tail = (vd_sq_tail dev + 1) AND (VAMS_QUEUE_DEPTH - 1);
         if next_tail = sq_head then Some (RC_ERR EAGAIN, s)
         else do {
           (ret, s) \<leftarrow> vams_track_request k r s;
           if ret \<noteq> RC_OK then Some (ret, s)
           else do {
             s \<leftarrow> publish_submission k r descriptor next_tail s;
             Some (RC_OK, s)
           }
         }
       }
     }
   }"

definition vams_submit_nop ::
    "('w, 'x) linux \<Rightarrow> ref \<Rightarrow> u64 \<Rightarrow> u32 \<Rightarrow> ('w, 'x) host \<Rightarrow> (rc \<times> ('w, 'x) host) option" where
  "vams_submit_nop k r user_cookie timeout_ms s =
     vams_submit k r (zero_submission\<lparr> sub_version := VAMS_DESC_VERSION_1, sub_opcode := VAMS_OP_NOP,
       sub_timeout_ms := timeout_ms, sub_user_cookie := user_cookie \<rparr>) s"

end
