(* ===== verification/Vams_Pci_Rings.thy ===== *)
theory Vams_Pci_Rings
  imports Vams_Pci_Queue
begin

text \<open>
  The queue operations of the host driver keep the invariant \<open>dinv\<close>: the reference counts of
  \<open>hinv\<close>, the shape of the rings with the count of pending requests, and that a completed request a
  file can still collect is announced by its counter. None of them faults, and \<open>vams_drain_cq\<close>
  consumes the ring up to the tail within its fuel.
\<close>

subsection \<open>The invariant\<close>

definition rings_ok :: "('x \<Rightarrow> u32 \<Rightarrow> ref option) \<Rightarrow> ('w, 'x) host \<Rightarrow> bool" where
  "rings_ok tab s \<longleftrightarrow> (\<forall>dev. h_dev s = Some dev \<longrightarrow>
     vd_sq_tail dev < VAMS_QUEUE_DEPTH \<and> vd_cq_head dev < VAMS_QUEUE_DEPTH \<and>
     (\<forall>sq. vd_sq dev = Some sq \<longrightarrow> length sq = unat VAMS_QUEUE_DEPTH) \<and>
     (\<forall>cq. vd_cq dev = Some cq \<longrightarrow> length cq = unat VAMS_QUEUE_DEPTH) \<and>
     (vd_sq dev \<noteq> None \<longleftrightarrow> R_sq \<in> h_res s) \<and> (vd_cq dev \<noteq> None \<longleftrightarrow> R_cq \<in> h_res s) \<and>
     (vd_queues_ready dev \<longrightarrow> {R_iomap, R_sq, R_cq} \<subseteq> h_res s) \<and>
     vd_pending_requests dev = int (card (dom (tab (vd_requests dev)))))"

definition done_entries :: "('x \<Rightarrow> u32 \<Rightarrow> ref option) \<Rightarrow> ('w, 'x) host \<Rightarrow> 'x vams_file \<Rightarrow> u32 set" where
  "done_entries tab s file =
     {i. \<exists>r q. tab (vf_requests file) i = Some r \<and> h_requests s r = Some q \<and> rq_done q}"

definition ready_ok :: "('x \<Rightarrow> u32 \<Rightarrow> ref option) \<Rightarrow> ('w, 'x) host \<Rightarrow> bool" where
  "ready_ok tab s \<longleftrightarrow> (\<forall>f file. h_files s f = Some file \<longrightarrow> \<not> vf_closing file \<longrightarrow>
     int (card (done_entries tab s file)) \<le> vf_completed_requests file)"

definition dinv :: "('x \<Rightarrow> u32 \<Rightarrow> ref option) \<Rightarrow> locals \<Rightarrow> ('w, 'x) host \<Rightarrow> bool" where
  "dinv tab L s \<longleftrightarrow> hinv tab L s \<and> rings_ok tab s \<and> ready_ok tab s"

lemma dinv_parts:
  assumes "dinv tab L s"
  shows "hinv tab L s" "rings_ok tab s" "ready_ok tab s"
  using assms by (simp_all add: dinv_def)

lemma done_entries_cong:
  assumes "\<And>i r. tab (vf_requests fl') i = Some r \<Longrightarrow>
      (\<exists>q'. h_requests s' r = Some q' \<and> rq_done q') \<Longrightarrow> (\<exists>q. h_requests s r = Some q \<and> rq_done q)"
    "\<And>i r. tab (vf_requests fl') i = Some r \<Longrightarrow> tab (vf_requests fl) i = Some r"
  shows "done_entries tab s' fl' \<subseteq> done_entries tab s fl"
  using assms unfolding done_entries_def by fastforce

lemma shrinks_rings:
  assumes "shrinks s s'" "rings_ok tab s"
  shows "rings_ok tab s'"
proof -
  have "vd_sq_tail dev' < VAMS_QUEUE_DEPTH \<and> vd_cq_head dev' < VAMS_QUEUE_DEPTH \<and>
     (\<forall>sq. vd_sq dev' = Some sq \<longrightarrow> length sq = unat VAMS_QUEUE_DEPTH) \<and>
     (\<forall>cq. vd_cq dev' = Some cq \<longrightarrow> length cq = unat VAMS_QUEUE_DEPTH) \<and>
     (vd_sq dev' \<noteq> None \<longleftrightarrow> R_sq \<in> h_res s') \<and> (vd_cq dev' \<noteq> None \<longleftrightarrow> R_cq \<in> h_res s') \<and>
     (vd_queues_ready dev' \<longrightarrow> {R_iomap, R_sq, R_cq} \<subseteq> h_res s') \<and>
     vd_pending_requests dev' = int (card (dom (tab (vd_requests dev'))))"
    if d: "h_dev s' = Some dev'" for dev'
  proof -
    obtain dev where dev: "h_dev s = Some dev" "dev'\<lparr> vd_refs := 0 \<rparr> = dev\<lparr> vd_refs := 0 \<rparr>"
      using assms(1) d unfolding shrinks_def by blast
    obtain n where "dev' = dev\<lparr> vd_refs := n \<rparr>" by (rule vd_core [OF dev(2)])
    moreover have "h_res s' = h_res s" using assms(1) d unfolding shrinks_def by simp
    ultimately show ?thesis using assms(2) dev(1) unfolding rings_ok_def by simp
  qed
  then show ?thesis unfolding rings_ok_def by blast
qed

context xarray_laws
begin

lemma done_entries_finite: "finite (done_entries tab s fl)"
  by (rule finite_subset [of _ "dom (tab (vf_requests fl))"]) (auto simp: done_entries_def finite_tab)

lemma ready_okI:
  assumes "ready_ok tab s"
    and "\<And>f fl'. h_files s' f = Some fl' \<Longrightarrow> \<not> vf_closing fl' \<Longrightarrow>
      \<exists>fl. h_files s f = Some fl \<and> \<not> vf_closing fl \<and> vf_completed_requests fl' \<ge> vf_completed_requests fl \<and>
        done_entries tab s' fl' \<subseteq> done_entries tab s fl"
  shows "ready_ok tab s'"
  unfolding ready_ok_def
proof (intro allI impI)
  fix f fl' assume "h_files s' f = Some fl'" "\<not> vf_closing fl'"
  then obtain fl where fl: "h_files s f = Some fl" "\<not> vf_closing fl"
      "vf_completed_requests fl' \<ge> vf_completed_requests fl" "done_entries tab s' fl' \<subseteq> done_entries tab s fl"
    using assms(2) by blast
  have "card (done_entries tab s' fl') \<le> card (done_entries tab s fl)"
    by (rule card_mono [OF done_entries_finite fl(4)])
  then show "int (card (done_entries tab s' fl')) \<le> vf_completed_requests fl'"
    using assms(1) fl unfolding ready_ok_def by force
qed

lemma shrinks_ready:
  assumes "shrinks s s'" "ready_ok tab s"
  shows "ready_ok tab s'"
proof (rule ready_okI [OF assms(2)])
  fix f fl' assume "h_files s' f = Some fl'" and ncl: "\<not> vf_closing fl'"
  then obtain fl where fl: "h_files s f = Some fl" "fl'\<lparr> vf_refs := 0 \<rparr> = fl\<lparr> vf_refs := 0 \<rparr>"
    using assms(1) unfolding shrinks_def by blast
  obtain n where n: "fl' = fl\<lparr> vf_refs := n \<rparr>" by (rule vf_core [OF fl(2)])
  have "done_entries tab s' fl' \<subseteq> done_entries tab s fl"
  proof (rule done_entries_cong)
    fix i r assume "\<exists>q'. h_requests s' r = Some q' \<and> rq_done q'"
    then obtain q' where q': "h_requests s' r = Some q'" "rq_done q'" by blast
    then obtain q where q: "h_requests s r = Some q" "q'\<lparr> rq_refs := 0 \<rparr> = q\<lparr> rq_refs := 0 \<rparr>"
      using assms(1) unfolding shrinks_def by blast
    obtain m where "q' = q\<lparr> rq_refs := m \<rparr>" by (rule rq_core [OF q(2)])
    then show "\<exists>q. h_requests s r = Some q \<and> rq_done q" using q q' by auto
  qed (simp add: n)
  then show "\<exists>fl. h_files s f = Some fl \<and> \<not> vf_closing fl \<and> vf_completed_requests fl' \<ge> vf_completed_requests fl \<and>
        done_entries tab s' fl' \<subseteq> done_entries tab s fl"
    using fl(1) n ncl by auto
qed

lemma shrinks_dinv:
  assumes "hinv tab L s'" "shrinks s s'" "rings_ok tab s" "ready_ok tab s"
  shows "dinv tab L s'"
  using assms shrinks_rings shrinks_ready by (auto simp: dinv_def)

end

lemma dinv_world [simp]: "dinv tab L (s\<lparr>h_w := w\<rparr>) = dinv tab L s"
  by (simp add: dinv_def rings_ok_def ready_ok_def done_entries_def)

lemma vams_readl_Some:
  assumes "R_iomap \<in> h_res s"
  obtains v w where "vams_readl k off s = Some (v, s\<lparr> h_w := w \<rparr>)"
  using assms that by (cases "ioread32 k off (h_w s)") (auto simp: vams_readl_def)

lemma vams_writel_Some:
  assumes "R_iomap \<in> h_res s"
  obtains w where "vams_writel k off v s = Some (s\<lparr> h_w := w \<rparr>)"
  using assms that by (auto simp: vams_writel_def)

subsection \<open>Frames\<close>

text \<open>What completing requests leaves alone of the device, of a file, and of the state.\<close>

definition dev_frame :: "'x vams_device \<Rightarrow> 'x vams_device \<Rightarrow> bool" where
  "dev_frame dev dev' \<longleftrightarrow>
     dev'\<lparr> vd_requests := vd_requests dev, vd_pending_requests := 0, vd_cq_head := 0, vd_refs := 0 \<rparr> =
     dev\<lparr> vd_pending_requests := 0, vd_cq_head := 0, vd_refs := 0 \<rparr>"

definition file_frame :: "'x vams_file \<Rightarrow> 'x vams_file \<Rightarrow> bool" where
  "file_frame fl fl' \<longleftrightarrow> fl'\<lparr> vf_refs := 0, vf_completed_requests := 0 \<rparr> = fl\<lparr> vf_refs := 0, vf_completed_requests := 0 \<rparr>"

definition evolves :: "('x \<Rightarrow> u32 \<Rightarrow> ref option) \<Rightarrow> ('w, 'x) host \<Rightarrow> ('w, 'x) host \<Rightarrow> bool" where
  "evolves tab s s' \<longleftrightarrow> h_res s' = h_res s \<and>
     (\<forall>dev'. h_dev s' = Some dev' \<longrightarrow> (\<exists>dev. h_dev s = Some dev \<and> dev_frame dev dev' \<and>
        tab (vd_requests dev') \<subseteq>\<^sub>m tab (vd_requests dev))) \<and>
     (\<forall>f fl'. h_files s' f = Some fl' \<longrightarrow> (\<exists>fl. h_files s f = Some fl \<and> file_frame fl fl')) \<and>
     (\<forall>r. req_dev tab s r = {} \<longrightarrow> h_requests s' r = h_requests s r)"

lemma dev_frame_refl [simp]: "dev_frame dev dev" by (simp add: dev_frame_def)
lemma file_frame_refl [simp]: "file_frame fl fl" by (simp add: file_frame_def)

lemma dev_frame_fields:
  assumes "dev_frame dev dev'"
  shows "vd_sq dev' = vd_sq dev" "vd_cq dev' = vd_cq dev" "vd_sq_tail dev' = vd_sq_tail dev"
    "vd_queues_ready dev' = vd_queues_ready dev" "vd_removing dev' = vd_removing dev"
    "vd_next_command_id dev' = vd_next_command_id dev" "vd_reset_generation dev' = vd_reset_generation dev"
    "vd_cq_poll_work dev' = vd_cq_poll_work dev" "vd_reset_work dev' = vd_reset_work dev"
proof -
  note eq = assms [unfolded dev_frame_def]
  show "vd_sq dev' = vd_sq dev" using arg_cong [OF eq, of vd_sq] by simp
  show "vd_cq dev' = vd_cq dev" using arg_cong [OF eq, of vd_cq] by simp
  show "vd_sq_tail dev' = vd_sq_tail dev" using arg_cong [OF eq, of vd_sq_tail] by simp
  show "vd_queues_ready dev' = vd_queues_ready dev" using arg_cong [OF eq, of vd_queues_ready] by simp
  show "vd_removing dev' = vd_removing dev" using arg_cong [OF eq, of vd_removing] by simp
  show "vd_next_command_id dev' = vd_next_command_id dev" using arg_cong [OF eq, of vd_next_command_id] by simp
  show "vd_reset_generation dev' = vd_reset_generation dev" using arg_cong [OF eq, of vd_reset_generation] by simp
  show "vd_cq_poll_work dev' = vd_cq_poll_work dev" using arg_cong [OF eq, of vd_cq_poll_work] by simp
  show "vd_reset_work dev' = vd_reset_work dev" using arg_cong [OF eq, of vd_reset_work] by simp
qed

lemma file_frame_fields:
  assumes "file_frame fl fl'"
  shows "vf_requests fl' = vf_requests fl" "vf_mappings fl' = vf_mappings fl" "vf_closing fl' = vf_closing fl"
proof -
  note eq = assms [unfolded file_frame_def]
  show "vf_requests fl' = vf_requests fl" using arg_cong [OF eq, of vf_requests] by simp
  show "vf_mappings fl' = vf_mappings fl" using arg_cong [OF eq, of vf_mappings] by simp
  show "vf_closing fl' = vf_closing fl" using arg_cong [OF eq, of vf_closing] by simp
qed

lemma dev_frame_trans [trans]:
  assumes "dev_frame a b" "dev_frame b c"
  shows "dev_frame a c"
proof -
  have "c\<lparr> vd_requests := vd_requests a, vd_pending_requests := 0, vd_cq_head := 0, vd_refs := 0 \<rparr> =
      (c\<lparr> vd_requests := vd_requests b, vd_pending_requests := 0, vd_cq_head := 0, vd_refs := 0 \<rparr>)
        \<lparr> vd_requests := vd_requests a \<rparr>" by simp
  also have "\<dots> = (b\<lparr> vd_pending_requests := 0, vd_cq_head := 0, vd_refs := 0 \<rparr>)\<lparr> vd_requests := vd_requests a \<rparr>"
    using assms(2) by (simp only: dev_frame_def)
  also have "\<dots> = b\<lparr> vd_requests := vd_requests a, vd_pending_requests := 0, vd_cq_head := 0, vd_refs := 0 \<rparr>" by simp
  also have "\<dots> = a\<lparr> vd_pending_requests := 0, vd_cq_head := 0, vd_refs := 0 \<rparr>"
    using assms(1) by (simp only: dev_frame_def)
  finally show ?thesis by (simp only: dev_frame_def)
qed

lemma file_frame_trans [trans]: "file_frame a b \<Longrightarrow> file_frame b c \<Longrightarrow> file_frame a c"
  by (simp add: file_frame_def)

lemma req_dev_sub:
  assumes "evolves tab s s'" "req_dev tab s r = {}"
  shows "req_dev tab s' r = {}"
proof -
  have "i \<notin> req_dev tab s' r" for i
  proof
    assume "i \<in> req_dev tab s' r"
    then obtain dev' where d': "h_dev s' = Some dev'" "tab (vd_requests dev') i = Some r"
      by (auto simp: req_dev_def)
    then obtain dev where "h_dev s = Some dev" "tab (vd_requests dev') \<subseteq>\<^sub>m tab (vd_requests dev)"
      using assms(1) unfolding evolves_def by blast
    then have "i \<in> req_dev tab s r" using d' unfolding req_dev_def map_le_def by (metis (mono_tags, lifting) domI mem_Collect_eq)
    then show False using assms(2) by simp
  qed
  then show ?thesis by blast
qed

lemma evolves_refl [simp]: "evolves tab s s" by (simp add: evolves_def)

lemma evolves_trans [trans]:
  assumes "evolves tab s t" "evolves tab t u"
  shows "evolves tab s u"
  unfolding evolves_def
proof (intro conjI allI impI)
  show "h_res u = h_res s" using assms unfolding evolves_def by simp
next
  fix dev'' assume "h_dev u = Some dev''"
  then obtain dev' where "h_dev t = Some dev'" "dev_frame dev' dev''" "tab (vd_requests dev'') \<subseteq>\<^sub>m tab (vd_requests dev')"
    using assms(2) unfolding evolves_def by blast
  moreover obtain dev where "h_dev s = Some dev" "dev_frame dev dev'" "tab (vd_requests dev') \<subseteq>\<^sub>m tab (vd_requests dev)"
    using assms(1) calculation(1) unfolding evolves_def by blast
  ultimately show "\<exists>dev. h_dev s = Some dev \<and> dev_frame dev dev'' \<and> tab (vd_requests dev'') \<subseteq>\<^sub>m tab (vd_requests dev)"
    using dev_frame_trans map_le_trans by blast
next
  fix f fl'' assume "h_files u f = Some fl''"
  then obtain fl' where "h_files t f = Some fl'" "file_frame fl' fl''" using assms(2) unfolding evolves_def by blast
  moreover obtain fl where "h_files s f = Some fl" "file_frame fl fl'"
    using assms(1) calculation(1) unfolding evolves_def by blast
  ultimately show "\<exists>fl. h_files s f = Some fl \<and> file_frame fl fl''" using file_frame_trans by blast
next
  fix r assume "req_dev tab s r = {}"
  then show "h_requests u r = h_requests s r"
    using assms req_dev_sub [OF assms(1)] unfolding evolves_def by simp
qed

lemma evolves_world [simp]: "evolves tab s (s\<lparr> h_w := w \<rparr>)" by (simp add: evolves_def)

subsection \<open>Ending a request\<close>

lemma owner_live:
  assumes "hinv tab L s" "h_requests s r = Some q" "rq_owner q = Some f"
  obtains fl where "h_files s f = Some fl"
proof -
  have "file_owned s f \<noteq> {}" using assms by (auto simp: file_owned_def)
  then show ?thesis using file_live [OF assms(1), of f] that by blast
qed

lemma linked_mapping_live:
  assumes "hinv tab L s" "h_requests s r = Some q"
  shows "live_mapping s (rq_source q)" "live_mapping s (rq_destination q)"
proof -
  have "h_mappings s m \<noteq> None" if "rq_source q = Some m \<or> rq_destination q = Some m" for m
  proof -
    have "map_source s m \<noteq> {} \<or> map_destination s m \<noteq> {}"
      using that assms(2) by (auto simp: map_source_def map_destination_def)
    then show ?thesis using mapping_dead(2,3) [OF assms(1), of m] by blast
  qed
  then show "live_mapping s (rq_source q)" "live_mapping s (rq_destination q)"
    by (auto simp: live_mapping_def split: option.split)
qed

context xarray_laws
begin

lemma sync_for_cpu_ok:
  assumes inv: "hinv tab L s" and q: "h_requests s r = Some q"
  shows "vams_request_sync_for_cpu r s = Some s" "vams_request_sync_for_device r s = Some s"
proof -
  have "vams_request_sync_for_cpu r s = Some s"
  proof (cases "rq_source q = None \<and> rq_destination q = None")
    case True
    then show ?thesis using q by (simp add: vams_request_sync_for_cpu_def)
  next
    case False
    then obtain f where f: "rq_owner q = Some f" using requests_okD(3) [OF inv q] by auto
    obtain fl where "h_files s f = Some fl" by (rule owner_live [OF inv q f])
    moreover obtain dev where "h_dev s = Some dev" using buffers_need_device [OF inv q] False by auto
    ultimately show ?thesis
      using False q f linked_mapping_live [OF inv q] by (simp add: vams_request_sync_for_cpu_def)
  qed
  then show "vams_request_sync_for_cpu r s = Some s" "vams_request_sync_for_device r s = Some s"
    by (simp_all add: vams_request_sync_for_device_def)
qed

text \<open>Marking a request done and counting it for its owner.\<close>

lemma notify_ok:
  assumes inv: "hinv tab L s" and q: "h_requests s r = Some q" and don: "rq_done q" and ready: "ready_ok tab s0"
    and s0: "s = set_request r q s0" "h_requests s0 r = Some q0" "rq_owner q0 = rq_owner q"
      "rq_command_id q0 = rq_command_id q"
  obtains s' where "notify_owner q s = Some s'" "hinv tab L s'" "ready_ok tab s'"
    "h_requests s' = h_requests s" "h_dev s' = h_dev s" "h_res s' = h_res s" "h_mappings s' = h_mappings s"
    "\<And>f fl'. h_files s' f = Some fl' \<Longrightarrow> \<exists>fl. h_files s f = Some fl \<and> file_frame fl fl'"
proof -
  have entry: "done_entries tab s fl \<subseteq> insert (rq_command_id q) (done_entries tab s0 fl)"
    "h_files s g = Some fl \<Longrightarrow> rq_owner q \<noteq> Some g \<Longrightarrow> done_entries tab s fl \<subseteq> done_entries tab s0 fl"
    if fl: "h_files s g = Some fl" for g fl
  proof -
    have eq: "i = rq_command_id q \<and> rq_owner q = Some g" if "tab (vf_requests fl) i = Some r" for i
      using file_entry [OF inv fl that] q by (metis option.inject)
    show "done_entries tab s fl \<subseteq> insert (rq_command_id q) (done_entries tab s0 fl)"
      using eq unfolding done_entries_def by (auto simp: s0(1) set_request_def split: if_splits)
    show "done_entries tab s fl \<subseteq> done_entries tab s0 fl" if "rq_owner q \<noteq> Some g"
      using eq that unfolding done_entries_def by (auto simp: s0(1) set_request_def split: if_splits)
  qed
  have files0: "h_files s = h_files s0" by (simp add: s0(1) set_request_def)
  have bound: "int (card (done_entries tab s fl)) \<le> vf_completed_requests fl + of_bool (rq_owner q = Some g)"
    if fl: "h_files s g = Some fl" "\<not> vf_closing fl" for g fl
  proof (cases "rq_owner q = Some g")
    case True
    have "card (done_entries tab s fl) \<le> card (insert (rq_command_id q) (done_entries tab s0 fl))"
      by (rule card_mono) (use entry(1) [OF fl(1)] done_entries_finite in auto)
    also have "\<dots> \<le> Suc (card (done_entries tab s0 fl))" by (rule card_insert_le_m1) simp_all
    finally show ?thesis using ready fl files0 True unfolding ready_ok_def by force
  next
    case False
    have "card (done_entries tab s fl) \<le> card (done_entries tab s0 fl)"
      by (rule card_mono) (use entry(2) [OF fl(1) fl(1) False] done_entries_finite in auto)
    then show ?thesis using ready fl files0 False unfolding ready_ok_def by force
  qed
  show ?thesis
  proof (cases "rq_owner q")
    case None
    have "ready_ok tab s" using bound None unfolding ready_ok_def by force
    then show ?thesis using that [of s] inv None by (auto simp: notify_owner_def)
  next
    case (Some f)
    obtain fl where f: "h_files s f = Some fl" by (rule owner_live [OF inv q Some])
    show ?thesis
    proof (cases "vf_closing fl")
      case True
      have "ready_ok tab s"
        unfolding ready_ok_def
      proof (intro allI impI)
        fix g gl assume g: "h_files s g = Some gl" "\<not> vf_closing gl"
        then have "g \<noteq> f" using f True by auto
        then show "int (card (done_entries tab s gl)) \<le> vf_completed_requests gl" using bound [OF g] Some by simp
      qed
      then show ?thesis using that [of s] inv Some f True by (auto simp: notify_owner_def)
    next
      case False
      let ?fl = "fl\<lparr> vf_completed_requests := vf_completed_requests fl + 1 \<rparr>"
      let ?s = "set_file f ?fl s"
      have same: "done_entries tab ?s gl = done_entries tab s gl" "done_entries tab ?s ?fl = done_entries tab s fl" for gl
        by (simp_all add: done_entries_def set_file_def)
      have "hinv tab L ?s" by (rule set_file_fields_hinv [OF inv f]) simp_all
      moreover have "ready_ok tab ?s"
        unfolding ready_ok_def
      proof (intro allI impI)
        fix g gl assume g: "h_files ?s g = Some gl" "\<not> vf_closing gl"
        show "int (card (done_entries tab ?s gl)) \<le> vf_completed_requests gl"
        proof (cases "g = f")
          case True
          then have "gl = ?fl" using g by (simp add: set_file_def)
          then show ?thesis using bound [OF f False] Some same by simp
        next
          case False
          then have "h_files s g = Some gl" using g by (simp add: set_file_def)
          then show ?thesis using bound [OF _ g(2), of g] Some False same by simp
        qed
      qed
      moreover have "\<exists>hl. h_files s g = Some hl \<and> file_frame hl gl" if "h_files ?s g = Some gl" for g gl
        using that f by (cases "g = f") (auto simp: set_file_def file_frame_def)
      ultimately show ?thesis
        by (intro that [of ?s]) (simp_all add: notify_owner_def Some f False, simp_all add: set_file_def)
    qed
  qed
qed

end

lemma rings_ok_same:
  assumes "rings_ok tab s" "h_dev s' = h_dev s" "h_res s' = h_res s"
  shows "rings_ok tab s'"
  using assms(1) unfolding rings_ok_def assms(2,3) .

context xarray_laws
begin

lemma end_request_ok:
  assumes inv: "hinv tab (add_request r L) s" and q: "h_requests s r = Some q"
    and out: "req_dev tab s r = {}" and probe: "0 < lc_probe L" and d: "h_dev s = Some dev"
    and ready: "ready_ok tab s"
    and rings: "rings_ok tab (set_dev (dev\<lparr> vd_pending_requests := vd_pending_requests dev - 1 \<rparr>) s)"
  obtains s' where "end_request ctx r s = Some s'" "dinv tab L s'" "h_res s' = h_res s"
    "\<And>i. i \<noteq> r \<Longrightarrow> h_requests s' i = h_requests s i"
    "\<And>q'. h_requests s' r = Some q' \<Longrightarrow> \<exists>n. q' = q\<lparr> rq_done := True, rq_refs := n \<rparr>"
    "\<And>dev'. h_dev s' = Some dev' \<Longrightarrow> dev_frame dev dev' \<and> vd_requests dev' = vd_requests dev \<and>
      vd_cq_head dev' = vd_cq_head dev"
    "\<And>f fl'. h_files s' f = Some fl' \<Longrightarrow> \<exists>fl. h_files s f = Some fl \<and> file_frame fl fl'"
proof -
  let ?q = "q\<lparr> rq_done := True \<rparr>" and ?d = "dev\<lparr> vd_pending_requests := vd_pending_requests dev - 1 \<rparr>"
  let ?s1 = "set_request r ?q s"
  have i1: "hinv tab (add_request r L) ?s1"
    by (rule request_update_hinv [OF inv q]) (use requests_okD [OF inv q] out in simp_all)
  have q1: "h_requests ?s1 r = Some ?q" by (simp add: set_request_def)
  obtain s2 where s2: "notify_owner ?q ?s1 = Some s2" "hinv tab (add_request r L) s2" "ready_ok tab s2"
    "h_requests s2 = h_requests ?s1" "h_dev s2 = h_dev ?s1" "h_res s2 = h_res ?s1" "h_mappings s2 = h_mappings ?s1"
    "\<And>f fl'. h_files s2 f = Some fl' \<Longrightarrow> \<exists>fl. h_files ?s1 f = Some fl \<and> file_frame fl fl'"
    by (rule notify_ok [OF i1 q1 _ ready refl q]) auto
  have d2: "h_dev s2 = Some dev" and res2: "h_res s2 = h_res s" using s2 d by (simp_all add: set_request_def)
  let ?s3 = "set_dev ?d s2"
  have i3: "hinv tab (add_request r L) ?s3" by (rule set_dev_fields_hinv [OF s2(2) d2]) simp_all
  have r3: "rings_ok tab ?s3" by (rule rings_ok_same [OF rings]) (simp_all add: set_dev_def res2)
  have ready3: "ready_ok tab ?s3" using s2(3) by (simp add: ready_ok_def done_entries_def set_dev_def)
  obtain s4 where s4: "vams_request_put ctx r ?s3 = Some s4" "hinv tab L s4" "shrinks ?s3 s4"
    "\<And>i. i \<noteq> r \<Longrightarrow> h_requests s4 i = h_requests ?s3 i"
    by (rule request_put_ok [OF i3, of ctx]) blast
  have "dinv tab L s4" by (rule shrinks_dinv [OF s4(2,3) r3 ready3])
  obtain dev4 where d4: "h_dev s4 = Some dev4" by (rule device_live [OF s4(2)]) (use probe in simp_all)
  have end_eq: "end_request ctx r s = Some s4"
    using sync_for_cpu_ok [OF inv q] q s2(1) d2 s4(1) by (simp add: end_request_def notify_owner_def)
  have frame_dev: "dev_frame dev dev' \<and> vd_requests dev' = vd_requests dev \<and> vd_cq_head dev' = vd_cq_head dev"
    if "h_dev s4 = Some dev'" for dev'
  proof -
    have "\<exists>n. dev' = ?d\<lparr> vd_refs := n \<rparr>" using shrinksD(1) [OF s4(3) that] by (simp add: set_dev_def)
    then show ?thesis by (auto simp: dev_frame_def)
  qed
  have frame_files: "\<exists>fl. h_files s f = Some fl \<and> file_frame fl fl'" if "h_files s4 f = Some fl'" for f fl'
  proof -
    obtain fl2 n where fl2: "h_files ?s3 f = Some fl2" "fl' = fl2\<lparr> vf_refs := n \<rparr>"
      using shrinksD(4) [OF s4(3) \<open>h_files s4 f = Some fl'\<close>] by blast
    then have "file_frame fl2 fl'" by (simp add: file_frame_def)
    moreover obtain fl where "h_files s f = Some fl" "file_frame fl fl2"
      using s2(8) [of f fl2] fl2(1) by (auto simp: set_dev_def set_request_def)
    ultimately show ?thesis using file_frame_trans by blast
  qed
  have req: "\<exists>n. q' = q\<lparr> rq_done := True, rq_refs := n \<rparr>" if "h_requests s4 r = Some q'" for q'
  proof -
    obtain n where "q' = ?q\<lparr> rq_refs := n \<rparr>"
      using shrinksD(2) [OF s4(3) \<open>h_requests s4 r = Some q'\<close>] s2(4) q1 by (auto simp: set_dev_def)
    then show ?thesis by blast
  qed
  have others: "h_requests s4 i = h_requests s i" if "i \<noteq> r" for i
    using s4(4) [OF that] s2(4) that by (simp add: set_dev_def set_request_def)
  have "h_res s4 = h_res s" using shrinksD(5) [OF s4(3)] d4 res2 by (simp add: set_dev_def)
  then show ?thesis
    using that [OF end_eq \<open>dinv tab L s4\<close> _ others req frame_dev frame_files] by blast
qed

end

subsection \<open>Draining the completion queue\<close>

lemma rings_okD:
  assumes "rings_ok tab s" "h_dev s = Some dev"
  shows "vd_sq_tail dev < VAMS_QUEUE_DEPTH" "vd_cq_head dev < VAMS_QUEUE_DEPTH"
    "vd_sq dev = Some sq \<Longrightarrow> length sq = unat VAMS_QUEUE_DEPTH"
    "vd_cq dev = Some cq \<Longrightarrow> length cq = unat VAMS_QUEUE_DEPTH"
    "vd_sq dev \<noteq> None \<longleftrightarrow> R_sq \<in> h_res s" "vd_cq dev \<noteq> None \<longleftrightarrow> R_cq \<in> h_res s"
    "vd_queues_ready dev \<Longrightarrow> {R_iomap, R_sq, R_cq} \<subseteq> h_res s"
    "vd_pending_requests dev = int (card (dom (tab (vd_requests dev))))"
  using mp [OF spec [OF assms(1) [unfolded rings_ok_def]] assms(2)] by simp_all

lemma rings_okI:
  assumes "h_dev s = Some dev" "vd_sq_tail dev < VAMS_QUEUE_DEPTH" "vd_cq_head dev < VAMS_QUEUE_DEPTH"
    "\<And>sq. vd_sq dev = Some sq \<Longrightarrow> length sq = unat VAMS_QUEUE_DEPTH"
    "\<And>cq. vd_cq dev = Some cq \<Longrightarrow> length cq = unat VAMS_QUEUE_DEPTH"
    "vd_sq dev \<noteq> None \<longleftrightarrow> R_sq \<in> h_res s" "vd_cq dev \<noteq> None \<longleftrightarrow> R_cq \<in> h_res s"
    "vd_queues_ready dev \<Longrightarrow> {R_iomap, R_sq, R_cq} \<subseteq> h_res s"
    "vd_pending_requests dev = int (card (dom (tab (vd_requests dev))))"
  shows "rings_ok tab s"
  using assms by (simp add: rings_ok_def)

lemma ready_ok_same:
  assumes "ready_ok tab s" "h_requests s' = h_requests s" "h_files s' = h_files s"
  shows "ready_ok tab s'"
  using assms(1) unfolding ready_ok_def done_entries_def assms(2,3) .

context xarray_laws
begin

lemma dev_index_unique:
  assumes inv: "hinv tab L s" and d: "h_dev s = Some dev" and i: "tab (vd_requests dev) i = Some r"
  shows "req_dev tab s r = {i}"
proof -
  have "j = i" if j: "tab (vd_requests dev) j = Some r" for j
    by (rule dev_entry [OF inv d i], rule dev_entry [OF inv d j]) simp
  then have "tab (vd_requests dev) j = Some r \<longleftrightarrow> j = i" for j using i by blast
  then show ?thesis by (simp add: req_dev_def d)
qed

lemma done_flag_ready:
  assumes ready: "ready_ok tab s" and q: "h_requests s r = Some q" "rq_done q' = rq_done q"
  shows "ready_ok tab (set_request r q' s)"
proof (rule ready_okI [OF ready])
  fix f fl' assume f: "h_files (set_request r q' s) f = Some fl'" "\<not> vf_closing fl'"
  have "done_entries tab (set_request r q' s) fl' \<subseteq> done_entries tab s fl'"
    using q by (auto simp: done_entries_def set_request_def split: if_splits)
  then show "\<exists>fl. h_files s f = Some fl \<and> \<not> vf_closing fl \<and> vf_completed_requests fl' \<ge> vf_completed_requests fl \<and>
      done_entries tab (set_request r q' s) fl' \<subseteq> done_entries tab s fl"
    using f by (auto simp: set_request_def)
qed

text \<open>Taking an entry off the table of the device, with the request prepared for its end.\<close>

lemma take_request_ok:
  assumes inv: "dinv tab L s" and d: "h_dev s = Some dev" and i: "tab (vd_requests dev) i = Some r"
    and x: "tab x = (tab (vd_requests dev))(i := None)" and probe: "0 < lc_probe L"
    and q: "h_requests s r = Some q"
    and q': "rq_refs q' = rq_refs q" "rq_owner q' = rq_owner q" "rq_source q' = rq_source q"
      "rq_destination q' = rq_destination q" "rq_command_id q' = rq_command_id q" "rq_done q' = rq_done q"
  obtains s' where "end_request ctx r (set_request r q' (set_dev (dev\<lparr> vd_requests := x \<rparr>) s)) = Some s'"
    "dinv tab L s'" "evolves tab s s'"
    "\<And>q2. h_requests s' r = Some q2 \<Longrightarrow> \<exists>n. q2 = q'\<lparr> rq_done := True, rq_refs := n \<rparr>"
    "\<And>dev'. h_dev s' = Some dev' \<Longrightarrow> vd_requests dev' = x \<and> vd_cq_head dev' = vd_cq_head dev"
    "\<And>j. j \<noteq> r \<Longrightarrow> h_requests s' j = h_requests s j"
proof -
  let ?d1 = "dev\<lparr> vd_requests := x \<rparr>"
  let ?s1 = "set_dev ?d1 s"
  let ?s2 = "set_request r q' ?s1"
  note hi = dinv_parts(1) [OF inv]
  have i1: "hinv tab (add_request r L) ?s1" by (rule dev_erase_hinv [OF hi d i]) (simp_all add: x)
  have q1: "h_requests ?s1 r = Some q" using q by (simp add: set_dev_def)
  have i2: "hinv tab (add_request r L) ?s2"
    by (rule request_update_hinv [OF i1 q1]) (use requests_okD [OF i1 q1] q' in simp_all)
  have q2: "h_requests ?s2 r = Some q'" by (simp add: set_request_def)
  have out: "req_dev tab ?s2 r = {}"
    using dev_index_unique [OF hi d i] d x by (auto simp: req_dev_def set_request_def set_dev_def split: if_splits)
  have d2: "h_dev ?s2 = Some ?d1" by (simp add: set_request_def set_dev_def)
  have ready1: "ready_ok tab ?s1" by (rule ready_ok_same [OF dinv_parts(3) [OF inv]]) (simp_all add: set_dev_def)
  have ready2: "ready_ok tab ?s2" by (rule done_flag_ready [OF ready1 q1]) (simp add: q')
  have "card (dom (tab (vd_requests dev))) = Suc (card (dom (tab x)))"
    using x i finite_tab card_Suc_Diff1 [of "dom (tab (vd_requests dev))" i] by (simp add: domI)
  then have rings2: "rings_ok tab (set_dev (?d1\<lparr> vd_pending_requests := vd_pending_requests ?d1 - 1 \<rparr>) ?s2)"
    using rings_okD [OF dinv_parts(2) [OF inv] d]
    by (intro rings_okI [where dev = "?d1\<lparr> vd_pending_requests := vd_pending_requests ?d1 - 1 \<rparr>"])
      (simp_all add: set_dev_def set_request_def)
  obtain s' where s': "end_request ctx r ?s2 = Some s'" "dinv tab L s'" "h_res s' = h_res ?s2"
    "\<And>i. i \<noteq> r \<Longrightarrow> h_requests s' i = h_requests ?s2 i"
    "\<And>q2. h_requests s' r = Some q2 \<Longrightarrow> \<exists>n. q2 = q'\<lparr> rq_done := True, rq_refs := n \<rparr>"
    "\<And>dev'. h_dev s' = Some dev' \<Longrightarrow> dev_frame ?d1 dev' \<and> vd_requests dev' = vd_requests ?d1 \<and>
      vd_cq_head dev' = vd_cq_head ?d1"
    "\<And>f fl'. h_files s' f = Some fl' \<Longrightarrow> \<exists>fl. h_files ?s2 f = Some fl \<and> file_frame fl fl'"
    by (rule end_request_ok [OF i2 q2 out probe d2 ready2 rings2, of ctx]) blast
  have "evolves tab s s'"
    unfolding evolves_def
  proof (intro conjI allI impI)
    show "h_res s' = h_res s" using s'(3) by (simp add: set_dev_def set_request_def)
  next
    fix dev' assume "h_dev s' = Some dev'"
    then have fr: "dev_frame ?d1 dev'" "vd_requests dev' = x" using s'(6) by auto
    have "dev_frame dev ?d1" by (simp add: dev_frame_def)
    then have "dev_frame dev dev'" using fr(1) by (rule dev_frame_trans)
    then show "\<exists>dev. h_dev s = Some dev \<and> dev_frame dev dev' \<and> tab (vd_requests dev') \<subseteq>\<^sub>m tab (vd_requests dev)"
      using d fr(2) x by (simp add: map_le_def)
  next
    fix f fl' assume "h_files s' f = Some fl'"
    then show "\<exists>fl. h_files s f = Some fl \<and> file_frame fl fl'"
      using s'(7) by (simp add: set_dev_def set_request_def)
  next
    fix j assume "req_dev tab s j = {}"
    then have "j \<noteq> r" using d i by (auto simp: req_dev_def)
    then show "h_requests s' j = h_requests s j" using s'(4) by (simp add: set_dev_def set_request_def)
  qed
  then show ?thesis using that [OF s'(1,2) _ s'(5)] s'(4,6) by (simp add: set_dev_def set_request_def)
qed

lemma finish_request_ok:
  assumes inv: "dinv tab L s" and probe: "0 < lc_probe L" and d: "h_dev s = Some dev"
  obtains b s' where "vams_finish_request k completion s = Some (b, s')" "dinv tab L s'" "evolves tab s s'"
    "b \<longleftrightarrow> cpl_command_id completion \<in> dom (tab (vd_requests dev))"
    "\<And>dev'. h_dev s' = Some dev' \<Longrightarrow>
      tab (vd_requests dev') = (tab (vd_requests dev))(cpl_command_id completion := None) \<and>
      vd_cq_head dev' = vd_cq_head dev"
    "\<And>r q2. tab (vd_requests dev) (cpl_command_id completion) = Some r \<Longrightarrow> h_requests s' r = Some q2 \<Longrightarrow>
      rq_done q2 \<and> rq_result q2 = completion \<and> rq_driver_status q2 = RC_OK"
proof -
  let ?i = "cpl_command_id completion"
  note hi = dinv_parts(1) [OF inv]
  obtain fnd x where er: "xa_erase k ?i (vd_requests dev) = (fnd, x)" by fastforce
  then have x: "fnd = tab (vd_requests dev) ?i" "tab x = (tab (vd_requests dev))(?i := None)"
    using erase [of ?i "vd_requests dev"] by simp_all
  show ?thesis
  proof (cases "tab (vd_requests dev) ?i")
    case None
    let ?d = "dev\<lparr> vd_requests := x \<rparr>"
    let ?s = "set_dev ?d s"
    have same: "tab x = tab (vd_requests dev)" using x None by (simp add: fun_upd_idem)
    have "hinv tab L ?s" by (rule set_dev_fields_hinv [OF hi d]) (simp_all add: same)
    moreover have "rings_ok tab ?s"
      using rings_okD [OF dinv_parts(2) [OF inv] d] same
      by (intro rings_okI [where dev = ?d]) (simp_all add: set_dev_def)
    moreover have "ready_ok tab ?s" by (rule ready_ok_same [OF dinv_parts(3) [OF inv]]) (simp_all add: set_dev_def)
    ultimately have "dinv tab L ?s" by (simp add: dinv_def)
    moreover have "evolves tab s ?s" using d same by (simp add: evolves_def set_dev_def dev_frame_def)
    ultimately show ?thesis
      by (intro that [of False ?s]) (use d er x None same in \<open>auto simp: vams_finish_request_def set_dev_def\<close>)
  next
    case (Some r)
    obtain q where q: "h_requests s r = Some q" by (rule dev_entry [OF hi d Some])
    let ?q = "q\<lparr> rq_result := completion, rq_driver_status := RC_OK \<rparr>"
    obtain s' where s': "end_request Atomic r (set_request r ?q (set_dev (dev\<lparr> vd_requests := x \<rparr>) s)) = Some s'"
      "dinv tab L s'" "evolves tab s s'"
      "\<And>q2. h_requests s' r = Some q2 \<Longrightarrow> \<exists>n. q2 = ?q\<lparr> rq_done := True, rq_refs := n \<rparr>"
      "\<And>dev'. h_dev s' = Some dev' \<Longrightarrow> vd_requests dev' = x \<and> vd_cq_head dev' = vd_cq_head dev"
      by (rule take_request_ok [OF inv d Some x(2) probe q, where q' = ?q and ctx = Atomic]) auto
    have "vams_finish_request k completion s = Some (True, s')"
      using d er x Some q s'(1) by (simp add: vams_finish_request_def set_dev_def)
    moreover have "rq_done q2 \<and> rq_result q2 = completion \<and> rq_driver_status q2 = RC_OK"
      if "tab (vd_requests dev) ?i = Some r'" "h_requests s' r' = Some q2" for r' q2
      using s'(4) that Some by fastforce
    ultimately show ?thesis using that [of True s'] s' x Some by auto
  qed
qed

end

text \<open>The entries of a ring of sixteen from one index to another.\<close>

definition ring_count :: "u32 \<Rightarrow> u32 \<Rightarrow> nat" where
  "ring_count head tail = (unat tail + 16 - unat head) mod 16"

text \<open>
  What consuming \<open>entries\<close> does to the requests that were listed: each ends with the first completion
  that names it.
\<close>

definition answered ::
    "('x \<Rightarrow> u32 \<Rightarrow> ref option) \<Rightarrow> 'x vams_device \<Rightarrow> vams_completion list \<Rightarrow> ('w, 'x) host \<Rightarrow> bool" where
  "answered tab dev entries s \<longleftrightarrow> (\<forall>i r c q. tab (vd_requests dev) i = Some r \<longrightarrow>
     List.find (\<lambda>c. cpl_command_id c = i) entries = Some c \<longrightarrow> h_requests s r = Some q \<longrightarrow>
     rq_done q \<and> rq_result q = c \<and> rq_driver_status q = RC_OK)"

definition ring_entries :: "'a list \<Rightarrow> u32 \<Rightarrow> nat \<Rightarrow> 'a list" where
  "ring_entries ring head n = map (\<lambda>j. ring ! ((unat head + j) mod 16)) [0..<n]"

lemma unat_and_15: "unat ((x :: u32) AND (VAMS_QUEUE_DEPTH - 1)) = unat x mod 16"
proof -
  have "x AND (VAMS_QUEUE_DEPTH - 1) = take_bit 4 x"
    by (simp add: take_bit_eq_mask mask_eq_exp_minus_1 VAMS_QUEUE_DEPTH_def)
  then show ?thesis by (simp add: take_bit_eq_mod unat_mod_distrib)
qed

lemma next_index:
  assumes "h < VAMS_QUEUE_DEPTH"
  shows "unat ((h + 1) AND (VAMS_QUEUE_DEPTH - 1)) = (unat h + 1) mod 16"
    "(h + 1) AND (VAMS_QUEUE_DEPTH - 1) < VAMS_QUEUE_DEPTH"
proof -
  have "unat h < 16" using assms by (simp add: VAMS_QUEUE_DEPTH_def word_less_nat_alt)
  then have "unat (h + 1) = unat h + 1" by (simp add: unat_plus_if' unat_u32_less)
  then show eq: "unat ((h + 1) AND (VAMS_QUEUE_DEPTH - 1)) = (unat h + 1) mod 16" by (simp add: unat_and_15)
  show "(h + 1) AND (VAMS_QUEUE_DEPTH - 1) < VAMS_QUEUE_DEPTH"
    unfolding word_less_nat_alt eq by (simp add: VAMS_QUEUE_DEPTH_def)
qed

lemma ring_count_step:
  assumes "h < VAMS_QUEUE_DEPTH" "t < VAMS_QUEUE_DEPTH" "h \<noteq> t"
  shows "ring_count h t = Suc (ring_count ((h + 1) AND (VAMS_QUEUE_DEPTH - 1)) t)"
proof -
  have "unat h < 16" "unat t < 16" "unat h \<noteq> unat t"
    using assms by (simp_all add: VAMS_QUEUE_DEPTH_def word_less_nat_alt word_unat_eq_iff)
  then show ?thesis unfolding ring_count_def next_index(1) [OF assms(1)]
    by (cases "unat h = 15") (auto simp: mod_if)
qed

lemma ring_count_bound: "ring_count h t < 16" by (simp add: ring_count_def)

lemma ring_count_zero:
  assumes "h < VAMS_QUEUE_DEPTH" "t < VAMS_QUEUE_DEPTH"
  shows "ring_count h t = 0 \<longleftrightarrow> h = t"
  using assms ring_count_step [OF assms] by (cases "h = t") (auto simp: ring_count_def VAMS_QUEUE_DEPTH_def word_less_nat_alt)

lemma ring_entries_Suc:
  assumes "h < VAMS_QUEUE_DEPTH"
  shows "ring_entries ring h (Suc n) = ring ! unat h # ring_entries ring ((h + 1) AND (VAMS_QUEUE_DEPTH - 1)) n"
proof -
  have "unat h < 16" using assms by (simp add: VAMS_QUEUE_DEPTH_def word_less_nat_alt)
  moreover have "map (\<lambda>j. ring ! ((unat h + j) mod 16)) [1..<Suc n] =
      map (\<lambda>j. ring ! (((unat h + 1) mod 16 + j) mod 16)) [0..<n]"
    by (rule nth_equalityI) (simp_all add: mod_simps del: upt_Suc)
  ultimately show ?thesis
    unfolding ring_entries_def next_index(1) [OF assms] by (simp add: upt_conv_Cons del: upt_Suc)
qed

context xarray_laws
begin

lemma advance_head_ok:
  assumes inv: "dinv tab L s" and d: "h_dev s = Some dev" and h: "h < VAMS_QUEUE_DEPTH"
  shows "dinv tab L (set_dev (dev\<lparr> vd_cq_head := h \<rparr>) s)" "evolves tab s (set_dev (dev\<lparr> vd_cq_head := h \<rparr>) s)"
proof -
  have "hinv tab L (set_dev (dev\<lparr> vd_cq_head := h \<rparr>) s)"
    by (rule set_dev_fields_hinv [OF dinv_parts(1) [OF inv] d]) simp_all
  moreover have "rings_ok tab (set_dev (dev\<lparr> vd_cq_head := h \<rparr>) s)"
    using rings_okD [OF dinv_parts(2) [OF inv] d] h
    by (intro rings_okI [where dev = "dev\<lparr> vd_cq_head := h \<rparr>"]) (simp_all add: set_dev_def)
  moreover have "ready_ok tab (set_dev (dev\<lparr> vd_cq_head := h \<rparr>) s)"
    by (rule ready_ok_same [OF dinv_parts(3) [OF inv]]) (simp_all add: set_dev_def)
  ultimately show "dinv tab L (set_dev (dev\<lparr> vd_cq_head := h \<rparr>) s)" by (simp add: dinv_def)
  show "evolves tab s (set_dev (dev\<lparr> vd_cq_head := h \<rparr>) s)"
    using d by (simp add: evolves_def set_dev_def dev_frame_def)
qed

text \<open>
  The loop consumes the entries from the head to the tail: they leave the table, the head reaches the
  tail, and the fuel suffices.
\<close>

lemma drain_loop_ok:
  assumes "dinv tab L s" "0 < lc_probe L" "h_dev s = Some dev" "vd_cq dev = Some cq" "tail < VAMS_QUEUE_DEPTH"
    "ring_count (vd_cq_head dev) tail \<le> fuel"
  shows "\<exists>s' dev'. drain_loop k tail drained fuel s = Some (drained + ring_count (vd_cq_head dev) tail, s') \<and>
    dinv tab L s' \<and> evolves tab s s' \<and> h_dev s' = Some dev' \<and> vd_cq_head dev' = tail \<and>
    tab (vd_requests dev') = tab (vd_requests dev) |`
      (- cpl_command_id ` set (ring_entries cq (vd_cq_head dev) (ring_count (vd_cq_head dev) tail))) \<and>
    answered tab dev (ring_entries cq (vd_cq_head dev) (ring_count (vd_cq_head dev) tail)) s'"
  using assms
proof (induction fuel arbitrary: s dev drained)
  case 0
  have head: "vd_cq_head dev < VAMS_QUEUE_DEPTH" by (rule rings_okD [OF dinv_parts(2) [OF 0(1)] 0(3)])
  then have "vd_cq_head dev = tail" "ring_count (vd_cq_head dev) tail = 0"
    using 0 ring_count_zero [OF head 0(5)] by simp_all
  then show ?case using 0 by (simp add: ring_entries_def answered_def)
next
  case (Suc fuel)
  have head: "vd_cq_head dev < VAMS_QUEUE_DEPTH" by (rule rings_okD [OF dinv_parts(2) [OF Suc(2)] Suc(4)])
  show ?case
  proof (cases "vd_cq_head dev = tail")
    case True
    then have "ring_count (vd_cq_head dev) tail = 0" using ring_count_zero [OF head Suc(6)] by simp
    then show ?thesis using Suc True by (simp add: ring_entries_def answered_def)
  next
    case False
    let ?h = "(vd_cq_head dev + 1) AND (VAMS_QUEUE_DEPTH - 1)" and ?c = "cq ! unat (vd_cq_head dev)"
    let ?s1 = "set_dev (dev\<lparr> vd_cq_head := ?h \<rparr>) s"
    have h: "?h < VAMS_QUEUE_DEPTH" by (rule next_index [OF head])
    note s1 = advance_head_ok [OF Suc(2,4) h]
    have len: "unat (vd_cq_head dev) < length cq"
      using rings_okD(4) [OF dinv_parts(2) [OF Suc(2)] Suc(4) Suc(5)] head by (simp add: word_less_nat_alt)
    have d1: "h_dev ?s1 = Some (dev\<lparr> vd_cq_head := ?h \<rparr>)" by (simp add: set_dev_def)
    obtain b s2 where s2: "vams_finish_request k ?c ?s1 = Some (b, s2)" "dinv tab L s2" "evolves tab ?s1 s2"
      "\<And>dev'. h_dev s2 = Some dev' \<Longrightarrow>
        tab (vd_requests dev') = (tab (vd_requests dev))(cpl_command_id ?c := None) \<and> vd_cq_head dev' = ?h"
      "\<And>r q2. tab (vd_requests dev) (cpl_command_id ?c) = Some r \<Longrightarrow> h_requests s2 r = Some q2 \<Longrightarrow>
        rq_done q2 \<and> rq_result q2 = ?c \<and> rq_driver_status q2 = RC_OK"
      by (rule finish_request_ok [OF s1(1) Suc(3) d1, of ?c]) auto
    obtain dev2 where d2: "h_dev s2 = Some dev2"
      by (rule device_live [OF dinv_parts(1) [OF s2(2)]]) (use Suc(3) in simp_all)
    have tab2: "tab (vd_requests dev2) = (tab (vd_requests dev))(cpl_command_id ?c := None)" and head2: "vd_cq_head dev2 = ?h"
      using s2(4) [OF d2] by simp_all
    have fr: "dev_frame (dev\<lparr> vd_cq_head := ?h \<rparr>) dev2" using s2(3) d1 d2 unfolding evolves_def by auto
    have cq2: "vd_cq dev2 = Some cq" using dev_frame_fields(2) [OF fr] Suc(5) by simp
    have count: "ring_count (vd_cq_head dev) tail = Suc (ring_count ?h tail)"
      by (rule ring_count_step [OF head Suc(6) False])
    have "ring_count (vd_cq_head dev2) tail \<le> fuel" using count Suc(7) head2 by simp
    from Suc.IH [OF s2(2) Suc(3) d2 cq2 Suc(6) this, of "drained + 1"]
    obtain s3 dev3 where s3: "drain_loop k tail (drained + 1) fuel s2 = Some (drained + 1 + ring_count ?h tail, s3)"
      "dinv tab L s3" "evolves tab s2 s3" "h_dev s3 = Some dev3" "vd_cq_head dev3 = tail"
      "tab (vd_requests dev3) = tab (vd_requests dev2) |` (- cpl_command_id ` set (ring_entries cq ?h (ring_count ?h tail)))"
      "answered tab dev2 (ring_entries cq ?h (ring_count ?h tail)) s3"
      unfolding head2 by blast
    have "drain_loop k tail drained (Suc fuel) s = Some (drained + ring_count (vd_cq_head dev) tail, s3)"
      using Suc(4,5) False len s2(1) s3(1) count by (simp add: set_dev_def)
    moreover have "evolves tab s s3" using s1(2) s2(3) s3(3) evolves_trans by blast
    moreover have "tab (vd_requests dev3) = tab (vd_requests dev) |`
        (- cpl_command_id ` set (ring_entries cq (vd_cq_head dev) (ring_count (vd_cq_head dev) tail)))"
      unfolding s3(6) tab2 count ring_entries_Suc [OF head] by (auto simp: restrict_map_def fun_eq_iff)
    moreover have "answered tab dev (ring_entries cq (vd_cq_head dev) (ring_count (vd_cq_head dev) tail)) s3"
      unfolding answered_def count ring_entries_Suc [OF head]
    proof (intro allI impI)
      fix i r c q
      assume i: "tab (vd_requests dev) i = Some r"
        and c: "List.find (\<lambda>c. cpl_command_id c = i) (?c # ring_entries cq ?h (ring_count ?h tail)) = Some c"
        and q: "h_requests s3 r = Some q"
      show "rq_done q \<and> rq_result q = c \<and> rq_driver_status q = RC_OK"
      proof (cases "cpl_command_id ?c = i")
        case True
        have "j = i" if "tab (vd_requests dev) j = Some r" for j
          using dev_index_unique [OF dinv_parts(1) [OF Suc(2)] Suc(4) i] that Suc(4) by (auto simp: req_dev_def)
        then have "req_dev tab s2 r = {}" using d2 tab2 True by (auto simp: req_dev_def split: if_splits)
        then have "h_requests s2 r = Some q" using s3(3) q by (simp add: evolves_def)
        then show ?thesis using s2(5) i c True by simp
      next
        case False
        then have "tab (vd_requests dev2) i = Some r" using tab2 i by simp
        then show ?thesis using s3(7) c q False unfolding answered_def by simp
      qed
    qed
    ultimately show ?thesis using s3(2,4,5) by blast
  qed
qed

end

context xarray_laws
begin

lemma drain_cq_exact:
  assumes inv: "dinv tab L s" and probe: "0 < lc_probe L" and d: "h_dev s = Some dev"
    and rdy: "vd_queues_ready dev" and cq: "vd_cq dev = Some cq"
    and t: "vams_readl k VAMS_REG_CQ_TAIL s = Some (tail, s\<lparr> h_w := w \<rparr>)" and tail: "tail < VAMS_QUEUE_DEPTH"
  defines "n \<equiv> ring_count (vd_cq_head dev) tail"
  obtains s' dev' where "vams_drain_cq k s = Some (n, s')" "dinv tab L s'" "evolves tab s s'" "h_dev s' = Some dev'"
    "vd_cq_head dev' = tail"
    "tab (vd_requests dev') = tab (vd_requests dev) |` (- cpl_command_id ` set (ring_entries cq (vd_cq_head dev) n))"
    "answered tab dev (ring_entries cq (vd_cq_head dev) n) s'"
proof -
  have io: "R_iomap \<in> h_res s" using rings_okD(7) [OF dinv_parts(2) [OF inv] d rdy] by simp
  have inv': "dinv tab L (s\<lparr> h_w := w \<rparr>)" and d': "h_dev (s\<lparr> h_w := w \<rparr>) = Some dev" using inv d by simp_all
  have fuel: "ring_count (vd_cq_head dev) tail \<le> unat VAMS_QUEUE_DEPTH"
    using ring_count_bound [of "vd_cq_head dev" tail] by (simp add: VAMS_QUEUE_DEPTH_def)
  obtain s1 dev1 where s1: "drain_loop k tail 0 (unat VAMS_QUEUE_DEPTH) (s\<lparr> h_w := w \<rparr>) = Some (n, s1)"
    "dinv tab L s1" "evolves tab (s\<lparr> h_w := w \<rparr>) s1" "h_dev s1 = Some dev1" "vd_cq_head dev1 = tail"
    "tab (vd_requests dev1) = tab (vd_requests dev) |` (- cpl_command_id ` set (ring_entries cq (vd_cq_head dev) n))"
    "answered tab dev (ring_entries cq (vd_cq_head dev) n) s1"
    using drain_loop_ok [OF inv' probe d' cq tail fuel, of 0] unfolding n_def add_0 by blast
  have ev: "evolves tab s s1" using evolves_trans [OF evolves_world s1(3)] .
  have io1: "R_iomap \<in> h_res s1" using ev io by (simp add: evolves_def)
  obtain w' where w': "vams_writel k VAMS_REG_CQ_DOORBELL (vd_cq_head dev1) s1 = Some (s1\<lparr> h_w := w' \<rparr>)"
    by (rule vams_writel_Some [OF io1])
  show ?thesis
  proof (cases "n = 0")
    case zero: True
    have "vams_drain_cq k s = Some (n, s1)"
      using rdy d t tail s1(1) zero by (simp add: vams_drain_cq_def linorder_not_le)
    then show ?thesis using that s1(2) ev s1(4-7) by blast
  next
    case False
    have "vams_drain_cq k s = Some (n, s1\<lparr> h_w := w' \<rparr>)"
      using rdy d t tail s1(1,4) False w' by (simp add: vams_drain_cq_def linorder_not_le)
    moreover have "answered tab dev (ring_entries cq (vd_cq_head dev) n) (s1\<lparr> h_w := w' \<rparr>)"
      using s1(7) by (simp add: answered_def)
    ultimately show ?thesis
      using that [of "s1\<lparr> h_w := w' \<rparr>" dev1] s1(2,4-6) evolves_trans [OF ev evolves_world] by simp
  qed
qed

lemma drain_cq_ok:
  assumes inv: "dinv tab L s" and probe: "0 < lc_probe L"
  obtains n s' where "vams_drain_cq k s = Some (n, s')" "dinv tab L s'" "evolves tab s s'"
proof -
  obtain dev where d: "h_dev s = Some dev" by (rule device_live [OF dinv_parts(1) [OF inv]]) (use probe in simp_all)
  note rings = rings_okD [OF dinv_parts(2) [OF inv] d]
  show ?thesis
  proof (cases "vd_queues_ready dev")
    case False
    then show ?thesis using that [of 0 s] d inv by (simp add: vams_drain_cq_def)
  next
    case True
    have io: "R_iomap \<in> h_res s" and "vd_cq dev \<noteq> None" using rings(6,7) True by auto
    then obtain cq where cq: "vd_cq dev = Some cq" by auto
    obtain tail w where t: "vams_readl k VAMS_REG_CQ_TAIL s = Some (tail, s\<lparr> h_w := w \<rparr>)"
      by (rule vams_readl_Some [OF io])
    show ?thesis
    proof (cases "tail < VAMS_QUEUE_DEPTH")
      case False
      then show ?thesis
        using that [of 0 "s\<lparr> h_w := w \<rparr>"] True d t inv by (simp add: vams_drain_cq_def linorder_not_less)
    next
      case tail: True
      show ?thesis by (rule drain_cq_exact [OF inv probe d True cq t tail]) (rule that)
    qed
  qed
qed

end

text \<open>Changing fields of the device that the invariant does not speak of.\<close>

definition dev_fields_kept :: "'x vams_device \<Rightarrow> 'x vams_device \<Rightarrow> bool" where
  "dev_fields_kept dev dev' \<longleftrightarrow> vd_refs dev' = vd_refs dev \<and> vd_requests dev' = vd_requests dev \<and>
     vd_sq_tail dev' = vd_sq_tail dev \<and> vd_cq_head dev' = vd_cq_head dev \<and> vd_sq dev' = vd_sq dev \<and>
     vd_cq dev' = vd_cq dev \<and> vd_pending_requests dev' = vd_pending_requests dev \<and>
     (vd_queues_ready dev' \<longrightarrow> vd_queues_ready dev)"

lemma set_dev_fields_dinv:
  assumes inv: "dinv tab L s" and d: "h_dev s = Some dev" and kept: "dev_fields_kept dev dev'"
  shows "dinv tab L (set_dev dev' s)"
proof -
  note k = kept [unfolded dev_fields_kept_def]
  have "hinv tab L (set_dev dev' s)"
    by (rule set_dev_fields_hinv [OF dinv_parts(1) [OF inv] d]) (use k in simp_all)
  moreover have "rings_ok tab (set_dev dev' s)"
    using rings_okD [OF dinv_parts(2) [OF inv] d] k by (intro rings_okI [where dev = dev']) (auto simp: set_dev_def)
  moreover have "ready_ok tab (set_dev dev' s)"
    by (rule ready_ok_same [OF dinv_parts(3) [OF inv]]) (simp_all add: set_dev_def)
  ultimately show ?thesis by (simp add: dinv_def)
qed

subsection \<open>What an operation leaves alone\<close>

text \<open>
  The tables of the files outside \<open>A\<close>, the resources and the removal flag. The device may go away with
  its last file, and takes its own resources along.
\<close>

definition sframe :: "ref set \<Rightarrow> ('w, 'x) host \<Rightarrow> ('w, 'x) host \<Rightarrow> bool" where
  "sframe A s s' \<longleftrightarrow>
     h_res s' = (if h_dev s' = h_dev s \<or> h_dev s' \<noteq> None then h_res s
       else h_res s - {R_instance, R_misc_name, R_pdev}) \<and>
     (\<forall>dev'. h_dev s' = Some dev' \<longrightarrow> (\<exists>dev. h_dev s = Some dev \<and> vd_removing dev' = vd_removing dev)) \<and>
     (\<forall>g fl'. g \<notin> A \<longrightarrow> h_files s' g = Some fl' \<longrightarrow> (\<exists>fl. h_files s g = Some fl \<and>
        vf_requests fl' = vf_requests fl \<and> vf_mappings fl' = vf_mappings fl \<and> vf_closing fl' = vf_closing fl))"

lemma sframe_refl [simp]: "sframe A s s" by (simp add: sframe_def)

lemma sframe_world [simp]: "sframe A s (s\<lparr> h_w := w \<rparr>)" by (simp add: sframe_def)

lemma sframe_trans [trans]:
  assumes "sframe A s t" "sframe B t u"
  shows "sframe (A \<union> B) s u"
proof -
  have gone: "h_dev u \<noteq> None \<Longrightarrow> h_dev t \<noteq> None" "h_dev t \<noteq> None \<Longrightarrow> h_dev s \<noteq> None"
    using assms unfolding sframe_def by auto
  have "h_res u = (if h_dev u = h_dev s \<or> h_dev u \<noteq> None then h_res s
      else h_res s - {R_instance, R_misc_name, R_pdev})"
    using assms gone unfolding sframe_def by (cases "h_dev u"; cases "h_dev t"; cases "h_dev s") simp_all
  moreover have "\<exists>dev. h_dev s = Some dev \<and> vd_removing dev' = vd_removing dev" if "h_dev u = Some dev'" for dev'
    using assms that unfolding sframe_def by metis
  moreover have "\<exists>fl. h_files s g = Some fl \<and> vf_requests fl' = vf_requests fl \<and> vf_mappings fl' = vf_mappings fl \<and>
      vf_closing fl' = vf_closing fl" if "g \<notin> A \<union> B" "h_files u g = Some fl'" for g fl'
  proof -
    obtain fl2 where "h_files t g = Some fl2" "vf_requests fl' = vf_requests fl2" "vf_mappings fl' = vf_mappings fl2"
      "vf_closing fl' = vf_closing fl2" using assms(2) \<open>g \<notin> A \<union> B\<close> \<open>h_files u g = Some fl'\<close> unfolding sframe_def by blast
    moreover obtain fl where "h_files s g = Some fl" "vf_requests fl2 = vf_requests fl" "vf_mappings fl2 = vf_mappings fl"
      "vf_closing fl2 = vf_closing fl" using assms(1) \<open>g \<notin> A \<union> B\<close> calculation(1) unfolding sframe_def by blast
    ultimately show ?thesis by simp
  qed
  ultimately show ?thesis unfolding sframe_def by blast
qed

lemma sframe_trans_same: "sframe A s t \<Longrightarrow> sframe A t u \<Longrightarrow> sframe A s u"
  using sframe_trans [of A s t A u] by simp

lemma sframe_weaken: "sframe A s t \<Longrightarrow> A \<subseteq> B \<Longrightarrow> sframe B s t"
  unfolding sframe_def by blast

lemma shrinks_sframe:
  assumes "shrinks s s'"
  shows "sframe A s s'"
proof -
  have "h_res s' = (if h_dev s' = h_dev s \<or> h_dev s' \<noteq> None then h_res s
      else h_res s - {R_instance, R_misc_name, R_pdev})" using assms unfolding shrinks_def by blast
  moreover have "\<exists>dev. h_dev s = Some dev \<and> vd_removing dev' = vd_removing dev" if "h_dev s' = Some dev'" for dev'
    using shrinksD(1) [OF assms that] by auto
  moreover have "\<exists>fl. h_files s g = Some fl \<and> vf_requests fl' = vf_requests fl \<and> vf_mappings fl' = vf_mappings fl \<and>
      vf_closing fl' = vf_closing fl" if "h_files s' g = Some fl'" for g fl'
    using shrinksD(4) [OF assms that] by auto
  ultimately show ?thesis unfolding sframe_def by blast
qed

lemma evolves_sframe:
  assumes "evolves tab s s'" "h_dev s' \<noteq> None"
  shows "sframe A s s'"
proof -
  have "\<exists>dev. h_dev s = Some dev \<and> vd_removing dev' = vd_removing dev" if "h_dev s' = Some dev'" for dev'
    using assms that dev_frame_fields(5) unfolding evolves_def by blast
  moreover have "\<exists>fl. h_files s g = Some fl \<and> vf_requests fl' = vf_requests fl \<and> vf_mappings fl' = vf_mappings fl \<and>
      vf_closing fl' = vf_closing fl" if "h_files s' g = Some fl'" for g fl'
    using assms(1) that file_frame_fields unfolding evolves_def by blast
  ultimately show ?thesis using assms unfolding sframe_def by (simp add: evolves_def)
qed

lemma set_dev_sframe:
  assumes "h_dev s = Some dev" "vd_removing dev' = vd_removing dev"
  shows "sframe A s (set_dev dev' s)"
  using assms by (simp add: sframe_def set_dev_def)

subsection \<open>Resets, polling and cancellation\<close>

text \<open>The entries that stay on the table after a cancellation belong to the current generation.\<close>

definition fresh_entry :: "bool \<Rightarrow> ('w, 'x) host \<Rightarrow> u32 \<Rightarrow> ref \<Rightarrow> bool" where
  "fresh_entry stale_only s generation r \<longleftrightarrow>
     (\<exists>q. h_requests s r = Some q \<and> stale_only \<and> rq_reset_generation q = generation)"

text \<open>
  What a cancellation over the identifiers of a list does: it takes exactly the stale entries out
  of the device's table, ends their requests with its status and touches no other request.
\<close>

definition cancels ::
    "('x \<Rightarrow> u32 \<Rightarrow> ref option) \<Rightarrow> rc \<Rightarrow> bool \<Rightarrow> u32 list \<Rightarrow> ('w, 'x) host \<Rightarrow> 'x vams_device \<Rightarrow> ('w, 'x) host \<Rightarrow>
      'x vams_device \<Rightarrow> bool" where
  "cancels tab status stale_only ids s dev s' dev' \<longleftrightarrow>
     (\<forall>j r. tab (vd_requests dev') j = Some r \<longleftrightarrow> tab (vd_requests dev) j = Some r \<and>
       (j \<in> set ids \<longrightarrow> fresh_entry stale_only s (vd_reset_generation dev) r)) \<and>
     (\<forall>r. r \<notin> ran (tab (vd_requests dev)) \<or> r \<in> ran (tab (vd_requests dev')) \<longrightarrow>
       h_requests s' r = h_requests s r) \<and>
     (\<forall>j r q. tab (vd_requests dev) j = Some r \<longrightarrow> tab (vd_requests dev') j = None \<longrightarrow>
       h_requests s' r = Some q \<longrightarrow> rq_done q \<and> rq_driver_status q = status)"

lemma cancels_append:
  assumes ab: "cancels tab status stale_only is s dev s1 dev1" and bc: "cancels tab status stale_only js s1 dev1 s2 dev2"
    and gen: "vd_reset_generation dev1 = vd_reset_generation dev"
    and uniq: "\<And>i j r. tab (vd_requests dev) i = Some r \<Longrightarrow> tab (vd_requests dev) j = Some r \<Longrightarrow> i = j"
  shows "cancels tab status stale_only (is @ js) s dev s2 dev2"
proof -
  note a = ab [unfolded cancels_def, THEN conjunct1, rule_format]
    ab [unfolded cancels_def, THEN conjunct2, THEN conjunct1, rule_format]
    ab [unfolded cancels_def, THEN conjunct2, THEN conjunct2, rule_format]
  note b = bc [unfolded cancels_def, THEN conjunct1, rule_format]
    bc [unfolded cancels_def, THEN conjunct2, THEN conjunct1, rule_format]
    bc [unfolded cancels_def, THEN conjunct2, THEN conjunct2, rule_format]
  have kept: "h_requests s1 r = h_requests s r" if "tab (vd_requests dev1) j = Some r" for j r
    by (rule a(2)) (use that in \<open>auto simp: ran_def\<close>)
  have fresh: "fresh_entry stale_only s1 (vd_reset_generation dev1) r = fresh_entry stale_only s (vd_reset_generation dev) r"
    if "tab (vd_requests dev1) j = Some r" for j r
    using kept [OF that] gen by (simp add: fresh_entry_def)
  have 1: "tab (vd_requests dev2) j = Some r \<longleftrightarrow> tab (vd_requests dev) j = Some r \<and>
      (j \<in> set (is @ js) \<longrightarrow> fresh_entry stale_only s (vd_reset_generation dev) r)" for j r
    using a(1) [of j r] b(1) [of j r] fresh [of j r] by auto
  have 2: "h_requests s2 r = h_requests s r"
    if r: "r \<notin> ran (tab (vd_requests dev)) \<or> r \<in> ran (tab (vd_requests dev2))" for r
  proof -
    have "r \<notin> ran (tab (vd_requests dev)) \<or> r \<in> ran (tab (vd_requests dev1))"
      "r \<notin> ran (tab (vd_requests dev1)) \<or> r \<in> ran (tab (vd_requests dev2))"
      using r a(1) b(1) unfolding ran_def by blast+
    then show ?thesis using a(2) b(2) by metis
  qed
  have 3: "rq_done q \<and> rq_driver_status q = status"
    if j: "tab (vd_requests dev) j = Some r" "tab (vd_requests dev2) j = None" "h_requests s2 r = Some q" for j r q
  proof (cases "tab (vd_requests dev1) j")
    case None
    have "r \<notin> ran (tab (vd_requests dev1))"
    proof
      assume "r \<in> ran (tab (vd_requests dev1))"
      then obtain i where "tab (vd_requests dev1) i = Some r" by (auto simp: ran_def)
      then show False using uniq [OF j(1), of i] a(1) [of i r] None by simp
    qed
    then have "h_requests s1 r = Some q" using b(2) [of r] j(3) by simp
    then show ?thesis using a(3) [OF j(1) None] by blast
  next
    case (Some p)
    then have "p = r" using a(1) [of j p] j(1) by simp
    then show ?thesis using b(3) [of j r q] Some j by blast
  qed
  show ?thesis unfolding cancels_def using 1 2 3 by blast
qed

context xarray_laws
begin

lemma cancel_request_ok:
  assumes inv: "dinv tab L s" and probe: "0 < lc_probe L" and d: "h_dev s = Some dev"
  obtains s' dev' where "cancel_request k status stale_only i s = Some s'" "dinv tab L s'" "evolves tab s s'"
    "h_dev s' = Some dev'" "cancels tab status stale_only [i] s dev s' dev'"
proof (cases "tab (vd_requests dev) i")
  case None
  then show ?thesis
    by (intro that [of s dev]) (use inv d in \<open>auto simp: cancel_request_def load cancels_def\<close>)
next
  case (Some r)
  obtain q where q: "h_requests s r = Some q" by (rule dev_entry [OF dinv_parts(1) [OF inv] d Some])
  show ?thesis
  proof (cases "stale_only \<and> rq_reset_generation q = vd_reset_generation dev")
    case True
    then show ?thesis
      by (intro that [of s dev]) (use inv d Some q in \<open>auto simp: cancel_request_def load fresh_entry_def cancels_def\<close>)
  next
    case False
    let ?x = "snd (xa_erase k i (vd_requests dev))" and ?q = "q\<lparr> rq_driver_status := status \<rparr>"
    have x: "tab ?x = (tab (vd_requests dev))(i := None)" using erase by blast
    obtain s' where s': "end_request Process r (set_request r ?q (set_dev (dev\<lparr> vd_requests := ?x \<rparr>) s)) = Some s'"
      "dinv tab L s'" "evolves tab s s'"
      "\<And>q2. h_requests s' r = Some q2 \<Longrightarrow> \<exists>n. q2 = ?q\<lparr> rq_done := True, rq_refs := n \<rparr>"
      "\<And>dev'. h_dev s' = Some dev' \<Longrightarrow> vd_requests dev' = ?x \<and> vd_cq_head dev' = vd_cq_head dev"
      "\<And>j. j \<noteq> r \<Longrightarrow> h_requests s' j = h_requests s j"
      by (rule take_request_ok [OF inv d Some x probe q, where q' = ?q and ctx = Process]) auto
    obtain dev' where d': "h_dev s' = Some dev'"
      by (rule device_live [OF dinv_parts(1) [OF s'(2)]]) (use probe in simp_all)
    have tab': "tab (vd_requests dev') = (tab (vd_requests dev))(i := None)" using s'(5) [OF d'] x by simp
    have uniq: "j = i" if "tab (vd_requests dev) j = Some r" for j
      using dev_index_unique [OF dinv_parts(1) [OF inv] d that] dev_index_unique [OF dinv_parts(1) [OF inv] d Some] by simp
    have stale: "\<not> fresh_entry stale_only s (vd_reset_generation dev) r" using False q by (simp add: fresh_entry_def)
    have other: "p \<noteq> r" if "p \<notin> ran (tab (vd_requests dev)) \<or> p \<in> ran (tab (vd_requests dev'))" for p
    proof
      assume "p = r"
      then have "r \<in> ran (tab (vd_requests dev'))" using that Some by (auto simp: ran_def)
      then obtain j where j: "tab (vd_requests dev') j = Some r" by (auto simp: ran_def)
      then have "tab (vd_requests dev) j = Some r" "j \<noteq> i" by (simp_all add: tab' split: if_splits)
      then show False using uniq by simp
    qed
    have ended: "rq_done p \<and> rq_driver_status p = status"
      if "tab (vd_requests dev) j = Some r'" "tab (vd_requests dev') j = None" "h_requests s' r' = Some p" for j r' p
    proof -
      have "j = i" using that(1,2) by (simp add: tab' split: if_splits)
      then have "h_requests s' r = Some p" using that Some by simp
      then show ?thesis using s'(4) by auto
    qed
    have "cancels tab status stale_only [i] s dev s' dev'"
      unfolding cancels_def
    proof (intro conjI allI impI)
      show "tab (vd_requests dev') j = Some p \<longleftrightarrow> tab (vd_requests dev) j = Some p \<and>
        (j \<in> set [i] \<longrightarrow> fresh_entry stale_only s (vd_reset_generation dev) p)" for j p
        using stale Some by (cases "p = r") (simp_all add: tab')
      show "h_requests s' p = h_requests s p"
        if "p \<notin> ran (tab (vd_requests dev)) \<or> p \<in> ran (tab (vd_requests dev'))" for p
        by (rule s'(6) [OF other [OF that]])
    qed (use ended in blast)+
    moreover have "cancel_request k status stale_only i s = Some s'"
      using d Some q False s'(1) by (auto simp: cancel_request_def load)
    ultimately show ?thesis using that [OF _ s'(2,3) d'] by blast
  qed
qed

lemma cancel_loop_ok:
  assumes "dinv tab L s" "0 < lc_probe L" "h_dev s = Some dev"
  shows "\<exists>s' dev'. cancel_loop k status stale_only ids s = Some s' \<and> dinv tab L s' \<and> evolves tab s s' \<and>
    h_dev s' = Some dev' \<and> cancels tab status stale_only ids s dev s' dev'"
  using assms
proof (induction ids arbitrary: s dev)
  case Nil
  then show ?case by (auto simp: cancels_def)
next
  case (Cons i ids)
  obtain s1 dev1 where s1: "cancel_request k status stale_only i s = Some s1" "dinv tab L s1" "evolves tab s s1"
    "h_dev s1 = Some dev1" "cancels tab status stale_only [i] s dev s1 dev1"
    by (rule cancel_request_ok [OF Cons(2-4), where status = status and stale_only = stale_only and i = i]) blast
  obtain s2 dev2 where s2: "cancel_loop k status stale_only ids s1 = Some s2" "dinv tab L s2" "evolves tab s1 s2"
    "h_dev s2 = Some dev2" "cancels tab status stale_only ids s1 dev1 s2 dev2"
    using Cons.IH [OF s1(2) Cons(3) s1(4)] by blast
  have gen: "vd_reset_generation dev1 = vd_reset_generation dev"
    using s1(3,4) Cons(4) dev_frame_fields(7) unfolding evolves_def by force
  have uniq: "a = b" if "tab (vd_requests dev) a = Some r" "tab (vd_requests dev) b = Some r" for a b r
    using dev_index_unique [OF dinv_parts(1) [OF Cons(2)] Cons(4) that(1)]
      dev_index_unique [OF dinv_parts(1) [OF Cons(2)] Cons(4) that(2)] by simp
  have "cancels tab status stale_only (i # ids) s dev s2 dev2"
    using cancels_append [OF s1(5) s2(5) gen uniq] by simp
  moreover have "cancel_loop k status stale_only (i # ids) s = Some s2" using s1(1) s2(1) by simp
  moreover have "evolves tab s s2" using s1(3) s2(3) by (rule evolves_trans)
  ultimately show ?case using s2(2,4) by blast
qed

lemma cancel_requests_ok:
  assumes inv: "dinv tab L s" and probe: "0 < lc_probe L" and d: "h_dev s = Some dev"
  obtains s' dev' where "vams_cancel_requests k status stale_only s = Some s'" "dinv tab L s'" "evolves tab s s'"
    "h_dev s' = Some dev'" "\<And>j r. tab (vd_requests dev') j = Some r \<Longrightarrow>
      fresh_entry stale_only s' (vd_reset_generation dev') r"
    "cancels tab status stale_only (xa_keys k (vd_requests dev)) s dev s' dev'"
proof -
  obtain s' dev' where s': "cancel_loop k status stale_only (xa_keys k (vd_requests dev)) s = Some s'" "dinv tab L s'"
    "evolves tab s s'" "h_dev s' = Some dev'"
    "cancels tab status stale_only (xa_keys k (vd_requests dev)) s dev s' dev'"
    using cancel_loop_ok [OF inv probe d] by blast
  have gen: "vd_reset_generation dev' = vd_reset_generation dev"
    using s'(3,4) d dev_frame_fields(7) unfolding evolves_def by force
  have "fresh_entry stale_only s' (vd_reset_generation dev') r" if j: "tab (vd_requests dev') j = Some r" for j r
  proof -
    have "tab (vd_requests dev) j = Some r" "fresh_entry stale_only s (vd_reset_generation dev) r"
      using s'(5) j unfolding cancels_def by (auto simp: keys)
    moreover have "r \<in> ran (tab (vd_requests dev'))" using j by (auto simp: ran_def)
    then have "h_requests s' r = h_requests s r" using s'(5) unfolding cancels_def by blast
    ultimately show ?thesis using gen by (simp add: fresh_entry_def)
  qed
  moreover have "vams_cancel_requests k status stale_only s = Some s'"
    using s'(1) d by (simp add: vams_cancel_requests_def)
  ultimately show ?thesis using that s' by blast
qed

end

lemma set_dev_step:
  assumes "dinv tab L s" "h_dev s = Some dev" "dev_fields_kept dev dev'" "vd_removing dev' = vd_removing dev"
  shows "dinv tab L (set_dev dev' s)" "sframe A s (set_dev dev' s)" "h_res (set_dev dev' s) = h_res s"
    "h_dev (set_dev dev' s) = Some dev'"
  using set_dev_fields_dinv [OF assms(1-3)] set_dev_sframe [OF assms(2,4)] by (simp_all add: set_dev_def)

lemma observe_reset_ok:
  assumes inv: "dinv tab L s" and d: "h_dev s = Some dev" and io: "R_iomap \<in> h_res s"
  obtains s' where "vams_observe_reset k s = Some s'" "dinv tab L s'" "sframe {} s s'" "h_res s' = h_res s"
    "h_requests s' = h_requests s" "h_files s' = h_files s"
proof -
  obtain gen w where g: "vams_readl k VAMS_REG_RESET_GENERATION s = Some (gen, s\<lparr> h_w := w \<rparr>)"
    by (rule vams_readl_Some [OF io])
  show ?thesis
  proof (cases "gen = vd_reset_generation dev")
    case True
    then show ?thesis using that [of "s\<lparr> h_w := w \<rparr>"] g d inv by (simp add: vams_observe_reset_def)
  next
    case False
    have io': "R_iomap \<in> h_res (s\<lparr> h_w := w \<rparr>)" using io by simp
    obtain reason w' where r: "vams_readl k VAMS_REG_LAST_RESET_REASON (s\<lparr> h_w := w \<rparr>) = Some (reason, s\<lparr> h_w := w' \<rparr>)"
      using vams_readl_Some [OF io', of k VAMS_REG_LAST_RESET_REASON] by auto
    let ?d = "dev\<lparr> vd_reset_reason := reason, vd_reset_generation := gen, vd_reset_work := True \<rparr>"
    let ?t = "s\<lparr> h_w := w' \<rparr>"
    have t: "dinv tab L ?t" "h_dev ?t = Some dev" using inv d by simp_all
    note step = set_dev_step [OF t, of ?d]
    have "sframe {} s (set_dev ?d ?t)"
      using sframe_trans_same [OF sframe_world step(2)] by (simp add: dev_fields_kept_def)
    then show ?thesis
      by (intro that [of "set_dev ?d ?t"])
        (use g d r False step in \<open>simp_all add: vams_observe_reset_def dev_fields_kept_def set_dev_def\<close>)
  qed
qed

context xarray_laws
begin

lemma reset_work_ok:
  assumes inv: "dinv tab L s" and probe: "0 < lc_probe L"
  obtains s' where "vams_reset_work k s = Some s'" "dinv tab L s'" "sframe {} s s'"
proof -
  obtain dev where d: "h_dev s = Some dev" by (rule device_live [OF dinv_parts(1) [OF inv]]) (use probe in simp_all)
  let ?d1 = "dev\<lparr> vd_reset_work := False \<rparr>"
  show ?thesis
  proof (cases "vd_removing dev")
    case True
    have "dev_fields_kept dev ?d1" by (simp add: dev_fields_kept_def)
    then show ?thesis
      using set_dev_step [OF inv d, of ?d1] that [of "set_dev ?d1 s"] True d by (simp add: vams_reset_work_def)
  next
    case False
    define d2 where "d2 = (if vd_reset_reason dev = VAMS_RESET_REASON_HOST_DEVICE \<or>
      vd_reset_reason dev = VAMS_RESET_REASON_HOST_QUEUE then ?d1\<lparr> vd_queues_ready := False \<rparr> else ?d1)"
    have "dev_fields_kept dev d2" "vd_removing d2 = vd_removing dev" by (simp_all add: dev_fields_kept_def d2_def)
    note step = set_dev_step [OF inv d this]
    obtain s' dev' where s': "vams_cancel_requests k (RC_ERR ECANCELED) True (set_dev d2 s) = Some s'" "dinv tab L s'"
      "evolves tab (set_dev d2 s) s'" "h_dev s' = Some dev'"
      by (rule cancel_requests_ok [OF step(1) probe step(4), where status = "RC_ERR ECANCELED" and stale_only = True]) blast
    have "sframe {} s s'" by (rule sframe_trans_same [OF step(2) evolves_sframe [OF s'(3)]]) (simp add: s'(4))
    moreover have "vams_reset_work k s = Some s'"
      using d False s'(1) unfolding d2_def by (simp add: vams_reset_work_def Let_def)
    ultimately show ?thesis using that s'(2) by blast
  qed
qed

lemma cq_poll_work_ok:
  assumes inv: "dinv tab L s" and probe: "0 < lc_probe L"
    and io: "\<And>dev. h_dev s = Some dev \<Longrightarrow> \<not> vd_removing dev \<Longrightarrow> R_iomap \<in> h_res s"
  obtains s' where "vams_cq_poll_work k s = Some s'" "dinv tab L s'" "sframe {} s s'"
proof -
  obtain dev where d: "h_dev s = Some dev" by (rule device_live [OF dinv_parts(1) [OF inv]]) (use probe in simp_all)
  let ?d1 = "dev\<lparr> vd_cq_poll_work := False \<rparr>"
  have "dev_fields_kept dev ?d1" "vd_removing ?d1 = vd_removing dev" by (simp_all add: dev_fields_kept_def)
  note s1 = set_dev_step [OF inv d this]
  show ?thesis
  proof (cases "vd_removing dev")
    case True
    then show ?thesis using that [OF _ s1(1,2)] d by (simp add: vams_cq_poll_work_def)
  next
    case False
    have io1: "R_iomap \<in> h_res (set_dev ?d1 s)" using io [OF d False] s1(3) by simp
    obtain s2 where s2: "vams_observe_reset k (set_dev ?d1 s) = Some s2" "dinv tab L s2" "sframe {} (set_dev ?d1 s) s2"
      by (rule observe_reset_ok [OF s1(1,4) io1, of k]) blast
    obtain n s3 where s3: "vams_drain_cq k s2 = Some (n, s3)" "dinv tab L s3" "evolves tab s2 s3"
      by (rule drain_cq_ok [OF s2(2) probe])
    obtain dev3 where d3: "h_dev s3 = Some dev3"
      by (rule device_live [OF dinv_parts(1) [OF s3(2)]]) (use probe in simp_all)
    have fr: "sframe {} s s3"
      using sframe_trans_same [OF s1(2) sframe_trans_same [OF s2(3) evolves_sframe [OF s3(3)]]] d3 by simp
    let ?d4 = "dev3\<lparr> vd_cq_poll_work := True \<rparr>"
    have "dev_fields_kept dev3 ?d4" "vd_removing ?d4 = vd_removing dev3" by (simp_all add: dev_fields_kept_def)
    note s4 = set_dev_step [OF s3(2) d3 this]
    show ?thesis
    proof (cases "vd_pending_requests dev3 > 0")
      case True
      then have "vams_cq_poll_work k s = Some (set_dev ?d4 s3)"
        using d False s2(1) s3(1) d3 by (simp add: vams_cq_poll_work_def)
      then show ?thesis using that s4(1) sframe_trans_same [OF fr s4(2)] by blast
    next
      case False
      then have "vams_cq_poll_work k s = Some s3"
        using d \<open>\<not> vd_removing dev\<close> s2(1) s3(1) d3 by (simp add: vams_cq_poll_work_def)
      then show ?thesis using that s3(2) fr by blast
    qed
  qed
qed

lemma cq_irq_ok:
  assumes inv: "dinv tab L s" and probe: "0 < lc_probe L" and io: "R_iomap \<in> h_res s"
  obtains v s' where "vams_cq_irq k s = Some (v, s')" "dinv tab L s'" "sframe {} s s'"
proof -
  obtain st w where st: "vams_readl k VAMS_REG_INTR_STATUS s = Some (st, s\<lparr> h_w := w \<rparr>)"
    by (rule vams_readl_Some [OF io])
  let ?t = "s\<lparr> h_w := w \<rparr>"
  show ?thesis
  proof (cases "st AND VAMS_INTR_CQ = 0")
    case True
    then show ?thesis using that [of IRQ_NONE ?t] st inv by (simp add: vams_cq_irq_def)
  next
    case False
    have t: "dinv tab L ?t" using inv by simp
    obtain n s1 where s1: "vams_drain_cq k ?t = Some (n, s1)" "dinv tab L s1" "evolves tab ?t s1"
      by (rule drain_cq_ok [OF t probe])
    obtain dev1 where d1: "h_dev s1 = Some dev1"
      by (rule device_live [OF dinv_parts(1) [OF s1(2)]]) (use probe in simp_all)
    have "R_iomap \<in> h_res s1" using s1(3) io by (simp add: evolves_def)
    then obtain w' where w': "vams_writel k VAMS_REG_INTR_STATUS (st AND VAMS_INTR_CQ) s1 = Some (s1\<lparr> h_w := w' \<rparr>)"
      by (rule vams_writel_Some)
    let ?u = "s1\<lparr> h_w := w' \<rparr>" and ?d = "dev1\<lparr> vd_cq_interrupts := vd_cq_interrupts dev1 + 1 \<rparr>"
    have u: "dinv tab L ?u" "h_dev ?u = Some dev1" using s1(2) d1 by simp_all
    have "dev_fields_kept dev1 ?d" "vd_removing ?d = vd_removing dev1" by (simp_all add: dev_fields_kept_def)
    note s2 = set_dev_step [OF u this]
    have "sframe {} s (set_dev ?d ?u)"
      using sframe_trans_same [OF sframe_world sframe_trans_same [OF evolves_sframe [OF s1(3)]
        sframe_trans_same [OF sframe_world s2(2)]]] d1 by simp
    moreover have "vams_cq_irq k s = Some (IRQ_HANDLED, set_dev ?d ?u)"
      using st False s1(1) w' d1 by (simp add: vams_cq_irq_def)
    ultimately show ?thesis using that s2(1) by blast
  qed
qed

end

subsection \<open>Command identifiers\<close>

text \<open>
  Between the entry in the table and the count in \<open>vams_submit\<close> a request is on the table and not
  yet pending: \<open>pend n\<close> counts it.
\<close>

definition pend :: "int \<Rightarrow> ('w, 'x) host \<Rightarrow> ('w, 'x) host" where
  "pend n s = s\<lparr> h_dev := map_option (\<lambda>dev. dev\<lparr> vd_pending_requests := vd_pending_requests dev + n \<rparr>) (h_dev s) \<rparr>"

definition after_track :: "ref option \<Rightarrow> ref \<Rightarrow> locals \<Rightarrow> locals" where
  "after_track owner r L = (case owner of None \<Rightarrow> add_request r L | Some f \<Rightarrow> L)"

lemma after_track_probe [simp]: "lc_probe (after_track owner r L) = lc_probe L" "lc_open (after_track owner r L) = lc_open L"
  by (simp_all add: after_track_def split: option.split)

text \<open>The rings, the tail and the readiness of the device.\<close>

definition ring_frame :: "('w, 'x) host \<Rightarrow> ('w, 'x) host \<Rightarrow> bool" where
  "ring_frame s s' \<longleftrightarrow> (\<forall>dev'. h_dev s' = Some dev' \<longrightarrow> (\<exists>dev. h_dev s = Some dev \<and> vd_sq dev' = vd_sq dev \<and>
     vd_sq_tail dev' = vd_sq_tail dev \<and> vd_queues_ready dev' = vd_queues_ready dev))"

lemma ring_frame_trans: "ring_frame s t \<Longrightarrow> ring_frame t u \<Longrightarrow> ring_frame s u"
  unfolding ring_frame_def by fastforce

lemma evolves_ring_frame:
  assumes "evolves tab s s'"
  shows "ring_frame s s'"
  unfolding ring_frame_def
proof (intro allI impI)
  fix dev' assume "h_dev s' = Some dev'"
  then obtain dev where "h_dev s = Some dev" "dev_frame dev dev'" using assms unfolding evolves_def by blast
  then show "\<exists>dev. h_dev s = Some dev \<and> vd_sq dev' = vd_sq dev \<and>
      vd_sq_tail dev' = vd_sq_tail dev \<and> vd_queues_ready dev' = vd_queues_ready dev"
    using dev_frame_fields by blast
qed

context xarray_laws
begin

lemma device_insert_ok:
  assumes inv: "hinv tab M s" and ready: "ready_ok tab s" and rings: "rings_ok tab s" and d: "h_dev s = Some dev"
    and q: "h_requests s r = Some q" "rq_command_id q = i" "\<not> rq_done q" and probe: "0 < lc_probe M"
    and free: "tab (vd_requests dev) i = None" and x: "tab x = (tab (vd_requests dev))(i \<mapsto> r)"
  defines "s' \<equiv> set_dev (dev\<lparr> vd_requests := x \<rparr>) (set_request r (q\<lparr> rq_refs := rq_refs q + 1 \<rparr>) s)"
  shows "hinv tab M s'" "ready_ok tab s'" "rings_ok tab (pend 1 s')" "sframe {} s s'" "ring_frame s s'" "i \<in> req_dev tab s' r"
proof -
  let ?s1 = "set_request r (q\<lparr> rq_refs := rq_refs q + 1 \<rparr>) s"
  have i1: "hinv tab (add_request r M) ?s1" by (rule request_get_ok [OF inv q(1)])
  have d1: "h_dev ?s1 = Some dev" using d by (simp add: set_request_def)
  show "hinv tab M s'"
    unfolding s'_def
    by (rule dev_insert_hinv [OF i1 d1 free, where q = "q\<lparr> rq_refs := rq_refs q + 1 \<rparr>"])
      (use x q probe in \<open>simp_all add: set_request_def\<close>)
  have "ready_ok tab ?s1" by (rule done_flag_ready [OF ready q(1)]) simp
  then show "ready_ok tab s'" by (rule ready_ok_same) (simp_all add: s'_def set_dev_def)
  have "card (dom (tab x)) = Suc (card (dom (tab (vd_requests dev))))"
    using free x finite_tab by (simp add: card_insert_if domIff)
  then show "rings_ok tab (pend 1 s')"
    using rings_okD [OF rings d]
    by (intro rings_okI [where dev = "dev\<lparr> vd_requests := x, vd_pending_requests := vd_pending_requests dev + 1 \<rparr>"])
      (simp_all add: s'_def pend_def set_dev_def set_request_def)
  show "sframe {} s s'" using d by (simp add: s'_def sframe_def set_dev_def set_request_def)
  show "ring_frame s s'" using d by (simp add: s'_def ring_frame_def set_dev_def set_request_def)
  show "i \<in> req_dev tab s' r" using x by (simp add: s'_def req_dev_def set_dev_def set_request_def)
qed

lemma erase_entry_ready:
  assumes ready: "ready_ok tab s" and f: "h_files s f = Some fl" and x: "tab (vf_requests fl') = (tab (vf_requests fl))(i := None)"
    and same: "vf_closing fl' = vf_closing fl" "vf_completed_requests fl' = vf_completed_requests fl"
  shows "ready_ok tab (set_file f fl' s)"
proof (rule ready_okI [OF ready])
  fix g gl assume g: "h_files (set_file f fl' s) g = Some gl" "\<not> vf_closing gl"
  show "\<exists>hl. h_files s g = Some hl \<and> \<not> vf_closing hl \<and> vf_completed_requests gl \<ge> vf_completed_requests hl \<and>
      done_entries tab (set_file f fl' s) gl \<subseteq> done_entries tab s hl"
    using g f x same by (cases "g = f") (auto simp: set_file_def done_entries_def split: if_splits)
qed

lemma insert_result:
  obtains (inserted) x where "xa_insert k i p y = (RC_OK, x)" "tab y i = None" "tab x = (tab y)(i \<mapsto> p)"
  | (failed) e where "xa_insert k i p y = (RC_ERR e, y)"
proof (cases "tab y i")
  case None
  then show ?thesis using insert_free [OF None, of p] inserted failed by (metis surjective_pairing)
next
  case (Some a)
  then show ?thesis using insert_busy [of y i p] failed by simp
qed

lemma track_device_ok:
  assumes inv: "hinv tab M s" and ready: "ready_ok tab s" and rings: "rings_ok tab s" and d: "h_dev s = Some dev"
    and q: "h_requests s r = Some q" "rq_command_id q = i" "\<not> rq_done q" and probe: "0 < lc_probe M"
    and held: "case rq_owner q of None \<Rightarrow> 0 < lc_requests M r
      | Some f \<Rightarrow> \<exists>fl. h_files s f = Some fl \<and> tab (vf_requests fl) i = Some r"
  shows "(\<exists>s' n. track_device k r i s = Some (RC_OK, s') \<and> hinv tab M s' \<and> ready_ok tab s' \<and>
      rings_ok tab (pend 1 s') \<and> sframe {} s s' \<and> ring_frame s s' \<and> i \<in> req_dev tab s' r \<and> h_requests s' r = Some (q\<lparr> rq_refs := n \<rparr>)) \<or>
    (\<exists>e s' n. track_device k r i s = Some (RC_ERR e, s') \<and>
      hinv tab (case rq_owner q of None \<Rightarrow> M | Some f \<Rightarrow> add_request r M) s' \<and> ready_ok tab s' \<and>
      rings_ok tab s' \<and> sframe (set_option (rq_owner q)) s s' \<and> ring_frame s s' \<and> h_requests s' r = Some (q\<lparr> rq_refs := n \<rparr>) \<and>
      req_dev tab s' r = req_dev tab s r \<and>
      req_file tab s' r = (case rq_owner q of None \<Rightarrow> req_file tab s r | Some f \<Rightarrow> req_file tab s r - {(f, i)}))"
proof -
  let ?q = "q\<lparr> rq_refs := rq_refs q + 1 \<rparr>"
  let ?s1 = "set_request r ?q s"
  have get: "vams_request_get r s = Some ?s1" using q by (simp add: vams_request_get_def)
  have d1: "h_dev ?s1 = Some dev" using d by (simp add: set_request_def)
  show ?thesis
  proof (cases rule: insert_result [of i r "vd_requests dev"])
    case (inserted x)
    let ?s2 = "set_dev (dev\<lparr> vd_requests := x \<rparr>) ?s1"
    note ins = device_insert_ok [OF inv ready rings d q probe inserted(2,3)]
    have "track_device k r i s = Some (RC_OK, ?s2)"
      using get d1 inserted(1) by (simp add: track_device_def)
    then show ?thesis using ins by (intro disjI1 exI [of _ ?s2]) (auto simp: set_dev_def set_request_def)
  next
    case (failed e)
    have same1: "set_dev (dev\<lparr> vd_requests := vd_requests dev \<rparr>) ?s1 = ?s1" using d by (simp add: set_dev_def set_request_def)
    have "set_request r q ?s1 = s" using q(1) by (simp add: set_request_def fun_upd_idem)
    then have put: "vams_request_put Process r ?s1 = Some s"
      using requests_okD(2) [OF inv q(1)] by (simp add: vams_request_put_def set_request_def)
    show ?thesis
    proof (cases "rq_owner q")
      case None
      have "track_device k r i s = Some (RC_ERR e, s)"
        using get d1 failed same1 put q(1) None by (simp add: track_device_def)
      then show ?thesis using None inv ready rings q(1)
        by (intro disjI2 exI [of _ e] exI [of _ s] exI [of _ "rq_refs q"]) (simp add: ring_frame_def)
    next
      case (Some f)
      then obtain fl where f: "h_files s f = Some fl" "tab (vf_requests fl) i = Some r" using held by auto
      let ?x = "snd (xa_erase k i (vf_requests fl))"
      have x: "tab ?x = (tab (vf_requests fl))(i := None)" using erase by blast
      let ?fl = "fl\<lparr> vf_requests := ?x \<rparr>"
      let ?t = "set_file f ?fl s"
      have "hinv tab (add_request r M) ?t" by (rule file_request_erase_hinv [OF inv f]) (simp_all add: x)
      moreover have "ready_ok tab ?t" by (rule erase_entry_ready [OF ready f(1), where i = i]) (simp_all add: x)
      moreover have "rings_ok tab ?t" by (rule rings_ok_same [OF rings]) (simp_all add: set_file_def)
      moreover have "sframe {f} s ?t" "ring_frame s ?t" by (simp_all add: sframe_def ring_frame_def set_file_def)
      moreover have "req_file tab ?t r = req_file tab s r - {(f, i)}" "req_dev tab ?t r = req_dev tab s r"
        using f x by (auto simp: req_file_def req_dev_def set_file_def split: if_splits)
      moreover have "track_device k r i s = Some (RC_ERR e, ?t)"
        using get d1 failed same1 put q(1) Some f by (simp add: track_device_def)
      ultimately show ?thesis using Some q(1)
        by (intro disjI2 exI [of _ e] exI [of _ ?t] exI [of _ "rq_refs q"]) (simp add: set_file_def)
    qed
  qed
qed

end

text \<open>The state of a request that is not on a table, and of one that was put there.\<close>

definition untracked :: "('x \<Rightarrow> u32 \<Rightarrow> ref option) \<Rightarrow> locals \<Rightarrow> ref \<Rightarrow> vams_request \<Rightarrow> ('w, 'x) host \<Rightarrow> bool" where
  "untracked tab L r q s \<longleftrightarrow> dinv tab (add_request r L) s \<and> h_requests s r = Some q \<and> \<not> rq_done q \<and>
     req_dev tab s r = {} \<and> req_file tab s r = {} \<and> 0 < lc_probe L \<and> (\<forall>f. rq_owner q = Some f \<longrightarrow> lc_open L f)"

definition tracked :: "('x \<Rightarrow> u32 \<Rightarrow> ref option) \<Rightarrow> locals \<Rightarrow> ref \<Rightarrow> vams_request \<Rightarrow> ('w, 'x) host \<Rightarrow> bool" where
  "tracked tab L r q s \<longleftrightarrow> hinv tab (after_track (rq_owner q) r L) s \<and> ready_ok tab s \<and> rings_ok tab (pend 1 s) \<and>
     h_requests s r = Some q \<and> \<not> rq_done q \<and> 0 < lc_probe L \<and> rq_command_id q \<in> req_dev tab s r \<and>
     (\<forall>f. rq_owner q = Some f \<longrightarrow> (f, rq_command_id q) \<in> req_file tab s r)"

lemma req_file_in:
  assumes "(f, i) \<in> req_file tab s r" "sframe A s s'" "f \<notin> A" "h_files s' f \<noteq> None"
  shows "(f, i) \<in> req_file tab s' r"
proof -
  obtain fl' where fl': "h_files s' f = Some fl'" using assms(4) by auto
  then obtain fl where "h_files s f = Some fl" "vf_requests fl' = vf_requests fl"
    using assms(2,3) unfolding sframe_def by blast
  then show ?thesis using assms(1) fl' by (auto simp: req_file_def)
qed

context xarray_laws
begin

lemma insert_entry_ready:
  assumes ready: "ready_ok tab s" and f: "h_files s f = Some fl"
    and x: "tab (vf_requests fl') = (tab (vf_requests fl))(i \<mapsto> r)"
    and q: "h_requests s r = Some q" "\<not> rq_done q"
    and same: "vf_closing fl' = vf_closing fl" "vf_completed_requests fl' = vf_completed_requests fl"
  shows "ready_ok tab (set_file f fl' s)"
proof (rule ready_okI [OF ready])
  fix g gl assume g: "h_files (set_file f fl' s) g = Some gl" "\<not> vf_closing gl"
  show "\<exists>hl. h_files s g = Some hl \<and> \<not> vf_closing hl \<and> vf_completed_requests gl \<ge> vf_completed_requests hl \<and>
      done_entries tab (set_file f fl' s) gl \<subseteq> done_entries tab s hl"
    using g f x same q by (cases "g = f") (auto simp: set_file_def done_entries_def split: if_splits)
qed

lemma track_attempt_ok:
  assumes un: "untracked tab L r q s"
  shows "\<exists>ret s' n. track_attempt k r i s = Some (ret, s') \<and> sframe (set_option (rq_owner q)) s s' \<and> ring_frame s s' \<and>
    (if ret = RC_OK then tracked tab L r (q\<lparr> rq_command_id := i, rq_refs := n \<rparr>) s'
     else untracked tab L r (q\<lparr> rq_command_id := i, rq_refs := n \<rparr>) s')"
proof -
  note u = un [unfolded untracked_def]
  have inv: "dinv tab (add_request r L) s" and q: "h_requests s r = Some q" "\<not> rq_done q"
    and out: "req_dev tab s r = {}" "req_file tab s r = {}" and probe: "0 < lc_probe L" using u by simp_all
  note hi = dinv_parts(1) [OF inv]
  obtain dev where d: "h_dev s = Some dev" by (rule device_live [OF hi]) (use probe in simp_all)
  let ?q = "q\<lparr> rq_command_id := i \<rparr>"
  let ?s1 = "set_request r ?q s"
  have q1: "h_requests ?s1 r = Some ?q" by (simp add: set_request_def)
  have d1: "h_dev ?s1 = Some dev" using d by (simp add: set_request_def)
  have i1: "hinv tab (add_request r L) ?s1"
    by (rule request_update_hinv [OF hi q(1)]) (use requests_okD [OF hi q(1)] out in simp_all)
  have ready1: "ready_ok tab ?s1" by (rule done_flag_ready [OF dinv_parts(3) [OF inv] q(1)]) simp
  have rings1: "rings_ok tab ?s1" by (rule rings_ok_same [OF dinv_parts(2) [OF inv]]) (simp_all add: set_request_def)
  have out1: "req_dev tab ?s1 r = {}" "req_file tab ?s1 r = {}" using out by (simp_all add: set_request_def)
  have fr1: "sframe A s ?s1" for A by (simp add: sframe_def set_request_def)
  have rf1: "ring_frame s ?s1" by (simp add: ring_frame_def set_request_def)
  show ?thesis
  proof (cases "rq_owner q")
    case None
    have "(\<exists>s' n. track_device k r i ?s1 = Some (RC_OK, s') \<and> hinv tab (add_request r L) s' \<and> ready_ok tab s' \<and>
        rings_ok tab (pend 1 s') \<and> sframe {} ?s1 s' \<and> ring_frame ?s1 s' \<and> i \<in> req_dev tab s' r \<and> h_requests s' r = Some (?q\<lparr> rq_refs := n \<rparr>)) \<or>
      (\<exists>e s' n. track_device k r i ?s1 = Some (RC_ERR e, s') \<and> hinv tab (add_request r L) s' \<and> ready_ok tab s' \<and>
        rings_ok tab s' \<and> sframe {} ?s1 s' \<and> ring_frame ?s1 s' \<and> h_requests s' r = Some (?q\<lparr> rq_refs := n \<rparr>) \<and>
        req_dev tab s' r = req_dev tab ?s1 r \<and> req_file tab s' r = req_file tab ?s1 r)"
      using track_device_ok [OF i1 ready1 rings1 d1 q1, of i] q(2) probe None by simp
    moreover have "track_attempt k r i s = track_device k r i ?s1"
      using q None by (simp add: track_attempt_def)
    ultimately show ?thesis
      using None out1 q(2) probe sframe_trans_same [OF fr1 [of "{}"]] ring_frame_trans [OF rf1]
      by (fastforce simp: tracked_def untracked_def after_track_def dinv_def)
  next
    case (Some f)
    have op: "lc_open L f" using u Some by simp
    obtain fl where f: "h_files ?s1 f = Some fl"
      by (rule file_live [OF i1, of f]) (use op in simp_all)
    have attempt: "track_attempt k r i s = (let (ret, x) = xa_insert k i r (vf_requests fl);
        t = set_file f (fl\<lparr> vf_requests := x \<rparr>) ?s1 in if ret \<noteq> RC_OK then Some (ret, t) else track_device k r i t)"
      using q Some f by (simp add: track_attempt_def)
    show ?thesis
    proof (cases rule: insert_result [of i r "vf_requests fl"])
      case (failed e)
      have "set_file f (fl\<lparr> vf_requests := vf_requests fl \<rparr>) ?s1 = ?s1"
        using f by (simp add: set_file_def fun_upd_idem)
      then have "track_attempt k r i s = Some (RC_ERR e, ?s1)" using attempt failed by simp
      moreover have "untracked tab L r (?q\<lparr> rq_refs := rq_refs q \<rparr>) ?s1"
        using i1 ready1 rings1 q1 q(2) out1 probe u by (simp add: untracked_def dinv_def)
      ultimately show ?thesis using fr1 rf1 by (intro exI [of _ "RC_ERR e"] exI [of _ ?s1] exI [of _ "rq_refs q"]) simp
    next
      case (inserted x)
      let ?t = "set_file f (fl\<lparr> vf_requests := x \<rparr>) ?s1"
      have it: "hinv tab L ?t"
        by (rule file_request_insert_hinv [OF i1 f inserted(2), where q = ?q]) (use inserted(3) q1 Some op in simp_all)
      have readyt: "ready_ok tab ?t"
        by (rule insert_entry_ready [OF ready1 f, where i = i and r = r and q = ?q]) (use inserted(3) q1 q(2) in simp_all)
      have ringst: "rings_ok tab ?t" by (rule rings_ok_same [OF rings1]) (simp_all add: set_file_def)
      have qt: "h_requests ?t r = Some ?q" and dt: "h_dev ?t = Some dev" using q1 d1 by (simp_all add: set_file_def)
      have frt: "sframe {f} s ?t"
        using sframe_trans_same [OF fr1 [of "{f}"], of ?t] by (simp add: sframe_def set_file_def)
      have rft: "ring_frame s ?t"
        using ring_frame_trans [OF rf1, of ?t] by (simp add: ring_frame_def set_file_def)
      have ft: "h_files ?t f = Some (fl\<lparr> vf_requests := x \<rparr>)" "tab x i = Some r" using inserted(3) by (simp_all add: set_file_def)
      have dev_t: "(\<exists>s' n. track_device k r i ?t = Some (RC_OK, s') \<and> hinv tab L s' \<and> ready_ok tab s' \<and>
          rings_ok tab (pend 1 s') \<and> sframe {} ?t s' \<and> ring_frame ?t s' \<and> i \<in> req_dev tab s' r \<and> h_requests s' r = Some (?q\<lparr> rq_refs := n \<rparr>)) \<or>
        (\<exists>e s' n. track_device k r i ?t = Some (RC_ERR e, s') \<and> hinv tab (add_request r L) s' \<and> ready_ok tab s' \<and>
          rings_ok tab s' \<and> sframe {f} ?t s' \<and> ring_frame ?t s' \<and> h_requests s' r = Some (?q\<lparr> rq_refs := n \<rparr>) \<and>
          req_dev tab s' r = req_dev tab ?t r \<and> req_file tab s' r = req_file tab ?t r - {(f, i)})"
        using track_device_ok [OF it readyt ringst dt qt, of i] q(2) probe Some ft by simp
      have outt: "req_dev tab ?t r = {}" "req_file tab ?t r \<subseteq> {(f, i)}"
        using out1 f inserted(3) by (auto simp: set_file_def req_file_def split: if_splits)
      have attempt': "track_attempt k r i s = track_device k r i ?t" using attempt inserted(1) by simp
      show ?thesis
        using dev_t
      proof (elim disjE exE conjE)
        fix s' n
        assume s': "track_device k r i ?t = Some (RC_OK, s')" "hinv tab L s'" "ready_ok tab s'"
          "rings_ok tab (pend 1 s')" "sframe {} ?t s'" "ring_frame ?t s'" "i \<in> req_dev tab s' r" "h_requests s' r = Some (?q\<lparr> rq_refs := n \<rparr>)"
        obtain fl' where "h_files s' f = Some fl'" by (rule file_live [OF s'(2), of f]) (use op in simp_all)
        then have "(f, i) \<in> req_file tab s' r"
          using req_file_in [where f = f and i = i and r = r and tab = tab, OF _ s'(5)] ft by (simp add: req_file_def)
        then have "tracked tab L r (?q\<lparr> rq_refs := n \<rparr>) s'"
          using s' Some q(2) probe by (simp add: tracked_def after_track_def)
        moreover have "sframe {f} s s'" using sframe_trans [OF frt s'(5)] by simp
        ultimately show ?thesis using s'(1) attempt' Some ring_frame_trans [OF rft s'(6)]
          by (intro exI [of _ RC_OK] exI [of _ s'] exI [of _ n]) simp
      next
        fix e s' n
        assume s': "track_device k r i ?t = Some (RC_ERR e, s')" "hinv tab (add_request r L) s'" "ready_ok tab s'"
          "rings_ok tab s'" "sframe {f} ?t s'" "ring_frame ?t s'" "h_requests s' r = Some (?q\<lparr> rq_refs := n \<rparr>)"
          "req_dev tab s' r = req_dev tab ?t r" "req_file tab s' r = req_file tab ?t r - {(f, i)}"
        have "untracked tab L r (?q\<lparr> rq_refs := n \<rparr>) s'"
          using s' outt q(2) probe u by (auto simp: untracked_def dinv_def)
        moreover have "sframe {f} s s'" using sframe_trans_same [OF frt s'(5)] .
        ultimately show ?thesis using s'(1) attempt' Some ring_frame_trans [OF rft s'(6)]
          by (intro exI [of _ "RC_ERR e"] exI [of _ s'] exI [of _ n]) simp
      qed
    qed
  qed
qed

end

end
