(* ===== verification/Vams_Pci_Submit.thy ===== *)
theory Vams_Pci_Submit
  imports Vams_Pci_Rings
begin

text \<open>
  Submission through the host driver: \<open>vams_track_request\<close> gives a request a command identifier that is
  on neither table, \<open>vams_submit\<close> puts it on the ring or leaves it as it was, and the queues are
  configured, disabled, allocated and freed without a fault.
\<close>

subsection \<open>Command identifiers\<close>

lemma untracked_evolves:
  assumes un: "untracked tab L r q s" and inv: "dinv tab (add_request r L) s'" and ev: "evolves tab s s'"
  shows "untracked tab L r q s'"
proof -
  note u = un [unfolded untracked_def]
  have "req_dev tab s' r = {}" using req_dev_sub [OF ev] u by simp
  moreover have "x \<notin> req_file tab s' r" for x
  proof
    assume "x \<in> req_file tab s' r"
    then obtain fl' where fl': "h_files s' (fst x) = Some fl'" "tab (vf_requests fl') (snd x) = Some r"
      by (auto simp: req_file_def)
    then obtain fl where fl: "h_files s (fst x) = Some fl" "file_frame fl fl'" using ev unfolding evolves_def by blast
    then have "tab (vf_requests fl) (snd x) = Some r" using fl' file_frame_fields(1) [OF fl(2)] by simp
    then have "x \<in> req_file tab s r" using fl by (cases x) (simp add: req_file_def)
    then show False using u by simp
  qed
  moreover have "h_requests s' r = Some q" using ev u unfolding evolves_def by simp
  ultimately show ?thesis using u inv unfolding untracked_def by blast
qed

context xarray_laws
begin

lemma untracked_device:
  assumes un: "untracked tab L r q s" and d: "h_dev s = Some dev" and kept: "dev_fields_kept dev dev'"
  shows "untracked tab L r q (set_dev dev' s)"
proof -
  note u = un [unfolded untracked_def]
  have "req_dev tab (set_dev dev' s) r = {}" "req_file tab (set_dev dev' s) r = {}"
    using u d kept by (simp_all add: req_dev_def set_dev_def dev_fields_kept_def)
  then show ?thesis
    using u set_dev_fields_dinv [OF _ d kept] by (simp add: untracked_def) (simp add: set_dev_def)
qed

lemma track_loop_ok:
  assumes "untracked tab L r q s"
  shows "\<exists>ret s' i n. track_loop k r m s = Some (ret, s') \<and> sframe (set_option (rq_owner q)) s s' \<and> ring_frame s s' \<and>
    (if ret = RC_OK then i \<noteq> 0 \<and> tracked tab L r (q\<lparr> rq_command_id := i, rq_refs := n \<rparr>) s'
     else untracked tab L r (q\<lparr> rq_command_id := i, rq_refs := n \<rparr>) s')"
  using assms
proof (induction m arbitrary: s q)
  case 0
  then show ?case
    by (intro exI [of _ "RC_ERR ENOSPC"] exI [of _ s] exI [of _ "rq_command_id q"] exI [of _ "rq_refs q"])
      (simp add: ring_frame_def)
next
  case (Suc m)
  note u = Suc.prems [unfolded untracked_def]
  obtain dev where d: "h_dev s = Some dev"
    by (rule device_live [of tab "add_request r L" s]) (use u in \<open>auto simp: dinv_def\<close>)
  let ?i = "vd_next_command_id dev + 1"
  let ?s1 = "set_dev (dev\<lparr> vd_next_command_id := ?i \<rparr>) s"
  have un1: "untracked tab L r q ?s1" by (rule untracked_device [OF Suc.prems d]) (simp add: dev_fields_kept_def)
  have fr1: "sframe A s ?s1" for A by (rule set_dev_sframe [OF d]) simp
  have rf1: "ring_frame s ?s1" using d by (simp add: ring_frame_def set_dev_def)
  show ?case
  proof (cases "?i = 0")
    case True
    from Suc.IH [OF un1] obtain ret s' i n where s': "track_loop k r m ?s1 = Some (ret, s')"
      "sframe (set_option (rq_owner q)) ?s1 s'" "ring_frame ?s1 s'"
      "if ret = RC_OK then i \<noteq> 0 \<and> tracked tab L r (q\<lparr> rq_command_id := i, rq_refs := n \<rparr>) s'
       else untracked tab L r (q\<lparr> rq_command_id := i, rq_refs := n \<rparr>) s'" by blast
    have "track_loop k r (Suc m) s = Some (ret, s')" using d True s'(1) by simp
    then show ?thesis using sframe_trans_same [OF fr1 s'(2)] ring_frame_trans [OF rf1 s'(3)] s'(4) by blast
  next
    case False
    obtain ret t n where t: "track_attempt k r ?i ?s1 = Some (ret, t)" "sframe (set_option (rq_owner q)) ?s1 t"
      "ring_frame ?s1 t" "if ret = RC_OK then tracked tab L r (q\<lparr> rq_command_id := ?i, rq_refs := n \<rparr>) t
        else untracked tab L r (q\<lparr> rq_command_id := ?i, rq_refs := n \<rparr>) t"
      using track_attempt_ok [OF un1, of ?i] by blast
    have fr: "sframe (set_option (rq_owner q)) s t" "ring_frame s t"
      using sframe_trans_same [OF fr1 t(2)] ring_frame_trans [OF rf1 t(3)] by blast+
    show ?thesis
    proof (cases "ret = RC_ERR EBUSY")
      case busy: True
      then have "untracked tab L r (q\<lparr> rq_command_id := ?i, rq_refs := n \<rparr>) t" using t(4) by simp
      moreover have eq: "q\<lparr> rq_command_id := ?i, rq_refs := n, rq_command_id := j, rq_refs := l \<rparr> =
          q\<lparr> rq_command_id := j, rq_refs := l \<rparr>" "rq_owner (q\<lparr> rq_command_id := ?i, rq_refs := n \<rparr>) = rq_owner q" for j l
        by simp_all
      ultimately obtain ret' s' i m' where s': "track_loop k r m t = Some (ret', s')"
        "sframe (set_option (rq_owner q)) t s'" "ring_frame t s'"
        "if ret' = RC_OK then i \<noteq> 0 \<and> tracked tab L r (q\<lparr> rq_command_id := i, rq_refs := m' \<rparr>) s'
         else untracked tab L r (q\<lparr> rq_command_id := i, rq_refs := m' \<rparr>) s'"
        using Suc.IH [of "q\<lparr> rq_command_id := ?i, rq_refs := n \<rparr>" t] unfolding eq by blast
      have "track_loop k r (Suc m) s = Some (ret', s')" using d False t(1) busy s'(1) by simp
      then show ?thesis using sframe_trans_same [OF fr(1) s'(2)] ring_frame_trans [OF fr(2) s'(3)] s'(4) by blast
    next
      case other: False
      have "track_loop k r (Suc m) s = Some (ret, t)" using d False t(1) other by simp
      then show ?thesis using fr t(4) False by (intro exI [of _ ret] exI [of _ t] exI [of _ ?i] exI [of _ n]) auto
    qed
  qed
qed

end

subsection \<open>Publication\<close>

text \<open>
  A submitted request: it is done at most by a completion, it carries a nonzero identifier, and the
  table of its owner leads to it.
\<close>

definition submitted :: "('x \<Rightarrow> u32 \<Rightarrow> ref option) \<Rightarrow> locals \<Rightarrow> ref \<Rightarrow> vams_request \<Rightarrow> ('w, 'x) host \<Rightarrow> bool" where
  "submitted tab L r q s \<longleftrightarrow> dinv tab (after_track (rq_owner q) r L) s \<and> h_requests s r = Some q \<and>
     rq_command_id q \<noteq> 0 \<and> (\<forall>f. rq_owner q = Some f \<longrightarrow> (f, rq_command_id q) \<in> req_file tab s r)"

context xarray_laws
begin

lemma publish_ok:
  assumes tr: "tracked tab L r q s" and cid: "rq_command_id q \<noteq> 0" and d: "h_dev s = Some dev"
    and ready: "vd_queues_ready dev" and nt: "next_tail < VAMS_QUEUE_DEPTH"
  obtains s' dev' sq where "publish_submission k r descriptor next_tail s = Some s'"
    "submitted tab L r (q\<lparr> rq_reset_generation := vd_reset_generation dev \<rparr>) s'" "sframe {} s s'"
    "h_dev s' = Some dev'" "vd_sq dev = Some sq" "length sq = unat VAMS_QUEUE_DEPTH"
    "vd_sq dev' = Some (sq[unat (vd_sq_tail dev) := descriptor\<lparr> sub_command_id := rq_command_id q \<rparr>])"
    "vd_sq_tail dev' = next_tail" "vd_cq_poll_work dev'"
proof -
  note t = tr [unfolded tracked_def]
  let ?M = "after_track (rq_owner q) r L"
  have hi: "hinv tab ?M s" and q: "h_requests s r = Some q" using t by simp_all
  have rings: "rings_ok tab (pend 1 s)" using t by simp
  have dp: "h_dev (pend 1 s) = Some (dev\<lparr> vd_pending_requests := vd_pending_requests dev + 1 \<rparr>)" using d by (simp add: pend_def)
  note rd = rings_okD [OF rings dp]
  have res: "h_res (pend 1 s) = h_res s" by (simp add: pend_def)
  have io: "R_iomap \<in> h_res s" and "vd_sq dev \<noteq> None" using rd(5,7) ready res by auto
  then obtain sq where sq: "vd_sq dev = Some sq" by auto
  have len: "length sq = unat VAMS_QUEUE_DEPTH" using rd(3) [of sq] sq by simp
  have tail: "unat (vd_sq_tail dev) < length sq" using rd(1) len by (simp add: word_less_nat_alt)
  let ?sq = "sq[unat (vd_sq_tail dev) := descriptor\<lparr> sub_command_id := rq_command_id q \<rparr>]"
  let ?q = "q\<lparr> rq_reset_generation := vd_reset_generation dev \<rparr>"
  let ?d1 = "dev\<lparr> vd_sq := Some ?sq \<rparr>"
  let ?d2 = "?d1\<lparr> vd_pending_requests := vd_pending_requests dev + 1, vd_sq_tail := next_tail \<rparr>"
  let ?d3 = "?d2\<lparr> vd_cq_poll_work := True \<rparr>"
  let ?s1 = "set_dev ?d1 s"
  have i1: "hinv tab ?M ?s1" by (rule set_dev_fields_hinv [OF hi d]) simp_all
  have q1: "h_requests ?s1 r = Some q" using q by (simp add: set_dev_def)
  let ?s2 = "set_request r ?q ?s1"
  have i2: "hinv tab ?M ?s2"
    by (rule request_update_hinv [OF i1 q1]) (use requests_okD [OF i1 q1] in simp_all)
  have d2: "h_dev ?s2 = Some ?d1" by (simp add: set_request_def set_dev_def)
  have io2: "R_iomap \<in> h_res (set_dev ?d2 ?s2)" using io by (simp add: set_dev_def set_request_def)
  obtain w where w: "vams_writel k VAMS_REG_SQ_DOORBELL next_tail (set_dev ?d2 ?s2) = Some ((set_dev ?d2 ?s2)\<lparr> h_w := w \<rparr>)"
    by (rule vams_writel_Some [OF io2])
  let ?s' = "(set_dev ?d3 ?s2)\<lparr> h_w := w \<rparr>"
  have i3: "hinv tab ?M (set_dev ?d3 ?s2)" by (rule set_dev_fields_hinv [OF i2 d2]) simp_all
  have ready1: "ready_ok tab ?s1" by (rule ready_ok_same [of tab s]) (use t in \<open>simp_all add: set_dev_def\<close>)
  have "ready_ok tab ?s2" by (rule done_flag_ready [OF ready1 q1]) simp
  then have ready3: "ready_ok tab (set_dev ?d3 ?s2)" by (rule ready_ok_same) (simp_all add: set_dev_def)
  have rings3: "rings_ok tab (set_dev ?d3 ?s2)"
    using rd nt len sq res
    by (intro rings_okI [where dev = ?d3]) (auto simp: set_dev_def set_request_def)
  have "dinv tab ?M (set_dev ?d3 ?s2)" using i3 ready3 rings3 unfolding dinv_def by blast
  then have "dinv tab ?M ?s'" by simp
  moreover have "\<forall>f. rq_owner q = Some f \<longrightarrow> (f, rq_command_id q) \<in> req_file tab ?s' r"
    using t by (simp add: req_file_def set_dev_def set_request_def)
  ultimately have "submitted tab L r ?q ?s'"
    using cid by (simp add: submitted_def) (simp add: set_dev_def set_request_def)
  moreover have pos: "vd_pending_requests dev + 1 > 0"
  proof -
    have "rq_command_id q \<in> dom (tab (vd_requests dev))" using t d by (auto simp: req_dev_def)
    then have "card (dom (tab (vd_requests dev))) > 0" using finite_tab by (auto simp: card_gt_0_iff)
    then show ?thesis using rd(8) by simp
  qed
  have "publish_submission k r descriptor next_tail s = Some ?s'"
  proof -
    have "set_dev ?d3 ((set_dev ?d2 ?s2)\<lparr> h_w := w \<rparr>) = ?s'" by (simp add: set_dev_def)
    then show ?thesis
      using d sq tail q sync_for_cpu_ok(2) [OF i1 q1] w pos
      by (simp add: publish_submission_def) (simp add: set_dev_def)
  qed
  moreover have "sframe {} s ?s'" using d by (simp add: sframe_def set_dev_def set_request_def)
  ultimately show ?thesis using that [of ?s' ?d3 sq] sq len by (simp add: set_dev_def)
qed

end

subsection \<open>Submission\<close>

text \<open>The links of a request to its owner and its buffers.\<close>

definition same_links :: "vams_request \<Rightarrow> vams_request \<Rightarrow> bool" where
  "same_links q q' \<longleftrightarrow> rq_owner q' = rq_owner q \<and> rq_source q' = rq_source q \<and> rq_destination q' = rq_destination q"

text \<open>The registers after a poll of the completion ring whose head was \<open>head\<close>.\<close>

definition cq_polled :: "('w, 'x) linux \<Rightarrow> u32 \<Rightarrow> 'w \<Rightarrow> 'w" where
  "cq_polled k head w = (let (tail, w) = ioread32 k VAMS_REG_CQ_TAIL w in
     if tail < VAMS_QUEUE_DEPTH \<and> tail \<noteq> head then iowrite32 k tail VAMS_REG_CQ_DOORBELL w else w)"

lemma mapping_put_world: "vams_mapping_put ctx mp s = Some s' \<Longrightarrow> h_w s' = h_w s"
  by (auto simp: vams_mapping_put_def vams_mapping_release_def set_mapping_def bind_eq_Some_conv
      split: option.splits if_splits)

lemma device_put_world: "vams_device_put s = Some s' \<Longrightarrow> h_w s' = h_w s"
  by (auto simp: vams_device_put_def vams_device_release_def set_dev_def bind_eq_Some_conv split: if_splits)

lemma file_put_world:
  assumes "vams_file_put f s = Some s'"
  shows "h_w s' = h_w s"
proof -
  obtain fl where fl: "h_files s f = Some fl" using assms by (auto simp: vams_file_put_def bind_eq_Some_conv)
  show ?thesis
  proof (cases "vf_refs fl = 1")
    case True
    then obtain t where t: "vams_device_put s = Some t" "s' = t\<lparr> h_files := (h_files t)(f := None) \<rparr>"
      using assms fl by (cases "vams_device_put s") (simp_all add: vams_file_put_def vams_file_release_refs_def)
    show ?thesis using device_put_world [OF t(1)] by (simp add: t(2))
  next
    case False
    then have "s' = set_file f (fl\<lparr> vf_refs := vf_refs fl - 1 \<rparr>) s" using assms fl by (simp add: vams_file_put_def)
    then show ?thesis by (simp add: set_file_def)
  qed
qed

lemma request_put_world: "vams_request_put ctx r s = Some s' \<Longrightarrow> h_w s' = h_w s"
  by (auto simp: vams_request_put_def set_request_def bind_eq_Some_conv split: option.splits if_splits
      dest!: mapping_put_world file_put_world)

lemma notify_world: "notify_owner q s = Some s' \<Longrightarrow> h_w s' = h_w s"
  by (auto simp: notify_owner_def set_file_def bind_eq_Some_conv split: option.splits if_splits)

lemma sync_same: "vams_request_sync_for_cpu r s = Some s' \<Longrightarrow> s' = s"
  by (auto simp: vams_request_sync_for_cpu_def bind_eq_Some_conv split: if_splits)

lemma end_request_world:
  assumes "end_request ctx r s = Some s'"
  shows "h_w s' = h_w s"
proof -
  obtain q t dev where t: "notify_owner q (set_request r (q\<lparr> rq_done := True \<rparr>) s) = Some t"
    "vams_request_put ctx r (set_dev (dev\<lparr> vd_pending_requests := vd_pending_requests dev - 1 \<rparr>) t) = Some s'"
    using assms by (auto simp: end_request_def Let_def bind_eq_Some_conv dest!: sync_same)
  show ?thesis using request_put_world [OF t(2)] notify_world [OF t(1)] by (simp add: set_dev_def set_request_def)
qed

lemma finish_world:
  assumes "vams_finish_request k c s = Some (b, s')"
  shows "h_w s' = h_w s"
proof -
  obtain dev where d: "h_dev s = Some dev" using assms by (auto simp: vams_finish_request_def bind_eq_Some_conv)
  obtain found x where e: "xa_erase k (cpl_command_id c) (vd_requests dev) = (found, x)" by fastforce
  show ?thesis
  proof (cases found)
    case None
    then show ?thesis using assms d e by (auto simp: vams_finish_request_def set_dev_def)
  next
    case (Some r)
    then obtain q where "end_request Atomic r (set_request r q (set_dev (dev\<lparr> vd_requests := x \<rparr>) s)) = Some s'"
      using assms d e by (auto simp: vams_finish_request_def Let_def bind_eq_Some_conv)
    from end_request_world [OF this] show ?thesis by (simp add: set_dev_def set_request_def)
  qed
qed

lemma drain_loop_world:
  "drain_loop k tail d fuel s = Some (n, s') \<Longrightarrow> h_dev s = Some dev \<Longrightarrow>
   h_w s' = h_w s \<and> d \<le> n \<and> (n = d \<longleftrightarrow> vd_cq_head dev = tail) \<and> map_option vd_cq_head (h_dev s') = Some tail"
proof (induction fuel arbitrary: d s dev)
  case 0
  then show ?case by (auto split: if_splits)
next
  case (Suc fuel)
  show ?case
  proof (cases "vd_cq_head dev = tail")
    case True
    then show ?thesis using Suc.prems by auto
  next
    case False
    let ?s = "set_dev (dev\<lparr> vd_cq_head := (vd_cq_head dev + 1) AND (VAMS_QUEUE_DEPTH - 1) \<rparr>) s"
    obtain c b t where t: "vams_finish_request k c ?s = Some (b, t)" "drain_loop k tail (d + 1) fuel t = Some (n, s')"
      using Suc.prems False by (auto simp: bind_eq_Some_conv Let_def split: if_splits)
    obtain dt where dt: "h_dev t = Some dt" using t(2) by (cases fuel) (auto simp: bind_eq_Some_conv)
    have "h_w t = h_w s" using finish_world [OF t(1)] by (simp add: set_dev_def)
    then show ?thesis using Suc.IH [OF t(2) dt] False by auto
  qed
qed

lemma drain_world:
  assumes "vams_drain_cq k s = Some (n, s')" "h_dev s = Some dev" "vd_queues_ready dev"
  shows "h_w s' = cq_polled k (vd_cq_head dev) (h_w s)"
proof -
  obtain tail w where t: "ioread32 k VAMS_REG_CQ_TAIL (h_w s) = (tail, w)" by fastforce
  show ?thesis
  proof (cases "tail < VAMS_QUEUE_DEPTH")
    case False
    then show ?thesis using assms t
      by (auto simp: vams_drain_cq_def vams_readl_def cq_polled_def Let_def bind_eq_Some_conv linorder_not_less
          split: if_splits)
  next
    case True
    obtain s1 where s1: "drain_loop k tail 0 (unat VAMS_QUEUE_DEPTH) (s\<lparr> h_w := w \<rparr>) = Some (n, s1)"
      "(if n \<noteq> 0 then h_dev s1 \<bind> (\<lambda>dev. vams_writel k VAMS_REG_CQ_DOORBELL (vd_cq_head dev) s1) else Some s1) = Some s'"
      using assms t True
      by (auto simp: vams_drain_cq_def vams_readl_def Let_def bind_eq_Some_conv split: if_splits)
    have "h_w s1 = w \<and> (n = 0 \<longleftrightarrow> vd_cq_head dev = tail) \<and> map_option vd_cq_head (h_dev s1) = Some tail"
      using drain_loop_world [OF s1(1), of dev] assms(2) by simp
    then show ?thesis using s1(2) t True
      by (auto simp: cq_polled_def vams_writel_def bind_eq_Some_conv split: if_splits)
  qed
qed

text \<open>
  The descriptor goes behind the entries that the device has not consumed, from the head it reports to
  the tail of the driver, and overwrites none of them.
\<close>

definition appended :: "('w, 'x) linux \<Rightarrow> ('w, 'x) host \<Rightarrow> ('w, 'x) host \<Rightarrow> vams_submission \<Rightarrow> bool" where
  "appended k s s' submission \<longleftrightarrow> (\<exists>dev dev' sq sq' head. h_dev s = Some dev \<and> h_dev s' = Some dev' \<and>
     vd_sq dev = Some sq \<and> vd_sq dev' = Some sq' \<and>
     head = fst (ioread32 k VAMS_REG_SQ_HEAD (cq_polled k (vd_cq_head dev) (h_w s))) \<and> head < VAMS_QUEUE_DEPTH \<and>
     ring_entries sq' head (ring_count head (vd_sq_tail dev')) =
       ring_entries sq head (ring_count head (vd_sq_tail dev)) @ [submission])"

lemma ring_distance:
  assumes "h < 16" "t < (16 :: nat)"
  shows "(t + 16 - h) mod 16 = (if h \<le> t then t - h else t + 16 - h)"
proof (cases "h \<le> t")
  case True
  then have "t + 16 - h = (t - h) + 16" by arith
  then show ?thesis using True assms by (simp only: mod_add_self2) simp
qed (use assms in simp)

lemma ring_wrap: "a < 32 \<Longrightarrow> a mod 16 = (if a < 16 then a else a - (16 :: nat))"
  by (simp add: le_mod_geq)

lemma ring_append:
  assumes "head < VAMS_QUEUE_DEPTH" "tail < VAMS_QUEUE_DEPTH" "length sq = unat VAMS_QUEUE_DEPTH"
    and room: "(tail + 1) AND (VAMS_QUEUE_DEPTH - 1) \<noteq> head"
  shows "ring_entries (sq[unat tail := x]) head (ring_count head ((tail + 1) AND (VAMS_QUEUE_DEPTH - 1))) =
    ring_entries sq head (ring_count head tail) @ [x]"
proof -
  let ?t = "(tail + 1) AND (VAMS_QUEUE_DEPTH - 1)"
  define h where "h = unat head"
  define t where "t = unat tail"
  define c where "c = (if h \<le> t then t - h else t + 16 - h)"
  have b: "h < 16" "t < 16" "length sq = 16"
    using assms(1-3) by (simp_all add: h_def t_def VAMS_QUEUE_DEPTH_def word_less_nat_alt)
  have t': "unat ?t = (if t = 15 then 0 else t + 1)"
    unfolding next_index(1) [OF assms(2)] using b(2) by (simp add: t_def)
  have ne: "unat ?t \<noteq> h" using room by (simp add: h_def word_unat_eq_iff)
  have lt: "unat ?t < 16" using t' b by simp
  have count: "ring_count head tail = c"
    unfolding ring_count_def c_def h_def [symmetric] t_def [symmetric] by (rule ring_distance [OF b(1,2)])
  have count': "ring_count head ?t = Suc c"
  proof -
    have "ring_count head ?t = (if h \<le> unat ?t then unat ?t - h else unat ?t + 16 - h)"
      unfolding ring_count_def h_def [symmetric] by (rule ring_distance [OF b(1) lt])
    also have "\<dots> = Suc c"
    proof (cases "t = 15")
      case True
      then have "unat ?t = 0" using t' by simp
      then show ?thesis using ne b True unfolding c_def by simp
    next
      case False
      then have "unat ?t = t + 1" using t' by simp
      then show ?thesis using ne b False unfolding c_def by (cases "h \<le> t") simp_all
    qed
    finally show ?thesis .
  qed
  have last: "(h + c) mod 16 = t" using b ring_wrap [of "h + c"] by (cases "h \<le> t") (simp_all add: c_def)
  have other: "(h + j) mod 16 \<noteq> t" if "j < c" for j
    using b that ring_wrap [of "h + j"] by (cases "h \<le> t"; cases "h + j < 16") (simp_all add: c_def)
  have "map (\<lambda>j. sq[t := x] ! ((h + j) mod 16)) [0..<c] = map (\<lambda>j. sq ! ((h + j) mod 16)) [0..<c]"
  proof (rule map_cong)
    fix j assume "j \<in> set [0..<c]"
    then have "(h + j) mod 16 \<noteq> t" by (intro other) simp
    then show "sq[t := x] ! ((h + j) mod 16) = sq ! ((h + j) mod 16)" by (rule nth_list_update_neq [OF not_sym])
  qed (rule refl)
  moreover have "sq[t := x] ! t = x" by (rule nth_list_update_eq) (simp only: b)
  ultimately show ?thesis
    unfolding count count' ring_entries_def h_def [symmetric] t_def [symmetric] using last by simp
qed

context xarray_laws
begin

lemma submit_ok:
  assumes un: "untracked tab L r q s"
  shows "\<exists>ret s' q'. vams_submit k r descriptor s = Some (ret, s') \<and> sframe (set_option (rq_owner q)) s s' \<and>
    same_links q q' \<and>
    (if ret = RC_OK then submitted tab L r q' s' \<and> appended k s s' (descriptor\<lparr> sub_command_id := rq_command_id q' \<rparr>)
     else untracked tab L r q' s')"
proof -
  note u = un [unfolded untracked_def]
  have inv: "dinv tab (add_request r L) s" and probe: "0 < lc_probe (add_request r L)" using u by simp_all
  obtain dev where d: "h_dev s = Some dev" by (rule device_live [OF dinv_parts(1) [OF inv]]) (use probe in simp_all)
  have stay: ?thesis if "vams_submit k r descriptor s = Some (RC_ERR e, t)" "untracked tab L r q t" "sframe (set_option (rq_owner q)) s t"
    for e t
    using that by (intro exI [of _ "RC_ERR e"] exI [of _ t] exI [of _ q]) (simp add: same_links_def)
  show ?thesis
  proof (cases "vd_removing dev \<or> \<not> vd_queues_ready dev")
    case True
    then have "vams_submit k r descriptor s = Some (RC_ERR (if vd_removing dev then ENODEV else EOPNOTSUPP), s)"
      by (cases "vd_removing dev") (use True d in \<open>simp_all add: vams_submit_def\<close>)
    then show ?thesis using un by (rule stay) simp
  next
    case False
    then have run: "\<not> vd_removing dev" "vd_queues_ready dev" by simp_all
    obtain n s1 where s1: "vams_drain_cq k s = Some (n, s1)" "dinv tab (add_request r L) s1" "evolves tab s s1"
      by (rule drain_cq_ok [OF inv probe])
    obtain dev1 where d1: "h_dev s1 = Some dev1"
      by (rule device_live [OF dinv_parts(1) [OF s1(2)]]) (use probe in simp_all)
    have fr1: "dev_frame dev dev1" using s1(3) d d1 unfolding evolves_def by force
    note same1 = dev_frame_fields [OF fr1]
    have un1: "untracked tab L r q s1" by (rule untracked_evolves [OF un s1(2,3)])
    have sf1: "sframe A s s1" for A by (rule evolves_sframe [OF s1(3)]) (simp add: d1)
    have "R_iomap \<in> h_res s1" using rings_okD(7) [OF dinv_parts(2) [OF s1(2)] d1] run same1 by auto
    then obtain head w where h: "vams_readl k VAMS_REG_SQ_HEAD s1 = Some (head, s1\<lparr> h_w := w \<rparr>)"
      by (rule vams_readl_Some)
    let ?s2 = "s1\<lparr> h_w := w \<rparr>"
    have un2: "untracked tab L r q ?s2" using un1 by (simp add: untracked_def)
    have d2: "h_dev ?s2 = Some dev1" using d1 by simp
    have sf2: "sframe A s ?s2" for A using sframe_trans_same [OF sf1 sframe_world] .
    note unf = vams_submit_def
    show ?thesis
    proof (cases "head < VAMS_QUEUE_DEPTH")
      case False
      then have "vams_submit k r descriptor s = Some (RC_ERR EIO, ?s2)"
        using d run s1(1) h by (simp add: unf linorder_not_less)
      then show ?thesis using un2 sf2 by (rule stay)
    next
      case head: True
      have nle: "\<not> VAMS_QUEUE_DEPTH \<le> head" using head by simp
      let ?t = "(vd_sq_tail dev1 + 1) AND (VAMS_QUEUE_DEPTH - 1)"
      have tail: "vd_sq_tail dev1 < VAMS_QUEUE_DEPTH" by (rule rings_okD [OF dinv_parts(2) [OF s1(2)] d1])
      show ?thesis
      proof (cases "?t = head")
        case True
        then have "vams_submit k r descriptor s = Some (RC_ERR EAGAIN, ?s2)"
          using d run s1(1) h nle d1 by (simp add: unf)
        then show ?thesis using un2 sf2 by (rule stay)
      next
        case room: False
        obtain ret s3 i m where s3: "track_loop k r (unat VAMS_QUEUE_DEPTH * 2) ?s2 = Some (ret, s3)"
          "sframe (set_option (rq_owner q)) ?s2 s3" "ring_frame ?s2 s3"
          "if ret = RC_OK then i \<noteq> 0 \<and> tracked tab L r (q\<lparr> rq_command_id := i, rq_refs := m \<rparr>) s3
           else untracked tab L r (q\<lparr> rq_command_id := i, rq_refs := m \<rparr>) s3"
          using track_loop_ok [OF un2] by blast
        have sf3: "sframe (set_option (rq_owner q)) s s3" by (rule sframe_trans_same [OF sf2 s3(2)])
        let ?q3 = "q\<lparr> rq_command_id := i, rq_refs := m \<rparr>"
        have links: "same_links q ?q3" by (simp add: same_links_def)
        show ?thesis
        proof (cases "ret = RC_OK")
          case False
          have "vams_submit k r descriptor s = Some (ret, s3)"
            using d run s1(1) h nle d1 room s3(1) False by (simp add: unf vams_track_request_def)
          then show ?thesis using s3(4) False sf3 links by (intro exI [of _ ret] exI [of _ s3] exI [of _ ?q3]) simp
        next
          case True
          then have tr: "tracked tab L r ?q3 s3" "rq_command_id ?q3 \<noteq> 0" using s3(4) by simp_all
          obtain dev3 where d3: "h_dev s3 = Some dev3"
            by (rule device_live [of tab "after_track (rq_owner ?q3) r L" s3]) (use tr probe in \<open>auto simp: tracked_def\<close>)
          have same3: "vd_sq dev3 = vd_sq dev1" "vd_sq_tail dev3 = vd_sq_tail dev1" "vd_queues_ready dev3"
            using s3(3) [unfolded ring_frame_def, rule_format, OF d3] d1 run(2) same1(4) by simp_all
          have nt: "?t < VAMS_QUEUE_DEPTH" by (rule next_index [OF tail])
          obtain s4 dev4 sq where s4: "publish_submission k r descriptor ?t s3 = Some s4"
            "submitted tab L r (?q3\<lparr> rq_reset_generation := vd_reset_generation dev3 \<rparr>) s4" "sframe {} s3 s4"
            "h_dev s4 = Some dev4" "vd_sq dev3 = Some sq" "length sq = unat VAMS_QUEUE_DEPTH"
            "vd_sq dev4 = Some (sq[unat (vd_sq_tail dev3) := descriptor\<lparr> sub_command_id := rq_command_id ?q3 \<rparr>])"
            "vd_sq_tail dev4 = ?t"
            by (rule publish_ok [OF tr d3 same3(3) nt, of descriptor]) blast
          have "vams_submit k r descriptor s = Some (RC_OK, s4)"
            using d run s1(1) h nle d1 room s3(1) True s4(1) by (simp add: unf vams_track_request_def)
          moreover have "appended k s s4 (descriptor\<lparr> sub_command_id := i \<rparr>)"
          proof -
            have "ring_entries (sq[unat (vd_sq_tail dev3) := descriptor\<lparr> sub_command_id := i \<rparr>]) head (ring_count head (vd_sq_tail dev4)) =
                ring_entries sq head (ring_count head (vd_sq_tail dev)) @ [descriptor\<lparr> sub_command_id := i \<rparr>]"
              using ring_append [OF head tail s4(6) room] unfolding s4(8) same3(2) same1(3) by blast
            moreover have "vd_sq dev = Some sq" using s4(5) same3(1) same1(1) by simp
            moreover have "vd_sq dev4 = Some (sq[unat (vd_sq_tail dev3) := descriptor\<lparr> sub_command_id := i \<rparr>])"
              using s4(7) by simp
            moreover have "head = fst (ioread32 k VAMS_REG_SQ_HEAD (cq_polled k (vd_cq_head dev) (h_w s)))"
              using h drain_world [OF s1(1) d run(2)] by (auto simp: vams_readl_def bind_eq_Some_conv split: prod.splits if_splits)
            ultimately show ?thesis unfolding appended_def using d s4(4) head by blast
          qed
          moreover have "sframe (set_option (rq_owner q)) s s4" using sframe_trans [OF sf3 s4(3)] by simp
          ultimately show ?thesis using s4(2)
            by (intro exI [of _ RC_OK] exI [of _ s4]
              exI [of _ "?q3\<lparr> rq_reset_generation := vd_reset_generation dev3 \<rparr>"]) (simp add: same_links_def)
        qed
      qed
    qed
  qed
qed

end

subsection \<open>Interrupts and queue configuration\<close>

text \<open>A register write, and a register read whose value is dropped, as one kind of step.\<close>

lemma writel_step:
  assumes "dinv tab L s" "h_dev s = Some dev" "R_iomap \<in> h_res s"
  obtains s' where "vams_writel k off v s = Some s'" "dinv tab L s'" "h_dev s' = Some dev" "h_res s' = h_res s"
    "sframe {} s s'" "h_requests s' = h_requests s" "h_files s' = h_files s"
proof -
  obtain w where "vams_writel k off v s = Some (s\<lparr> h_w := w \<rparr>)" by (rule vams_writel_Some [OF assms(3)])
  then show ?thesis using that [of "s\<lparr> h_w := w \<rparr>"] assms by simp
qed

lemma readl_step:
  assumes "dinv tab L s" "h_dev s = Some dev" "R_iomap \<in> h_res s"
  obtains v s' where "vams_readl k off s = Some (v, s')" "dinv tab L s'" "h_dev s' = Some dev" "h_res s' = h_res s"
    "sframe {} s s'" "h_requests s' = h_requests s" "h_files s' = h_files s"
proof -
  obtain v w where "vams_readl k off s = Some (v, s\<lparr> h_w := w \<rparr>)" by (rule vams_readl_Some [OF assms(3)])
  then show ?thesis using that [of v "s\<lparr> h_w := w \<rparr>"] assms by simp
qed

lemma async_irq_ok:
  assumes inv: "dinv tab L s" and d: "h_dev s = Some dev" and io: "R_iomap \<in> h_res s"
  obtains v s' where "vams_async_irq k s = Some (v, s')" "dinv tab L s'" "sframe {} s s'"
proof -
  obtain st s1 where s1: "vams_readl k VAMS_REG_INTR_STATUS s = Some (st, s1)" "dinv tab L s1" "h_dev s1 = Some dev"
    "h_res s1 = h_res s" "sframe {} s s1"
    by (rule readl_step [OF inv d io, of k VAMS_REG_INTR_STATUS]) blast
  let ?p = "st AND VAMS_INTR_ASYNC"
  show ?thesis
  proof (cases "?p = 0")
    case True
    then show ?thesis using that [of IRQ_NONE s1] s1 by (simp add: vams_async_irq_def)
  next
    case False
    have io1: "R_iomap \<in> h_res s1" using io s1(4) by simp
    obtain s2 where s2: "(if ?p AND VAMS_INTR_ERROR \<noteq> 0 then do {
        (error, s) \<leftarrow> vams_readl k VAMS_REG_ERROR_STATUS s1;
        (fatal, s) \<leftarrow> vams_readl k VAMS_REG_LAST_FATAL s;
        Some s } else Some s1) = Some s2" "dinv tab L s2" "h_dev s2 = Some dev" "h_res s2 = h_res s1" "sframe {} s1 s2"
    proof (cases "?p AND VAMS_INTR_ERROR \<noteq> 0")
      case True
      obtain a t where t: "vams_readl k VAMS_REG_ERROR_STATUS s1 = Some (a, t)" "dinv tab L t" "h_dev t = Some dev"
        "h_res t = h_res s1" "sframe {} s1 t"
        by (rule readl_step [OF s1(2,3) io1, of k VAMS_REG_ERROR_STATUS]) blast
      have iot: "R_iomap \<in> h_res t" using io1 t(4) by simp
      obtain b u where u: "vams_readl k VAMS_REG_LAST_FATAL t = Some (b, u)" "dinv tab L u" "h_dev u = Some dev"
        "h_res u = h_res t" "sframe {} t u"
        by (rule readl_step [OF t(2,3) iot, of k VAMS_REG_LAST_FATAL]) blast
      show ?thesis using that [of u] True t u sframe_trans_same [OF t(5) u(5)] by simp
    next
      case False
      then show ?thesis using that [of s1] s1 by simp
    qed
    have io2: "R_iomap \<in> h_res s2" using io1 s2(4) by simp
    obtain s3 where s3: "(if ?p AND VAMS_INTR_RESET_DONE \<noteq> 0 then vams_observe_reset k s2 else Some s2) = Some s3"
      "dinv tab L s3" "h_res s3 = h_res s2" "sframe {} s2 s3"
    proof (cases "?p AND VAMS_INTR_RESET_DONE \<noteq> 0")
      case True
      show ?thesis by (rule observe_reset_ok [OF s2(2,3) io2, of k]) (use that True in simp)
    next
      case False
      then show ?thesis using that [of s2] s2 by simp
    qed
    obtain dev3 where d3: "h_dev s3 = Some dev3"
      by (rule observe_reset_ok [OF s2(2,3) io2, of k])
        (use s3(1) s2(3) in \<open>auto simp: vams_observe_reset_def set_dev_def split: if_splits Option.bind_splits prod.splits\<close>)
    have io3: "R_iomap \<in> h_res s3" using io2 s3(3) by simp
    obtain s4 where s4: "vams_writel k VAMS_REG_INTR_STATUS ?p s3 = Some s4" "dinv tab L s4" "h_dev s4 = Some dev3"
      "sframe {} s3 s4" by (rule writel_step [OF s3(2) d3 io3, of k VAMS_REG_INTR_STATUS ?p]) blast
    let ?d = "dev3\<lparr> vd_async_interrupts := vd_async_interrupts dev3 + 1 \<rparr>"
    have "dev_fields_kept dev3 ?d" "vd_removing ?d = vd_removing dev3" by (simp_all add: dev_fields_kept_def)
    note s5 = set_dev_step [OF s4(2,3) this]
    have "vams_async_irq k s = Some (IRQ_HANDLED, set_dev ?d s4)"
      using s1(1) False s2(1) s3(1) s4(1,3) by (simp add: vams_async_irq_def Let_def)
    moreover have "sframe {} s (set_dev ?d s4)"
      by (rule sframe_trans_same [OF s1(5) sframe_trans_same [OF s2(5) sframe_trans_same [OF s3(4)
        sframe_trans_same [OF s4(4) s5(2)]]]])
    ultimately show ?thesis using that s5(1) by blast
  qed
qed

lemma disable_queues_ok:
  assumes inv: "dinv tab L s" and d: "h_dev s = Some dev" and io: "vd_queues_ready dev \<Longrightarrow> R_iomap \<in> h_res s"
  obtains s' where "vams_disable_queues k s = Some s'" "dinv tab L s'"
    "h_dev s' = Some (dev\<lparr> vd_queues_ready := False \<rparr>)" "h_res s' = h_res s" "sframe {} s s'"
    "h_requests s' = h_requests s" "h_files s' = h_files s"
proof (cases "vd_queues_ready dev")
  case False
  then show ?thesis using that [of s] inv d by (simp add: vams_disable_queues_def)
next
  case True
  obtain s1 where s1: "vams_writel k VAMS_REG_DEVICE_CONTROL VAMS_DEVICE_QUIESCE s = Some s1" "dinv tab L s1"
    "h_dev s1 = Some dev" "h_res s1 = h_res s" "sframe {} s s1" "h_requests s1 = h_requests s" "h_files s1 = h_files s"
    by (rule writel_step [OF inv d io [OF True], of k VAMS_REG_DEVICE_CONTROL VAMS_DEVICE_QUIESCE]) blast
  have io1: "R_iomap \<in> h_res s1" using io [OF True] s1(4) by simp
  obtain s2 where s2: "vams_writel k VAMS_REG_SQ_CONTROL VAMS_QUEUE_RESET s1 = Some s2" "dinv tab L s2"
    "h_dev s2 = Some dev" "h_res s2 = h_res s1" "sframe {} s1 s2" "h_requests s2 = h_requests s1" "h_files s2 = h_files s1"
    by (rule writel_step [OF s1(2,3) io1, of k VAMS_REG_SQ_CONTROL VAMS_QUEUE_RESET]) blast
  have io2: "R_iomap \<in> h_res s2" using io1 s2(4) by simp
  obtain v s3 where s3: "vams_readl k VAMS_REG_DEVICE_STATUS s2 = Some (v, s3)" "dinv tab L s3"
    "h_dev s3 = Some dev" "h_res s3 = h_res s2" "sframe {} s2 s3" "h_requests s3 = h_requests s2" "h_files s3 = h_files s2"
    by (rule readl_step [OF s2(2,3) io2, of k VAMS_REG_DEVICE_STATUS]) blast
  let ?d = "dev\<lparr> vd_queues_ready := False \<rparr>"
  have "dev_fields_kept dev ?d" "vd_removing ?d = vd_removing dev" by (simp_all add: dev_fields_kept_def)
  note s4 = set_dev_step [OF s3(2,3) this]
  have "vams_disable_queues k s = Some (set_dev ?d s3)"
    using d True s1(1) s2(1) s3(1) by (simp add: vams_disable_queues_def)
  moreover have "sframe {} s (set_dev ?d s3)"
    by (rule sframe_trans_same [OF s1(5) sframe_trans_same [OF s2(5) sframe_trans_same [OF s3(5) s4(2)]]])
  ultimately show ?thesis
    using that [of "set_dev ?d s3"] s4 s1 s2 s3 by (simp add: set_dev_def)
qed

text \<open>The registers programmed by \<open>vams_configure_queues\<close>, each write a step.\<close>

lemma program_rings_ok:
  assumes inv: "dinv tab L s" and d: "h_dev s = Some dev" and io: "R_iomap \<in> h_res s"
  obtains w where "program_rings k s = Some (s\<lparr> h_w := w \<rparr>)"
  using io d that
  by (cases "vd_capabilities dev AND VAMS_CAP_CQ_WATERMARK = 0") (auto simp: program_rings_def vams_writel_def)

lemma configure_queues_ok:
  assumes inv: "dinv tab L s" and d: "h_dev s = Some dev" and res: "{R_iomap, R_sq, R_cq} \<subseteq> h_res s"
  shows "\<exists>ret s' dev'. vams_configure_queues k s = Some (ret, s') \<and> dinv tab L s' \<and>
    h_dev s' = Some dev' \<and> h_res s' = h_res s \<and> sframe {} s s' \<and> ret \<in> {RC_OK, RC_ERR EIO} \<and>
    (vd_queues_ready dev' \<longleftrightarrow> ret = RC_OK) \<and> h_files s' = h_files s \<and> h_requests s' = h_requests s \<and>
    vd_requests dev' = vd_requests dev"
proof -
  have io: "R_iomap \<in> h_res s" using res by simp
  obtain w where p: "program_rings k s = Some (s\<lparr> h_w := w \<rparr>)" by (rule program_rings_ok [OF inv d io])
  let ?d1 = "dev\<lparr> vd_queues_ready := True \<rparr>" and ?d2 = "dev\<lparr> vd_queues_ready := True, vd_sq_tail := 0, vd_cq_head := 0 \<rparr>"
  have inv_of: "dinv tab L (set_dev d' s)" if "d' = ?d1 \<or> d' = ?d2" for d'
  proof -
    have "hinv tab L (set_dev d' s)" by (rule set_dev_fields_hinv [OF dinv_parts(1) [OF inv] d]) (use that in auto)
    moreover have "rings_ok tab (set_dev d' s)"
      using rings_okD [OF dinv_parts(2) [OF inv] d] res that
      by (intro rings_okI [where dev = d']) (auto simp: set_dev_def VAMS_QUEUE_DEPTH_def)
    moreover have "ready_ok tab (set_dev d' s)"
      by (rule ready_ok_same [OF dinv_parts(3) [OF inv]]) (simp_all add: set_dev_def)
    ultimately show ?thesis by (simp add: dinv_def)
  qed
  let ?at = "\<lambda>d' w. (set_dev d' s)\<lparr> h_w := w \<rparr>"
  have at: "dinv tab L (?at d' w)" "h_dev (?at d' w) = Some d'" "R_iomap \<in> h_res (?at d' w)"
    "sframe {} s (?at d' w)" if "d' = ?d1 \<or> d' = ?d2" for d' w
  proof -
    show "dinv tab L (?at d' w)" using inv_of [OF that] by simp
    show "h_dev (?at d' w) = Some d'" "R_iomap \<in> h_res (?at d' w)" using io by (simp_all add: set_dev_def)
    show "sframe {} s (?at d' w)" using d that by (auto simp: sframe_def set_dev_def)
  qed
  have fail: ?thesis if dd: "d' = ?d1 \<or> d' = ?d2" and run: "vams_configure_queues k s = reset_failed k (?at d' w)" for d' w
  proof -
    obtain t where t: "vams_disable_queues k (?at d' w) = Some t" "dinv tab L t"
      "h_dev t = Some (d'\<lparr> vd_queues_ready := False \<rparr>)" "h_res t = h_res (?at d' w)" "sframe {} (?at d' w) t"
      "h_requests t = h_requests (?at d' w)" "h_files t = h_files (?at d' w)"
      by (rule disable_queues_ok [OF at(1,2) [OF dd, of w], of k]) (use at(3) [OF dd] in auto)
    have "vams_configure_queues k s = Some (RC_ERR EIO, t)" using run t(1) by (simp add: reset_failed_def)
    moreover have "sframe {} s t" by (rule sframe_trans_same [OF at(4) [OF dd] t(5)])
    ultimately show ?thesis
      using t dd by (intro exI [of _ "RC_ERR EIO"] exI [of _ t] exI [of _ "d'\<lparr> vd_queues_ready := False \<rparr>"])
        (auto simp: set_dev_def)
  qed
  obtain st1 w1 where r1: "vams_readl k VAMS_REG_CQ_STATUS (?at ?d1 w) = Some (st1, ?at ?d1 w1)"
    using vams_readl_Some [OF at(3), of ?d1 k VAMS_REG_CQ_STATUS w] by auto
  obtain st2 w2 where r2: "vams_readl k VAMS_REG_SQ_STATUS (?at ?d1 w1) = Some (st2, ?at ?d1 w2)"
    using vams_readl_Some [OF at(3), of ?d1 k VAMS_REG_SQ_STATUS w1] by auto
  obtain w3 where r3: "vams_writel k VAMS_REG_DEVICE_CONTROL VAMS_DEVICE_ENABLE (?at ?d2 w2) = Some (?at ?d2 w3)"
    using vams_writel_Some [OF at(3), of ?d2 k VAMS_REG_DEVICE_CONTROL VAMS_DEVICE_ENABLE w2] by auto
  obtain st4 w4 where r4: "vams_readl k VAMS_REG_DEVICE_STATUS (?at ?d2 w3) = Some (st4, ?at ?d2 w4)"
    using vams_readl_Some [OF at(3), of ?d2 k VAMS_REG_DEVICE_STATUS w3] by auto
  have e1: "h_dev (s\<lparr> h_w := w \<rparr>) = Some dev" using d by simp
  have e0: "set_dev ?d1 (s\<lparr> h_w := w \<rparr>) = ?at ?d1 w" by (simp add: set_dev_def)
  have e2: "set_dev ?d2 (?at ?d1 w2) = ?at ?d2 w2" by (simp add: set_dev_def)
  have run: "vams_configure_queues k s =
    (if st1 AND VAMS_QUEUE_STATUS_ENABLED = 0 then reset_failed k (?at ?d1 w1)
     else if st2 AND VAMS_QUEUE_STATUS_ENABLED = 0 then reset_failed k (?at ?d1 w2)
     else if st4 AND VAMS_STATUS_QUEUES_READY = 0 then reset_failed k (?at ?d2 w4)
     else Some (RC_OK, ?at ?d2 w4))"
    unfolding vams_configure_queues_def p using e0 e1 r1 r2 r3 r4 e2 at(2) [of ?d1 w2] by simp
  show ?thesis
  proof (cases "st1 AND VAMS_QUEUE_STATUS_ENABLED = 0 \<or> st2 AND VAMS_QUEUE_STATUS_ENABLED = 0 \<or>
      st4 AND VAMS_STATUS_QUEUES_READY = 0")
    case True
    then show ?thesis using fail [of ?d1 w1] fail [of ?d1 w2] fail [of ?d2 w4] run by (auto split: if_splits)
  next
    case False
    then have "vams_configure_queues k s = Some (RC_OK, ?at ?d2 w4)" using run by simp
    then show ?thesis using at [of ?d2 w4] by (intro exI [of _ RC_OK] exI [of _ "?at ?d2 w4"] exI [of _ ?d2])
      (simp add: set_dev_def)
  qed
qed

end
