(* ===== verification/Vams_Pci_Api.thy ===== *)
theory Vams_Pci_Api
  imports Vams_Pci_Submit
begin

text \<open>
  The character device of the host driver (\<open>kernel/vams_pci.c\<close>): open, release, the ioctls and poll.
  A call that copies to user memory after it has published a request, or that waits for one, is split
  there: the first half returns the pointer the call keeps, the second half goes on with it, and
  other calls and interrupts run in between. What the kernel answers (an allocation, a copy, a pin)
  is an argument; \<open>None\<close> for the input of an ioctl is a failing \<open>copy_from_user\<close>.
\<close>

definition VAMS_MAX_TRANSFER :: u32 where "VAMS_MAX_TRANSFER = 16 * 1024 * 1024"

definition sizeof_ioc_info :: u32 where "sizeof_ioc_info = 32"
definition sizeof_ioc_nop :: u32 where "sizeof_ioc_nop = 56"
definition sizeof_ioc_buffer_register :: u32 where "sizeof_ioc_buffer_register = 40"
definition sizeof_ioc_buffer_unregister :: u32 where "sizeof_ioc_buffer_unregister = 24"
definition sizeof_ioc_submit :: u32 where "sizeof_ioc_submit = 64"
definition sizeof_ioc_wait :: u32 where "sizeof_ioc_wait = 64"

subsection \<open>Open and release\<close>

definition vams_open ::
    "('w, 'x) linux \<Rightarrow> ref option \<Rightarrow> ('w, 'x) host \<Rightarrow> (rc \<times> ('w, 'x) host) option" where
  "vams_open k alloc s =
     (case alloc of
        None \<Rightarrow> Some (RC_ERR ENOMEM, s)
      | Some f \<Rightarrow> do {
          dev \<leftarrow> h_dev s;
          if vd_removing dev then Some (RC_ERR ENODEV, s)
          else Some (RC_OK, set_file f \<lparr> vf_refs = 1, vf_mappings = xa_empty k, vf_requests = xa_empty k,
              vf_completed_requests = 0, vf_closing = False \<rparr>
            (set_dev (dev\<lparr> vd_refs := vd_refs dev + 1 \<rparr>) s)) })"

definition release_request :: "('w, 'x) linux \<Rightarrow> ref \<Rightarrow> u32 \<Rightarrow> ('w, 'x) host \<Rightarrow> ('w, 'x) host option" where
  "release_request k f i s = do {
     file \<leftarrow> h_files s f;
     let (found, x) = xa_erase k i (vf_requests file);
     let s = set_file f (file\<lparr> vf_requests := x \<rparr>) s;
     case found of None \<Rightarrow> Some s | Some r \<Rightarrow> vams_request_put Process r s
   }"

definition release_mapping :: "('w, 'x) linux \<Rightarrow> ref \<Rightarrow> u32 \<Rightarrow> ('w, 'x) host \<Rightarrow> ('w, 'x) host option" where
  "release_mapping k f i s = do {
     file \<leftarrow> h_files s f;
     let (found, x) = xa_erase k i (vf_mappings file);
     let s = set_file f (file\<lparr> vf_mappings := x \<rparr>) s;
     vams_mapping_put Process found s
   }"

primrec each_index ::
    "(u32 \<Rightarrow> ('w, 'x) host \<Rightarrow> ('w, 'x) host option) \<Rightarrow> u32 list \<Rightarrow> ('w, 'x) host \<Rightarrow> ('w, 'x) host option" where
  "each_index op [] s = Some s"
| "each_index op (i # is) s = op i s \<bind> each_index op is"

definition vams_release :: "('w, 'x) linux \<Rightarrow> ref \<Rightarrow> ('w, 'x) host \<Rightarrow> ('w, 'x) host option" where
  "vams_release k f s = do {
     file \<leftarrow> h_files s f;
     let s = set_file f (file\<lparr> vf_closing := True \<rparr>) s;
     s \<leftarrow> each_index (release_request k f) (xa_keys k (vf_requests file)) s;
     file \<leftarrow> h_files s f;
     s \<leftarrow> each_index (release_mapping k f) (xa_keys k (vf_mappings file)) s;
     vams_file_put f s
   }"

subsection \<open>Registered buffers\<close>

definition vams_mapping_direction :: "u32 \<Rightarrow> dma_data_direction" where
  "vams_mapping_direction flags =
     (if flags = VAMS_BUFFER_READ then DMA_TO_DEVICE
      else if flags = VAMS_BUFFER_WRITE then DMA_FROM_DEVICE
      else DMA_BIDIRECTIONAL)"

text \<open>
  The answers of the kernel to a registration: \<open>access_ok\<close>, the two allocations, the result of
  \<open>pin_user_pages_fast\<close> (an error or a number of pages), of \<open>sg_alloc_table_from_pages\<close>, of
  \<open>dma_map_sg\<close>, the first segment of the mapped list, and whether \<open>copy_to_user\<close> succeeds.
\<close>

record register_env =
  re_access_ok :: bool
  re_mapping :: "ref option"
  re_pages :: bool
  re_pinned :: "errno + nat"
  re_sg :: rc
  re_mapped :: nat
  re_dma_len :: u32
  re_dma_addr :: u64
  re_copy :: bool

definition register_valid :: "vams_ioc_buffer_register \<Rightarrow> bool" where
  "register_valid input \<longleftrightarrow>
     breg_size input = sizeof_ioc_buffer_register \<and> breg_version input = VAMS_UAPI_VERSION \<and>
     breg_handle input = 0 \<and> breg_flags input \<noteq> 0 \<and> breg_flags input AND NOT VAMS_BUFFER_FLAGS = 0 \<and>
     breg_length input \<noteq> 0 \<and> breg_length input \<le> ucast VAMS_MAX_TRANSFER \<and> breg_reserved input = 0"

definition add_overflows :: "u64 \<Rightarrow> u64 \<Rightarrow> bool" where
  "add_overflows a b \<longleftrightarrow> 2 ^ 64 \<le> unat a + unat b"

lemma add_overflows_code [code]: "add_overflows a b \<longleftrightarrow> 2 ^ 64 \<le> uint a + uint b"
proof -
  have "2 ^ 64 \<le> unat a + unat b \<longleftrightarrow> int (2 ^ 64) \<le> int (unat a + unat b)" by (rule of_nat_le_iff [symmetric])
  then show ?thesis by (simp add: add_overflows_def del: of_nat_le_iff)
qed

definition register_npages :: "('w, 'x) linux \<Rightarrow> vams_ioc_buffer_register \<Rightarrow> u32" where
  "register_npages k input =
     (let first = breg_user_address input; last = first + breg_length input - 1
      in ucast (drop_bit (page_shift k) last - drop_bit (page_shift k) first + 1))"

definition unpin_pages :: "u32 \<Rightarrow> ('w, 'x) host \<Rightarrow> ('w, 'x) host" where
  "unpin_pages npages s = s\<lparr> h_pinned := h_pinned s - unat npages \<rparr>"

definition unmap_pages :: "u32 \<Rightarrow> ('w, 'x) host \<Rightarrow> ('w, 'x) host" where
  "unmap_pages npages s = unpin_pages npages (s\<lparr> h_dma_maps := h_dma_maps s - 1 \<rparr>)"

definition register_insert ::
    "('w, 'x) linux \<Rightarrow> register_env \<Rightarrow> ref \<Rightarrow> ref \<Rightarrow> vams_ioc_buffer_register \<Rightarrow> ('w, 'x) host \<Rightarrow>
     (rc \<times> vams_ioc_buffer_register option \<times> ('w, 'x) host) option" where
  "register_insert k env f m input s = do {
     file \<leftarrow> h_files s f;
     case xa_alloc k m (vf_mappings file) of
       (Inl e, x) \<Rightarrow> Some (RC_ERR e, None, unmap_pages (register_npages k input) s)
     | (Inr handle, x) \<Rightarrow> do {
         let mapping = \<lparr> mp_refs = 1, mp_dma_addr = re_dma_addr env,
           mp_direction = vams_mapping_direction (breg_flags input), mp_npages = register_npages k input,
           mp_user_address = breg_user_address input, mp_length = breg_length input,
           mp_flags = breg_flags input, mp_handle = handle \<rparr>;
         let s = set_mapping m mapping (set_file f (file\<lparr> vf_mappings := x \<rparr>) s);
         if re_copy env then Some (RC_OK, Some (input\<lparr> breg_handle := handle \<rparr>), s)
         else do {
           let s = set_file f (file\<lparr> vf_mappings := snd (xa_erase k handle x) \<rparr>) s;
           s \<leftarrow> vams_mapping_put Process (Some m) s;
           Some (RC_ERR EFAULT, None, s)
         } }
   }"

definition register_pin ::
    "('w, 'x) linux \<Rightarrow> register_env \<Rightarrow> ref \<Rightarrow> ref \<Rightarrow> vams_ioc_buffer_register \<Rightarrow> ('w, 'x) host \<Rightarrow>
     (rc \<times> vams_ioc_buffer_register option \<times> ('w, 'x) host) option" where
  "register_pin k env f m input s =
     (let npages = register_npages k input in
      case re_pinned env of
        Inl e \<Rightarrow> Some (RC_ERR e, None, s)
      | Inr pinned \<Rightarrow>
          if pinned \<noteq> unat npages then Some (RC_ERR EFAULT, None, s)
          else let s = s\<lparr> h_pinned := h_pinned s + unat npages \<rparr> in
            if re_sg env \<noteq> RC_OK then Some (re_sg env, None, unpin_pages npages s)
            else if re_mapped env = 0 then Some (RC_ERR EIO, None, unpin_pages npages s)
            else let s = s\<lparr> h_dma_maps := h_dma_maps s + 1 \<rparr> in
              if re_mapped env \<noteq> 1 then Some (RC_ERR ERANGE, None, unmap_pages npages s)
              else if ucast (re_dma_len env) < breg_length input
              then Some (RC_ERR ERANGE, None, unmap_pages npages s)
              else register_insert k env f m input s)"

definition vams_ioctl_buffer_register ::
    "('w, 'x) linux \<Rightarrow> register_env \<Rightarrow> ref \<Rightarrow> vams_ioc_buffer_register option \<Rightarrow> ('w, 'x) host \<Rightarrow>
     (rc \<times> vams_ioc_buffer_register option \<times> ('w, 'x) host) option" where
  "vams_ioctl_buffer_register k env f arg s =
     (case arg of
        None \<Rightarrow> Some (RC_ERR EFAULT, None, s)
      | Some input \<Rightarrow>
          if \<not> register_valid input then Some (RC_ERR EINVAL, None, s)
          else if add_overflows (breg_user_address input) (breg_length input) \<or> \<not> re_access_ok env
          then Some (RC_ERR EFAULT, None, s)
          else do {
            file \<leftarrow> h_files s f;
            dev \<leftarrow> h_dev s;
            if vf_closing file \<or> vd_removing dev then Some (RC_ERR ENODEV, None, s)
            else (case re_mapping env of
              None \<Rightarrow> Some (RC_ERR ENOMEM, None, s)
            | Some m \<Rightarrow> if re_pages env then register_pin k env f m input s else Some (RC_ERR ENOMEM, None, s)) })"

definition vams_ioctl_buffer_unregister ::
    "('w, 'x) linux \<Rightarrow> ref \<Rightarrow> vams_ioc_buffer_unregister option \<Rightarrow> ('w, 'x) host \<Rightarrow>
     (rc \<times> ('w, 'x) host) option" where
  "vams_ioctl_buffer_unregister k f arg s =
     (case arg of
        None \<Rightarrow> Some (RC_ERR EFAULT, s)
      | Some input \<Rightarrow>
          if bunreg_size input \<noteq> sizeof_ioc_buffer_unregister \<or> bunreg_version input \<noteq> VAMS_UAPI_VERSION \<or>
             bunreg_handle input = 0 \<or> bunreg_flags input \<noteq> 0 \<or> bunreg_reserved input \<noteq> 0
          then Some (RC_ERR EINVAL, s)
          else do {
            file \<leftarrow> h_files s f;
            case xa_load k (vf_mappings file) (bunreg_handle input) of
              None \<Rightarrow> Some (RC_ERR ENOENT, s)
            | Some m \<Rightarrow> do {
                mapping \<leftarrow> h_mappings s m;
                if mp_refs mapping \<noteq> 1 then Some (RC_ERR EBUSY, s)
                else do {
                  let x = snd (xa_erase k (bunreg_handle input) (vf_mappings file));
                  s \<leftarrow> vams_mapping_put Process (Some m) (set_file f (file\<lparr> vf_mappings := x \<rparr>) s);
                  Some (RC_OK, s)
                } } })"

subsection \<open>Submission\<close>

text \<open>
  The result of \<open>vams_mapping_lookup_locked\<close>: an error, or the buffer with a new reference and the bus
  address of the range.
\<close>

definition vams_mapping_lookup_locked ::
    "('w, 'x) linux \<Rightarrow> ref \<Rightarrow> u32 \<Rightarrow> u64 \<Rightarrow> u32 \<Rightarrow> u32 \<Rightarrow> ('w, 'x) host \<Rightarrow>
     ((errno + ref \<times> u64) \<times> ('w, 'x) host) option" where
  "vams_mapping_lookup_locked k f handle offset len required_flags s =
     (if handle = 0 \<or> add_overflows offset (ucast len) then Some (Inl EINVAL, s)
      else do {
        file \<leftarrow> h_files s f;
        case xa_load k (vf_mappings file) handle of
          None \<Rightarrow> Some (Inl ENOENT, s)
        | Some m \<Rightarrow> do {
            mapping \<leftarrow> h_mappings s m;
            if mp_flags mapping AND required_flags \<noteq> required_flags then Some (Inl EACCES, s)
            else if offset + ucast len > mp_length mapping then Some (Inl ERANGE, s)
            else if add_overflows (mp_dma_addr mapping) offset \<or> mp_dma_addr mapping + offset = 0 \<or>
                    add_overflows (mp_dma_addr mapping + offset) (ucast len)
            then Some (Inl EOVERFLOW, s)
            else do {
              s \<leftarrow> vams_mapping_get m s;
              Some (Inr (m, mp_dma_addr mapping + offset), s)
            } } })"

definition is_op :: "vams_ioc_submit \<Rightarrow> u8 \<Rightarrow> bool" where
  "is_op input opcode \<longleftrightarrow> ios_opcode input = ucast opcode"

text \<open>The checks before the switch, and the cases of the switch: the accesses and the source length.\<close>

definition submit_valid :: "vams_ioc_submit \<Rightarrow> bool" where
  "submit_valid input \<longleftrightarrow>
     ios_size input = sizeof_ioc_submit \<and> ios_version input = VAMS_UAPI_VERSION \<and>
     ios_command_id input = 0 \<and> ios_timeout_ms input \<le> 60000 \<and> ios_length input \<le> VAMS_MAX_TRANSFER \<and>
     ios_flags input AND NOT VAMS_SUBMIT_VERIFY_CRC = 0 \<and>
     (is_op input VAMS_OP_CRC32 \<or> ios_flags input = 0) \<and>
     (ios_flags input \<noteq> 0 \<and> is_op input VAMS_OP_CRC32 \<or> ios_expected_crc input = 0)"

definition submit_access :: "vams_ioc_submit \<Rightarrow> (u32 \<times> u32 \<times> u32) option" where
  "submit_access input =
     (if is_op input VAMS_OP_NOP then
        (if ios_source_handle input \<noteq> 0 \<or> ios_destination_handle input \<noteq> 0 \<or> ios_source_offset input \<noteq> 0 \<or>
            ios_destination_offset input \<noteq> 0 \<or> ios_length input \<noteq> 0
         then None else Some (0, 0, 0))
      else if is_op input VAMS_OP_MEM_COPY then
        (if ios_length input = 0 \<or> ios_source_handle input = 0 \<or> ios_destination_handle input = 0
         then None else Some (VAMS_BUFFER_READ, VAMS_BUFFER_WRITE, ios_length input))
      else if is_op input VAMS_OP_MEM_FILL then
        (if ios_length input = 0 \<or> ios_source_handle input = 0 \<or> ios_destination_handle input = 0
         then None else Some (VAMS_BUFFER_READ, VAMS_BUFFER_WRITE, 1))
      else if is_op input VAMS_OP_CRC32 then
        (if ios_length input = 0 \<or> ios_source_handle input = 0 \<or> ios_destination_handle input \<noteq> 0 \<or>
            ios_destination_offset input \<noteq> 0
         then None else Some (VAMS_BUFFER_READ, 0, ios_length input))
      else if is_op input VAMS_OP_VECTOR_ADD then
        (if ios_length input < 4 \<or> ios_length input AND 3 \<noteq> 0 \<or> ios_source_handle input = 0 \<or>
            ios_destination_handle input = 0
         then None else Some (VAMS_BUFFER_READ, VAMS_BUFFER_READ OR VAMS_BUFFER_WRITE, ios_length input))
      else None)"

definition ranges_overlap :: "vams_ioc_submit \<Rightarrow> u64 \<Rightarrow> u64 \<Rightarrow> bool" where
  "ranges_overlap input source_dma destination_dma \<longleftrightarrow>
     source_dma \<noteq> 0 \<and> destination_dma \<noteq> 0 \<and> \<not> is_op input VAMS_OP_MEM_FILL \<and>
     source_dma < destination_dma + ucast (ios_length input) \<and>
     destination_dma < source_dma + ucast (ios_length input)"

definition submit_descriptor :: "vams_ioc_submit \<Rightarrow> u64 \<Rightarrow> u64 \<Rightarrow> vams_submission" where
  "submit_descriptor input source_dma destination_dma = zero_submission\<lparr>
     sub_version := VAMS_DESC_VERSION_1, sub_opcode := ucast (ios_opcode input),
     sub_flags := ucast (ios_flags input), sub_source_dma := source_dma,
     sub_destination_dma := destination_dma, sub_length := ios_length input,
     sub_timeout_ms := ios_timeout_ms input, sub_user_cookie := ios_user_cookie input,
     sub_expected_crc := ios_expected_crc input \<rparr>"

text \<open>An access of 0 is a buffer that the operation does not use.\<close>

definition lookup_access ::
    "('w, 'x) linux \<Rightarrow> ref \<Rightarrow> u32 \<Rightarrow> u64 \<Rightarrow> u32 \<Rightarrow> u32 \<Rightarrow> ('w, 'x) host \<Rightarrow>
     ((errno + ref option \<times> u64) \<times> ('w, 'x) host) option" where
  "lookup_access k f handle offset len access s =
     (if access = 0 then Some (Inr (None, 0), s)
      else do {
        (found, s) \<leftarrow> vams_mapping_lookup_locked k f handle offset len access s;
        case found of
          Inl e \<Rightarrow> Some (Inl e, s)
        | Inr (m, dma) \<Rightarrow> Some (Inr (Some m, dma), s) })"

text \<open>
  The request of a call with its buffers in hand. \<open>Inl\<close> is the return value of the call, \<open>Inr\<close> the
  request that was published and that the call goes on with.
\<close>

definition submit_request ::
    "('w, 'x) linux \<Rightarrow> ref option \<Rightarrow> ref \<Rightarrow> vams_submission \<Rightarrow> ref option \<Rightarrow> ref option \<Rightarrow> ('w, 'x) host \<Rightarrow>
     ((rc + ref) \<times> ('w, 'x) host) option" where
  "submit_request k alloc f descriptor source destination s = do {
     (request, s) \<leftarrow> vams_request_alloc alloc (Some f) s;
     case request of
       None \<Rightarrow> do {
         s \<leftarrow> vams_mapping_put Process destination s;
         s \<leftarrow> vams_mapping_put Process source s;
         Some (Inl (RC_ERR ENOMEM), s) }
     | Some r \<Rightarrow> do {
         request \<leftarrow> h_requests s r;
         let s = set_request r (request\<lparr> rq_source := source, rq_destination := destination \<rparr>) s;
         (ret, s) \<leftarrow> vams_submit k r descriptor s;
         if ret \<noteq> RC_OK then do {
           s \<leftarrow> vams_request_put Process r s;
           Some (Inl ret, s) }
         else Some (Inr r, s) }
   }"

definition vams_ioctl_submit ::
    "('w, 'x) linux \<Rightarrow> ref option \<Rightarrow> ref \<Rightarrow> vams_ioc_submit option \<Rightarrow> ('w, 'x) host \<Rightarrow>
     ((rc + ref) \<times> ('w, 'x) host) option" where
  "vams_ioctl_submit k alloc f arg s =
     (case arg of
        None \<Rightarrow> Some (Inl (RC_ERR EFAULT), s)
      | Some input \<Rightarrow>
          if \<not> submit_valid input then Some (Inl (RC_ERR EINVAL), s)
          else (case submit_access input of
            None \<Rightarrow> Some (Inl (RC_ERR EINVAL), s)
          | Some (source_access, destination_access, source_length) \<Rightarrow> do {
              file \<leftarrow> h_files s f;
              if vf_closing file then Some (Inl (RC_ERR ENODEV), s)
              else do {
                (src, s) \<leftarrow> lookup_access k f (ios_source_handle input) (ios_source_offset input)
                  source_length source_access s;
                case src of
                  Inl e \<Rightarrow> Some (Inl (RC_ERR e), s)
                | Inr (source, source_dma) \<Rightarrow> do {
                    (dst, s) \<leftarrow> lookup_access k f (ios_destination_handle input)
                      (ios_destination_offset input) (ios_length input) destination_access s;
                    case dst of
                      Inl e \<Rightarrow> do {
                        s \<leftarrow> vams_mapping_put Process source s;
                        Some (Inl (RC_ERR e), s) }
                    | Inr (destination, destination_dma) \<Rightarrow>
                        if ranges_overlap input source_dma destination_dma then do {
                          s \<leftarrow> vams_mapping_put Process destination s;
                          s \<leftarrow> vams_mapping_put Process source s;
                          Some (Inl (RC_ERR EINVAL), s) }
                        else submit_request k alloc f
                          (submit_descriptor input source_dma destination_dma) source destination s } } }))"

text \<open>The end of the call: \<open>copy_to_user\<close> of the command identifier, under the lock of the file.\<close>

definition vams_ioctl_submit_copy ::
    "('w, 'x) linux \<Rightarrow> bool \<Rightarrow> ref \<Rightarrow> ref \<Rightarrow> vams_ioc_submit \<Rightarrow> ('w, 'x) host \<Rightarrow>
     (rc \<times> vams_ioc_submit option \<times> ('w, 'x) host) option" where
  "vams_ioctl_submit_copy k copied f r input s = do {
     request \<leftarrow> h_requests s r;
     if copied then Some (RC_OK, Some (input\<lparr> ios_command_id := rq_command_id request \<rparr>), s)
     else do {
       file \<leftarrow> h_files s f;
       let x = snd (xa_erase k (rq_command_id request) (vf_requests file));
       let completed = (if rq_done request \<and> vf_completed_requests file > 0
         then vf_completed_requests file - 1 else vf_completed_requests file);
       let s = set_file f (file\<lparr> vf_requests := x, vf_completed_requests := completed \<rparr>) s;
       s \<leftarrow> vams_request_put Process r s;
       Some (RC_ERR EFAULT, None, s)
     }
   }"

subsection \<open>Waiting\<close>

text \<open>
  \<open>wait_for_completion_interruptible_timeout\<close> succeeds when the request is done at the end of the wait;
  otherwise a signal interrupted it, or the time is over.
\<close>

definition wait_outcome :: "bool \<Rightarrow> bool \<Rightarrow> rc" where
  "wait_outcome completed interrupted =
     (if completed then RC_OK else if interrupted then RC_ERR ERESTARTSYS else RC_ERR ETIMEDOUT)"

definition wait_valid :: "vams_ioc_wait \<Rightarrow> bool" where
  "wait_valid output \<longleftrightarrow>
     iow_size output = sizeof_ioc_wait \<and> iow_version output = VAMS_UAPI_VERSION \<and>
     iow_command_id output \<noteq> 0 \<and> iow_flags output = 0 \<and> iow_timeout_ms output \<le> 60000 \<and>
     iow_driver_status output = RC_OK \<and> iow_status output = 0 \<and> iow_error_code output = 0 \<and>
     iow_bytes_processed output = 0 \<and> iow_result_crc output = 0 \<and> iow_reserved0 output = 0 \<and>
     iow_user_cookie output = 0 \<and> iow_device_timestamp output = 0 \<and> iow_reserved1 output = 0"

definition vams_ioctl_wait ::
    "('w, 'x) linux \<Rightarrow> ref \<Rightarrow> vams_ioc_wait option \<Rightarrow> ('w, 'x) host \<Rightarrow> ((rc + ref) \<times> ('w, 'x) host) option" where
  "vams_ioctl_wait k f arg s =
     (case arg of
        None \<Rightarrow> Some (Inl (RC_ERR EFAULT), s)
      | Some output \<Rightarrow>
          if \<not> wait_valid output then Some (Inl (RC_ERR EINVAL), s)
          else do {
            file \<leftarrow> h_files s f;
            case xa_load k (vf_requests file) (iow_command_id output) of
              None \<Rightarrow> Some (Inl (RC_ERR ENOENT), s)
            | Some r \<Rightarrow> do {
                s \<leftarrow> vams_request_get r s;
                Some (Inr r, s) } })"

definition wait_output :: "vams_ioc_wait \<Rightarrow> vams_request \<Rightarrow> vams_ioc_wait" where
  "wait_output output request = output\<lparr>
     iow_driver_status := rq_driver_status request,
     iow_status := cpl_status (rq_result request),
     iow_error_code := cpl_error_code (rq_result request),
     iow_bytes_processed := cpl_bytes_processed (rq_result request),
     iow_result_crc := cpl_result_crc (rq_result request),
     iow_user_cookie := cpl_user_cookie (rq_result request),
     iow_device_timestamp := cpl_device_timestamp (rq_result request) \<rparr>"

definition reap_request ::
    "('w, 'x) linux \<Rightarrow> bool \<Rightarrow> ref \<Rightarrow> ref \<Rightarrow> vams_ioc_wait \<Rightarrow> ('w, 'x) host \<Rightarrow>
     (rc \<times> vams_ioc_wait option \<times> ('w, 'x) host) option" where
  "reap_request k copied f r output s = do {
     file \<leftarrow> h_files s f;
     if xa_load k (vf_requests file) (iow_command_id output) \<noteq> Some r then Some (RC_ERR EALREADY, None, s)
     else if \<not> copied then Some (RC_ERR EFAULT, None, s)
     else do {
       let x = snd (xa_erase k (iow_command_id output) (vf_requests file));
       let completed = (if vf_completed_requests file > 0
         then vf_completed_requests file - 1 else vf_completed_requests file);
       let s = set_file f (file\<lparr> vf_requests := x, vf_completed_requests := completed \<rparr>) s;
       s \<leftarrow> vams_request_put Process r s;
       Some (RC_OK, Some output, s)
     }
   }"

definition vams_ioctl_wait_done ::
    "('w, 'x) linux \<Rightarrow> bool \<Rightarrow> bool \<Rightarrow> ref \<Rightarrow> ref \<Rightarrow> vams_ioc_wait \<Rightarrow> ('w, 'x) host \<Rightarrow>
     (rc \<times> vams_ioc_wait option \<times> ('w, 'x) host) option" where
  "vams_ioctl_wait_done k interrupted copied f r output s = do {
     request \<leftarrow> h_requests s r;
     let waited = (if iow_timeout_ms output = 0
       then (if rq_done request then RC_OK else RC_ERR EAGAIN)
       else wait_outcome (rq_done request) interrupted);
     (ret, out, s) \<leftarrow> (if waited \<noteq> RC_OK then Some (waited, None, s)
       else reap_request k copied f r (wait_output output request) s);
     s \<leftarrow> vams_request_put Process r s;
     Some (ret, out, s)
   }"

subsection \<open>Information and the synchronous NOP\<close>

definition vams_ioctl_info ::
    "bool \<Rightarrow> vams_ioc_info option \<Rightarrow> ('w, 'x) host \<Rightarrow> (rc \<times> vams_ioc_info option \<times> ('w, 'x) host) option" where
  "vams_ioctl_info copied arg s =
     (case arg of
        None \<Rightarrow> Some (RC_ERR EFAULT, None, s)
      | Some info \<Rightarrow>
          if info_size info \<noteq> sizeof_ioc_info \<or> info_version info \<noteq> VAMS_UAPI_VERSION \<or> info_reserved info \<noteq> 0
          then Some (RC_ERR EINVAL, None, s)
          else do {
            dev \<leftarrow> h_dev s;
            if vd_removing dev then Some (RC_ERR ENODEV, None, s)
            else if \<not> copied then Some (RC_ERR EFAULT, None, s)
            else Some (RC_OK, Some (info\<lparr> info_hw_if_version := vd_hw_if_version dev,
              info_fw_version := vd_fw_version dev,
              info_capabilities := vd_capabilities dev AND VAMS_CAP_KNOWN,
              info_queue_depth := (if vd_queues_ready dev then VAMS_QUEUE_DEPTH else 0),
              info_reset_generation := vd_reset_generation dev \<rparr>), s) })"

definition nop_valid :: "vams_ioc_nop \<Rightarrow> bool" where
  "nop_valid nop \<longleftrightarrow> nop_size nop = sizeof_ioc_nop \<and> nop_version nop = VAMS_UAPI_VERSION \<and>
     nop_flags nop = 0 \<and> nop_reserved nop = 0 \<and> nop_timeout_ms nop \<le> 60000"

definition vams_ioctl_nop ::
    "('w, 'x) linux \<Rightarrow> ref option \<Rightarrow> vams_ioc_nop option \<Rightarrow> ('w, 'x) host \<Rightarrow> ((rc + ref) \<times> ('w, 'x) host) option" where
  "vams_ioctl_nop k alloc arg s =
     (case arg of
        None \<Rightarrow> Some (Inl (RC_ERR EFAULT), s)
      | Some nop \<Rightarrow>
          if \<not> nop_valid nop then Some (Inl (RC_ERR EINVAL), s)
          else do {
            (request, s) \<leftarrow> vams_request_alloc alloc None s;
            case request of
              None \<Rightarrow> Some (Inl (RC_ERR ENOMEM), s)
            | Some r \<Rightarrow> do {
                (ret, s) \<leftarrow> vams_submit_nop k r (nop_user_cookie nop) (nop_timeout_ms nop) s;
                if ret \<noteq> RC_OK then do {
                  s \<leftarrow> vams_request_put Process r s;
                  Some (Inl ret, s) }
                else Some (Inr r, s) } })"

definition nop_output :: "vams_ioc_nop \<Rightarrow> vams_request \<Rightarrow> vams_ioc_nop" where
  "nop_output nop request = nop\<lparr>
     nop_command_id := rq_command_id request,
     nop_status := cpl_status (rq_result request),
     nop_error_code := cpl_error_code (rq_result request),
     nop_bytes_processed := cpl_bytes_processed (rq_result request),
     nop_result_crc := cpl_result_crc (rq_result request),
     nop_device_timestamp := cpl_device_timestamp (rq_result request) \<rparr>"

definition vams_ioctl_nop_done ::
    "bool \<Rightarrow> bool \<Rightarrow> ref \<Rightarrow> vams_ioc_nop \<Rightarrow> ('w, 'x) host \<Rightarrow> (rc \<times> vams_ioc_nop option \<times> ('w, 'x) host) option" where
  "vams_ioctl_nop_done interrupted copied r nop s = do {
     request \<leftarrow> h_requests s r;
     let waited = wait_outcome (rq_done request) interrupted;
     let (ret, out) = (if waited \<noteq> RC_OK then (waited, None)
       else if rq_driver_status request \<noteq> RC_OK then (rq_driver_status request, None)
       else if \<not> copied then (RC_ERR EFAULT, None)
       else (RC_OK, Some (nop_output nop request)));
     s \<leftarrow> vams_request_put Process r s;
     Some (ret, out, s)
   }"

subsection \<open>Poll\<close>

datatype poll_flag = EPOLLIN | EPOLLRDNORM | EPOLLOUT | EPOLLWRNORM | EPOLLERR | EPOLLHUP

text \<open>
  The part before the register read: the result when the file or the device is going away or the
  queues are off (\<open>Inl\<close>), or the events so far. The checks hold no lock.
\<close>

definition poll_checks :: "ref \<Rightarrow> ('w, 'x) host \<Rightarrow> (poll_flag set + poll_flag set) option" where
  "poll_checks f s = do {
     file \<leftarrow> h_files s f;
     dev \<leftarrow> h_dev s;
     let events = (if vf_completed_requests file > 0 then {EPOLLIN, EPOLLRDNORM} else {});
     if vf_closing file \<or> vd_removing dev then Some (Inl (events \<union> {EPOLLERR, EPOLLHUP}))
     else if \<not> vd_queues_ready dev then Some (Inl (events \<union> {EPOLLERR}))
     else Some (Inr events)
   }"

definition poll_ring :: "('w, 'x) linux \<Rightarrow> poll_flag set \<Rightarrow> ('w, 'x) host \<Rightarrow> (poll_flag set \<times> ('w, 'x) host) option" where
  "poll_ring k events s = do {
     (sq_head, s) \<leftarrow> vams_readl k VAMS_REG_SQ_HEAD s;
     dev \<leftarrow> h_dev s;
     let next_tail = (vd_sq_tail dev + 1) AND (VAMS_QUEUE_DEPTH - 1);
     Some (if sq_head < VAMS_QUEUE_DEPTH \<and> next_tail \<noteq> sq_head then events \<union> {EPOLLOUT, EPOLLWRNORM} else events, s)
   }"

definition vams_poll :: "('w, 'x) linux \<Rightarrow> ref \<Rightarrow> ('w, 'x) host \<Rightarrow> (poll_flag set \<times> ('w, 'x) host) option" where
  "vams_poll k f s = do {
     checked \<leftarrow> poll_checks f s;
     case checked of Inl events \<Rightarrow> Some (events, s) | Inr events \<Rightarrow> poll_ring k events s
   }"

subsection \<open>The dispatcher\<close>

text \<open>
  A command of \<open>vams_ioctl\<close> with its argument and the answers of the kernel. The result is the
  return value, or the place where the call goes on.
\<close>

datatype ioctl_call =
    IOCTL_GET_INFO bool "vams_ioc_info option"
  | IOCTL_NOP "ref option" "vams_ioc_nop option"
  | IOCTL_BUFFER_REGISTER register_env "vams_ioc_buffer_register option"
  | IOCTL_BUFFER_UNREGISTER "vams_ioc_buffer_unregister option"
  | IOCTL_SUBMIT "ref option" "vams_ioc_submit option"
  | IOCTL_WAIT "vams_ioc_wait option"
  | IOCTL_OTHER

datatype call_point =
    Returned rc
  | In_Nop ref vams_ioc_nop
  | In_Submit ref vams_ioc_submit
  | In_Wait ref vams_ioc_wait

definition continue_at ::
    "('a \<Rightarrow> call_point) \<Rightarrow> ((rc + 'a) \<times> ('w, 'x) host) option \<Rightarrow> (call_point \<times> ('w, 'x) host) option" where
  "continue_at point result = do {
     (v, s) \<leftarrow> result;
     Some (case v of Inl ret \<Rightarrow> Returned ret | Inr r \<Rightarrow> point r, s)
   }"

definition vams_ioctl ::
    "('w, 'x) linux \<Rightarrow> ref \<Rightarrow> ioctl_call \<Rightarrow> ('w, 'x) host \<Rightarrow> (call_point \<times> ('w, 'x) host) option" where
  "vams_ioctl k f call s =
     (case call of
        IOCTL_GET_INFO copied arg \<Rightarrow> do {
          (ret, _, s) \<leftarrow> vams_ioctl_info copied arg s; Some (Returned ret, s) }
      | IOCTL_NOP alloc arg \<Rightarrow> continue_at (\<lambda>r. In_Nop r (the arg)) (vams_ioctl_nop k alloc arg s)
      | IOCTL_BUFFER_REGISTER env arg \<Rightarrow> do {
          (ret, _, s) \<leftarrow> vams_ioctl_buffer_register k env f arg s; Some (Returned ret, s) }
      | IOCTL_BUFFER_UNREGISTER arg \<Rightarrow> do {
          (ret, s) \<leftarrow> vams_ioctl_buffer_unregister k f arg s; Some (Returned ret, s) }
      | IOCTL_SUBMIT alloc arg \<Rightarrow> continue_at (\<lambda>r. In_Submit r (the arg)) (vams_ioctl_submit k alloc f arg s)
      | IOCTL_WAIT arg \<Rightarrow> continue_at (\<lambda>r. In_Wait r (the arg)) (vams_ioctl_wait k f arg s)
      | IOCTL_OTHER \<Rightarrow> Some (Returned (RC_ERR ENOTTY), s))"

text \<open>The rest of a call, with the answers of the kernel to the wait and to \<open>copy_to_user\<close>.\<close>

definition resume_call ::
    "('w, 'x) linux \<Rightarrow> bool \<Rightarrow> bool \<Rightarrow> ref \<Rightarrow> call_point \<Rightarrow> ('w, 'x) host \<Rightarrow> (rc \<times> ('w, 'x) host) option" where
  "resume_call k interrupted copied f point s =
     (case point of
        Returned ret \<Rightarrow> Some (ret, s)
      | In_Nop r nop \<Rightarrow> do { (ret, _, s) \<leftarrow> vams_ioctl_nop_done interrupted copied r nop s; Some (ret, s) }
      | In_Submit r input \<Rightarrow> do { (ret, _, s) \<leftarrow> vams_ioctl_submit_copy k copied f r input s; Some (ret, s) }
      | In_Wait r output \<Rightarrow> do {
          (ret, _, s) \<leftarrow> vams_ioctl_wait_done k interrupted copied f r output s; Some (ret, s) })"

end
