(* ===== verification/Vams_Pci_Calls.thy ===== *)
theory Vams_Pci_Calls
  imports Vams_Pci_Api
begin

text \<open>
  The calls of the character device keep the invariant \<open>dinv\<close> and do not fault, whatever the user
  passes and the kernel answers. Each lemma names the local references that the call holds before and
  after; \<open>sframe\<close> says that a call changes the tables of its own file only.
\<close>

subsection \<open>Open\<close>

context xarray_laws
begin

lemma open_ok:
  assumes inv: "dinv tab L s" and d: "h_dev s = Some dev" and fresh: "\<And>f. alloc = Some f \<Longrightarrow> h_files s f = None"
  shows "\<exists>ret s'. vams_open k alloc s = Some (ret, s') \<and> sframe (set_option alloc) s s' \<and>
    (if ret = RC_OK then \<exists>f. alloc = Some f \<and> dinv tab (open_file f L) s' \<and> \<not> vd_removing dev else s' = s)"
proof (cases alloc)
  case None
  then show ?thesis by (simp add: vams_open_def)
next
  case (Some f)
  show ?thesis
  proof (cases "vd_removing dev")
    case True
    then show ?thesis using Some d by (simp add: vams_open_def)
  next
    case False
    let ?fl = "\<lparr> vf_refs = 1, vf_mappings = xa_empty k, vf_requests = xa_empty k, vf_completed_requests = 0, vf_closing = False \<rparr>"
    let ?d = "dev\<lparr> vd_refs := vd_refs dev + 1 \<rparr>"
    let ?s = "set_file f ?fl (set_dev ?d s)"
    have f: "h_files s f = None" by (rule fresh [OF Some])
    have "hinv tab (open_file f L) ?s"
      by (rule new_file_hinv [OF dinv_parts(1) [OF inv] f d]) (simp_all add: tab_empty)
    moreover have "rings_ok tab ?s"
      using rings_okD [OF dinv_parts(2) [OF inv] d]
      by (intro rings_okI [where dev = ?d]) (simp_all add: set_dev_def set_file_def)
    moreover have "ready_ok tab ?s"
      unfolding ready_ok_def
    proof (intro allI impI)
      fix g gl assume g: "h_files ?s g = Some gl" "\<not> vf_closing gl"
      have same: "done_entries tab ?s gl = done_entries tab s gl" by (simp add: done_entries_def set_dev_def set_file_def)
      show "int (card (done_entries tab ?s gl)) \<le> vf_completed_requests gl"
      proof (cases "g = f")
        case True
        then have "gl = ?fl" using g by (simp add: set_file_def)
        then show ?thesis by (simp add: done_entries_def tab_empty)
      next
        case False
        then have "h_files s g = Some gl" using g by (simp add: set_file_def set_dev_def)
        then show ?thesis using dinv_parts(3) [OF inv] g(2) same unfolding ready_ok_def by simp
      qed
    qed
    moreover have "sframe {f} s ?s" using d by (simp add: sframe_def set_file_def set_dev_def)
    ultimately show ?thesis using Some d False by (simp add: vams_open_def dinv_def)
  qed
qed

subsection \<open>Taking an entry off the table of a file\<close>

lemma reap_entry_ok:
  assumes inv: "dinv tab L s" and f: "h_files s f = Some fl" and op: "lc_open L f"
    and i: "tab (vf_requests fl) i = Some r" and x: "tab x = (tab (vf_requests fl))(i := None)"
    and q: "h_requests s r = Some q"
    and count: "vf_closing fl \<or> c \<ge> vf_completed_requests fl - of_bool (rq_done q)"
  obtains s' fl' where "vams_request_put ctx r (set_file f (fl\<lparr> vf_requests := x, vf_completed_requests := c \<rparr>) s) = Some s'"
    "dinv tab L s'" "sframe {f} s s'" "h_files s' f = Some fl'" "vf_requests fl' = x" "vf_mappings fl' = vf_mappings fl"
    "vf_closing fl' = vf_closing fl" "\<And>j. j \<noteq> r \<Longrightarrow> h_requests s' j = h_requests s j"
proof -
  let ?fl = "fl\<lparr> vf_requests := x, vf_completed_requests := c \<rparr>"
  let ?s1 = "set_file f ?fl s"
  have i1: "hinv tab (add_request r L) ?s1"
    by (rule file_request_erase_hinv [OF dinv_parts(1) [OF inv] f i]) (simp_all add: x)
  have rings1: "rings_ok tab ?s1" by (rule rings_ok_same [OF dinv_parts(2) [OF inv]]) (simp_all add: set_file_def)
  have ready1: "ready_ok tab ?s1"
    unfolding ready_ok_def
  proof (intro allI impI)
    fix g gl assume g: "h_files ?s1 g = Some gl" "\<not> vf_closing gl"
    have same: "done_entries tab ?s1 gl = done_entries tab s gl" by (simp add: done_entries_def set_file_def)
    show "int (card (done_entries tab ?s1 gl)) \<le> vf_completed_requests gl"
    proof (cases "g = f")
      case True
      then have gl: "gl = ?fl" using g by (simp add: set_file_def)
      have "card (done_entries tab s fl) = card (done_entries tab s gl) + of_bool (rq_done q)"
        by (rule card_without [OF done_entries_finite, where r = i]) (use gl x i q in \<open>auto simp: done_entries_def split: if_splits\<close>)
      moreover have "int (card (done_entries tab s fl)) \<le> vf_completed_requests fl"
        using dinv_parts(3) [OF inv] f g gl unfolding ready_ok_def by simp
      ultimately show ?thesis using count g gl same by auto
    next
      case False
      then have "h_files s g = Some gl" using g by (simp add: set_file_def)
      then show ?thesis using dinv_parts(3) [OF inv] g(2) same unfolding ready_ok_def by simp
    qed
  qed
  obtain s' where s': "vams_request_put ctx r ?s1 = Some s'" "hinv tab L s'" "shrinks ?s1 s'"
    "\<And>j. j \<noteq> r \<Longrightarrow> h_requests s' j = h_requests ?s1 j"
    by (rule request_put_ok [OF i1, of ctx]) blast
  obtain fl' where f': "h_files s' f = Some fl'" by (rule file_live [OF s'(2), of f]) (use op in simp_all)
  have fl': "vf_requests fl' = x" "vf_mappings fl' = vf_mappings fl" "vf_closing fl' = vf_closing fl"
    using shrinksD(4) [OF s'(3) f'] by (auto simp: set_file_def)
  have "sframe {f} s ?s1" by (simp add: sframe_def set_file_def)
  then have fr: "sframe {f} s s'" by (rule sframe_trans_same [OF _ shrinks_sframe [OF s'(3)]])
  have "dinv tab L s'" by (rule shrinks_dinv [OF s'(2,3) rings1 ready1])
  then show ?thesis using that [OF s'(1) _ fr f' fl'] s'(4) by (simp add: set_file_def)
qed

end

subsection \<open>Release\<close>

context xarray_laws
begin

lemma set_file_step:
  assumes inv: "dinv tab L s" and f: "h_files s f = Some fl"
    and same: "vf_refs fl' = vf_refs fl" "tab (vf_requests fl') = tab (vf_requests fl)"
      "tab (vf_mappings fl') = tab (vf_mappings fl)"
    and count: "\<not> vf_closing fl' \<Longrightarrow> \<not> vf_closing fl \<and> vf_completed_requests fl' = vf_completed_requests fl"
  shows "dinv tab L (set_file f fl' s)"
proof -
  have "hinv tab L (set_file f fl' s)" by (rule set_file_fields_hinv [OF dinv_parts(1) [OF inv] f same])
  moreover have "rings_ok tab (set_file f fl' s)"
    by (rule rings_ok_same [OF dinv_parts(2) [OF inv]]) (simp_all add: set_file_def)
  moreover have "ready_ok tab (set_file f fl' s)"
  proof (rule ready_okI [OF dinv_parts(3) [OF inv]])
    fix g gl assume g: "h_files (set_file f fl' s) g = Some gl" "\<not> vf_closing gl"
    show "\<exists>hl. h_files s g = Some hl \<and> \<not> vf_closing hl \<and> vf_completed_requests gl \<ge> vf_completed_requests hl \<and>
        done_entries tab (set_file f fl' s) gl \<subseteq> done_entries tab s hl"
      using g f same count by (cases "g = f") (auto simp: set_file_def done_entries_def)
  qed
  ultimately show ?thesis by (simp add: dinv_def)
qed

lemma release_request_ok:
  assumes inv: "dinv tab L s" and f: "h_files s f = Some fl" and op: "lc_open L f" and cl: "vf_closing fl"
  obtains s' fl' where "release_request k f i s = Some s'" "dinv tab L s'" "sframe {f} s s'" "h_files s' f = Some fl'"
    "tab (vf_requests fl') = (tab (vf_requests fl))(i := None)" "vf_mappings fl' = vf_mappings fl" "vf_closing fl'"
proof -
  obtain fnd x where er: "xa_erase k i (vf_requests fl) = (fnd, x)" by fastforce
  then have x: "fnd = tab (vf_requests fl) i" "tab x = (tab (vf_requests fl))(i := None)"
    using erase [of i "vf_requests fl"] by simp_all
  show ?thesis
  proof (cases "tab (vf_requests fl) i")
    case None
    let ?fl = "fl\<lparr> vf_requests := x \<rparr>"
    have same: "tab x = tab (vf_requests fl)" using x None by (simp add: fun_upd_idem)
    have "dinv tab L (set_file f ?fl s)" by (rule set_file_step [OF inv f]) (use same cl in simp_all)
    moreover have "release_request k f i s = Some (set_file f ?fl s)"
      using f er x None by (simp add: release_request_def)
    ultimately show ?thesis
      using x cl by (intro that [of "set_file f ?fl s" ?fl]) (simp_all add: sframe_def set_file_def)
  next
    case (Some r)
    obtain q where q: "h_requests s r = Some q" by (rule file_entry [OF dinv_parts(1) [OF inv] f Some])
    have eq: "fl\<lparr> vf_requests := x, vf_completed_requests := vf_completed_requests fl \<rparr> = fl\<lparr> vf_requests := x \<rparr>" by simp
    obtain s' fl' where s': "vams_request_put Process r (set_file f (fl\<lparr> vf_requests := x \<rparr>) s) = Some s'"
      "dinv tab L s'" "sframe {f} s s'" "h_files s' f = Some fl'" "vf_requests fl' = x" "vf_mappings fl' = vf_mappings fl"
      "vf_closing fl' = vf_closing fl"
      using reap_entry_ok [OF inv f op Some x(2) q, of "vf_completed_requests fl" Process] cl unfolding eq by blast
    have "release_request k f i s = Some s'" using f er x Some s'(1) by (simp add: release_request_def)
    then show ?thesis using that s' cl x(2) by simp
  qed
qed

lemma release_mapping_ok:
  assumes inv: "dinv tab L s" and f: "h_files s f = Some fl" and op: "lc_open L f" and cl: "vf_closing fl"
  obtains s' fl' where "release_mapping k f i s = Some s'" "dinv tab L s'" "sframe {f} s s'" "h_files s' f = Some fl'"
    "tab (vf_mappings fl') = (tab (vf_mappings fl))(i := None)" "vf_requests fl' = vf_requests fl" "vf_closing fl'"
proof -
  obtain fnd x where er: "xa_erase k i (vf_mappings fl) = (fnd, x)" by fastforce
  then have x: "fnd = tab (vf_mappings fl) i" "tab x = (tab (vf_mappings fl))(i := None)"
    using erase [of i "vf_mappings fl"] by simp_all
  let ?fl = "fl\<lparr> vf_mappings := x \<rparr>"
  let ?s1 = "set_file f ?fl s"
  note hi = dinv_parts(1) [OF inv]
  have i1: "hinv tab (add_mapping fnd L) ?s1"
  proof (cases "tab (vf_mappings fl) i")
    case None
    then have "tab x = tab (vf_mappings fl)" using x by (simp add: fun_upd_idem)
    then show ?thesis using set_file_fields_hinv [OF hi f, of ?fl] x(1) None by simp
  next
    case (Some m)
    then show ?thesis using file_mapping_erase_hinv [OF hi f Some, of ?fl] x by simp
  qed
  have rings1: "rings_ok tab ?s1" by (rule rings_ok_same [OF dinv_parts(2) [OF inv]]) (simp_all add: set_file_def)
  have ready1: "ready_ok tab ?s1"
  proof (rule ready_okI [OF dinv_parts(3) [OF inv]])
    fix g gl assume g: "h_files ?s1 g = Some gl" "\<not> vf_closing gl"
    show "\<exists>hl. h_files s g = Some hl \<and> \<not> vf_closing hl \<and> vf_completed_requests gl \<ge> vf_completed_requests hl \<and>
        done_entries tab ?s1 gl \<subseteq> done_entries tab s hl"
      using g cl by (cases "g = f") (auto simp: set_file_def done_entries_def)
  qed
  have "h_dev ?s1 \<noteq> None" using device_live [OF hi, of f fl] f by (auto simp: set_file_def)
  then obtain s' where s': "vams_mapping_put Process fnd ?s1 = Some s'" "hinv tab L s'" "shrinks ?s1 s'"
    "h_files s' = h_files ?s1"
    using mapping_put_ok [OF i1, of Process] by blast
  have "sframe {f} s ?s1" by (simp add: sframe_def set_file_def)
  then have "sframe {f} s s'" by (rule sframe_trans_same [OF _ shrinks_sframe [OF s'(3)]])
  moreover have "dinv tab L s'" by (rule shrinks_dinv [OF s'(2,3) rings1 ready1])
  moreover have "release_mapping k f i s = Some s'" using f er s'(1) by (simp add: release_mapping_def)
  ultimately show ?thesis using that [of s' ?fl] s'(4) x cl by (simp add: set_file_def)
qed

lemma release_requests_ok:
  assumes "dinv tab L s" "h_files s f = Some fl" "lc_open L f" "vf_closing fl"
  shows "\<exists>s' fl'. each_index (release_request k f) is s = Some s' \<and> dinv tab L s' \<and> sframe {f} s s' \<and>
    h_files s' f = Some fl' \<and> tab (vf_requests fl') = tab (vf_requests fl) |` (- set is) \<and>
    vf_mappings fl' = vf_mappings fl \<and> vf_closing fl'"
  using assms
proof (induction "is" arbitrary: s fl)
  case Nil
  then show ?case by auto
next
  case (Cons i "is")
  obtain t tl where t: "release_request k f i s = Some t" "dinv tab L t" "sframe {f} s t" "h_files t f = Some tl"
    "tab (vf_requests tl) = (tab (vf_requests fl))(i := None)" "vf_mappings tl = vf_mappings fl" "vf_closing tl"
    by (rule release_request_ok [OF Cons.prems, where i = i]) blast
  obtain s' fl' where s': "each_index (release_request k f) is t = Some s'" "dinv tab L s'" "sframe {f} t s'"
    "h_files s' f = Some fl'" "tab (vf_requests fl') = tab (vf_requests tl) |` (- set is)"
    "vf_mappings fl' = vf_mappings tl" "vf_closing fl'"
    using Cons.IH [OF t(2,4) Cons.prems(3) t(7)] by blast
  have "tab (vf_requests fl') = tab (vf_requests fl) |` (- set (i # is))"
    unfolding s'(5) t(5) by (auto simp: restrict_map_def fun_eq_iff)
  then show ?case using t(1,6) s' sframe_trans_same [OF t(3) s'(3)] by auto
qed

lemma release_mappings_ok:
  assumes "dinv tab L s" "h_files s f = Some fl" "lc_open L f" "vf_closing fl"
  shows "\<exists>s' fl'. each_index (release_mapping k f) is s = Some s' \<and> dinv tab L s' \<and> sframe {f} s s' \<and>
    h_files s' f = Some fl' \<and> tab (vf_mappings fl') = tab (vf_mappings fl) |` (- set is) \<and>
    vf_requests fl' = vf_requests fl \<and> vf_closing fl'"
  using assms
proof (induction "is" arbitrary: s fl)
  case Nil
  then show ?case by auto
next
  case (Cons i "is")
  obtain t tl where t: "release_mapping k f i s = Some t" "dinv tab L t" "sframe {f} s t" "h_files t f = Some tl"
    "tab (vf_mappings tl) = (tab (vf_mappings fl))(i := None)" "vf_requests tl = vf_requests fl" "vf_closing tl"
    by (rule release_mapping_ok [OF Cons.prems, where i = i]) blast
  obtain s' fl' where s': "each_index (release_mapping k f) is t = Some s'" "dinv tab L s'" "sframe {f} t s'"
    "h_files s' f = Some fl'" "tab (vf_mappings fl') = tab (vf_mappings tl) |` (- set is)"
    "vf_requests fl' = vf_requests tl" "vf_closing fl'"
    using Cons.IH [OF t(2,4) Cons.prems(3) t(7)] by blast
  have "tab (vf_mappings fl') = tab (vf_mappings fl) |` (- set (i # is))"
    unfolding s'(5) t(5) by (auto simp: restrict_map_def fun_eq_iff)
  then show ?case using t(1,6) s' sframe_trans_same [OF t(3) s'(3)] by auto
qed

lemma restrict_to_other_keys: "tab x |` (- set (xa_keys k x)) = Map.empty"
  using keys(1) [of x] by (auto simp: restrict_map_def fun_eq_iff)

lemma release_ok:
  assumes inv: "dinv tab L s" and op: "lc_open L f"
  obtains s' where "vams_release k f s = Some s'" "dinv tab (close_file f L) s'" "sframe {f} s s'"
proof -
  obtain fl where f: "h_files s f = Some fl" by (rule file_live [OF dinv_parts(1) [OF inv], of f]) (use op in simp_all)
  let ?fl = "fl\<lparr> vf_closing := True \<rparr>"
  let ?s0 = "set_file f ?fl s"
  have i0: "dinv tab L ?s0" by (rule set_file_step [OF inv f]) simp_all
  have f0: "h_files ?s0 f = Some ?fl" by (simp add: set_file_def)
  have fr0: "sframe {f} s ?s0" by (simp add: sframe_def set_file_def)
  obtain s1 fl1 where s1: "each_index (release_request k f) (xa_keys k (vf_requests fl)) ?s0 = Some s1" "dinv tab L s1"
    "sframe {f} ?s0 s1" "h_files s1 f = Some fl1" "tab (vf_requests fl1) = Map.empty"
    "vf_mappings fl1 = vf_mappings fl" "vf_closing fl1"
    using release_requests_ok [OF i0 f0 op, of "xa_keys k (vf_requests fl)"] restrict_to_other_keys [of "vf_requests fl"]
    by auto
  obtain s2 fl2 where s2: "each_index (release_mapping k f) (xa_keys k (vf_mappings fl1)) s1 = Some s2" "dinv tab L s2"
    "sframe {f} s1 s2" "h_files s2 f = Some fl2" "tab (vf_mappings fl2) = Map.empty"
    "vf_requests fl2 = vf_requests fl1" "vf_closing fl2"
    using release_mappings_ok [OF s1(2,4) op s1(7), of "xa_keys k (vf_mappings fl1)"]
      restrict_to_other_keys [of "vf_mappings fl1"] by auto
  have empty: "tab (vf_mappings fl2) = Map.empty" "tab (vf_requests fl2) = Map.empty"
    using s2(5,6) s1(5) by simp_all
  have "hinv tab (add_file (Some f) (close_file f L)) s2"
    by (rule close_file_hinv [OF dinv_parts(1) [OF s2(2)] s2(4) op empty])
  then obtain s3 where s3: "vams_file_put f s2 = Some s3" "hinv tab (close_file f L) s3" "shrinks s2 s3"
    by (rule file_put_ok) blast
  have "dinv tab (close_file f L) s3"
    by (rule shrinks_dinv [OF s3(2,3) dinv_parts(2,3) [OF s2(2)]])
  moreover have "vams_release k f s = Some s3"
    using f s1(1,4) s2(1) s3(1) by (simp add: vams_release_def)
  moreover have "sframe {f} s s3"
    by (rule sframe_trans_same [OF fr0 sframe_trans_same [OF s1(3) sframe_trans_same [OF s2(3) shrinks_sframe [OF s3(3)]]]])
  ultimately show ?thesis using that by blast
qed

end

subsection \<open>Buffers\<close>

text \<open>A registration that fails holds no page; one that succeeds holds the pages of the new buffer.\<close>

definition register_result ::
    "('x \<Rightarrow> u32 \<Rightarrow> ref option) \<Rightarrow> ref \<Rightarrow> u32 \<Rightarrow> rc \<Rightarrow> vams_ioc_buffer_register option \<Rightarrow> ('w, 'x) host \<Rightarrow> ('w, 'x) host \<Rightarrow> bool" where
  "register_result tab f npages ret out s s' \<longleftrightarrow>
     (if ret = RC_OK then
        \<exists>m mapping fl fl' output. out = Some output \<and> h_files s f = Some fl \<and> h_files s' f = Some fl' \<and>
          tab (vf_mappings fl) (breg_handle output) = None \<and> breg_handle output \<noteq> 0 \<and>
          tab (vf_mappings fl') = (tab (vf_mappings fl))(breg_handle output \<mapsto> m) \<and>
          h_mappings s m = None \<and> h_mappings s' = (h_mappings s)(m \<mapsto> mapping) \<and>
          mp_length mapping = breg_length output \<and> mp_flags mapping = breg_flags output \<and>
          mp_npages mapping = npages \<and> h_pinned s' = h_pinned s + unat npages \<and> h_dma_maps s' = h_dma_maps s + 1
      else out = None \<and> h_mappings s' = h_mappings s \<and> h_pinned s' = h_pinned s \<and> h_dma_maps s' = h_dma_maps s)"

lemma register_result_refused: "ret \<noteq> RC_OK \<Longrightarrow> register_result tab f npages ret None s s"
  by (simp add: register_result_def)

context xarray_laws
begin

lemma register_insert_ok:
  assumes inv: "dinv tab L s" and f: "h_files s f = Some fl" and op: "lc_open L f" and m: "h_mappings s m = None"
    and t_def: "t = s\<lparr> h_pinned := h_pinned s + unat (register_npages k input), h_dma_maps := h_dma_maps s + 1 \<rparr>"
  shows "\<exists>ret out s'. register_insert k env f m input t = Some (ret, out, s') \<and> dinv tab L s' \<and> sframe {f} s s' \<and>
    register_result tab f (register_npages k input) ret out s s'"
proof -
  let ?n = "register_npages k input"
  note hi = dinv_parts(1) [OF inv]
  have ft: "h_files t f = Some fl" using f by (simp add: t_def)
  obtain res x where al: "xa_alloc k m (vf_mappings fl) = (res, x)" by fastforce
  show ?thesis
  proof (cases res)
    case (Inl e)
    have "register_insert k env f m input t = Some (RC_ERR e, None, s)"
      using ft al Inl by (simp add: register_insert_def unmap_pages_def unpin_pages_def t_def)
    then show ?thesis using inv by (auto simp: register_result_def sframe_def)
  next
    case (Inr handle)
    have h: "handle \<noteq> 0" "tab (vf_mappings fl) handle = None" "tab x = (tab (vf_mappings fl))(handle \<mapsto> m)"
      using alloc [of "vf_mappings fl" m] al Inr by auto
    let ?mapping = "\<lparr> mp_refs = 1, mp_dma_addr = re_dma_addr env,
      mp_direction = vams_mapping_direction (breg_flags input), mp_npages = ?n,
      mp_user_address = breg_user_address input, mp_length = breg_length input,
      mp_flags = breg_flags input, mp_handle = handle \<rparr>"
    let ?fl = "fl\<lparr> vf_mappings := x \<rparr>"
    let ?u = "set_mapping m ?mapping (set_file f ?fl t)"
    let ?v = "s\<lparr> h_mappings := (h_mappings s)(m \<mapsto> ?mapping), h_pinned := h_pinned s + unat ?n, h_dma_maps := h_dma_maps s + 1 \<rparr>"
    have v: "hinv tab (add_mapping (Some m) L) ?v" using new_mapping_hinv [OF hi m, of ?mapping] by simp
    have u: "?u = set_file f ?fl ?v" by (simp add: set_mapping_def set_file_def t_def)
    have rings: "rings_ok tab (set_file f gl ?v)" for gl
      by (rule rings_ok_same [OF dinv_parts(2) [OF inv]]) (simp_all add: set_file_def)
    have ready: "ready_ok tab (set_file f (fl\<lparr> vf_mappings := y \<rparr>) ?v)" for y
    proof (rule ready_okI [OF dinv_parts(3) [OF inv]])
      fix g gl assume g: "h_files (set_file f (fl\<lparr> vf_mappings := y \<rparr>) ?v) g = Some gl" "\<not> vf_closing gl"
      show "\<exists>hl. h_files s g = Some hl \<and> \<not> vf_closing hl \<and> vf_completed_requests gl \<ge> vf_completed_requests hl \<and>
          done_entries tab (set_file f (fl\<lparr> vf_mappings := y \<rparr>) ?v) gl \<subseteq> done_entries tab s hl"
        using g f by (cases "g = f") (auto simp: set_file_def done_entries_def)
    qed
    have fr: "sframe {f} s (set_file f gl ?v)" for gl by (simp add: sframe_def set_file_def)
    show ?thesis
    proof (cases "re_copy env")
      case True
      have "register_insert k env f m input t = Some (RC_OK, Some (input\<lparr> breg_handle := handle \<rparr>), ?u)"
        using ft al Inr True by (simp add: register_insert_def)
      moreover have "hinv tab L ?u"
        unfolding u by (rule file_mapping_insert_hinv [OF v _ h(2)]) (use f h(3) op in simp_all)
      then have "dinv tab L ?u" using rings [of ?fl] ready [of x] u by (simp add: dinv_def)
      moreover have "register_result tab f ?n RC_OK (Some (input\<lparr> breg_handle := handle \<rparr>)) s ?u"
        unfolding register_result_def using f h m
        by (auto simp: set_mapping_def set_file_def t_def intro!: exI [of _ m] exI [of _ ?mapping] exI [of _ fl])
      ultimately show ?thesis using fr [of ?fl] u by auto
    next
      case False
      define y where "y = snd (xa_erase k handle x)"
      have y: "tab y = tab (vf_mappings fl)" using erase [of handle x] h(2,3) by (simp add: y_def fun_upd_idem)
      let ?y = "set_file f (fl\<lparr> vf_mappings := y \<rparr>) ?v"
      have yu: "set_file f (fl\<lparr> vf_mappings := y \<rparr>) ?u = ?y" by (simp add: set_mapping_def set_file_def t_def)
      have "hinv tab (add_mapping (Some m) L) ?y"
        by (rule set_file_fields_hinv [OF v]) (use f y in simp_all)
      moreover have "h_dev ?y \<noteq> None" using device_live [OF hi, of f fl] f by (auto simp: set_file_def)
      ultimately obtain s' where s': "vams_mapping_put Process (Some m) ?y = Some s'" "hinv tab L s'" "shrinks ?y s'"
        using mapping_put_ok [where ctx = Process] by metis
      have s'eq: "s' = ?y\<lparr> h_mappings := (h_mappings ?y)(m := None), h_pinned := h_pinned s, h_dma_maps := h_dma_maps s,
          h_unpinned := h_unpinned s @ [(m, breg_flags input AND VAMS_BUFFER_WRITE \<noteq> 0, Process)] \<rparr>"
        using s'(1) \<open>h_dev ?y \<noteq> None\<close>
        by (auto simp: vams_mapping_put_def vams_mapping_release_def set_file_def bind_eq_Some_conv)
      have "register_insert k env f m input t = Some (RC_ERR EFAULT, None, s')"
        using ft al Inr False s'(1) yu by (simp add: register_insert_def y_def)
      moreover have "dinv tab L s'" by (rule shrinks_dinv [OF s'(2,3) rings ready])
      moreover have "register_result tab f ?n (RC_ERR EFAULT) None s s'"
        using m by (simp add: register_result_def s'eq set_file_def fun_upd_idem)
      ultimately show ?thesis using sframe_trans_same [OF fr shrinks_sframe [OF s'(3)]] by blast
    qed
  qed
qed

lemma buffer_register_ok:
  assumes inv: "dinv tab L s" and op: "lc_open L f" and fresh: "\<And>m. re_mapping env = Some m \<Longrightarrow> h_mappings s m = None"
  shows "\<exists>ret out s'. vams_ioctl_buffer_register k env f arg s = Some (ret, out, s') \<and> dinv tab L s' \<and> sframe {f} s s' \<and>
    register_result tab f (register_npages k (the arg)) ret out s s'"
proof -
  obtain fl where f: "h_files s f = Some fl" by (rule file_live [OF dinv_parts(1) [OF inv], of f]) (use op in simp_all)
  obtain dev where d: "h_dev s = Some dev" by (rule device_live [OF dinv_parts(1) [OF inv], of f fl]) (use f in simp_all)
  have refused: ?thesis if "vams_ioctl_buffer_register k env f arg s = Some (ret, None, s)" "ret \<noteq> RC_OK" for ret
    using that inv register_result_refused by (fastforce simp: sframe_def)
  show ?thesis
  proof (cases arg)
    case None
    then show ?thesis by (intro refused [of "RC_ERR EFAULT"]) (simp_all add: vams_ioctl_buffer_register_def)
  next
    case (Some input)
    let ?n = "register_npages k input"
    consider "\<not> register_valid input" | "register_valid input"
      "add_overflows (breg_user_address input) (breg_length input) \<or> \<not> re_access_ok env" |
      "register_valid input" "\<not> (add_overflows (breg_user_address input) (breg_length input) \<or> \<not> re_access_ok env)"
      "vf_closing fl \<or> vd_removing dev \<or> re_mapping env = None \<or> \<not> re_pages env" |
      m where "register_valid input" "\<not> (add_overflows (breg_user_address input) (breg_length input) \<or> \<not> re_access_ok env)"
      "\<not> (vf_closing fl \<or> vd_removing dev)" "re_mapping env = Some m" "re_pages env"
      by (cases "re_mapping env") auto
    then show ?thesis
    proof cases
      case 1
      then show ?thesis using Some by (intro refused [of "RC_ERR EINVAL"]) (simp_all add: vams_ioctl_buffer_register_def)
    next
      case 2
      then show ?thesis using Some by (intro refused [of "RC_ERR EFAULT"]) (simp_all add: vams_ioctl_buffer_register_def)
    next
      case 3
      then show ?thesis using Some f d
        by (intro refused [of "if vf_closing fl \<or> vd_removing dev then RC_ERR ENODEV else RC_ERR ENOMEM"])
          (auto simp: vams_ioctl_buffer_register_def split: option.split)
    next
      case (4 m)
      have call: "vams_ioctl_buffer_register k env f arg s = register_pin k env f m input s"
        using 4 Some f d by (simp add: vams_ioctl_buffer_register_def)
      let ?go = "re_pinned env = Inr (unat ?n) \<and> re_sg env = RC_OK \<and> re_mapped env = 1 \<and>
        \<not> ucast (re_dma_len env) < breg_length input"
      show ?thesis
      proof (cases ?go)
        case True
        then show ?thesis
          using register_insert_ok [OF inv f op fresh [OF 4(4)] refl] Some call by (simp add: register_pin_def)
      next
        case False
        have "\<exists>ret. ret \<noteq> RC_OK \<and> register_pin k env f m input s = Some (ret, None, s)"
          using False by (auto simp: register_pin_def unpin_pages_def unmap_pages_def Let_def split: sum.split)
        then show ?thesis using call refused by metis
      qed
    qed
  qed
qed

lemma buffer_unregister_ok:
  assumes inv: "dinv tab L s" and op: "lc_open L f"
  shows "\<exists>ret s'. vams_ioctl_buffer_unregister k f arg s = Some (ret, s') \<and> dinv tab L s' \<and> sframe {f} s s' \<and>
    (ret \<noteq> RC_OK \<longrightarrow> s' = s)"
proof -
  obtain fl where f: "h_files s f = Some fl" by (rule file_live [OF dinv_parts(1) [OF inv], of f]) (use op in simp_all)
  obtain dev where d: "h_dev s = Some dev" by (rule device_live [OF dinv_parts(1) [OF inv], of f fl]) (use f in simp_all)
  have refused: ?thesis if "vams_ioctl_buffer_unregister k f arg s = Some (ret, s)" for ret
    using that inv by (auto simp: sframe_def)
  show ?thesis
  proof (cases arg)
    case None
    then show ?thesis by (intro refused [of "RC_ERR EFAULT"]) (simp add: vams_ioctl_buffer_unregister_def)
  next
    case (Some input)
    let ?h = "bunreg_handle input"
    let ?bad = "bunreg_size input \<noteq> sizeof_ioc_buffer_unregister \<or> bunreg_version input \<noteq> VAMS_UAPI_VERSION \<or>
      ?h = 0 \<or> bunreg_flags input \<noteq> 0 \<or> bunreg_reserved input \<noteq> 0"
    show ?thesis
    proof (cases "?bad \<or> tab (vf_mappings fl) ?h = None")
      case True
      then show ?thesis using Some f load [of "vf_mappings fl" ?h]
        by (intro refused [of "if ?bad then RC_ERR EINVAL else RC_ERR ENOENT"])
          (auto simp: vams_ioctl_buffer_unregister_def)
    next
      case False
      then obtain m where m: "tab (vf_mappings fl) ?h = Some m" by blast
      obtain mapping where mp: "h_mappings s m = Some mapping" by (rule file_mapping_entry [OF dinv_parts(1) [OF inv] f m])
      show ?thesis
      proof (cases "mp_refs mapping = 1")
        case busy: False
        then show ?thesis using Some f load [of "vf_mappings fl" ?h] m mp False
          by (intro refused [of "RC_ERR EBUSY"]) (simp add: vams_ioctl_buffer_unregister_def)
      next
        case True
        define x where "x = snd (xa_erase k ?h (vf_mappings fl))"
        have x: "tab x = (tab (vf_mappings fl))(?h := None)" using erase [of ?h "vf_mappings fl"] by (simp add: x_def)
        let ?t = "set_file f (fl\<lparr> vf_mappings := x \<rparr>) s"
        have i1: "hinv tab (add_mapping (Some m) L) ?t"
          by (rule file_mapping_erase_hinv [OF dinv_parts(1) [OF inv] f m]) (use x in simp_all)
        have dt: "h_dev ?t \<noteq> None" using d by (simp add: set_file_def)
        obtain s' where s': "vams_mapping_put Process (Some m) ?t = Some s'" "hinv tab L s'" "shrinks ?t s'"
          using mapping_put_ok [OF i1] dt by blast
        have rings: "rings_ok tab ?t" by (rule rings_ok_same [OF dinv_parts(2) [OF inv]]) (simp_all add: set_file_def)
        have ready: "ready_ok tab ?t"
          by (rule ready_okI [OF dinv_parts(3) [OF inv]])
            (use f in \<open>auto simp: set_file_def done_entries_def split: if_splits\<close>)
        have "sframe {f} s ?t" by (simp add: sframe_def set_file_def)
        then have "sframe {f} s s'" by (rule sframe_trans_same [OF _ shrinks_sframe [OF s'(3)]])
        moreover have "dinv tab L s'" by (rule shrinks_dinv [OF s'(2,3) rings ready])
        moreover have "vams_ioctl_buffer_unregister k f arg s = Some (RC_OK, s')"
          using Some f load [of "vf_mappings fl" ?h] m mp False True s'(1)
          by (simp add: vams_ioctl_buffer_unregister_def x_def)
        ultimately show ?thesis by blast
      qed
    qed
  qed
qed

end

subsection \<open>Submission\<close>

text \<open>
  The bus address \<open>dma\<close> of a range of a registered buffer: it lies in the buffer, the buffer allows the
  access, and the range neither wraps nor starts at 0.
\<close>

definition buffer_range ::
    "('x \<Rightarrow> u32 \<Rightarrow> ref option) \<Rightarrow> ref \<Rightarrow> u32 \<Rightarrow> u64 \<Rightarrow> u32 \<Rightarrow> u32 \<Rightarrow> ref \<Rightarrow> u64 \<Rightarrow> ('w, 'x) host \<Rightarrow> bool" where
  "buffer_range tab f handle offset len access m dma s \<longleftrightarrow>
     (\<exists>fl mapping. h_files s f = Some fl \<and> tab (vf_mappings fl) handle = Some m \<and> h_mappings s m = Some mapping \<and>
        mp_flags mapping AND access = access \<and> unat offset + unat len \<le> unat (mp_length mapping) \<and>
        unat dma = unat (mp_dma_addr mapping) + unat offset \<and> 0 < unat dma \<and> unat dma + unat len < 2 ^ 64)"

text \<open>An access of 0 uses no buffer.\<close>

definition access_range ::
    "('x \<Rightarrow> u32 \<Rightarrow> ref option) \<Rightarrow> ref \<Rightarrow> u32 \<Rightarrow> u64 \<Rightarrow> u32 \<Rightarrow> u32 \<Rightarrow> ref option \<Rightarrow> u64 \<Rightarrow> ('w, 'x) host \<Rightarrow> bool" where
  "access_range tab f handle offset len access mp dma s \<longleftrightarrow>
     (if access = 0 then mp = None \<and> dma = 0
      else \<exists>m. mp = Some m \<and> buffer_range tab f handle offset len access m dma s)"

lemma add_no_overflow: "\<not> add_overflows a b \<Longrightarrow> unat (a + b) = unat a + unat b"
  by (simp add: add_overflows_def unat_word_ariths)

lemma buffer_range_shrinks:
  assumes "buffer_range tab f handle offset len access m dma s'" "shrinks s s'"
  shows "buffer_range tab f handle offset len access m dma s"
proof -
  obtain fl' mapping' where r: "h_files s' f = Some fl'" "tab (vf_mappings fl') handle = Some m" "h_mappings s' m = Some mapping'"
    "mp_flags mapping' AND access = access" "unat offset + unat len \<le> unat (mp_length mapping')"
    "unat dma = unat (mp_dma_addr mapping') + unat offset" "0 < unat dma" "unat dma + unat len < 2 ^ 64"
    using assms(1) unfolding buffer_range_def by blast
  obtain fl n mapping j where "h_files s f = Some fl" "fl' = fl\<lparr> vf_refs := n \<rparr>"
    "h_mappings s m = Some mapping" "mapping' = mapping\<lparr> mp_refs := j \<rparr>"
    using shrinksD(4) [OF assms(2) r(1)] shrinksD(3) [OF assms(2) r(3)] by blast
  then show ?thesis unfolding buffer_range_def using r by auto
qed

lemma access_range_shrinks:
  "access_range tab f handle offset len access mp dma s' \<Longrightarrow> shrinks s s' \<Longrightarrow>
    access_range tab f handle offset len access mp dma s"
  unfolding access_range_def using buffer_range_shrinks by (auto split: if_splits)

context xarray_laws
begin

lemma mapping_lookup_ok:
  assumes inv: "dinv tab L s" and op: "lc_open L f"
  shows "\<exists>found s'. vams_mapping_lookup_locked k f handle offset len access s = Some (found, s') \<and>
    (case found of
       Inl e \<Rightarrow> s' = s
     | Inr (m, dma) \<Rightarrow> dinv tab (add_mapping (Some m) L) s' \<and> shrinks s s' \<and> h_files s' = h_files s \<and>
         h_dev s' = h_dev s \<and> h_requests s' = h_requests s \<and> buffer_range tab f handle offset len access m dma s)"
proof -
  obtain fl where f: "h_files s f = Some fl" by (rule file_live [OF dinv_parts(1) [OF inv], of f]) (use op in simp_all)
  have refused: ?thesis if "vams_mapping_lookup_locked k f handle offset len access s = Some (Inl e, s)" for e
    using that by auto
  show ?thesis
  proof (cases "handle = 0 \<or> add_overflows offset (ucast len) \<or> tab (vf_mappings fl) handle = None")
    case True
    then show ?thesis using f load [of "vf_mappings fl" handle]
      by (intro refused [of "if handle = 0 \<or> add_overflows offset (ucast len) then EINVAL else ENOENT"])
        (auto simp: vams_mapping_lookup_locked_def)
  next
    case False
    then obtain m where m: "tab (vf_mappings fl) handle = Some m" by blast
    obtain mapping where mp: "h_mappings s m = Some mapping" by (rule file_mapping_entry [OF dinv_parts(1) [OF inv] f m])
    let ?dma = "mp_dma_addr mapping + offset"
    let ?wraps = "add_overflows (mp_dma_addr mapping) offset \<or> ?dma = 0 \<or> add_overflows ?dma (ucast len)"
    show ?thesis
    proof (cases "mp_flags mapping AND access \<noteq> access \<or> offset + ucast len > mp_length mapping \<or> ?wraps")
      case True
      then show ?thesis using False f load [of "vf_mappings fl" handle] m mp
        by (intro refused [of "if mp_flags mapping AND access \<noteq> access then EACCES
            else if offset + ucast len > mp_length mapping then ERANGE else EOVERFLOW"])
          (auto simp: vams_mapping_lookup_locked_def)
    next
      case ok: False
      obtain s' where s': "vams_mapping_get m s = Some s'" "hinv tab (add_mapping (Some m) L) s'" "shrinks s s'"
        "h_requests s' = h_requests s" "h_files s' = h_files s" "h_dev s' = h_dev s"
        by (rule mapping_get_ok [OF dinv_parts(1) [OF inv] mp])
      have len: "unat (offset + ucast len) = unat offset + unat len"
        using False by (simp add: add_no_overflow)
      have "unat offset + unat len \<le> unat (mp_length mapping)"
        using ok len by (simp add: not_less word_le_nat_alt)
      moreover have "unat ?dma = unat (mp_dma_addr mapping) + unat offset" using ok by (simp add: add_no_overflow)
      moreover have "0 < unat ?dma" using ok by (simp add: unat_gt_0)
      moreover have "unat ?dma + unat len < 2 ^ 64" using ok by (simp add: add_overflows_def)
      ultimately have "buffer_range tab f handle offset len access m ?dma s"
        unfolding buffer_range_def using f m mp ok by blast
      moreover have "dinv tab (add_mapping (Some m) L) s'"
        by (rule shrinks_dinv [OF s'(2,3) dinv_parts(2,3) [OF inv]])
      moreover have "vams_mapping_lookup_locked k f handle offset len access s = Some (Inr (m, ?dma), s')"
        using False f load [of "vf_mappings fl" handle] m mp ok s'(1) by (simp add: vams_mapping_lookup_locked_def)
      ultimately show ?thesis using s' by auto
    qed
  qed
qed

lemma lookup_access_ok:
  assumes inv: "dinv tab L s" and op: "lc_open L f"
  obtains (refused) e where "lookup_access k f handle offset len access s = Some (Inl e, s)"
  | (found) mp dma s' where "lookup_access k f handle offset len access s = Some (Inr (mp, dma), s')"
      "dinv tab (add_mapping mp L) s'" "shrinks s s'" "h_files s' = h_files s" "h_dev s' = h_dev s"
      "h_requests s' = h_requests s" "access_range tab f handle offset len access mp dma s"
proof (cases "access = 0")
  case True
  have "shrinks s s" by (simp add: shrinks_def)
  then show ?thesis using True inv by (intro found [of None 0 s]) (simp_all add: lookup_access_def access_range_def)
next
  case False
  obtain res s' where r: "vams_mapping_lookup_locked k f handle offset len access s = Some (res, s')"
    "case res of Inl e \<Rightarrow> s' = s
     | Inr (m, dma) \<Rightarrow> dinv tab (add_mapping (Some m) L) s' \<and> shrinks s s' \<and> h_files s' = h_files s \<and>
         h_dev s' = h_dev s \<and> h_requests s' = h_requests s \<and> buffer_range tab f handle offset len access m dma s"
    using mapping_lookup_ok [OF assms] by blast
  show ?thesis
  proof (cases res)
    case (Inl e)
    then show ?thesis using r False by (intro refused [of e]) (simp add: lookup_access_def)
  next
    case (Inr p)
    obtain m dma where "p = (m, dma)" by fastforce
    then show ?thesis using r False Inr
      by (intro found [of "Some m" dma s']) (simp_all add: lookup_access_def access_range_def)
  qed
qed

end

text \<open>The request that a submission published: listed in the table of its file with its buffers.\<close>

definition published ::
    "('w, 'x) linux \<Rightarrow> ('x \<Rightarrow> u32 \<Rightarrow> ref option) \<Rightarrow> ref \<Rightarrow> ref \<Rightarrow> ref option \<Rightarrow> ref option \<Rightarrow> vams_submission \<Rightarrow>
     ('w, 'x) host \<Rightarrow> ('w, 'x) host \<Rightarrow> bool" where
  "published k tab f r source destination descriptor s s' \<longleftrightarrow>
     (\<exists>q. h_requests s' r = Some q \<and> rq_command_id q \<noteq> 0 \<and> (f, rq_command_id q) \<in> req_file tab s' r \<and>
        rq_owner q = Some f \<and> rq_source q = source \<and> rq_destination q = destination \<and>
        appended k s s' (descriptor\<lparr> sub_command_id := rq_command_id q \<rparr>))"

lemma sframe_mono: "sframe A s s' \<Longrightarrow> A \<subseteq> B \<Longrightarrow> sframe B s s'"
  unfolding sframe_def by blast

context xarray_laws
begin

lemma request_alloc_step:
  assumes inv: "dinv tab (add_mapping dst (add_mapping src L)) s" and f: "h_files s f = Some fl" and r: "h_requests s r = None"
  defines "q \<equiv> zero_request\<lparr> rq_refs := 1, rq_owner := Some f, rq_source := src, rq_destination := dst \<rparr>"
  defines "t \<equiv> set_request r q (set_file f (fl\<lparr> vf_refs := vf_refs fl + 1 \<rparr>) s)"
  shows "dinv tab (add_request r L) t" "req_dev tab t r = {}" "req_file tab t r = {}" "sframe {f} s t"
proof -
  let ?fl = "fl\<lparr> vf_refs := vf_refs fl + 1 \<rparr>"
  let ?q = "zero_request\<lparr> rq_refs := 1, rq_owner := Some f \<rparr>"
  let ?u = "set_request r ?q (set_file f ?fl s)"
  note hi = dinv_parts(1) [OF inv]
  have t: "t = set_request r (?q\<lparr> rq_source := src, rq_destination := dst \<rparr>) ?u"
    by (simp add: t_def q_def set_request_def set_file_def)
  have "hinv tab (add_request r L) t"
    unfolding t by (rule request_link_hinv [OF request_alloc_ok(2) [OF hi r f]])
      (simp_all add: set_request_def zero_request_def)
  moreover have "rings_ok tab t"
    by (rule rings_ok_same [OF dinv_parts(2) [OF inv]]) (simp_all add: t_def set_file_def set_request_def)
  moreover have "ready_ok tab t"
  proof (rule ready_okI [OF dinv_parts(3) [OF inv]])
    fix g gl assume g: "h_files t g = Some gl" "\<not> vf_closing gl"
    show "\<exists>hl. h_files s g = Some hl \<and> \<not> vf_closing hl \<and> vf_completed_requests gl \<ge> vf_completed_requests hl \<and>
        done_entries tab t gl \<subseteq> done_entries tab s hl"
      using g f by (cases "g = f")
        (auto simp: t_def q_def set_file_def set_request_def done_entries_def zero_request_def split: if_splits)
  qed
  ultimately show "dinv tab (add_request r L) t" by (simp add: dinv_def)
  have "req_dev tab t r = req_dev tab s r" by (simp add: req_dev_def t_def set_file_def set_request_def)
  then show "req_dev tab t r = {}" using request_dead(1) [OF hi r] by simp
  have "req_file tab t r = req_file tab s r"
    using f by (auto simp: req_file_def t_def set_file_def set_request_def split: if_splits)
  then show "req_file tab t r = {}" using request_dead(2) [OF hi r] by simp
  show "sframe {f} s t" by (simp add: sframe_def t_def set_file_def set_request_def)
qed

lemma mappings_put_ok:
  assumes inv: "dinv tab (add_mapping dst (add_mapping src L)) s" and d: "h_dev s = Some dev"
  obtains t s' where "vams_mapping_put Process dst s = Some t" "vams_mapping_put Process src t = Some s'"
    "dinv tab L s'" "sframe {} s s'" "shrinks s s'"
proof -
  obtain t where t: "vams_mapping_put Process dst s = Some t" "hinv tab (add_mapping src L) t" "shrinks s t" "h_dev t = h_dev s"
    using mapping_put_ok [OF dinv_parts(1) [OF inv]] d by (metis option.distinct(1))
  obtain s' where s': "vams_mapping_put Process src t = Some s'" "hinv tab L s'" "shrinks t s'"
    using mapping_put_ok [OF t(2)] d t(4) by (metis option.distinct(1))
  have "shrinks s s'" by (rule shrinks_trans [OF t(3) s'(3)])
  then show ?thesis using that [OF t(1) s'(1)] shrinks_dinv [OF s'(2) _ dinv_parts(2,3) [OF inv]] shrinks_sframe by blast
qed

lemma submit_request_ok:
  assumes inv: "dinv tab (add_mapping dst (add_mapping src L)) s" and op: "lc_open L f"
    and fresh: "\<And>r. al = Some r \<Longrightarrow> h_requests s r = None"
    and bound: "\<And>dev. h_dev s = Some dev \<Longrightarrow> 0 < lc_probe L \<or> vd_removing dev"
  shows "\<exists>res s'. submit_request k al f descriptor src dst s = Some (res, s') \<and> sframe {f} s s' \<and> dinv tab L s' \<and>
    (case res of Inl ret \<Rightarrow> ret \<noteq> RC_OK | Inr r \<Rightarrow> al = Some r \<and> published k tab f r src dst descriptor s s')"
proof -
  obtain fl where f: "h_files s f = Some fl" by (rule file_live [OF dinv_parts(1) [OF inv], of f]) (use op in simp_all)
  obtain dev where d: "h_dev s = Some dev" by (rule device_live [OF dinv_parts(1) [OF inv], of f fl]) (use f in simp_all)
  show ?thesis
  proof (cases al)
    case None
    obtain t s' where "vams_mapping_put Process dst s = Some t" "vams_mapping_put Process src t = Some s'"
      "dinv tab L s'" "sframe {} s s'" by (rule mappings_put_ok [OF inv d])
    then show ?thesis using None sframe_mono [of "{}" s s' "{f}"]
      by (auto simp: submit_request_def vams_request_alloc_def)
  next
    case (Some r)
    let ?q = "zero_request\<lparr> rq_refs := 1, rq_owner := Some f, rq_source := src, rq_destination := dst \<rparr>"
    let ?t = "set_request r ?q (set_file f (fl\<lparr> vf_refs := vf_refs fl + 1 \<rparr>) s)"
    note t = request_alloc_step [OF inv f fresh [OF Some]]
    have call: "submit_request k al f descriptor src dst s =
      do { (ret, s) \<leftarrow> vams_submit k r descriptor ?t;
           if ret \<noteq> RC_OK then do { s \<leftarrow> vams_request_put Process r s; Some (Inl ret, s) } else Some (Inr r, s) }"
      using Some f by (simp add: submit_request_def vams_request_alloc_def set_request_def set_file_def zero_request_def)
    have put: "\<exists>s'. vams_request_put Process r u = Some s' \<and> dinv tab L s' \<and> sframe {f} s s'"
      if u: "dinv tab (add_request r L) u" "sframe {f} s u" for u
    proof -
      obtain s' where s': "vams_request_put Process r u = Some s'" "hinv tab L s'" "shrinks u s'"
        by (rule request_put_ok [OF dinv_parts(1) [OF u(1)], of Process]) blast
      show ?thesis using s' shrinks_dinv [OF s'(2,3) dinv_parts(2,3) [OF u(1)]]
          sframe_trans_same [OF u(2) shrinks_sframe [OF s'(3)]] by blast
    qed
    show ?thesis
    proof (cases "vd_removing dev")
      case True
      then have "vams_submit k r descriptor ?t = Some (RC_ERR ENODEV, ?t)"
        using d by (simp add: vams_submit_def set_request_def set_file_def)
      then show ?thesis using call put [OF t(1,4)] by auto
    next
      case False
      have "untracked tab L r ?q ?t"
        using t False bound [OF d] op by (simp add: untracked_def set_request_def zero_request_def)
      then obtain ret s' q' where s': "vams_submit k r descriptor ?t = Some (ret, s')" "sframe (set_option (rq_owner ?q)) ?t s'"
        "same_links ?q q'" "if ret = RC_OK then submitted tab L r q' s' \<and> appended k ?t s' (descriptor\<lparr> sub_command_id := rq_command_id q' \<rparr>)
         else untracked tab L r q' s'"
        using submit_ok [where descriptor = descriptor] by blast
      have fr: "sframe {f} s s'" by (rule sframe_trans_same [OF t(4)]) (use s'(2) in simp)
      show ?thesis
      proof (cases "ret = RC_OK")
        case True
        then have "submitted tab L r q' s'" "appended k ?t s' (descriptor\<lparr> sub_command_id := rq_command_id q' \<rparr>)" using s'(4) by simp_all
        moreover have "appended k s s' x = appended k ?t s' x" for x by (simp add: appended_def set_request_def set_file_def)
        ultimately have "published k tab f r src dst descriptor s s'" "dinv tab L s'"
          using s'(3) by (auto simp: submitted_def published_def same_links_def after_track_def)
        then show ?thesis using call True s'(1) fr Some by auto
      next
        case False
        then have "dinv tab (add_request r L) s'" using s'(4) by (simp add: untracked_def)
        then show ?thesis using call False s'(1) put [OF _ fr] by auto
      qed
    qed
  qed
qed

lemma ioctl_submit_ok:
  assumes inv: "dinv tab L s" and op: "lc_open L f"
    and fresh: "\<And>r. al = Some r \<Longrightarrow> h_requests s r = None"
    and bound: "\<And>dev. h_dev s = Some dev \<Longrightarrow> 0 < lc_probe L \<or> vd_removing dev"
  shows "\<exists>res s'. vams_ioctl_submit k al f arg s = Some (res, s') \<and> sframe {f} s s' \<and> dinv tab L s' \<and>
    (case res of
       Inl ret \<Rightarrow> ret \<noteq> RC_OK
     | Inr r \<Rightarrow> al = Some r \<and> (\<exists>input sa da len src source_dma dst destination_dma.
         arg = Some input \<and> submit_valid input \<and> submit_access input = Some (sa, da, len) \<and>
         access_range tab f (ios_source_handle input) (ios_source_offset input) len sa src source_dma s \<and>
         access_range tab f (ios_destination_handle input) (ios_destination_offset input) (ios_length input) da
           dst destination_dma s \<and>
         \<not> ranges_overlap input source_dma destination_dma \<and>
         published k tab f r src dst (submit_descriptor input source_dma destination_dma) s s'))"
proof -
  obtain fl where f: "h_files s f = Some fl" by (rule file_live [OF dinv_parts(1) [OF inv], of f]) (use op in simp_all)
  obtain dev where d: "h_dev s = Some dev" by (rule device_live [OF dinv_parts(1) [OF inv], of f fl]) (use f in simp_all)
  have refused: ?thesis if "vams_ioctl_submit k al f arg s = Some (Inl ret, s')" "ret \<noteq> RC_OK" "dinv tab L s'" "sframe {} s s'" for ret s'
    using that sframe_mono [of "{}" s s' "{f}"] by auto
  have same: "sframe {} s s" by (simp add: sframe_def)
  show ?thesis
  proof (cases "arg = None \<or> \<not> submit_valid (the arg) \<or> submit_access (the arg) = None \<or> vf_closing fl")
    case True
    then show ?thesis using f inv same
      by (intro refused [of "if arg = None then RC_ERR EFAULT else if \<not> submit_valid (the arg) \<or> submit_access (the arg) = None
          then RC_ERR EINVAL else RC_ERR ENODEV" s])
        (auto simp: vams_ioctl_submit_def split: option.split)
  next
    case False
    then obtain input sa da len where i: "arg = Some input" "submit_valid input" "submit_access input = Some (sa, da, len)"
      "\<not> vf_closing fl" by auto
    show ?thesis
    proof (cases rule: lookup_access_ok [OF inv op, of "ios_source_handle input" "ios_source_offset input" len sa])
      case (1 e)
      then show ?thesis using i f inv same by (intro refused [of "RC_ERR e" s]) (simp_all add: vams_ioctl_submit_def)
    next
      case (2 src source_dma s1)
      have op1: "lc_open (add_mapping src L) f" using op by (simp add: add_mapping_def)
      have d1: "h_dev s1 = Some dev" using 2 d by simp
      show ?thesis
      proof (cases rule: lookup_access_ok [OF 2(2) op1, of "ios_destination_handle input" "ios_destination_offset input"
          "ios_length input" da])
        case (1 e)
        obtain s2 where s2: "vams_mapping_put Process src s1 = Some s2" "hinv tab L s2" "shrinks s1 s2"
          using mapping_put_ok [OF dinv_parts(1) [OF 2(2)]] d1 by (metis option.distinct(1))
        have "vams_ioctl_submit k al f arg s = Some (Inl (RC_ERR e), s2)"
          using i f 2 1 s2(1) by (simp add: vams_ioctl_submit_def)
        then show ?thesis using shrinks_dinv [OF s2(2,3) dinv_parts(2,3) [OF 2(2)]]
            shrinks_sframe [OF shrinks_trans [OF 2(3) s2(3)]] by (intro refused [of "RC_ERR e" s2]) simp_all
      next
        case dst: (2 dst destination_dma s2)
        have d2: "h_dev s2 = Some dev" using dst d1 by simp
        note fr2 = shrinks_sframe [OF shrinks_trans [OF 2(3) dst(3)]]
        show ?thesis
        proof (cases "ranges_overlap input source_dma destination_dma")
          case True
          obtain t s3 where s3: "vams_mapping_put Process dst s2 = Some t" "vams_mapping_put Process src t = Some s3"
            "dinv tab L s3" "sframe {} s2 s3" by (rule mappings_put_ok [OF dst(2) d2])
          then show ?thesis using i f 2 dst True sframe_trans_same [OF fr2 s3(4)]
            by (intro refused [of "RC_ERR EINVAL" s3]) (simp_all add: vams_ioctl_submit_def)
        next
          case no: False
          let ?desc = "submit_descriptor input source_dma destination_dma"
          have call: "vams_ioctl_submit k al f arg s = submit_request k al f ?desc src dst s2"
            using i f 2 dst no by (simp add: vams_ioctl_submit_def)
          have fresh2: "\<And>r. al = Some r \<Longrightarrow> h_requests s2 r = None" using fresh 2 dst by simp
          have bound2: "\<And>dev. h_dev s2 = Some dev \<Longrightarrow> 0 < lc_probe L \<or> vd_removing dev" using bound d d2 by simp
          obtain res s' where s': "submit_request k al f ?desc src dst s2 = Some (res, s')" "sframe {f} s2 s'" "dinv tab L s'"
            "case res of Inl ret \<Rightarrow> ret \<noteq> RC_OK | Inr r \<Rightarrow> al = Some r \<and> published k tab f r src dst ?desc s2 s'"
            using submit_request_ok [OF dst(2) op fresh2 bound2, where descriptor = ?desc] by blast
          have fr: "sframe {f} s s'" by (rule sframe_trans_same [OF fr2 s'(2)])
          have pub: "published k tab f r src dst ?desc s s' = published k tab f r src dst ?desc s2 s'" for r
            using d d2 shrinks_trans [OF 2(3) dst(3)] by (simp add: published_def appended_def shrinks_def)
          show ?thesis
          proof (cases res)
            case (Inl ret)
            then show ?thesis using s' call fr by auto
          next
            case (Inr r)
            have "published k tab f r src dst ?desc s s'" using s'(4) Inr pub by simp
            then have "\<exists>input sa da len src source_dma dst destination_dma.
               arg = Some input \<and> submit_valid input \<and> submit_access input = Some (sa, da, len) \<and>
               access_range tab f (ios_source_handle input) (ios_source_offset input) len sa src source_dma s \<and>
               access_range tab f (ios_destination_handle input) (ios_destination_offset input) (ios_length input) da
                 dst destination_dma s \<and>
               \<not> ranges_overlap input source_dma destination_dma \<and>
               published k tab f r src dst (submit_descriptor input source_dma destination_dma) s s'"
              using i no 2(7) access_range_shrinks [OF dst(7) 2(3)] by blast
            then show ?thesis using s' call fr Inr by (intro exI [of _ res] exI [of _ s']) simp
          qed
        qed
      qed
    qed
  qed
qed

end

context xarray_laws
begin

lemma request_release_ok:
  assumes inv: "dinv tab (add_request r L) s"
  obtains s' where "vams_request_put ctx r s = Some s'" "dinv tab L s'" "sframe {} s s'" "shrinks s s'"
proof -
  obtain s' where s': "vams_request_put ctx r s = Some s'" "hinv tab L s'" "shrinks s s'"
    by (rule request_put_ok [OF dinv_parts(1) [OF inv], of ctx]) blast
  show ?thesis
    using that [OF s'(1) shrinks_dinv [OF s'(2,3) dinv_parts(2,3) [OF inv]] shrinks_sframe [OF s'(3)] s'(3)] .
qed

lemma submit_copy_ok:
  assumes inv: "dinv tab L s" and op: "lc_open L f" and entry: "(f, i) \<in> req_file tab s r"
  obtains ret out s' where "vams_ioctl_submit_copy k copied f r input s = Some (ret, out, s')" "dinv tab L s'"
    "sframe {f} s s'" "copied \<Longrightarrow> ret = RC_OK \<and> out = Some (input\<lparr> ios_command_id := i \<rparr>) \<and> s' = s"
    "\<not> copied \<Longrightarrow> ret = RC_ERR EFAULT \<and> (\<forall>fl. h_files s' f = Some fl \<longrightarrow> tab (vf_requests fl) i = None)"
proof -
  obtain fl where f: "h_files s f = Some fl" and i: "tab (vf_requests fl) i = Some r"
    using entry by (auto simp: req_file_def)
  obtain q where q: "h_requests s r = Some q" "rq_command_id q = i"
    by (rule file_entry [OF dinv_parts(1) [OF inv] f i])
  show ?thesis
  proof (cases copied)
    case True
    then show ?thesis using q inv
      by (intro that [of RC_OK "Some (input\<lparr> ios_command_id := i \<rparr>)" s]) (simp_all add: vams_ioctl_submit_copy_def sframe_def)
  next
    case False
    define x where "x = snd (xa_erase k i (vf_requests fl))"
    have x: "tab x = (tab (vf_requests fl))(i := None)" using erase [of i "vf_requests fl"] by (simp add: x_def)
    let ?c = "if rq_done q \<and> vf_completed_requests fl > 0 then vf_completed_requests fl - 1 else vf_completed_requests fl"
    have c: "vf_closing fl \<or> ?c \<ge> vf_completed_requests fl - of_bool (rq_done q)" by simp
    obtain s' fl' where s': "vams_request_put Process r (set_file f (fl\<lparr> vf_requests := x, vf_completed_requests := ?c \<rparr>) s) = Some s'"
      "dinv tab L s'" "sframe {f} s s'" "h_files s' f = Some fl'" "vf_requests fl' = x"
      using reap_entry_ok [OF inv f op i x q(1) c] by blast
    have "vams_ioctl_submit_copy k copied f r input s = Some (RC_ERR EFAULT, None, s')"
      using False q f s'(1) by (simp add: vams_ioctl_submit_copy_def x_def)
    then show ?thesis using s' x False by (intro that [of "RC_ERR EFAULT" None s']) simp_all
  qed
qed

subsection \<open>Waiting\<close>

lemma ioctl_wait_ok:
  assumes inv: "dinv tab L s" and op: "lc_open L f"
  shows "\<exists>res s'. vams_ioctl_wait k f arg s = Some (res, s') \<and> sframe {} s s' \<and>
    (case res of Inl ret \<Rightarrow> ret \<noteq> RC_OK \<and> s' = s
     | Inr r \<Rightarrow> dinv tab (add_request r L) s' \<and> (\<exists>output. arg = Some output \<and> wait_valid output \<and>
         (f, iow_command_id output) \<in> req_file tab s r))"
proof -
  obtain fl where f: "h_files s f = Some fl" by (rule file_live [OF dinv_parts(1) [OF inv], of f]) (use op in simp_all)
  have same: "sframe {} s s" by (simp add: sframe_def)
  have refused: ?thesis if "vams_ioctl_wait k f arg s = Some (Inl (RC_ERR e), s)" for e using that same by auto
  show ?thesis
  proof (cases "arg = None \<or> \<not> wait_valid (the arg) \<or> tab (vf_requests fl) (iow_command_id (the arg)) = None")
    case True
    then show ?thesis using f load
      by (intro refused [of "if arg = None then EFAULT else if \<not> wait_valid (the arg) then EINVAL else ENOENT"])
        (auto simp: vams_ioctl_wait_def split: option.split)
  next
    case False
    then obtain "output" r where r: "arg = Some output" "wait_valid output" "tab (vf_requests fl) (iow_command_id output) = Some r"
      by auto
    obtain q where q: "h_requests s r = Some q" by (rule file_entry [OF dinv_parts(1) [OF inv] f r(3)])
    let ?s = "set_request r (q\<lparr> rq_refs := rq_refs q + 1 \<rparr>) s"
    have "shrinks s ?s" using q by (auto simp: shrinks_def set_request_def)
    then have "dinv tab (add_request r L) ?s" "sframe {} s ?s"
      using shrinks_dinv [OF request_get_ok [OF dinv_parts(1) [OF inv] q] _ dinv_parts(2,3) [OF inv]] shrinks_sframe by blast+
    moreover have "vams_ioctl_wait k f arg s = Some (Inr r, ?s)"
      using r f q load by (simp add: vams_ioctl_wait_def vams_request_get_def)
    moreover have "(f, iow_command_id output) \<in> req_file tab s r" using f r by (simp add: req_file_def)
    ultimately show ?thesis using r by auto
  qed
qed

text \<open>What the second half of the wait returns: the outcome of the request, once.\<close>

lemma wait_done_ok:
  assumes inv: "dinv tab (add_request r L) s" and op: "lc_open L f"
  obtains ret out s' where "vams_ioctl_wait_done k interrupted copied f r output s = Some (ret, out, s')" "dinv tab L s'"
    "sframe {f} s s'"
    "ret = RC_OK \<Longrightarrow> \<exists>q. h_requests s r = Some q \<and> rq_done q \<and> out = Some (wait_output output q) \<and>
       (f, iow_command_id output) \<in> req_file tab s r \<and> (\<forall>fl. h_files s' f = Some fl \<longrightarrow> tab (vf_requests fl) (iow_command_id output) = None)"
    "ret \<noteq> RC_OK \<Longrightarrow> out = None \<and> shrinks s s'"
proof -
  obtain q where q: "h_requests s r = Some q"
    by (rule request_live [OF dinv_parts(1) [OF inv], of r]) (simp add: add_request_def)
  obtain fl where f: "h_files s f = Some fl" by (rule file_live [OF dinv_parts(1) [OF inv], of f]) (use op in \<open>simp_all add: add_request_def\<close>)
  have op1: "lc_open (add_request r L) f" using op by (simp add: add_request_def)
  let ?i = "iow_command_id output"
  have i: "iow_command_id (wait_output output q) = ?i" by (simp add: wait_output_def)
  obtain p where p: "vams_request_put Process r s = Some p" "dinv tab L p" "sframe {} s p" "shrinks s p"
    by (rule request_release_ok [OF inv, of Process])
  note result = that
  have early: thesis if "vams_ioctl_wait_done k interrupted copied f r output s = Some (ret, None, p)" "ret \<noteq> RC_OK" for ret
    using that p sframe_mono [of "{}" s p "{f}"] by (intro result [of ret None p]) simp_all
  let ?waited = "if iow_timeout_ms output = 0 then (if rq_done q then RC_OK else RC_ERR EAGAIN) else wait_outcome (rq_done q) interrupted"
  show ?thesis
  proof (cases "?waited \<noteq> RC_OK \<or> tab (vf_requests fl) ?i \<noteq> Some r \<or> \<not> copied")
    case True
    then show ?thesis using q f p(1) load i
      by (intro early [of "if ?waited \<noteq> RC_OK then ?waited else if tab (vf_requests fl) ?i \<noteq> Some r then RC_ERR EALREADY else RC_ERR EFAULT"])
        (auto simp: vams_ioctl_wait_done_def reap_request_def Let_def)
  next
    case False
    then have don: "rq_done q" by (auto simp: wait_outcome_def split: if_splits)
    have e: "tab (vf_requests fl) ?i = Some r" using False by simp
    define x where "x = snd (xa_erase k ?i (vf_requests fl))"
    have x: "tab x = (tab (vf_requests fl))(?i := None)" using erase [of ?i "vf_requests fl"] by (simp add: x_def)
    let ?c = "if vf_completed_requests fl > 0 then vf_completed_requests fl - 1 else vf_completed_requests fl"
    have c: "vf_closing fl \<or> ?c \<ge> vf_completed_requests fl - of_bool (rq_done q)" using don by simp
    obtain t tl where t: "vams_request_put Process r (set_file f (fl\<lparr> vf_requests := x, vf_completed_requests := ?c \<rparr>) s) = Some t"
      "dinv tab (add_request r L) t" "sframe {f} s t" "h_files t f = Some tl" "vf_requests tl = x"
      using reap_entry_ok [OF inv f op1 e x q c] by blast
    obtain s' where s': "vams_request_put Process r t = Some s'" "dinv tab L s'" "sframe {} t s'" "shrinks t s'"
      by (rule request_release_ok [OF t(2), of Process])
    have call: "vams_ioctl_wait_done k interrupted copied f r output s = Some (RC_OK, Some (wait_output output q), s')"
      using q f t(1) s'(1) load i False e don
      by (simp add: vams_ioctl_wait_done_def reap_request_def x_def wait_outcome_def Let_def)
    have gone: "tab (vf_requests gl) ?i = None" if g: "h_files s' f = Some gl" for gl
      using shrinksD(4) [OF s'(4) g] t(4,5) x by auto
    have fr: "sframe {f} s s'" using sframe_trans [OF t(3) s'(3)] by simp
    have "(f, ?i) \<in> req_file tab s r" using f e by (simp add: req_file_def)
    then show ?thesis using that [OF call s'(2) fr] q don gone by blast
  qed
qed

subsection \<open>Information, the synchronous NOP and poll\<close>

lemma ioctl_info_ok:
  assumes d: "h_dev s = Some dev"
  shows "\<exists>ret out. vams_ioctl_info copied arg s = Some (ret, out, s)"
  using d by (simp add: vams_ioctl_info_def split: option.split)

lemma ioctl_nop_ok:
  assumes inv: "dinv tab L s" and d: "h_dev s = Some dev"
    and fresh: "\<And>r. al = Some r \<Longrightarrow> h_requests s r = None"
    and bound: "0 < lc_probe L \<or> vd_removing dev"
  shows "\<exists>res s'. vams_ioctl_nop k al arg s = Some (res, s') \<and> sframe {} s s' \<and>
    (case res of Inl ret \<Rightarrow> ret \<noteq> RC_OK \<and> dinv tab L s' | Inr r \<Rightarrow> al = Some r \<and> arg \<noteq> None \<and> dinv tab (add_request r L) s')"
proof -
  have same: "sframe {} s s" by (simp add: sframe_def)
  have refused: ?thesis if "vams_ioctl_nop k al arg s = Some (Inl (RC_ERR e), s)" for e using that same inv by auto
  show ?thesis
  proof (cases "arg = None \<or> \<not> nop_valid (the arg) \<or> al = None")
    case True
    then show ?thesis
      by (intro refused [of "if arg = None then EFAULT else if \<not> nop_valid (the arg) then EINVAL else ENOMEM"])
        (auto simp: vams_ioctl_nop_def vams_request_alloc_def split: option.split)
  next
    case False
    then obtain nop r where r: "arg = Some nop" "nop_valid nop" "al = Some r" by auto
    note dead = fresh [OF r(3)]
    let ?q = "zero_request\<lparr> rq_refs := 1 \<rparr>"
    let ?t = "set_request r ?q s"
    let ?desc = "zero_submission\<lparr> sub_version := VAMS_DESC_VERSION_1, sub_opcode := VAMS_OP_NOP,
       sub_timeout_ms := nop_timeout_ms nop, sub_user_cookie := nop_user_cookie nop \<rparr>"
    have rq: "rq_owner zero_request = None" "zero_request\<lparr> rq_refs := 1, rq_owner := None \<rparr> = ?q" by (simp_all add: zero_request_def)
    have call: "vams_ioctl_nop k al arg s =
      do { (ret, s) \<leftarrow> vams_submit k r ?desc ?t;
           if ret \<noteq> RC_OK then do { s \<leftarrow> vams_request_put Process r s; Some (Inl ret, s) } else Some (Inr r, s) }"
      using r by (simp add: vams_ioctl_nop_def vams_request_alloc_def vams_submit_nop_def zero_request_def)
    have "hinv tab (add_request r L) ?t" by (rule request_alloc_unowned_ok [OF dinv_parts(1) [OF inv] dead])
    moreover have "rings_ok tab ?t" by (rule rings_ok_same [OF dinv_parts(2) [OF inv]]) (simp_all add: set_request_def)
    moreover have "ready_ok tab ?t"
      by (rule ready_okI [OF dinv_parts(3) [OF inv]])
        (auto simp: set_request_def done_entries_def zero_request_def split: if_splits)
    ultimately have t: "dinv tab (add_request r L) ?t" by (simp add: dinv_def)
    have frt: "sframe {} s ?t" by (simp add: sframe_def set_request_def)
    have tables: "req_dev tab ?t r = {}" "req_file tab ?t r = {}"
      using request_dead(1,2) [OF dinv_parts(1) [OF inv] dead] by (simp_all add: req_dev_def req_file_def set_request_def)
    show ?thesis
    proof (cases "vd_removing dev")
      case True
      then have "vams_submit k r ?desc ?t = Some (RC_ERR ENODEV, ?t)" using d by (simp add: vams_submit_def set_request_def)
      moreover obtain p where "vams_request_put Process r ?t = Some p" "dinv tab L p" "sframe {} ?t p"
        by (rule request_release_ok [OF t, of Process])
      ultimately show ?thesis using call sframe_trans_same [OF frt] by auto
    next
      case False
      have "untracked tab L r ?q ?t"
        using t tables False bound by (simp add: untracked_def set_request_def zero_request_def)
      then obtain ret s' q' where s': "vams_submit k r ?desc ?t = Some (ret, s')" "sframe (set_option (rq_owner ?q)) ?t s'"
        "same_links ?q q'" "if ret = RC_OK then submitted tab L r q' s' \<and> appended k ?t s' (?desc\<lparr> sub_command_id := rq_command_id q' \<rparr>)
         else untracked tab L r q' s'"
        using submit_ok [where descriptor = ?desc] by blast
      have fr: "sframe {} s s'" by (rule sframe_trans_same [OF frt]) (use s'(2) rq in simp)
      have own: "rq_owner q' = None" using s'(3) rq by (simp add: same_links_def)
      have inv': "dinv tab (add_request r L) s'"
        using s'(4) own by (auto simp: submitted_def untracked_def after_track_def split: if_splits)
      show ?thesis
      proof (cases "ret = RC_OK")
        case True
        then show ?thesis using call s'(1) fr inv' r by auto
      next
        case False
        obtain p where "vams_request_put Process r s' = Some p" "dinv tab L p" "sframe {} s' p"
          by (rule request_release_ok [OF inv', of Process])
        then show ?thesis using call s'(1) False sframe_trans_same [OF fr] by auto
      qed
    qed
  qed
qed

lemma nop_done_ok:
  assumes inv: "dinv tab (add_request r L) s"
  shows "\<exists>ret out s'. vams_ioctl_nop_done interrupted copied r nop s = Some (ret, out, s') \<and> dinv tab L s' \<and> sframe {} s s'"
proof -
  obtain q where q: "h_requests s r = Some q"
    by (rule request_live [OF dinv_parts(1) [OF inv], of r]) (simp add: add_request_def)
  obtain p where "vams_request_put Process r s = Some p" "dinv tab L p" "sframe {} s p"
    by (rule request_release_ok [OF inv, of Process])
  then show ?thesis using q by (simp add: vams_ioctl_nop_done_def Let_def split: prod.split)
qed

lemma poll_ok:
  assumes inv: "dinv tab L s" and op: "lc_open L f"
  obtains events s' where "vams_poll k f s = Some (events, s')" "dinv tab L s'" "sframe {} s s'" "h_requests s' = h_requests s"
    "h_files s' = h_files s"
proof -
  obtain fl where f: "h_files s f = Some fl" by (rule file_live [OF dinv_parts(1) [OF inv], of f]) (use op in simp_all)
  obtain dev where d: "h_dev s = Some dev" by (rule device_live [OF dinv_parts(1) [OF inv], of f fl]) (use f in simp_all)
  show ?thesis
  proof (cases "vf_closing fl \<or> vd_removing dev \<or> \<not> vd_queues_ready dev")
    case True
    then have "\<exists>events. poll_checks f s = Some (Inl events)" using f d by (auto simp: poll_checks_def Let_def)
    then obtain events where "poll_checks f s = Some (Inl events)" by blast
    then show ?thesis using inv by (intro that [of events s]) (simp_all add: vams_poll_def sframe_def)
  next
    case False
    then obtain events where e: "poll_checks f s = Some (Inr events)" using f d by (auto simp: poll_checks_def Let_def)
    have io: "R_iomap \<in> h_res s" using rings_okD(7) [OF dinv_parts(2) [OF inv] d] False by blast
    obtain v s' where s': "vams_readl k VAMS_REG_SQ_HEAD s = Some (v, s')" "dinv tab L s'" "h_dev s' = Some dev"
      "sframe {} s s'" "h_requests s' = h_requests s" "h_files s' = h_files s" by (rule readl_step [OF inv d io])
    then show ?thesis using e
      by (intro that [of "if v < VAMS_QUEUE_DEPTH \<and> (vd_sq_tail dev + 1) AND (VAMS_QUEUE_DEPTH - 1) \<noteq> v
          then events \<union> {EPOLLOUT, EPOLLWRNORM} else events" s']) (simp_all add: vams_poll_def poll_ring_def Let_def)
  qed
qed

end

subsection \<open>The dispatcher\<close>

text \<open>The reference a call holds where it waits, and the memory the kernel hands to a call.\<close>

definition hold :: "call_point \<Rightarrow> locals \<Rightarrow> locals" where
  "hold point L = (case point of In_Nop r nop \<Rightarrow> add_request r L | In_Wait r output \<Rightarrow> add_request r L | _ \<Rightarrow> L)"

definition fresh_call :: "ioctl_call \<Rightarrow> ('w, 'x) host \<Rightarrow> bool" where
  "fresh_call call s \<longleftrightarrow>
     (case call of
        IOCTL_NOP al arg \<Rightarrow> (\<forall>r. al = Some r \<longrightarrow> h_requests s r = None)
      | IOCTL_SUBMIT al arg \<Rightarrow> (\<forall>r. al = Some r \<longrightarrow> h_requests s r = None)
      | IOCTL_BUFFER_REGISTER env arg \<Rightarrow> (\<forall>m. re_mapping env = Some m \<longrightarrow> h_mappings s m = None)
      | _ \<Rightarrow> True)"

text \<open>
  The calls that take the lock of the file, the tables of files that a call may change, and whether
  the rest of a call takes the lock.
\<close>

definition locks_file :: "ioctl_call \<Rightarrow> bool" where
  "locks_file call \<longleftrightarrow>
     (case call of
        IOCTL_BUFFER_REGISTER env arg \<Rightarrow> True | IOCTL_BUFFER_UNREGISTER arg \<Rightarrow> True
      | IOCTL_SUBMIT al arg \<Rightarrow> True | IOCTL_WAIT arg \<Rightarrow> True | _ \<Rightarrow> False)"

definition resume_locks :: "call_point \<Rightarrow> ('w, 'x) host \<Rightarrow> bool" where
  "resume_locks point s \<longleftrightarrow>
     (case point of
        In_Submit r input \<Rightarrow> True
      | In_Wait r output \<Rightarrow> (case h_requests s r of None \<Rightarrow> False | Some q \<Rightarrow> rq_done q)
      | _ \<Rightarrow> False)"

definition touched :: "bool \<Rightarrow> ref \<Rightarrow> ref set" where
  "touched locked f = (if locked then {f} else {})"

text \<open>A submission that has not copied its result yet relies on the entry in the table of its file.\<close>

definition point_ok :: "('x \<Rightarrow> u32 \<Rightarrow> ref option) \<Rightarrow> ref \<Rightarrow> call_point \<Rightarrow> ('w, 'x) host \<Rightarrow> bool" where
  "point_ok tab f point s \<longleftrightarrow>
     (case point of In_Submit r input \<Rightarrow> (\<exists>i. (f, i) \<in> req_file tab s r) | _ \<Rightarrow> True)"

lemma hold_fields [simp]: "lc_open (hold point L) = lc_open L" "lc_probe (hold point L) = lc_probe L"
  by (simp_all add: hold_def add_request_def split: call_point.split)

context xarray_laws
begin

lemma ioctl_ok:
  assumes inv: "dinv tab L s" and op: "lc_open L f" and fresh: "fresh_call call s"
    and bound: "\<And>dev. h_dev s = Some dev \<Longrightarrow> 0 < lc_probe L \<or> vd_removing dev"
  shows "\<exists>point s'. vams_ioctl k f call s = Some (point, s') \<and> dinv tab (hold point L) s' \<and>
    sframe (touched (locks_file call) f) s s' \<and> point_ok tab f point s'"
proof -
  obtain fl where f: "h_files s f = Some fl" by (rule file_live [OF dinv_parts(1) [OF inv], of f]) (use op in simp_all)
  obtain dev where d: "h_dev s = Some dev" by (rule device_live [OF dinv_parts(1) [OF inv], of f fl]) (use f in simp_all)
  have same: "sframe A s s" for A by (simp add: sframe_def)
  note call_defs = vams_ioctl_def continue_at_def hold_def point_ok_def locks_file_def touched_def
  show ?thesis
  proof (cases call)
    case (IOCTL_GET_INFO copied arg)
    then show ?thesis using ioctl_info_ok [OF d, of copied arg] inv same
      by (auto simp: call_defs)
  next
    case (IOCTL_NOP al arg)
    have "\<And>r. al = Some r \<Longrightarrow> h_requests s r = None" using fresh IOCTL_NOP by (simp add: fresh_call_def)
    then obtain res s' where s': "vams_ioctl_nop k al arg s = Some (res, s')" "sframe {} s s'"
      "case res of Inl ret \<Rightarrow> ret \<noteq> RC_OK \<and> dinv tab L s' | Inr r \<Rightarrow> al = Some r \<and> arg \<noteq> None \<and> dinv tab (add_request r L) s'"
      using ioctl_nop_ok [OF inv d _ bound [OF d], of al arg] by blast
    then show ?thesis using IOCTL_NOP
      by (cases res) (auto simp: call_defs)
  next
    case (IOCTL_BUFFER_REGISTER env arg)
    have "\<And>m. re_mapping env = Some m \<Longrightarrow> h_mappings s m = None" using fresh IOCTL_BUFFER_REGISTER by (simp add: fresh_call_def)
    then obtain ret out s' where "vams_ioctl_buffer_register k env f arg s = Some (ret, out, s')" "dinv tab L s'" "sframe {f} s s'"
      using buffer_register_ok [OF inv op, of env arg] by blast
    then show ?thesis using IOCTL_BUFFER_REGISTER by (simp add: call_defs)
  next
    case (IOCTL_BUFFER_UNREGISTER arg)
    obtain ret s' where "vams_ioctl_buffer_unregister k f arg s = Some (ret, s')" "dinv tab L s'" "sframe {f} s s'"
      using buffer_unregister_ok [OF inv op, of arg] by blast
    then show ?thesis using IOCTL_BUFFER_UNREGISTER by (simp add: call_defs)
  next
    case (IOCTL_SUBMIT al arg)
    have fr: "\<And>r. al = Some r \<Longrightarrow> h_requests s r = None" using fresh IOCTL_SUBMIT by (simp add: fresh_call_def)
    obtain res s' where s': "vams_ioctl_submit k al f arg s = Some (res, s')" "sframe {f} s s'" "dinv tab L s'"
      and pub: "\<And>r. res = Inr r \<Longrightarrow> \<exists>src dst desc. published k tab f r src dst desc s s'"
      using ioctl_submit_ok [OF inv op, of al arg, OF fr bound] by (simp, elim exE conjE) (auto split: sum.splits)
    show ?thesis
    proof (cases res)
      case (Inl ret)
      then show ?thesis using s' IOCTL_SUBMIT by (simp add: call_defs)
    next
      case (Inr r)
      then have "\<exists>i. (f, i) \<in> req_file tab s' r" using pub by (auto simp: published_def)
      then show ?thesis using s' IOCTL_SUBMIT Inr by (simp add: call_defs)
    qed
  next
    case (IOCTL_WAIT arg)
    obtain res s' where s': "vams_ioctl_wait k f arg s = Some (res, s')" "sframe {} s s'"
      "case res of Inl ret \<Rightarrow> ret \<noteq> RC_OK \<and> s' = s | Inr r \<Rightarrow> dinv tab (add_request r L) s' \<and>
         (\<exists>output. arg = Some output \<and> wait_valid output \<and> (f, iow_command_id output) \<in> req_file tab s r)"
      using ioctl_wait_ok [OF inv op, of arg] by blast
    then show ?thesis using IOCTL_WAIT sframe_mono [OF s'(2), of "{f}"] inv
      by (cases res) (auto simp: call_defs)
  next
    case IOCTL_OTHER
    then show ?thesis using inv same by (simp add: call_defs)
  qed
qed

lemma resume_ok:
  assumes inv: "dinv tab (hold point L) s" and op: "lc_open L f" and entry: "point_ok tab f point s"
  shows "\<exists>ret s'. resume_call k interrupted copied f point s = Some (ret, s') \<and> dinv tab L s' \<and>
    sframe (touched (resume_locks point s) f) s s'"
proof (cases point)
  case (Returned ret)
  then show ?thesis using inv by (simp add: resume_call_def hold_def sframe_def)
next
  case (In_Nop r nop)
  obtain ret out s' where "vams_ioctl_nop_done interrupted copied r nop s = Some (ret, out, s')" "dinv tab L s'" "sframe {} s s'"
    using nop_done_ok [of r L s interrupted copied nop] inv In_Nop by (auto simp: hold_def)
  then show ?thesis using In_Nop by (simp add: resume_call_def resume_locks_def touched_def)
next
  case (In_Submit r input)
  then obtain i where i: "(f, i) \<in> req_file tab s r" using entry by (auto simp: point_ok_def)
  have inv': "dinv tab L s" using inv In_Submit by (simp add: hold_def)
  obtain ret out s' where "vams_ioctl_submit_copy k copied f r input s = Some (ret, out, s')" "dinv tab L s'" "sframe {f} s s'"
    by (rule submit_copy_ok [OF inv' op i, where copied = copied and input = input])
  then show ?thesis using In_Submit by (simp add: resume_call_def resume_locks_def touched_def)
next
  case (In_Wait r out)
  have inv': "dinv tab (add_request r L) s" using inv In_Wait by (simp add: hold_def)
  show ?thesis
  proof (rule wait_done_ok [OF inv' op, of interrupted copied out])
    fix ret res s'
    assume s': "vams_ioctl_wait_done k interrupted copied f r out s = Some (ret, res, s')" "dinv tab L s'" "sframe {f} s s'"
      and ok: "ret = RC_OK \<Longrightarrow> \<exists>q. h_requests s r = Some q \<and> rq_done q \<and> res = Some (wait_output out q) \<and>
         (f, iow_command_id out) \<in> req_file tab s r \<and> (\<forall>fl. h_files s' f = Some fl \<longrightarrow> tab (vf_requests fl) (iow_command_id out) = None)"
      and err: "ret \<noteq> RC_OK \<Longrightarrow> res = None \<and> shrinks s s'"
    have "sframe (touched (resume_locks point s) f) s s'"
    proof (cases "ret = RC_OK")
      case True
      then show ?thesis using ok s'(3) In_Wait by (auto simp: resume_locks_def touched_def)
    next
      case False
      then show ?thesis using err shrinks_sframe by blast
    qed
    then show ?thesis using In_Wait s' by (simp add: resume_call_def)
  qed
qed

end

end
