(* ===== verification/Vams_Pci_Probe.thy ===== *)
theory Vams_Pci_Probe
  imports Vams_Pci_Calls
begin

text \<open>
  Binding and unbinding of the host driver (\<open>kernel/vams_pci.c\<close>): the validation of the endpoint, the
  DMA mask, the character device, the acquisition of the resources of the PCI function by
  \<open>vams_probe\<close> with the labels of its error path, and \<open>vams_remove\<close>. What the kernel answers to each
  request of the probe is a field of \<open>probe_env\<close>. Releasing a resource the driver does not hold is a
  fault.
\<close>

subsection \<open>The endpoint\<close>

definition vams_validate_endpoint :: "('w, 'x) linux \<Rightarrow> ('w, 'x) host \<Rightarrow> (rc \<times> ('w, 'x) host) option" where
  "vams_validate_endpoint k s = do {
     (device_id, s) \<leftarrow> vams_readl k VAMS_REG_DEVICE_ID s;
     if device_id \<noteq> VAMS_DEVICE_ID_VALUE then Some (RC_ERR ENODEV, s)
     else do {
       (hw_if_version, s) \<leftarrow> vams_readl k VAMS_REG_HW_IF_VERSION s;
       dev \<leftarrow> h_dev s;
       let s = set_dev (dev\<lparr> vd_hw_if_version := hw_if_version \<rparr>) s;
       if drop_bit 16 hw_if_version \<noteq> VAMS_HW_IF_MAJOR_SUPPORTED then Some (RC_ERR EPROTONOSUPPORT, s)
       else do {
         (desc_version, s) \<leftarrow> vams_readl k VAMS_REG_DESC_VERSION s;
         if desc_version \<noteq> VAMS_DESC_VERSION_SUPPORTED then Some (RC_ERR EPROTONOSUPPORT, s)
         else do {
           (capabilities, s) \<leftarrow> vams_readl k VAMS_REG_CAPABILITIES s;
           dev \<leftarrow> h_dev s;
           let s = set_dev (dev\<lparr> vd_capabilities := capabilities \<rparr>) s;
           if capabilities AND VAMS_CAP_MSIX = 0 then Some (RC_ERR ENODEV, s)
           else do {
             (status, s) \<leftarrow> vams_readl k VAMS_REG_DEVICE_STATUS s;
             if status AND VAMS_STATUS_READY = 0 \<or> status AND (VAMS_STATUS_RESETTING OR VAMS_STATUS_FATAL) \<noteq> 0
             then Some (RC_ERR EBUSY, s)
             else do {
               (fw_version, s) \<leftarrow> vams_readl k VAMS_REG_FW_VERSION s;
               (reset_generation, s) \<leftarrow> vams_readl k VAMS_REG_RESET_GENERATION s;
               dev \<leftarrow> h_dev s;
               Some (RC_OK, set_dev (dev\<lparr> vd_fw_version := fw_version, vd_reset_generation := reset_generation \<rparr>) s)
             } } } } } }"

subsection \<open>The answers of the kernel\<close>

datatype vams_probe_step =
    VAMS_PROBE_AFTER_ENABLE | VAMS_PROBE_AFTER_REGION | VAMS_PROBE_AFTER_IOMAP | VAMS_PROBE_AFTER_DMA_MASK
  | VAMS_PROBE_AFTER_RINGS | VAMS_PROBE_AFTER_VECTORS | VAMS_PROBE_AFTER_CQ_IRQ | VAMS_PROBE_AFTER_ASYNC_IRQ
  | VAMS_PROBE_AFTER_CHARDEV

primrec probe_step_number :: "vams_probe_step \<Rightarrow> u32" where
  "probe_step_number VAMS_PROBE_AFTER_ENABLE = 1"
| "probe_step_number VAMS_PROBE_AFTER_REGION = 2"
| "probe_step_number VAMS_PROBE_AFTER_IOMAP = 3"
| "probe_step_number VAMS_PROBE_AFTER_DMA_MASK = 4"
| "probe_step_number VAMS_PROBE_AFTER_RINGS = 5"
| "probe_step_number VAMS_PROBE_AFTER_VECTORS = 6"
| "probe_step_number VAMS_PROBE_AFTER_CQ_IRQ = 7"
| "probe_step_number VAMS_PROBE_AFTER_ASYNC_IRQ = 8"
| "probe_step_number VAMS_PROBE_AFTER_CHARDEV = 9"

text \<open>
  \<open>pe_fail_step\<close> is the module parameter \<open>probe_fail_step\<close>, 0 in a build without
  \<open>CONFIG_VAMS_PCI_TESTING\<close>. \<open>pe_dma\<close> gives the answer of \<open>dma_set_mask_and_coherent\<close> for a number of
  bits, \<open>pe_vectors\<close> that of \<open>pci_alloc_irq_vectors\<close>.
\<close>

record probe_env =
  pe_vdev :: bool
  pe_fail_step :: u32
  pe_enable :: rc
  pe_bar0_mem :: bool
  pe_bar0_len :: u64
  pe_region :: rc
  pe_iomap :: bool
  pe_dma :: "nat \<Rightarrow> rc"
  pe_sq_mem :: "u64 option"
  pe_cq_mem :: "u64 option"
  pe_vectors :: "errno + nat"
  pe_cq_irq :: rc
  pe_async_irq :: rc
  pe_instance :: rc
  pe_name :: bool
  pe_misc :: rc

definition vams_maybe_fail_probe :: "probe_env \<Rightarrow> vams_probe_step \<Rightarrow> rc" where
  "vams_maybe_fail_probe env step = (if pe_fail_step env \<noteq> probe_step_number step then RC_OK else RC_ERR EIO)"

definition vams_set_dma_mask :: "probe_env \<Rightarrow> rc" where
  "vams_set_dma_mask env = (if pe_dma env 64 = RC_OK then RC_OK else pe_dma env 32)"

definition hold_res :: "resource \<Rightarrow> ('w, 'x) host \<Rightarrow> ('w, 'x) host" where
  "hold_res r s = s\<lparr> h_res := insert r (h_res s) \<rparr>"

definition give_res :: "resource \<Rightarrow> ('w, 'x) host \<Rightarrow> ('w, 'x) host option" where
  "give_res r s = do { c_assert (r \<in> h_res s); Some (s\<lparr> h_res := h_res s - {r} \<rparr>) }"

definition vams_register_chardev :: "probe_env \<Rightarrow> ('w, 'x) host \<Rightarrow> (rc \<times> ('w, 'x) host) option" where
  "vams_register_chardev env s =
     (if pe_instance env \<noteq> RC_OK then Some (pe_instance env, s)
      else let s = hold_res R_instance s in
        if \<not> pe_name env then do { s \<leftarrow> give_res R_instance s; Some (RC_ERR ENOMEM, s) }
        else let s = hold_res R_misc_name s in
          if pe_misc env \<noteq> RC_OK then do {
            s \<leftarrow> give_res R_misc_name s;
            s \<leftarrow> give_res R_instance s;
            Some (pe_misc env, s) }
          else Some (RC_OK, hold_res R_misc s))"

subsection \<open>The error path\<close>

text \<open>\<open>cancel_delayed_work_sync\<close> and \<open>cancel_work_sync\<close>: the item is not scheduled afterwards.\<close>

definition cancel_cq_poll_work :: "('w, 'x) host \<Rightarrow> ('w, 'x) host option" where
  "cancel_cq_poll_work s = do { dev \<leftarrow> h_dev s; Some (set_dev (dev\<lparr> vd_cq_poll_work := False \<rparr>) s) }"

definition cancel_reset_work :: "('w, 'x) host \<Rightarrow> ('w, 'x) host option" where
  "cancel_reset_work s = do { dev \<leftarrow> h_dev s; Some (set_dev (dev\<lparr> vd_reset_work := False \<rparr>) s) }"

definition set_removing :: "('w, 'x) host \<Rightarrow> ('w, 'x) host option" where
  "set_removing s = do { dev \<leftarrow> h_dev s; Some (set_dev (dev\<lparr> vd_removing := True \<rparr>) s) }"

text \<open>The labels, from the last to the first; each falls through to the next.\<close>

definition err_free_device :: "('w, 'x) host \<Rightarrow> ('w, 'x) host option" where
  "err_free_device s = vams_device_put s"

definition err_disable_device :: "('w, 'x) host \<Rightarrow> ('w, 'x) host option" where
  "err_disable_device s = do { s \<leftarrow> give_res R_enabled s; err_free_device s }"

definition err_release_region :: "('w, 'x) host \<Rightarrow> ('w, 'x) host option" where
  "err_release_region s = do { s \<leftarrow> give_res R_region s; err_disable_device s }"

definition err_iounmap :: "('w, 'x) host \<Rightarrow> ('w, 'x) host option" where
  "err_iounmap s = do { s \<leftarrow> give_res R_iomap s; err_release_region s }"

definition err_free_queues :: "('w, 'x) host \<Rightarrow> ('w, 'x) host option" where
  "err_free_queues s = do { s \<leftarrow> vams_free_queues s; err_iounmap s }"

definition err_free_vectors :: "('w, 'x) host \<Rightarrow> ('w, 'x) host option" where
  "err_free_vectors s = do { s \<leftarrow> give_res R_vectors s; err_free_queues s }"

definition err_free_cq_irq :: "('w, 'x) linux \<Rightarrow> ('w, 'x) host \<Rightarrow> ('w, 'x) host option" where
  "err_free_cq_irq k s = do {
     s \<leftarrow> give_res R_cq_irq s;
     s \<leftarrow> cancel_reset_work s;
     s \<leftarrow> vams_cancel_requests k (RC_ERR ENODEV) False s;
     err_free_vectors s
   }"

definition err_free_async_irq :: "('w, 'x) linux \<Rightarrow> ('w, 'x) host \<Rightarrow> ('w, 'x) host option" where
  "err_free_async_irq k s = do { s \<leftarrow> give_res R_async_irq s; err_free_cq_irq k s }"

definition err_clear_master :: "('w, 'x) linux \<Rightarrow> ('w, 'x) host \<Rightarrow> ('w, 'x) host option" where
  "err_clear_master k s = do {
     s \<leftarrow> vams_mask_interrupts k s;
     s \<leftarrow> vams_disable_queues k s;
     s \<leftarrow> give_res R_master s;
     s \<leftarrow> give_res R_drvdata s;
     err_free_async_irq k s
   }"

definition err_deregister_misc :: "('w, 'x) linux \<Rightarrow> ('w, 'x) host \<Rightarrow> ('w, 'x) host option" where
  "err_deregister_misc k s = do {
     s \<leftarrow> set_removing s;
     s \<leftarrow> give_res R_misc s;
     s \<leftarrow> cancel_cq_poll_work s;
     err_clear_master k s
   }"

text \<open>A \<open>goto\<close> to a label with the return value in \<open>ret\<close>.\<close>

definition fail_to ::
    "(('w, 'x) host \<Rightarrow> ('w, 'x) host option) \<Rightarrow> rc \<Rightarrow> ('w, 'x) host \<Rightarrow> (rc \<times> ('w, 'x) host) option" where
  "fail_to label ret s = do { s \<leftarrow> label s; Some (ret, s) }"

subsection \<open>Probe\<close>

text \<open>
  \<open>vams_probe\<close> in the order of its statements; each part goes on with the next. The self-tests are
  those of a build without \<open>CONFIG_VAMS_PCI_TESTING\<close>, which return 0.
\<close>

definition probe_chardev ::
    "('w, 'x) linux \<Rightarrow> probe_env \<Rightarrow> ('w, 'x) host \<Rightarrow> (rc \<times> ('w, 'x) host) option" where
  "probe_chardev k env s = do {
     (ret, s) \<leftarrow> vams_register_chardev env s;
     if ret \<noteq> RC_OK then fail_to (err_clear_master k) ret s
     else let ret = vams_maybe_fail_probe env VAMS_PROBE_AFTER_CHARDEV in
       if ret \<noteq> RC_OK then fail_to (err_deregister_misc k) ret s
       else Some (RC_OK, s)
   }"

definition probe_start ::
    "('w, 'x) linux \<Rightarrow> probe_env \<Rightarrow> ('w, 'x) host \<Rightarrow> (rc \<times> ('w, 'x) host) option" where
  "probe_start k env s = do {
     let s = hold_res R_master (hold_res R_drvdata s);
     dev \<leftarrow> h_dev s;
     (ret, s) \<leftarrow> (if vd_capabilities dev AND VAMS_CAP_DMA \<noteq> 0 then vams_configure_queues k s else Some (RC_OK, s));
     if ret \<noteq> RC_OK then fail_to (err_clear_master k) ret s
     else do {
       s \<leftarrow> vams_writel k VAMS_REG_INTR_MASK 0 s;
       (_, s) \<leftarrow> vams_readl k VAMS_REG_INTR_MASK s;
       probe_chardev k env s
     }
   }"

definition probe_irqs ::
    "('w, 'x) linux \<Rightarrow> probe_env \<Rightarrow> ('w, 'x) host \<Rightarrow> (rc \<times> ('w, 'x) host) option" where
  "probe_irqs k env s =
     (case pe_vectors env of
        Inl e \<Rightarrow> fail_to err_free_queues (RC_ERR e) s
      | Inr n \<Rightarrow> let s = hold_res R_vectors s in
          if n \<noteq> unat VAMS_MSIX_VECTORS then fail_to err_free_vectors (RC_ERR ENOSPC) s
          else let ret = vams_maybe_fail_probe env VAMS_PROBE_AFTER_VECTORS in
            if ret \<noteq> RC_OK then fail_to err_free_vectors ret s
            else if pe_cq_irq env \<noteq> RC_OK then fail_to err_free_vectors (pe_cq_irq env) s
            else let s = hold_res R_cq_irq s; ret = vams_maybe_fail_probe env VAMS_PROBE_AFTER_CQ_IRQ in
              if ret \<noteq> RC_OK then fail_to (err_free_cq_irq k) ret s
              else if pe_async_irq env \<noteq> RC_OK then fail_to (err_free_cq_irq k) (pe_async_irq env) s
              else let s = hold_res R_async_irq s; ret = vams_maybe_fail_probe env VAMS_PROBE_AFTER_ASYNC_IRQ in
                if ret \<noteq> RC_OK then fail_to (err_free_async_irq k) ret s
                else probe_start k env s)"

definition probe_rings ::
    "('w, 'x) linux \<Rightarrow> probe_env \<Rightarrow> ('w, 'x) host \<Rightarrow> (rc \<times> ('w, 'x) host) option" where
  "probe_rings k env s = do {
     dev \<leftarrow> h_dev s;
     (ret, s) \<leftarrow> (if vd_capabilities dev AND VAMS_CAP_DMA \<noteq> 0
       then vams_alloc_queues (pe_sq_mem env) (pe_cq_mem env) s else Some (RC_OK, s));
     if ret \<noteq> RC_OK then fail_to err_iounmap ret s
     else let ret = vams_maybe_fail_probe env VAMS_PROBE_AFTER_RINGS in
       if ret \<noteq> RC_OK then fail_to err_free_queues ret s
       else probe_irqs k env s
   }"

definition probe_endpoint ::
    "('w, 'x) linux \<Rightarrow> probe_env \<Rightarrow> ('w, 'x) host \<Rightarrow> (rc \<times> ('w, 'x) host) option" where
  "probe_endpoint k env s = do {
     s \<leftarrow> vams_mask_interrupts k s;
     s \<leftarrow> vams_writel k VAMS_REG_INTR_STATUS VAMS_INTR_ALL s;
     (ret, s) \<leftarrow> vams_validate_endpoint k s;
     if ret \<noteq> RC_OK then fail_to err_iounmap ret s
     else if vams_set_dma_mask env \<noteq> RC_OK then fail_to err_iounmap (vams_set_dma_mask env) s
     else let ret = vams_maybe_fail_probe env VAMS_PROBE_AFTER_DMA_MASK in
       if ret \<noteq> RC_OK then fail_to err_iounmap ret s
       else probe_rings k env s
   }"

definition probe_bar0 ::
    "('w, 'x) linux \<Rightarrow> probe_env \<Rightarrow> ('w, 'x) host \<Rightarrow> (rc \<times> ('w, 'x) host) option" where
  "probe_bar0 k env s =
     (if \<not> pe_bar0_mem env \<or> pe_bar0_len env < ucast VAMS_BAR0_SIZE then fail_to err_disable_device (RC_ERR ENODEV) s
      else if pe_region env \<noteq> RC_OK then fail_to err_disable_device (pe_region env) s
      else let s = hold_res R_region s; ret = vams_maybe_fail_probe env VAMS_PROBE_AFTER_REGION in
        if ret \<noteq> RC_OK then fail_to err_release_region ret s
        else if \<not> pe_iomap env then fail_to err_release_region (RC_ERR ENOMEM) s
        else let s = hold_res R_iomap s; ret = vams_maybe_fail_probe env VAMS_PROBE_AFTER_IOMAP in
          if ret \<noteq> RC_OK then fail_to err_iounmap ret s
          else probe_endpoint k env s)"

definition new_device :: "('w, 'x) linux \<Rightarrow> 'x vams_device" where
  "new_device k = \<lparr> vd_hw_if_version = 0, vd_fw_version = 0, vd_capabilities = 0, vd_reset_generation = 0,
     vd_reset_reason = 0, vd_sq = None, vd_sq_dma = 0, vd_cq = None, vd_cq_dma = 0, vd_sq_tail = 0,
     vd_cq_head = 0, vd_queues_ready = False, vd_removing = False, vd_requests = xa_empty k,
     vd_next_command_id = 0, vd_pending_requests = 0, vd_cq_poll_work = False, vd_reset_work = False,
     vd_refs = 1, vd_cq_interrupts = 0, vd_async_interrupts = 0 \<rparr>"

definition vams_probe ::
    "('w, 'x) linux \<Rightarrow> probe_env \<Rightarrow> ('w, 'x) host \<Rightarrow> (rc \<times> ('w, 'x) host) option" where
  "vams_probe k env s =
     (if \<not> pe_vdev env then Some (RC_ERR ENOMEM, s)
      else let s = hold_res R_pdev (set_dev (new_device k) s) in
        if pe_enable env \<noteq> RC_OK then fail_to err_free_device (pe_enable env) s
        else let s = hold_res R_enabled s; ret = vams_maybe_fail_probe env VAMS_PROBE_AFTER_ENABLE in
          if ret \<noteq> RC_OK then fail_to err_disable_device ret s
          else probe_bar0 k env s)"

subsection \<open>Remove\<close>

text \<open>
  \<open>vams_remove\<close> first refuses new work; calls and interrupts may still run before the rest, which
  stops the interrupts and ends the requests.
\<close>

definition remove_rest :: "('w, 'x) linux \<Rightarrow> ('w, 'x) host \<Rightarrow> ('w, 'x) host option" where
  "remove_rest k s = do {
     s \<leftarrow> give_res R_misc s;
     s \<leftarrow> cancel_cq_poll_work s;
     s \<leftarrow> vams_mask_interrupts k s;
     s \<leftarrow> vams_writel k VAMS_REG_INTR_STATUS VAMS_INTR_ALL s;
     s \<leftarrow> vams_disable_queues k s;
     s \<leftarrow> give_res R_master s;
     s \<leftarrow> give_res R_async_irq s;
     s \<leftarrow> give_res R_cq_irq s;
     s \<leftarrow> cancel_reset_work s;
     s \<leftarrow> vams_cancel_requests k (RC_ERR ENODEV) False s;
     s \<leftarrow> give_res R_vectors s;
     s \<leftarrow> vams_free_queues s;
     s \<leftarrow> give_res R_iomap s;
     s \<leftarrow> give_res R_region s;
     s \<leftarrow> give_res R_enabled s;
     s \<leftarrow> give_res R_drvdata s;
     vams_device_put s
   }"

definition vams_remove :: "('w, 'x) linux \<Rightarrow> ('w, 'x) host \<Rightarrow> ('w, 'x) host option" where
  "vams_remove k s = do { s \<leftarrow> set_removing s; remove_rest k s }"

subsection \<open>Unwinding\<close>

text \<open>\<open>f\<close> does not fault from a state with \<open>P\<close> and ends in one with \<open>Q\<close>.\<close>

definition succeeds :: "('s \<Rightarrow> 's option) \<Rightarrow> ('s \<Rightarrow> bool) \<Rightarrow> ('s \<Rightarrow> bool) \<Rightarrow> bool" where
  "succeeds f P Q \<longleftrightarrow> (\<forall>s. P s \<longrightarrow> (\<exists>t. f s = Some t \<and> Q t))"

lemma succeedsI: "(\<And>s. P s \<Longrightarrow> \<exists>t. f s = Some t \<and> Q t) \<Longrightarrow> succeeds f P Q"
  by (simp add: succeeds_def)

lemma succeedsD: "succeeds f P Q \<Longrightarrow> P s \<Longrightarrow> \<exists>t. f s = Some t \<and> Q t"
  by (simp add: succeeds_def)

lemma succeeds_bind: "succeeds f P Q \<Longrightarrow> succeeds g Q R \<Longrightarrow> succeeds (\<lambda>s. f s \<bind> g) P R"
  unfolding succeeds_def by fastforce

text \<open>
  The driver is bound and holds the resources \<open>S\<close>; the tables of the open files are those of \<open>s0\<close>; with
  \<open>e\<close> no request is listed, with \<open>off\<close> the queues are disabled. \<open>unbound\<close> is the state after the last
  reference of the binding is dropped.
\<close>

definition kept_res :: "resource set" where
  "kept_res = {R_instance, R_misc_name, R_pdev}"

definition driver_kept :: "('w, 'x) host \<Rightarrow> ('w, 'x) host \<Rightarrow> bool" where
  "driver_kept s s' \<longleftrightarrow> (\<forall>g fl'. h_files s' g = Some fl' \<longrightarrow> (\<exists>fl. h_files s g = Some fl \<and>
     vf_requests fl' = vf_requests fl \<and> vf_mappings fl' = vf_mappings fl \<and> vf_closing fl' = vf_closing fl)) \<and>
     (\<forall>dev dev'. h_dev s = Some dev \<longrightarrow> vd_removing dev \<longrightarrow> h_dev s' = Some dev' \<longrightarrow> vd_removing dev')"

definition driver_at ::
    "('x \<Rightarrow> u32 \<Rightarrow> ref option) \<Rightarrow> locals \<Rightarrow> ('w, 'x) host \<Rightarrow> bool \<Rightarrow> bool \<Rightarrow> resource set \<Rightarrow> ('w, 'x) host \<Rightarrow> bool" where
  "driver_at tab L s0 e off S s \<longleftrightarrow> dinv tab (L\<lparr> lc_probe := 1 \<rparr>) s \<and> h_res s = S \<and> driver_kept s0 s \<and>
     (\<exists>dev. h_dev s = Some dev \<and> (e \<longrightarrow> tab (vd_requests dev) = Map.empty) \<and> (off \<longrightarrow> \<not> vd_queues_ready dev))"

definition unbound :: "('x \<Rightarrow> u32 \<Rightarrow> ref option) \<Rightarrow> locals \<Rightarrow> ('w, 'x) host \<Rightarrow> resource set \<Rightarrow> ('w, 'x) host \<Rightarrow> bool" where
  "unbound tab L s0 K s \<longleftrightarrow> dinv tab (L\<lparr> lc_probe := 0 \<rparr>) s \<and> driver_kept s0 s \<and>
     h_res s = (if h_dev s = None then {} else K)"

lemma driver_kept_refl: "driver_kept s s"
  unfolding driver_kept_def by force

lemma driver_kept_same:
  "h_files s' = h_files s \<Longrightarrow> h_dev s' = h_dev s \<Longrightarrow> driver_kept s0 s \<Longrightarrow> driver_kept s0 s'"
  unfolding driver_kept_def by (simp only:)

lemma driver_kept_trans:
  assumes st: "driver_kept s t" and tu: "driver_kept t u" and t: "h_dev t \<noteq> None"
  shows "driver_kept s u"
  unfolding driver_kept_def
proof (intro conjI allI impI)
  fix g fl' assume "h_files u g = Some fl'"
  then obtain fl where fl: "h_files t g = Some fl" "vf_requests fl' = vf_requests fl" "vf_mappings fl' = vf_mappings fl"
    "vf_closing fl' = vf_closing fl" using tu unfolding driver_kept_def by blast
  obtain fl0 where "h_files s g = Some fl0" "vf_requests fl = vf_requests fl0" "vf_mappings fl = vf_mappings fl0"
    "vf_closing fl = vf_closing fl0" using st fl(1) unfolding driver_kept_def by blast
  then show "\<exists>fl. h_files s g = Some fl \<and> vf_requests fl' = vf_requests fl \<and> vf_mappings fl' = vf_mappings fl \<and>
      vf_closing fl' = vf_closing fl" using fl by simp
next
  fix dev dev' assume d: "h_dev s = Some dev" "vd_removing dev" "h_dev u = Some dev'"
  obtain dt where dt: "h_dev t = Some dt" using t by blast
  have "vd_removing dt" using st d(1,2) dt unfolding driver_kept_def by blast
  then show "vd_removing dev'" using tu dt d(3) unfolding driver_kept_def by blast
qed

lemma sframe_driver_kept:
  assumes "sframe {} s s'"
  shows "driver_kept s s'"
  unfolding driver_kept_def
proof (intro conjI allI impI)
  fix g fl' assume "h_files s' g = Some fl'"
  then show "\<exists>fl. h_files s g = Some fl \<and> vf_requests fl' = vf_requests fl \<and> vf_mappings fl' = vf_mappings fl \<and>
      vf_closing fl' = vf_closing fl"
    using assms unfolding sframe_def by blast
next
  fix dev dev' assume d: "h_dev s = Some dev" "vd_removing dev" "h_dev s' = Some dev'"
  obtain dev0 where "h_dev s = Some dev0" "vd_removing dev' = vd_removing dev0"
    using assms d(3) unfolding sframe_def by blast
  then show "vd_removing dev'" using d by simp
qed

lemma driver_at_weaken: "driver_at tab L s0 e off S s \<Longrightarrow> e' \<longrightarrow> e \<Longrightarrow> off' \<longrightarrow> off \<Longrightarrow> driver_at tab L s0 e' off' S s"
  by (auto simp: driver_at_def)

lemma res_dinv:
  assumes inv: "dinv tab L s" and d: "h_dev s = Some dev"
    and same: "R_sq \<in> S \<longleftrightarrow> R_sq \<in> h_res s" "R_cq \<in> S \<longleftrightarrow> R_cq \<in> h_res s"
    and io: "vd_queues_ready dev \<Longrightarrow> R_iomap \<in> S"
  shows "dinv tab L (s\<lparr> h_res := S \<rparr>)"
proof -
  have "hinv tab L (s\<lparr> h_res := S \<rparr>)"
    using dinv_parts(1) [OF inv] by simp
  moreover have "rings_ok tab (s\<lparr> h_res := S \<rparr>)"
    using rings_okD [OF dinv_parts(2) [OF inv] d] same io d by (intro rings_okI [where dev = dev]) auto
  moreover have "ready_ok tab (s\<lparr> h_res := S \<rparr>)" by (rule ready_ok_same [OF dinv_parts(3) [OF inv]]) simp_all
  ultimately show ?thesis by (simp add: dinv_def)
qed

lemma give_res_ok:
  assumes "x \<in> S" "x \<notin> {R_sq, R_cq}" "x = R_iomap \<longrightarrow> off" "S' = S - {x}"
  shows "succeeds (give_res x) (driver_at tab L s0 e off S) (driver_at tab L s0 e off S')"
proof (rule succeedsI)
  fix s assume at: "driver_at tab L s0 e off S s"
  then obtain dev where d: "h_dev s = Some dev" "e \<longrightarrow> tab (vd_requests dev) = Map.empty" "off \<longrightarrow> \<not> vd_queues_ready dev"
    and inv: "dinv tab (L\<lparr> lc_probe := 1 \<rparr>) s" and S: "h_res s = S" "driver_kept s0 s" by (auto simp: driver_at_def)
  have "dinv tab (L\<lparr> lc_probe := 1 \<rparr>) (s\<lparr> h_res := S - {x} \<rparr>)"
    using rings_okD(7) [OF dinv_parts(2) [OF inv] d(1)] d(3) assms S by (intro res_dinv [OF inv d(1)]) auto
  then show "\<exists>t. give_res x s = Some t \<and> driver_at tab L s0 e off S' t"
    using assms S d by (simp add: give_res_def c_assert_def driver_at_def driver_kept_def)
qed

lemma hold_res_at:
  assumes at: "driver_at tab L s0 e off S s" and x: "x \<notin> {R_sq, R_cq}" and S': "S' = insert x S"
  shows "driver_at tab L s0 e off S' (hold_res x s)"
proof -
  obtain dev where d: "h_dev s = Some dev" "e \<longrightarrow> tab (vd_requests dev) = Map.empty" "off \<longrightarrow> \<not> vd_queues_ready dev"
    and inv: "dinv tab (L\<lparr> lc_probe := 1 \<rparr>) s" and S: "h_res s = S" "driver_kept s0 s" using at by (auto simp: driver_at_def)
  have "dinv tab (L\<lparr> lc_probe := 1 \<rparr>) (s\<lparr> h_res := insert x S \<rparr>)"
    using rings_okD(7) [OF dinv_parts(2) [OF inv] d(1)] x S by (intro res_dinv [OF inv d(1)]) auto
  then show ?thesis using S S' d by (simp add: hold_res_def driver_at_def driver_kept_def)
qed

lemma set_dev_at:
  assumes at: "driver_at tab L s0 e off S s" and d: "h_dev s = Some dev" and kept: "dev_fields_kept dev dev'"
    and rem: "vd_removing dev \<longrightarrow> vd_removing dev'"
  shows "driver_at tab L s0 e off S (set_dev dev' s)"
proof -
  have "dinv tab (L\<lparr> lc_probe := 1 \<rparr>) (set_dev dev' s)"
    using at by (intro set_dev_fields_dinv [OF _ d kept]) (simp add: driver_at_def)
  moreover have "driver_kept s0 (set_dev dev' s)"
    using at d rem by (auto simp: driver_at_def driver_kept_def set_dev_def)
  ultimately show ?thesis using at d kept by (auto simp: driver_at_def set_dev_def dev_fields_kept_def)
qed

lemma cancel_cq_poll_work_ok:
  "succeeds cancel_cq_poll_work (driver_at tab L s0 e off S) (driver_at tab L s0 e off S)"
proof (rule succeedsI)
  fix s assume at: "driver_at tab L s0 e off S s"
  then obtain dev where d: "h_dev s = Some dev" by (auto simp: driver_at_def)
  show "\<exists>t. cancel_cq_poll_work s = Some t \<and> driver_at tab L s0 e off S t"
    using set_dev_at [OF at d] d by (simp add: cancel_cq_poll_work_def dev_fields_kept_def)
qed

lemma cancel_reset_work_ok:
  "succeeds cancel_reset_work (driver_at tab L s0 e off S) (driver_at tab L s0 e off S)"
proof (rule succeedsI)
  fix s assume at: "driver_at tab L s0 e off S s"
  then obtain dev where d: "h_dev s = Some dev" by (auto simp: driver_at_def)
  show "\<exists>t. cancel_reset_work s = Some t \<and> driver_at tab L s0 e off S t"
    using set_dev_at [OF at d] d by (simp add: cancel_reset_work_def dev_fields_kept_def)
qed

lemma set_removing_ok:
  "succeeds set_removing (driver_at tab L s0 e off S) (driver_at tab L s0 e off S)"
proof (rule succeedsI)
  fix s assume at: "driver_at tab L s0 e off S s"
  then obtain dev where d: "h_dev s = Some dev" by (auto simp: driver_at_def)
  show "\<exists>t. set_removing s = Some t \<and> driver_at tab L s0 e off S t"
    using set_dev_at [OF at d] d by (simp add: set_removing_def dev_fields_kept_def)
qed

lemma free_queues_ok:
  assumes "S' = S - {R_sq, R_cq}"
  shows "succeeds vams_free_queues (driver_at tab L s0 e True S) (driver_at tab L s0 e True S')"
proof (rule succeedsI)
  fix s assume at: "driver_at tab L s0 e True S s"
  then obtain dev where d: "h_dev s = Some dev" "e \<longrightarrow> tab (vd_requests dev) = Map.empty" "\<not> vd_queues_ready dev"
    and inv: "dinv tab (L\<lparr> lc_probe := 1 \<rparr>) s" and S: "h_res s = S" "driver_kept s0 s" by (auto simp: driver_at_def)
  note r = rings_okD [OF dinv_parts(2) [OF inv] d(1)]
  let ?d = "dev\<lparr> vd_cq := None, vd_sq := None \<rparr>"
  let ?s = "(set_dev ?d s)\<lparr> h_res := S' \<rparr>"
  have res: "h_res s - (if vd_cq dev \<noteq> None then {R_cq} else {}) - (if vd_sq dev \<noteq> None then {R_sq} else {}) = S'"
    unfolding r(5,6) S(1) assms by auto
  have held: "vd_cq dev \<noteq> None \<longrightarrow> R_cq \<in> h_res s" "vd_sq dev \<noteq> None \<longrightarrow> R_sq \<in> h_res s" using r(5,6) by blast+
  have call: "vams_free_queues s = Some ?s"
    unfolding vams_free_queues_def d(1) Option.bind.bind_lunit res using held by simp
  have "hinv tab (L\<lparr> lc_probe := 1 \<rparr>) (set_dev ?d s)"
    by (rule set_dev_fields_hinv [OF dinv_parts(1) [OF inv] d(1)]) simp_all
  then have "hinv tab (L\<lparr> lc_probe := 1 \<rparr>) ?s" by simp
  moreover have "rings_ok tab ?s"
    using r d assms by (intro rings_okI [where dev = ?d]) (simp_all add: set_dev_def)
  moreover have "ready_ok tab ?s" by (rule ready_ok_same [OF dinv_parts(3) [OF inv]]) (simp_all add: set_dev_def)
  ultimately have "driver_at tab L s0 e True S' ?s"
    using d S by (simp add: driver_at_def dinv_def set_dev_def driver_kept_def)
  then show "\<exists>t. vams_free_queues s = Some t \<and> driver_at tab L s0 e True S' t" using call by blast
qed

context xarray_laws
begin

lemma device_put_ok:
  assumes "K \<subseteq> kept_res"
  shows "succeeds vams_device_put (driver_at tab L s0 True off K) (unbound tab L s0 K)"
proof (rule succeedsI)
  fix s assume at: "driver_at tab L s0 True off K s"
  then obtain dev where d: "h_dev s = Some dev" "tab (vd_requests dev) = Map.empty"
    and inv: "dinv tab (L\<lparr> lc_probe := 1 \<rparr>) s" and S: "h_res s = K" "driver_kept s0 s" by (auto simp: driver_at_def)
  have none: "\<And>r. req_dev tab s r = {}" using d by (simp add: req_dev_def)
  obtain s' where s': "vams_device_put s = Some s'" "hinv tab (L\<lparr> lc_probe := 0 \<rparr>) s'" "shrinks s s'"
    "h_files s' = h_files s" by (rule probe_put_ok [OF dinv_parts(1) [OF inv] none])
  have "dinv tab (L\<lparr> lc_probe := 0 \<rparr>) s'" by (rule shrinks_dinv [OF s'(2,3) dinv_parts(2,3) [OF inv]])
  moreover have "h_res s' = (if h_dev s' = None then {} else K)"
    using s'(3) d S(1) assms unfolding shrinks_def kept_res_def by (elim conjE) (auto split: if_splits)
  ultimately show "\<exists>t. vams_device_put s = Some t \<and> unbound tab L s0 K t"
    using s'(1) driver_kept_trans [OF S(2) sframe_driver_kept [OF shrinks_sframe [OF s'(3)]]] d by (simp add: unbound_def)
qed

lemma mask_interrupts_ok:
  assumes "R_iomap \<in> S"
  shows "succeeds (vams_mask_interrupts k) (driver_at tab L s0 e off S) (driver_at tab L s0 e off S)"
proof (rule succeedsI)
  fix s assume at: "driver_at tab L s0 e off S s"
  then obtain dev where d: "h_dev s = Some dev" "e \<longrightarrow> tab (vd_requests dev) = Map.empty" "off \<longrightarrow> \<not> vd_queues_ready dev"
    and inv: "dinv tab (L\<lparr> lc_probe := 1 \<rparr>) s" and S: "h_res s = S" "driver_kept s0 s" by (auto simp: driver_at_def)
  have io: "R_iomap \<in> h_res s" using S assms by simp
  obtain t where t: "vams_writel k VAMS_REG_INTR_MASK VAMS_INTR_ALL s = Some t" "dinv tab (L\<lparr> lc_probe := 1 \<rparr>) t"
    "h_dev t = Some dev" "h_res t = h_res s" "h_files t = h_files s" by (rule writel_step [OF inv d(1) io])
  have io': "R_iomap \<in> h_res t" using t io by simp
  obtain v u where u: "vams_readl k VAMS_REG_INTR_MASK t = Some (v, u)" "dinv tab (L\<lparr> lc_probe := 1 \<rparr>) u"
    "h_dev u = Some dev" "h_res u = h_res t" "h_files u = h_files t" by (rule readl_step [OF t(2,3) io'])
  then show "\<exists>t. vams_mask_interrupts k s = Some t \<and> driver_at tab L s0 e off S t"
    using t d S by (simp add: vams_mask_interrupts_def driver_at_def driver_kept_def)
qed

lemma writel_ok:
  assumes "R_iomap \<in> S"
  shows "succeeds (vams_writel k reg v) (driver_at tab L s0 e off S) (driver_at tab L s0 e off S)"
proof (rule succeedsI)
  fix s assume at: "driver_at tab L s0 e off S s"
  then obtain dev where d: "h_dev s = Some dev" "e \<longrightarrow> tab (vd_requests dev) = Map.empty" "off \<longrightarrow> \<not> vd_queues_ready dev"
    and inv: "dinv tab (L\<lparr> lc_probe := 1 \<rparr>) s" and S: "h_res s = S" "driver_kept s0 s" by (auto simp: driver_at_def)
  have io: "R_iomap \<in> h_res s" using S assms by simp
  obtain t where "vams_writel k reg v s = Some t" "dinv tab (L\<lparr> lc_probe := 1 \<rparr>) t"
    "h_dev t = Some dev" "h_res t = h_res s" "h_files t = h_files s" by (rule writel_step [OF inv d(1) io])
  then show "\<exists>t. vams_writel k reg v s = Some t \<and> driver_at tab L s0 e off S t"
    using d S by (simp add: driver_at_def driver_kept_def)
qed

lemma disable_queues_at:
  "succeeds (vams_disable_queues k) (driver_at tab L s0 e off S) (driver_at tab L s0 e True S)"
proof (rule succeedsI)
  fix s assume at: "driver_at tab L s0 e off S s"
  then obtain dev where d: "h_dev s = Some dev" "e \<longrightarrow> tab (vd_requests dev) = Map.empty"
    and inv: "dinv tab (L\<lparr> lc_probe := 1 \<rparr>) s" and S: "h_res s = S" "driver_kept s0 s" by (auto simp: driver_at_def)
  have io: "vd_queues_ready dev \<Longrightarrow> R_iomap \<in> h_res s" using rings_okD(7) [OF dinv_parts(2) [OF inv] d(1)] by blast
  obtain s' where "vams_disable_queues k s = Some s'" "dinv tab (L\<lparr> lc_probe := 1 \<rparr>) s'"
    "h_dev s' = Some (dev\<lparr> vd_queues_ready := False \<rparr>)" "h_res s' = h_res s" "h_files s' = h_files s"
    by (rule disable_queues_ok [OF inv d(1) io])
  then show "\<exists>t. vams_disable_queues k s = Some t \<and> driver_at tab L s0 e True S t"
    using d S by (simp add: driver_at_def driver_kept_def)
qed

lemma cancel_all_ok:
  "succeeds (vams_cancel_requests k status False) (driver_at tab L s0 e True S) (driver_at tab L s0 True True S)"
proof (rule succeedsI)
  fix s assume at: "driver_at tab L s0 e True S s"
  then obtain dev where d: "h_dev s = Some dev" "\<not> vd_queues_ready dev"
    and inv: "dinv tab (L\<lparr> lc_probe := 1 \<rparr>) s" and S: "h_res s = S" "driver_kept s0 s" by (auto simp: driver_at_def)
  have probe: "0 < lc_probe (L\<lparr> lc_probe := 1 \<rparr>)" by simp
  obtain s' dev' where s': "vams_cancel_requests k status False s = Some s'" "dinv tab (L\<lparr> lc_probe := 1 \<rparr>) s'" "evolves tab s s'"
    "h_dev s' = Some dev'" "\<And>j r. tab (vd_requests dev') j = Some r \<Longrightarrow> fresh_entry False s' (vd_reset_generation dev') r"
    by (rule cancel_requests_ok [OF inv probe d(1), of status False]) blast
  have "tab (vd_requests dev') x = None" for x
    using s'(5) [of x] by (cases "tab (vd_requests dev') x") (auto simp: fresh_entry_def)
  then have "tab (vd_requests dev') = Map.empty" by (simp add: fun_eq_iff)
  moreover have "dev_frame dev dev'" using s'(3,4) d by (auto simp: evolves_def)
  then have "\<not> vd_queues_ready dev'" using d(2) dev_frame_fields(4) by blast
  moreover have "h_res s' = h_res s" using s'(3) by (simp add: evolves_def)
  moreover have "driver_kept s s'" using sframe_driver_kept [OF evolves_sframe [OF s'(3)]] s'(4) by simp
  ultimately show "\<exists>t. vams_cancel_requests k status False s = Some t \<and> driver_at tab L s0 True True S t"
    using s'(1,2,4) S driver_kept_trans [OF S(2)] d by (simp add: driver_at_def)
qed

end

text \<open>The resources held after each step of the probe; \<open>Q\<close> are the rings.\<close>

definition mapped_res :: "resource set" where
  "mapped_res = {R_pdev, R_enabled, R_region, R_iomap}"

definition irq_res :: "resource set \<Rightarrow> resource set" where
  "irq_res Q = mapped_res \<union> Q \<union> {R_vectors, R_cq_irq, R_async_irq}"

definition started_res :: "resource set \<Rightarrow> resource set" where
  "started_res Q = irq_res Q \<union> {R_drvdata, R_master}"

definition bound_res :: "resource set \<Rightarrow> resource set" where
  "bound_res Q = started_res Q \<union> {R_instance, R_misc_name, R_misc}"

lemmas res_defs = kept_res_def mapped_res_def irq_res_def started_res_def bound_res_def

context xarray_laws
begin

lemma err_disable_device_ok:
  assumes K: "K \<subseteq> kept_res" and S: "S = insert R_enabled K"
  shows "succeeds err_disable_device (driver_at tab L s0 True True S) (unbound tab L s0 K)"
  unfolding err_disable_device_def err_free_device_def
  by (rule succeeds_bind [OF give_res_ok device_put_ok [OF K]]) (use K S in \<open>auto simp: kept_res_def\<close>)

lemma err_release_region_ok:
  assumes K: "K \<subseteq> kept_res" and S: "S = {R_region, R_enabled} \<union> K"
  shows "succeeds err_release_region (driver_at tab L s0 True True S) (unbound tab L s0 K)"
  unfolding err_release_region_def
  by (rule succeeds_bind [OF give_res_ok err_disable_device_ok [OF K]]) (use K S in \<open>auto simp: kept_res_def\<close>)

lemma err_iounmap_ok:
  assumes K: "K \<subseteq> kept_res" and S: "S = {R_iomap, R_region, R_enabled} \<union> K"
  shows "succeeds err_iounmap (driver_at tab L s0 True True S) (unbound tab L s0 K)"
  unfolding err_iounmap_def
  by (rule succeeds_bind [OF give_res_ok err_release_region_ok [OF K]]) (use K S in \<open>auto simp: kept_res_def\<close>)

lemma err_free_queues_ok:
  assumes K: "K \<subseteq> kept_res" and Q: "Q \<subseteq> {R_sq, R_cq}" and S: "S = Q \<union> {R_iomap, R_region, R_enabled} \<union> K"
  shows "succeeds err_free_queues (driver_at tab L s0 True True S) (unbound tab L s0 K)"
  unfolding err_free_queues_def
  by (rule succeeds_bind [OF free_queues_ok err_iounmap_ok [OF K]]) (use K Q S in \<open>auto simp: kept_res_def\<close>)

lemma err_free_vectors_ok:
  assumes K: "K \<subseteq> kept_res" and Q: "Q \<subseteq> {R_sq, R_cq}" and S: "S = {R_vectors} \<union> Q \<union> {R_iomap, R_region, R_enabled} \<union> K"
  shows "succeeds err_free_vectors (driver_at tab L s0 True True S) (unbound tab L s0 K)"
  unfolding err_free_vectors_def
  by (rule succeeds_bind [OF give_res_ok err_free_queues_ok [OF K Q]]) (use K Q S in \<open>auto simp: kept_res_def\<close>)

lemma err_free_cq_irq_ok:
  assumes K: "K \<subseteq> kept_res" and Q: "Q \<subseteq> {R_sq, R_cq}"
    and S: "S = {R_cq_irq, R_vectors} \<union> Q \<union> {R_iomap, R_region, R_enabled} \<union> K"
  shows "succeeds (err_free_cq_irq k) (driver_at tab L s0 e True S) (unbound tab L s0 K)"
  unfolding err_free_cq_irq_def
  by (rule succeeds_bind [OF give_res_ok succeeds_bind [OF cancel_reset_work_ok succeeds_bind [OF cancel_all_ok
    err_free_vectors_ok [OF K Q]]]]) (use K Q S in \<open>auto simp: kept_res_def\<close>)

lemma err_free_async_irq_ok:
  assumes K: "K \<subseteq> kept_res" and Q: "Q \<subseteq> {R_sq, R_cq}"
    and S: "S = {R_async_irq, R_cq_irq, R_vectors} \<union> Q \<union> {R_iomap, R_region, R_enabled} \<union> K"
  shows "succeeds (err_free_async_irq k) (driver_at tab L s0 e True S) (unbound tab L s0 K)"
  unfolding err_free_async_irq_def
  by (rule succeeds_bind [OF give_res_ok err_free_cq_irq_ok [OF K Q]]) (use K Q S in \<open>auto simp: kept_res_def\<close>)

lemma err_clear_master_ok:
  assumes K: "K \<subseteq> kept_res" and Q: "Q \<subseteq> {R_sq, R_cq}"
    and S: "S = {R_master, R_drvdata, R_async_irq, R_cq_irq, R_vectors} \<union> Q \<union> {R_iomap, R_region, R_enabled} \<union> K"
  shows "succeeds (err_clear_master k) (driver_at tab L s0 e off S) (unbound tab L s0 K)"
  unfolding err_clear_master_def
  by (rule succeeds_bind [OF mask_interrupts_ok succeeds_bind [OF disable_queues_at succeeds_bind [OF give_res_ok
    succeeds_bind [OF give_res_ok err_free_async_irq_ok [OF K Q]]]]]) (use K Q S in \<open>auto simp: kept_res_def\<close>)

lemma err_deregister_misc_ok:
  assumes K: "K \<subseteq> kept_res" and Q: "Q \<subseteq> {R_sq, R_cq}"
    and S: "S = {R_misc, R_master, R_drvdata, R_async_irq, R_cq_irq, R_vectors} \<union> Q \<union> {R_iomap, R_region, R_enabled} \<union> K"
  shows "succeeds (err_deregister_misc k) (driver_at tab L s0 e off S) (unbound tab L s0 K)"
  unfolding err_deregister_misc_def
  by (rule succeeds_bind [OF set_removing_ok succeeds_bind [OF give_res_ok succeeds_bind [OF cancel_cq_poll_work_ok
    err_clear_master_ok [OF K Q]]]]) (use K Q S in \<open>auto simp: kept_res_def\<close>)

lemma remove_rest_ok:
  assumes Q: "Q \<subseteq> {R_sq, R_cq}"
  shows "succeeds (remove_rest k) (driver_at tab L s0 e off (bound_res Q)) (unbound tab L s0 kept_res)"
  unfolding remove_rest_def
  by (rule succeeds_bind [OF give_res_ok succeeds_bind [OF cancel_cq_poll_work_ok succeeds_bind [OF mask_interrupts_ok
    succeeds_bind [OF writel_ok succeeds_bind [OF disable_queues_at succeeds_bind [OF give_res_ok succeeds_bind [OF give_res_ok
    succeeds_bind [OF give_res_ok succeeds_bind [OF cancel_reset_work_ok succeeds_bind [OF cancel_all_ok
    succeeds_bind [OF give_res_ok succeeds_bind [OF free_queues_ok succeeds_bind [OF give_res_ok succeeds_bind [OF give_res_ok
    succeeds_bind [OF give_res_ok succeeds_bind [OF give_res_ok device_put_ok]]]]]]]]]]]]]]]])
    (use Q in \<open>auto simp: res_defs\<close>)

end

subsection \<open>Binding\<close>

text \<open>
  A probe that fails leaves no device object and no resource behind; one that succeeds holds all of
  them, and the queues run exactly when the rings exist.
\<close>

definition live_device :: "('w, 'x) host \<Rightarrow> bool" where
  "live_device s \<longleftrightarrow> (\<exists>dev. h_dev s = Some dev \<and> \<not> vd_removing dev)"

definition probed :: "('x \<Rightarrow> u32 \<Rightarrow> ref option) \<Rightarrow> locals \<Rightarrow> ('w, 'x) host \<Rightarrow> rc \<Rightarrow> ('w, 'x) host \<Rightarrow> bool" where
  "probed tab L s0 ret s \<longleftrightarrow>
     (if ret = RC_OK
      then \<exists>Q \<in> {{}, {R_sq, R_cq}}. driver_at tab L s0 True (Q = {}) (bound_res Q) s \<and>
        (\<exists>dev. h_dev s = Some dev \<and> \<not> vd_removing dev \<and> (vd_queues_ready dev \<longleftrightarrow> Q \<noteq> {}))
      else dinv tab (L\<lparr> lc_probe := 0 \<rparr>) s \<and> h_dev s = None \<and> h_res s = {} \<and> h_files s = Map.empty)"

lemma unbound_gone:
  assumes "unbound tab L s0 K s" "h_files s0 = Map.empty"
  shows "dinv tab (L\<lparr> lc_probe := 0 \<rparr>) s \<and> h_dev s = None \<and> h_res s = {} \<and> h_files s = Map.empty"
proof -
  have inv: "dinv tab (L\<lparr> lc_probe := 0 \<rparr>) s" using assms by (simp add: unbound_def)
  have "h_files s f = None" for f using assms by (cases "h_files s f") (auto simp: unbound_def driver_kept_def)
  then have none: "h_files s = Map.empty" by (simp add: fun_eq_iff)
  have "h_dev s = None"
  proof (cases "h_dev s")
    case (Some dev)
    then show ?thesis using device_okD(1,2) [OF dinv_parts(1) [OF inv] Some] none by simp
  qed
  then show ?thesis using assms inv none by (simp add: unbound_def)
qed

lemma fail_to_probed:
  assumes "succeeds label P (unbound tab L s0 K)" "P s" "ret \<noteq> RC_OK" "h_files s0 = Map.empty"
  shows "\<exists>ret' s'. fail_to label ret s = Some (ret', s') \<and> probed tab L s0 ret' s'"
proof -
  obtain t where t: "label s = Some t" "unbound tab L s0 K t" using succeedsD [OF assms(1,2)] by blast
  have "probed tab L s0 ret t" using unbound_gone [OF t(2) assms(4)] assms(3) by (simp add: probed_def)
  then show ?thesis using t(1) by (simp add: fail_to_def)
qed

lemma hold_res_device [simp]: "h_dev (hold_res r s) = h_dev s"
  by (simp add: hold_res_def)

lemma live_hold_res [simp]: "live_device (hold_res r s) = live_device s"
  by (simp add: live_device_def)

context xarray_laws
begin

lemma clear_master_started:
  assumes "Q \<subseteq> {R_sq, R_cq}"
  shows "succeeds (err_clear_master k) (driver_at tab L s0 e off (started_res Q)) (unbound tab L s0 {R_pdev})"
  by (rule err_clear_master_ok [OF _ assms]) (auto simp: res_defs)

lemma deregister_misc_bound:
  assumes "Q \<subseteq> {R_sq, R_cq}"
  shows "succeeds (err_deregister_misc k) (driver_at tab L s0 e off (bound_res Q)) (unbound tab L s0 kept_res)"
  by (rule err_deregister_misc_ok [OF _ assms]) (auto simp: res_defs)

lemma probe_chardev_ok:
  assumes at: "driver_at tab L s0 True (Q = {}) (started_res Q) s" and Q: "Q \<in> {{}, {R_sq, R_cq}}"
    and d: "h_dev s = Some dev" "\<not> vd_removing dev" "vd_queues_ready dev \<longleftrightarrow> Q \<noteq> {}" and no_files: "h_files s0 = Map.empty"
  shows "\<exists>ret s'. probe_chardev k env s = Some (ret, s') \<and> probed tab L s0 ret s'"
proof -
  have Q': "Q \<subseteq> {R_sq, R_cq}" using Q by auto
  let ?fail = "vams_maybe_fail_probe env VAMS_PROBE_AFTER_CHARDEV"
  let ?t = "hold_res R_misc (hold_res R_misc_name (hold_res R_instance s))"
  have none_held: "R_instance \<notin> h_res s" "R_misc_name \<notin> h_res s"
    using at Q by (auto simp: driver_at_def res_defs)
  have undo: "give_res R_instance (hold_res R_instance s) = Some s"
    "give_res R_misc_name (hold_res R_misc_name (hold_res R_instance s)) = Some (hold_res R_instance s)"
    using none_held by (simp_all add: give_res_def hold_res_def)
  have undone: ?thesis if "vams_register_chardev env s = Some (ret, s)" "ret \<noteq> RC_OK" for ret
    using fail_to_probed [OF clear_master_started [OF Q'] at that(2) no_files] that by (simp add: probe_chardev_def)
  consider "pe_instance env \<noteq> RC_OK" | "pe_instance env = RC_OK" "\<not> pe_name env"
    | "pe_instance env = RC_OK" "pe_name env" "pe_misc env \<noteq> RC_OK"
    | "pe_instance env = RC_OK" "pe_name env" "pe_misc env = RC_OK" by blast
  then show ?thesis
  proof cases
    case 1
    then show ?thesis by (intro undone [of "pe_instance env"]) (simp_all add: vams_register_chardev_def)
  next
    case 2
    then show ?thesis using undo by (intro undone [of "RC_ERR ENOMEM"]) (simp_all add: vams_register_chardev_def)
  next
    case 3
    then show ?thesis using undo by (intro undone [of "pe_misc env"]) (simp_all add: vams_register_chardev_def)
  next
    case 4
    have t: "driver_at tab L s0 True (Q = {}) (bound_res Q) ?t"
      by (rule hold_res_at [OF hold_res_at [OF hold_res_at [OF at]]]) (auto simp: res_defs)
    have call: "vams_register_chardev env s = Some (RC_OK, ?t)" using 4 by (simp add: vams_register_chardev_def)
    show ?thesis
    proof (cases "?fail = RC_OK")
      case True
      have "\<exists>dev. h_dev ?t = Some dev \<and> \<not> vd_removing dev \<and> (vd_queues_ready dev \<longleftrightarrow> Q \<noteq> {})" using d by simp
      then have "probed tab L s0 RC_OK ?t" using t Q unfolding probed_def by (metis (full_types))
      then show ?thesis using call True by (simp add: probe_chardev_def)
    next
      case False
      then show ?thesis
        using fail_to_probed [OF deregister_misc_bound [OF Q'] t False no_files] call by (simp add: probe_chardev_def)
    qed
  qed
qed

lemma probe_start_ok:
  assumes at: "driver_at tab L s0 True True (irq_res Q) s" and Q: "Q \<in> {{}, {R_sq, R_cq}}"
    and d: "h_dev s = Some dev" "\<not> vd_removing dev" "vd_capabilities dev AND VAMS_CAP_DMA \<noteq> 0 \<longleftrightarrow> Q \<noteq> {}"
    and no_files: "h_files s0 = Map.empty"
  shows "\<exists>ret s'. probe_start k env s = Some (ret, s') \<and> probed tab L s0 ret s'"
proof -
  have Q': "Q \<subseteq> {R_sq, R_cq}" using Q by auto
  let ?t = "hold_res R_master (hold_res R_drvdata s)"
  have t: "driver_at tab L s0 True True (started_res Q) ?t"
    by (rule hold_res_at [OF hold_res_at [OF at]]) (auto simp: res_defs)
  then have inv: "dinv tab (L\<lparr> lc_probe := 1 \<rparr>) ?t" and kt: "driver_kept s0 ?t" by (simp_all add: driver_at_def)
  have dt: "h_dev ?t = Some dev" using d by simp
  let ?conf = "if vd_capabilities dev AND VAMS_CAP_DMA \<noteq> 0 then vams_configure_queues k ?t else Some (RC_OK, ?t)"
  have "\<exists>ret u dev'. ?conf = Some (ret, u) \<and> driver_at tab L s0 True False (started_res Q) u \<and> h_dev u = Some dev' \<and>
    \<not> vd_removing dev' \<and> (ret = RC_OK \<longrightarrow> (vd_queues_ready dev' \<longleftrightarrow> Q \<noteq> {}))"
  proof (cases "vd_capabilities dev AND VAMS_CAP_DMA = 0")
    case True
    have "\<not> vd_queues_ready dev" using t dt by (simp add: driver_at_def)
    then show ?thesis using True t d driver_at_weaken [OF t, of True False] by auto
  next
    case False
    then have "{R_iomap, R_sq, R_cq} \<subseteq> h_res ?t" using t d(3) Q by (auto simp: driver_at_def res_defs)
    then obtain ret u dev' where u: "vams_configure_queues k ?t = Some (ret, u)" "dinv tab (L\<lparr> lc_probe := 1 \<rparr>) u"
      "h_dev u = Some dev'" "h_res u = h_res ?t" "sframe {} ?t u" "ret \<in> {RC_OK, RC_ERR EIO}" "vd_queues_ready dev' \<longleftrightarrow> ret = RC_OK"
      "h_files u = h_files ?t" "h_requests u = h_requests ?t" "vd_requests dev' = vd_requests dev"
      using configure_queues_ok [OF inv dt] by blast
    have rem: "\<not> vd_removing dev'" using u(3,5) dt d(2) by (auto simp: sframe_def)
    have "tab (vd_requests dev') = Map.empty" using u(10) t dt by (simp add: driver_at_def)
    moreover have "driver_kept s0 u"
      by (rule driver_kept_trans [OF kt sframe_driver_kept [OF u(5)]]) (simp only: dt option.distinct, simp)
    ultimately have "driver_at tab L s0 True False (started_res Q) u"
      using u(2,3,4) t by (simp add: driver_at_def)
    then show ?thesis using u False d(3) rem by auto
  qed
  then obtain ret u dev' where u: "?conf = Some (ret, u)" "driver_at tab L s0 True False (started_res Q) u" "h_dev u = Some dev'"
    "\<not> vd_removing dev'" "ret = RC_OK \<longrightarrow> (vd_queues_ready dev' \<longleftrightarrow> Q \<noteq> {})" by blast
  show ?thesis
  proof (cases "ret = RC_OK")
    case False
    then show ?thesis
      using fail_to_probed [OF clear_master_started [OF Q'] u(2) False no_files] u(1) d by (simp add: probe_start_def)
  next
    case True
    have invu: "dinv tab (L\<lparr> lc_probe := 1 \<rparr>) u" and io: "R_iomap \<in> h_res u" using u(2) by (auto simp: driver_at_def res_defs)
    obtain v where v: "vams_writel k VAMS_REG_INTR_MASK 0 u = Some v" "dinv tab (L\<lparr> lc_probe := 1 \<rparr>) v"
      "h_dev v = Some dev'" "h_res v = h_res u" "h_files v = h_files u" by (rule writel_step [OF invu u(3) io])
    have io': "R_iomap \<in> h_res v" using v io by simp
    obtain x w where w: "vams_readl k VAMS_REG_INTR_MASK v = Some (x, w)" "dinv tab (L\<lparr> lc_probe := 1 \<rparr>) w"
      "h_dev w = Some dev'" "h_res w = h_res v" "h_files w = h_files v" by (rule readl_step [OF v(2,3) io'])
    have ku: "driver_kept s0 u" using u(2) by (simp add: driver_at_def)
    have "driver_kept s0 w" by (rule driver_kept_same [OF _ _ ku]) (simp_all only: u(3) v(3,5) w(3,5))
    then have "driver_at tab L s0 True (Q = {}) (started_res Q) w"
      using u(2,3,5) v(4) w(2,3,4) True by (simp add: driver_at_def)
    then show ?thesis using probe_chardev_ok [OF _ Q w(3) u(4) _ no_files, of L env] u True v(1) w(1) d
      by (simp add: probe_start_def)
  qed
qed

end

context xarray_laws
begin

lemma readl_at:
  assumes at: "driver_at tab L s0 e off S s" and io: "R_iomap \<in> S"
  obtains v t where "vams_readl k reg s = Some (v, t)" "driver_at tab L s0 e off S t" "h_dev t = h_dev s"
proof -
  obtain dev where d: "h_dev s = Some dev" and inv: "dinv tab (L\<lparr> lc_probe := 1 \<rparr>) s" and io': "R_iomap \<in> h_res s"
    using at io by (auto simp: driver_at_def)
  obtain v t where "vams_readl k reg s = Some (v, t)" "dinv tab (L\<lparr> lc_probe := 1 \<rparr>) t" "h_dev t = Some dev"
    "h_res t = h_res s" "h_files t = h_files s" by (rule readl_step [OF inv d io'])
  then show ?thesis using that [of v t] at d by (simp add: driver_at_def driver_kept_def)
qed

lemma validate_at:
  assumes at: "driver_at tab L s0 e off S s" and io: "R_iomap \<in> S" and live: "live_device s"
  shows "\<exists>ret t. vams_validate_endpoint k s = Some (ret, t) \<and> driver_at tab L s0 e off S t \<and> live_device t"
proof -
  obtain dev where d: "h_dev s = Some dev" "\<not> vd_removing dev" using live by (auto simp: live_device_def)
  obtain v1 s1 where r1: "vams_readl k VAMS_REG_DEVICE_ID s = Some (v1, s1)" "driver_at tab L s0 e off S s1" "h_dev s1 = h_dev s"
    by (rule readl_at [OF at io])
  obtain v2 s2 where r2: "vams_readl k VAMS_REG_HW_IF_VERSION s1 = Some (v2, s2)" "driver_at tab L s0 e off S s2" "h_dev s2 = h_dev s1"
    by (rule readl_at [OF r1(2) io])
  define d2 where "d2 = dev\<lparr> vd_hw_if_version := v2 \<rparr>"
  have hd2: "h_dev s2 = Some dev" using r1(3) r2(3) d by simp
  have at2: "driver_at tab L s0 e off S (set_dev d2 s2)"
    by (rule set_dev_at [OF r2(2) hd2]) (simp_all add: dev_fields_kept_def d2_def)
  obtain v3 s3 where r3: "vams_readl k VAMS_REG_DESC_VERSION (set_dev d2 s2) = Some (v3, s3)" "driver_at tab L s0 e off S s3"
    "h_dev s3 = h_dev (set_dev d2 s2)" by (rule readl_at [OF at2 io])
  obtain v4 s4 where r4: "vams_readl k VAMS_REG_CAPABILITIES s3 = Some (v4, s4)" "driver_at tab L s0 e off S s4" "h_dev s4 = h_dev s3"
    by (rule readl_at [OF r3(2) io])
  define d4 where "d4 = d2\<lparr> vd_capabilities := v4 \<rparr>"
  have hd4: "h_dev s4 = Some d2" using r3(3) r4(3) by (simp add: set_dev_def)
  have at4: "driver_at tab L s0 e off S (set_dev d4 s4)"
    by (rule set_dev_at [OF r4(2) hd4]) (simp_all add: dev_fields_kept_def d4_def)
  obtain v5 s5 where r5: "vams_readl k VAMS_REG_DEVICE_STATUS (set_dev d4 s4) = Some (v5, s5)" "driver_at tab L s0 e off S s5"
    "h_dev s5 = h_dev (set_dev d4 s4)" by (rule readl_at [OF at4 io])
  obtain v6 s6 where r6: "vams_readl k VAMS_REG_FW_VERSION s5 = Some (v6, s6)" "driver_at tab L s0 e off S s6" "h_dev s6 = h_dev s5"
    by (rule readl_at [OF r5(2) io])
  obtain v7 s7 where r7: "vams_readl k VAMS_REG_RESET_GENERATION s6 = Some (v7, s7)" "driver_at tab L s0 e off S s7" "h_dev s7 = h_dev s6"
    by (rule readl_at [OF r6(2) io])
  define d7 where "d7 = d4\<lparr> vd_fw_version := v6, vd_reset_generation := v7 \<rparr>"
  have hd7: "h_dev s7 = Some d4" using r5(3) r6(3) r7(3) by (simp add: set_dev_def)
  have at7: "driver_at tab L s0 e off S (set_dev d7 s7)"
    by (rule set_dev_at [OF r7(2) hd7]) (simp_all add: dev_fields_kept_def d7_def)
  have rem: "\<not> vd_removing d2" "\<not> vd_removing d4" "\<not> vd_removing d7" using d(2) by (simp_all add: d2_def d4_def d7_def)
  have live': "live_device s1" "live_device (set_dev d2 s2)" "live_device s3" "live_device (set_dev d4 s4)"
    "live_device s5" "live_device (set_dev d7 s7)"
    using d r1(3) r3(3) r5(3) rem by (simp_all add: live_device_def set_dev_def)
  have run: "vams_validate_endpoint k s =
    (if v1 \<noteq> VAMS_DEVICE_ID_VALUE then Some (RC_ERR ENODEV, s1)
     else if drop_bit 16 v2 \<noteq> VAMS_HW_IF_MAJOR_SUPPORTED then Some (RC_ERR EPROTONOSUPPORT, set_dev d2 s2)
     else if v3 \<noteq> VAMS_DESC_VERSION_SUPPORTED then Some (RC_ERR EPROTONOSUPPORT, s3)
     else if v4 AND VAMS_CAP_MSIX = 0 then Some (RC_ERR ENODEV, set_dev d4 s4)
     else if v5 AND VAMS_STATUS_READY = 0 \<or> v5 AND (VAMS_STATUS_RESETTING OR VAMS_STATUS_FATAL) \<noteq> 0
       then Some (RC_ERR EBUSY, s5)
     else Some (RC_OK, set_dev d7 s7))"
    unfolding vams_validate_endpoint_def using r1(1) r2(1) r3(1) r4(1) r5(1) r6(1) r7(1) hd2 hd4 hd7
    by (simp add: d2_def [symmetric] d4_def [symmetric] d7_def [symmetric])
  show ?thesis unfolding run using r1(2) at2 r3(2) at4 r5(2) at7 live' by (auto split: if_splits)
qed

lemma alloc_queues_at:
  assumes at: "driver_at tab L s0 e True S s" and S: "R_sq \<notin> S" "R_cq \<notin> S" and d: "h_dev s = Some dev"
  shows "\<exists>ret t dev'. vams_alloc_queues sq_mem cq_mem s = Some (ret, t) \<and> h_dev t = Some dev' \<and>
    vd_removing dev' = vd_removing dev \<and> vd_capabilities dev' = vd_capabilities dev \<and>
    driver_at tab L s0 e True (if ret = RC_OK then S \<union> {R_sq, R_cq} else S) t"
proof -
  have inv: "dinv tab (L\<lparr> lc_probe := 1 \<rparr>) s" and res: "h_res s = S" and off: "\<not> vd_queues_ready dev"
    using at d by (auto simp: driver_at_def)
  note r = rings_okD [OF dinv_parts(2) [OF inv] d]
  have null: "vd_sq dev = None" "vd_cq dev = None" using r(5,6) S res by auto
  have failed: ?thesis if t: "vams_alloc_queues sq_mem cq_mem s = Some (RC_ERR e', set_dev dev' s)"
      and kept: "dev_fields_kept dev dev'" "vd_removing dev' = vd_removing dev" "vd_capabilities dev' = vd_capabilities dev"
    for e' dev'
    using t kept set_dev_at [OF at d kept(1)] by (auto simp: set_dev_def)
  show ?thesis
  proof (cases "\<exists>a b. sq_mem = Some a \<and> cq_mem = Some b \<and> a AND 63 = 0 \<and> b AND 63 = 0")
    case True
    then obtain a b where ab: "sq_mem = Some a" "cq_mem = Some b" "a AND 63 = 0" "b AND 63 = 0" by blast
    let ?d = "dev\<lparr> vd_sq := Some (replicate (unat VAMS_QUEUE_DEPTH) zero_submission), vd_sq_dma := a,
      vd_cq := Some (replicate (unat VAMS_QUEUE_DEPTH) zero_completion), vd_cq_dma := b \<rparr>"
    let ?t = "(set_dev ?d s)\<lparr> h_res := S \<union> {R_sq, R_cq} \<rparr>"
    have call: "vams_alloc_queues sq_mem cq_mem s = Some (RC_OK, ?t)"
      using ab d res by (simp add: vams_alloc_queues_def)
    have "hinv tab (L\<lparr> lc_probe := 1 \<rparr>) ?t"
      using set_dev_fields_hinv [OF dinv_parts(1) [OF inv] d, of ?d] by simp
    moreover have "rings_ok tab ?t"
      using r(1,2,8) off by (intro rings_okI [where dev = ?d]) (auto simp: set_dev_def)
    moreover have "ready_ok tab ?t" by (rule ready_ok_same [OF dinv_parts(3) [OF inv]]) (simp_all add: set_dev_def)
    ultimately have "driver_at tab L s0 e True (S \<union> {R_sq, R_cq}) ?t"
      using at d by (simp add: driver_at_def dinv_def set_dev_def driver_kept_def)
    then show ?thesis using call by (auto simp: set_dev_def)
  next
    case False
    show ?thesis
    proof (cases sq_mem)
      case None
      then show ?thesis using d null
        by (intro failed [of ENOMEM "dev\<lparr> vd_sq := None \<rparr>"]) (simp_all add: vams_alloc_queues_def dev_fields_kept_def)
    next
      case (Some a)
      show ?thesis
      proof (cases cq_mem)
        case None
        then show ?thesis using d null Some
          by (intro failed [of ENOMEM "dev\<lparr> vd_sq := None, vd_sq_dma := a, vd_cq := None \<rparr>"])
            (simp_all add: vams_alloc_queues_def dev_fields_kept_def)
      next
        case b: (Some b)
        then show ?thesis using d null Some False
          by (intro failed [of EFAULT "dev\<lparr> vd_sq := None, vd_sq_dma := a, vd_cq := None, vd_cq_dma := b \<rparr>"])
            (simp_all add: vams_alloc_queues_def dev_fields_kept_def)
      qed
    qed
  qed
qed

end

context xarray_laws
begin

lemma probe_irqs_ok:
  assumes at: "driver_at tab L s0 True True (mapped_res \<union> Q) s" and Q: "Q \<in> {{}, {R_sq, R_cq}}"
    and d: "h_dev s = Some dev" "\<not> vd_removing dev" "vd_capabilities dev AND VAMS_CAP_DMA \<noteq> 0 \<longleftrightarrow> Q \<noteq> {}"
    and no_files: "h_files s0 = Map.empty"
  shows "\<exists>ret s'. probe_irqs k env s = Some (ret, s') \<and> probed tab L s0 ret s'"
proof -
  have Q': "Q \<subseteq> {R_sq, R_cq}" using Q by auto
  let ?v = "hold_res R_vectors s"
  let ?c = "hold_res R_cq_irq ?v"
  let ?a = "hold_res R_async_irq ?c"
  let ?V = "insert R_vectors (mapped_res \<union> Q)"
  have v: "driver_at tab L s0 True True ?V ?v" by (rule hold_res_at [OF at]) simp_all
  have c: "driver_at tab L s0 True True (insert R_cq_irq ?V) ?c" by (rule hold_res_at [OF v]) simp_all
  have a: "driver_at tab L s0 True True (irq_res Q) ?a" by (rule hold_res_at [OF c]) (auto simp: res_defs)
  have l1: "succeeds err_free_queues (driver_at tab L s0 True True (mapped_res \<union> Q)) (unbound tab L s0 {R_pdev})"
    by (rule err_free_queues_ok [OF _ Q']) (auto simp: res_defs)
  have l2: "succeeds err_free_vectors (driver_at tab L s0 True True ?V) (unbound tab L s0 {R_pdev})"
    by (rule err_free_vectors_ok [OF _ Q']) (auto simp: res_defs)
  have l3: "succeeds (err_free_cq_irq k) (driver_at tab L s0 True True (insert R_cq_irq ?V)) (unbound tab L s0 {R_pdev})"
    by (rule err_free_cq_irq_ok [OF _ Q']) (auto simp: res_defs)
  have l4: "succeeds (err_free_async_irq k) (driver_at tab L s0 True True (irq_res Q)) (unbound tab L s0 {R_pdev})"
    by (rule err_free_async_irq_ok [OF _ Q']) (auto simp: res_defs)
  note f1 = fail_to_probed [OF l1 at _ no_files] and f2 = fail_to_probed [OF l2 v _ no_files]
    and f3 = fail_to_probed [OF l3 c _ no_files] and f4 = fail_to_probed [OF l4 a _ no_files]
  have go: "\<exists>ret s'. probe_start k env ?a = Some (ret, s') \<and> probed tab L s0 ret s'"
    by (rule probe_start_ok [OF a Q _ d(2,3) no_files]) (simp add: d(1))
  show ?thesis
  proof (cases "pe_vectors env")
    case (Inl e)
    then show ?thesis using f1 [of "RC_ERR e"] by (simp add: probe_irqs_def)
  next
    case (Inr n)
    then show ?thesis using f2 [of "RC_ERR ENOSPC"] f2 [of "vams_maybe_fail_probe env VAMS_PROBE_AFTER_VECTORS"]
        f2 [of "pe_cq_irq env"] f3 [of "vams_maybe_fail_probe env VAMS_PROBE_AFTER_CQ_IRQ"] f3 [of "pe_async_irq env"]
        f4 [of "vams_maybe_fail_probe env VAMS_PROBE_AFTER_ASYNC_IRQ"] go
      by (simp add: probe_irqs_def Let_def)
  qed
qed

lemma probe_rings_ok:
  assumes at: "driver_at tab L s0 True True mapped_res s" and live: "live_device s" and no_files: "h_files s0 = Map.empty"
  shows "\<exists>ret s'. probe_rings k env s = Some (ret, s') \<and> probed tab L s0 ret s'"
proof -
  obtain dev where d: "h_dev s = Some dev" "\<not> vd_removing dev" using live by (auto simp: live_device_def)
  have l0: "succeeds err_iounmap (driver_at tab L s0 True True mapped_res) (unbound tab L s0 {R_pdev})"
    by (rule err_iounmap_ok) (auto simp: res_defs)
  have l1: "succeeds err_free_queues (driver_at tab L s0 True True (mapped_res \<union> Q)) (unbound tab L s0 {R_pdev})"
    if "Q \<in> {{}, {R_sq, R_cq}}" for Q
    by (rule err_free_queues_ok [where Q = Q]) (use that in \<open>auto simp: res_defs\<close>)
  let ?fail = "vams_maybe_fail_probe env VAMS_PROBE_AFTER_RINGS"
  have rest: "\<exists>ret s'. (if ?fail \<noteq> RC_OK then fail_to err_free_queues ?fail t else probe_irqs k env t) = Some (ret, s') \<and>
      probed tab L s0 ret s'"
    if "driver_at tab L s0 True True (mapped_res \<union> Q) t" "Q \<in> {{}, {R_sq, R_cq}}" "h_dev t = Some dev'" "\<not> vd_removing dev'"
      "vd_capabilities dev' AND VAMS_CAP_DMA \<noteq> 0 \<longleftrightarrow> Q \<noteq> {}" for Q t dev'
  proof (cases "?fail = RC_OK")
    case True
    then show ?thesis using probe_irqs_ok [OF that no_files, of env] by simp
  next
    case False
    then show ?thesis using fail_to_probed [OF l1 [OF that(2)] that(1) False no_files] by simp
  qed
  show ?thesis
  proof (cases "vd_capabilities dev AND VAMS_CAP_DMA = 0")
    case True
    then show ?thesis using rest [of "{}" s dev] at d by (simp add: probe_rings_def Let_def)
  next
    case False
    obtain ret t dev' where t: "vams_alloc_queues (pe_sq_mem env) (pe_cq_mem env) s = Some (ret, t)" "h_dev t = Some dev'"
      "vd_removing dev' = vd_removing dev" "vd_capabilities dev' = vd_capabilities dev"
      "driver_at tab L s0 True True (if ret = RC_OK then mapped_res \<union> {R_sq, R_cq} else mapped_res) t"
      using alloc_queues_at [OF at _ _ d(1), of "pe_sq_mem env" "pe_cq_mem env"] by (auto simp: mapped_res_def)
    have call: "probe_rings k env s = (if ret \<noteq> RC_OK then fail_to err_iounmap ret t
      else if ?fail \<noteq> RC_OK then fail_to err_free_queues ?fail t else probe_irqs k env t)"
      using False d t(1) by (simp add: probe_rings_def Let_def)
    show ?thesis
    proof (cases "ret = RC_OK")
      case True
      then show ?thesis unfolding call using rest [of "{R_sq, R_cq}" t dev'] t d False by simp
    next
      case no: False
      then show ?thesis unfolding call using fail_to_probed [OF l0 _ no no_files, of t] t(5) by simp
    qed
  qed
qed

lemma probe_endpoint_ok:
  assumes at: "driver_at tab L s0 True True mapped_res s" and live: "live_device s" and no_files: "h_files s0 = Map.empty"
  shows "\<exists>ret s'. probe_endpoint k env s = Some (ret, s') \<and> probed tab L s0 ret s'"
proof -
  have io: "R_iomap \<in> mapped_res" by (simp add: mapped_res_def)
  have l0: "succeeds err_iounmap (driver_at tab L s0 True True mapped_res) (unbound tab L s0 {R_pdev})"
    by (rule err_iounmap_ok) (auto simp: res_defs)
  obtain s1 where s1: "vams_mask_interrupts k s = Some s1" "driver_at tab L s0 True True mapped_res s1"
    using succeedsD [OF mask_interrupts_ok [OF io] at] by blast
  obtain s2 where s2: "vams_writel k VAMS_REG_INTR_STATUS VAMS_INTR_ALL s1 = Some s2" "driver_at tab L s0 True True mapped_res s2"
    using succeedsD [OF writel_ok [OF io] s1(2)] by blast
  have "h_dev s2 = h_dev s"
    using s1(1) s2(1) by (auto simp: vams_mask_interrupts_def vams_writel_def vams_readl_def Let_def split: if_splits prod.splits)
  then have "live_device s2" using live by (simp add: live_device_def)
  then obtain ret s3 where s3: "vams_validate_endpoint k s2 = Some (ret, s3)" "driver_at tab L s0 True True mapped_res s3" "live_device s3"
    using validate_at [OF s2(2) io] by blast
  note f0 = fail_to_probed [OF l0 s3(2) _ no_files]
  show ?thesis
    using s1(1) s2(1) s3(1) f0 [of ret] f0 [of "vams_set_dma_mask env"] f0 [of "vams_maybe_fail_probe env VAMS_PROBE_AFTER_DMA_MASK"]
      probe_rings_ok [OF s3(2,3) no_files, of env]
    by (simp add: probe_endpoint_def Let_def)
qed

lemma probe_bar0_ok:
  assumes at: "driver_at tab L s0 True True {R_pdev, R_enabled} s" and live: "live_device s" and no_files: "h_files s0 = Map.empty"
  shows "\<exists>ret s'. probe_bar0 k env s = Some (ret, s') \<and> probed tab L s0 ret s'"
proof -
  let ?r = "hold_res R_region s"
  let ?m = "hold_res R_iomap ?r"
  have r: "driver_at tab L s0 True True {R_pdev, R_enabled, R_region} ?r" by (rule hold_res_at [OF at]) auto
  have m: "driver_at tab L s0 True True mapped_res ?m" by (rule hold_res_at [OF r]) (auto simp: res_defs)
  have l1: "succeeds err_disable_device (driver_at tab L s0 True True {R_pdev, R_enabled}) (unbound tab L s0 {R_pdev})"
    by (rule err_disable_device_ok) (auto simp: res_defs)
  have l2: "succeeds err_release_region (driver_at tab L s0 True True {R_pdev, R_enabled, R_region}) (unbound tab L s0 {R_pdev})"
    by (rule err_release_region_ok) (auto simp: res_defs)
  have l3: "succeeds err_iounmap (driver_at tab L s0 True True mapped_res) (unbound tab L s0 {R_pdev})"
    by (rule err_iounmap_ok) (auto simp: res_defs)
  note f1 = fail_to_probed [OF l1 at _ no_files] and f2 = fail_to_probed [OF l2 r _ no_files]
    and f3 = fail_to_probed [OF l3 m _ no_files]
  have "\<exists>ret s'. probe_endpoint k env ?m = Some (ret, s') \<and> probed tab L s0 ret s'"
    by (rule probe_endpoint_ok [OF m _ no_files]) (simp add: live)
  then show ?thesis
    using f1 [of "RC_ERR ENODEV"] f1 [of "pe_region env"] f2 [of "vams_maybe_fail_probe env VAMS_PROBE_AFTER_REGION"]
      f2 [of "RC_ERR ENOMEM"] f3 [of "vams_maybe_fail_probe env VAMS_PROBE_AFTER_IOMAP"]
    by (simp add: probe_bar0_def Let_def)
qed

lemma new_device_at:
  assumes inv: "dinv tab (L\<lparr> lc_probe := 0 \<rparr>) s" and s: "h_dev s = None" "h_res s = {}"
  shows "driver_at tab L s True True {R_pdev} (hold_res R_pdev (set_dev (new_device k) s))"
proof -
  let ?t = "hold_res R_pdev (set_dev (new_device k) s)"
  note hi = dinv_parts(1) [OF inv]
  have files: "h_files s = Map.empty" using hi s(1) by (simp add: hinv_def device_ok_def)
  have empty: "tab (vd_requests (new_device k)) = Map.empty" by (simp add: new_device_def tab_empty)
  have holders: "req_dev tab ?t r = {}" "req_dev tab s r = {}" "req_file tab ?t r = req_file tab s r" "map_file tab ?t m = map_file tab s m"
    "map_source ?t m = map_source s m" "map_destination ?t m = map_destination s m" "file_owned ?t f = file_owned s f" for r m f
    using s(1) empty by (simp_all add: holder_defs hold_res_def set_dev_def)
  have same: "h_requests ?t = h_requests s" "h_mappings ?t = h_mappings s" "h_files ?t = h_files s" "h_pinned ?t = h_pinned s"
    "h_dma_maps ?t = h_dma_maps s" "h_dev ?t = Some (new_device k)" "h_res ?t = {R_pdev}"
    using s by (simp_all add: hold_res_def set_dev_def)
  have "hinv tab (L\<lparr> lc_probe := 1 \<rparr>) ?t"
  proof (rule hinvI)
    show "requests_ok tab (L\<lparr> lc_probe := 1 \<rparr>) ?t"
    proof -
      have "requests_ok tab (L\<lparr> lc_probe := 1 \<rparr>) ?t = requests_ok tab (L\<lparr> lc_probe := 0 \<rparr>) s"
        unfolding requests_ok_def same holders by simp
      then show ?thesis using hinv_parts(1) [OF hi] by simp
    qed
    show "mappings_ok tab (L\<lparr> lc_probe := 1 \<rparr>) ?t"
    proof -
      have "mappings_ok tab (L\<lparr> lc_probe := 1 \<rparr>) ?t = mappings_ok tab (L\<lparr> lc_probe := 0 \<rparr>) s"
        unfolding mappings_ok_def same holders by simp
      then show ?thesis using hinv_parts(2) [OF hi] by simp
    qed
    show "files_ok tab (L\<lparr> lc_probe := 1 \<rparr>) ?t"
    proof -
      have "files_ok tab (L\<lparr> lc_probe := 1 \<rparr>) ?t = files_ok tab (L\<lparr> lc_probe := 0 \<rparr>) s"
        unfolding files_ok_def same holders by simp
      then show ?thesis using hinv_parts(3) [OF hi] by simp
    qed
    show "device_ok tab (L\<lparr> lc_probe := 1 \<rparr>) ?t"
      unfolding device_ok_def same using files by (simp add: new_device_def)
    show "tables_ok tab ?t"
      using hinv_parts(5) [OF hi] unfolding tables_ok_def same holders by simp
    show "pages_ok ?t" using hinv_parts(6) [OF hi] unfolding pages_ok_def same .
  qed
  moreover have "rings_ok tab ?t"
    by (rule rings_okI [OF same(6)]) (simp_all add: same(7), simp_all add: new_device_def tab_empty VAMS_QUEUE_DEPTH_def)
  moreover have "ready_ok tab ?t" by (rule ready_ok_same [OF dinv_parts(3) [OF inv]]) (simp_all add: same)
  ultimately have "dinv tab (L\<lparr> lc_probe := 1 \<rparr>) ?t" by (simp add: dinv_def)
  moreover have "driver_kept s ?t" using s(1) same(3) by (simp add: driver_kept_def)
  moreover have "\<not> vd_queues_ready (new_device k)" by (simp add: new_device_def)
  ultimately show ?thesis using same(6,7) empty by (simp add: driver_at_def)
qed

lemma probe_ok:
  assumes inv: "dinv tab (L\<lparr> lc_probe := 0 \<rparr>) s" and s: "h_dev s = None" "h_res s = {}"
  shows "\<exists>ret s'. vams_probe k env s = Some (ret, s') \<and> probed tab L s ret s'"
proof -
  have no_files: "h_files s = Map.empty" using dinv_parts(1) [OF inv] s(1) by (simp add: hinv_def device_ok_def)
  let ?n = "hold_res R_pdev (set_dev (new_device k) s)"
  let ?e = "hold_res R_enabled ?n"
  have n: "driver_at tab L s True True {R_pdev} ?n" by (rule new_device_at [OF inv s])
  have e: "driver_at tab L s True True {R_pdev, R_enabled} ?e" by (rule hold_res_at [OF n]) auto
  have l0: "succeeds err_free_device (driver_at tab L s True True {R_pdev}) (unbound tab L s {R_pdev})"
    unfolding err_free_device_def by (rule device_put_ok) (simp add: kept_res_def)
  have l1: "succeeds err_disable_device (driver_at tab L s True True {R_pdev, R_enabled}) (unbound tab L s {R_pdev})"
    by (rule err_disable_device_ok) (auto simp: res_defs)
  have "live_device ?e" by (simp add: live_device_def set_dev_def new_device_def)
  note go = probe_bar0_ok [OF e this no_files, of env]
  show ?thesis
  proof (cases "pe_vdev env")
    case False
    then show ?thesis using inv s no_files by (simp add: vams_probe_def probed_def)
  next
    case True
    then show ?thesis
      using fail_to_probed [OF l0 n _ no_files, of "pe_enable env"]
        fail_to_probed [OF l1 e _ no_files, of "vams_maybe_fail_probe env VAMS_PROBE_AFTER_ENABLE"] go
      by (simp add: vams_probe_def Let_def)
  qed
qed

end

end
