(* ===== verification/Vams_Pci_System.thy ===== *)
theory Vams_Pci_System
  imports Vams_Pci_Probe
begin

text \<open>
  The host driver as a whole (\<open>kernel/vams_pci.c\<close>): any interleaving of binding, calls of any number
  of threads on any number of open files, interrupts, work items, the actions of the device, and
  unbinding. An event runs one piece of driver code to completion; \<open>exec\<close> is \<open>None\<close> when it faults.
  \<open>enabled\<close> says when the kernel can run it: which thread is free, which lock is held, whether the
  interrupt is requested.
\<close>

subsection \<open>Events\<close>

text \<open>
  The state: the driver, the calls in progress by thread with their file, the open files, and whether
  the driver is bound to the device.
\<close>

record ('w, 'x) system =
  sy_host :: "('w, 'x) host"
  sy_calls :: "nat \<Rightarrow> (ref \<times> call_point) option"
  sy_open :: "ref set"
  sy_bound :: bool

datatype 'w event =
    E_Probe probe_env
  | E_Open "ref option"
  | E_Call nat ref ioctl_call
  | E_Resume nat bool bool
  | E_Poll ref
  | E_Release ref
  | E_Cq_Irq
  | E_Async_Irq
  | E_Poll_Work
  | E_Reset_Work
  | E_Device 'w "vams_completion list"
  | E_Remove_Begin
  | E_Remove_Rest

definition idle_host :: "'w \<Rightarrow> ('w, 'x) host" where
  "idle_host w = \<lparr> h_w = w, h_dev = None, h_requests = Map.empty, h_mappings = Map.empty, h_files = Map.empty,
     h_pinned = 0, h_dma_maps = 0, h_unpinned = [], h_res = {} \<rparr>"

definition idle_system :: "'w \<Rightarrow> ('w, 'x) system" where
  "idle_system w = \<lparr> sy_host = idle_host w, sy_calls = Map.empty, sy_open = {}, sy_bound = False \<rparr>"

text \<open>A submission holds the lock of its file until it has copied its result.\<close>

definition locked :: "('w, 'x) system \<Rightarrow> ref \<Rightarrow> bool" where
  "locked y f \<longleftrightarrow> (\<exists>t r input. sy_calls y t = Some (f, In_Submit r input))"

text \<open>
  The kernel hands out unused memory, takes a file away only when no call uses it, and runs a work
  item when it is scheduled. The device writes the completion ring while it is bus master.
\<close>

definition enabled :: "'w event \<Rightarrow> ('w, 'x) system \<Rightarrow> bool" where
  "enabled ev y \<longleftrightarrow>
     (let s = sy_host y in
      case ev of
        E_Probe env \<Rightarrow> \<not> sy_bound y \<and> h_dev s = None
      | E_Open al \<Rightarrow> R_misc \<in> h_res s \<and> (\<forall>f. al = Some f \<longrightarrow> h_files s f = None)
      | E_Call t f call \<Rightarrow> sy_calls y t = None \<and> f \<in> sy_open y \<and> fresh_call call s \<and> (locks_file call \<longrightarrow> \<not> locked y f)
      | E_Resume t interrupted copied \<Rightarrow>
          (case sy_calls y t of
             None \<Rightarrow> False
           | Some (f, In_Wait r output) \<Rightarrow> resume_locks (In_Wait r output) s \<longrightarrow> \<not> locked y f
           | _ \<Rightarrow> True)
      | E_Poll f \<Rightarrow> f \<in> sy_open y
      | E_Release f \<Rightarrow> f \<in> sy_open y \<and> (\<forall>t p. sy_calls y t \<noteq> Some (f, p))
      | E_Cq_Irq \<Rightarrow> R_cq_irq \<in> h_res s
      | E_Async_Irq \<Rightarrow> R_async_irq \<in> h_res s
      | E_Poll_Work \<Rightarrow> sy_bound y \<and> (\<exists>dev. h_dev s = Some dev \<and> vd_cq_poll_work dev)
      | E_Reset_Work \<Rightarrow> sy_bound y \<and> (\<exists>dev. h_dev s = Some dev \<and> vd_reset_work dev)
      | E_Device w cq \<Rightarrow> R_master \<in> h_res s \<and> length cq = unat VAMS_QUEUE_DEPTH
      | E_Remove_Begin \<Rightarrow> sy_bound y
      | E_Remove_Rest \<Rightarrow> sy_bound y \<and> (\<exists>dev. h_dev s = Some dev \<and> vd_removing dev))"

definition device_writes :: "'w \<Rightarrow> vams_completion list \<Rightarrow> ('w, 'x) host \<Rightarrow> ('w, 'x) host" where
  "device_writes w cq s = s\<lparr> h_w := w, h_dev := map_option (\<lambda>dev. dev\<lparr> vd_cq := map_option (\<lambda>_. cq) (vd_cq dev) \<rparr>) (h_dev s) \<rparr>"

definition in_host :: "('w, 'x) system \<Rightarrow> ('w, 'x) host option \<Rightarrow> ('w, 'x) system option" where
  "in_host y result = map_option (\<lambda>s. y\<lparr> sy_host := s \<rparr>) result"

definition exec :: "('w, 'x) linux \<Rightarrow> 'w event \<Rightarrow> ('w, 'x) system \<Rightarrow> ('w, 'x) system option" where
  "exec k ev y =
     (let s = sy_host y in
      case ev of
        E_Probe env \<Rightarrow> do { (ret, s) \<leftarrow> vams_probe k env s; Some (y\<lparr> sy_host := s, sy_bound := (ret = RC_OK) \<rparr>) }
      | E_Open al \<Rightarrow> do {
          (ret, s) \<leftarrow> vams_open k al s;
          Some (y\<lparr> sy_host := s, sy_open := (if ret = RC_OK then sy_open y \<union> set_option al else sy_open y) \<rparr>) }
      | E_Call t f call \<Rightarrow> do {
          (point, s) \<leftarrow> vams_ioctl k f call s;
          Some (y\<lparr> sy_host := s, sy_calls := (case point of
            Returned ret \<Rightarrow> sy_calls y | _ \<Rightarrow> (sy_calls y)(t \<mapsto> (f, point))) \<rparr>) }
      | E_Resume t interrupted copied \<Rightarrow> do {
          (f, point) \<leftarrow> sy_calls y t;
          (ret, s) \<leftarrow> resume_call k interrupted copied f point s;
          Some (y\<lparr> sy_host := s, sy_calls := (sy_calls y)(t := None) \<rparr>) }
      | E_Poll f \<Rightarrow> do { (events, s) \<leftarrow> vams_poll k f s; Some (y\<lparr> sy_host := s \<rparr>) }
      | E_Release f \<Rightarrow> do { s \<leftarrow> vams_release k f s; Some (y\<lparr> sy_host := s, sy_open := sy_open y - {f} \<rparr>) }
      | E_Cq_Irq \<Rightarrow> do { (v, s) \<leftarrow> vams_cq_irq k s; Some (y\<lparr> sy_host := s \<rparr>) }
      | E_Async_Irq \<Rightarrow> do { (v, s) \<leftarrow> vams_async_irq k s; Some (y\<lparr> sy_host := s \<rparr>) }
      | E_Poll_Work \<Rightarrow> in_host y (vams_cq_poll_work k s)
      | E_Reset_Work \<Rightarrow> in_host y (vams_reset_work k s)
      | E_Device w cq \<Rightarrow> Some (y\<lparr> sy_host := device_writes w cq s \<rparr>)
      | E_Remove_Begin \<Rightarrow> in_host y (set_removing s)
      | E_Remove_Rest \<Rightarrow> do { s \<leftarrow> remove_rest k s; Some (y\<lparr> sy_host := s, sy_bound := False \<rparr>) })"

inductive reachable :: "('w, 'x) linux \<Rightarrow> ('w, 'x) system \<Rightarrow> bool" for k where
  reach_idle: "reachable k (idle_system w)"
| reach_step: "reachable k y \<Longrightarrow> enabled ev y \<Longrightarrow> exec k ev y = Some y' \<Longrightarrow> reachable k y'"

inductive_cases reachableE: "reachable k y"

subsection \<open>The invariant\<close>

definition point_ref :: "call_point \<Rightarrow> ref option" where
  "point_ref point = (case point of In_Nop r nop \<Rightarrow> Some r | In_Wait r output \<Rightarrow> Some r | _ \<Rightarrow> None)"

definition waiting :: "('w, 'x) system \<Rightarrow> ref \<Rightarrow> nat set" where
  "waiting y r = {t. \<exists>f point. sy_calls y t = Some (f, point) \<and> point_ref point = Some r}"

definition locals_of :: "('w, 'x) system \<Rightarrow> locals" where
  "locals_of y = \<lparr> lc_requests = (\<lambda>r. card (waiting y r)), lc_mappings = (\<lambda>m. 0), lc_files = (\<lambda>f. 0),
     lc_open = (\<lambda>f. f \<in> sy_open y), lc_probe = of_bool (sy_bound y) \<rparr>"

definition calls_ok :: "('x \<Rightarrow> u32 \<Rightarrow> ref option) \<Rightarrow> ('w, 'x) system \<Rightarrow> bool" where
  "calls_ok tab y \<longleftrightarrow> finite (dom (sy_calls y)) \<and>
     (\<forall>t f point. sy_calls y t = Some (f, point) \<longrightarrow> f \<in> sy_open y \<and> point_ok tab f point (sy_host y)) \<and>
     (\<forall>t t' f r r' input input'. sy_calls y t = Some (f, In_Submit r input) \<longrightarrow>
        sy_calls y t' = Some (f, In_Submit r' input') \<longrightarrow> t = t')"

definition binding_ok :: "bool \<Rightarrow> ('w, 'x) host \<Rightarrow> bool" where
  "binding_ok bound s \<longleftrightarrow>
     (if bound then h_dev s \<noteq> None \<and> (\<exists>Q \<in> {{}, {R_sq, R_cq}}. h_res s = bound_res Q)
      else h_res s = (if h_dev s = None then {} else kept_res) \<and> (\<forall>dev. h_dev s = Some dev \<longrightarrow> vd_removing dev))"

definition sys_inv :: "('x \<Rightarrow> u32 \<Rightarrow> ref option) \<Rightarrow> ('w, 'x) system \<Rightarrow> bool" where
  "sys_inv tab y \<longleftrightarrow> dinv tab (locals_of y) (sy_host y) \<and> calls_ok tab y \<and> binding_ok (sy_bound y) (sy_host y)"

lemma sys_invD:
  assumes "sys_inv tab y"
  shows "dinv tab (locals_of y) (sy_host y)" "calls_ok tab y" "binding_ok (sy_bound y) (sy_host y)"
  using assms by (simp_all add: sys_inv_def)

lemma bound_res_members:
  "R_iomap \<in> bound_res Q" "R_cq_irq \<in> bound_res Q" "R_misc \<in> bound_res Q"
  by (simp_all add: res_defs)

lemma binding_okD:
  assumes "binding_ok bound s" "r \<in> h_res s" "r \<notin> kept_res"
  shows "bound" "\<exists>dev. h_dev s = Some dev" "\<exists>Q \<in> {{}, {R_sq, R_cq}}. h_res s = bound_res Q"
  using assms by (auto simp: binding_ok_def split: if_splits)

lemma binding_ok_sframe:
  assumes ok: "binding_ok bound s" and fr: "sframe A s s'" and dev: "bound \<Longrightarrow> h_dev s' \<noteq> None"
  shows "binding_ok bound s'"
proof (cases bound)
  case True
  then show ?thesis using ok fr dev by (auto simp: binding_ok_def sframe_def)
next
  case False
  have "h_res s' = (if h_dev s' = None then {} else kept_res)"
    using ok fr False by (cases "h_dev s'"; cases "h_dev s") (auto simp: binding_ok_def sframe_def kept_res_def)
  moreover have "vd_removing dev'" if "h_dev s' = Some dev'" for dev'
    using ok fr False that by (auto simp: binding_ok_def sframe_def)
  ultimately show ?thesis using False by (simp add: binding_ok_def)
qed

lemma point_ok_files:
  assumes p: "point_ok tab f point s" and f: "h_files s' f = Some fl'"
    and same: "\<And>fl. h_files s f = Some fl \<Longrightarrow> vf_requests fl' = vf_requests fl"
  shows "point_ok tab f point s'"
  using p f same by (fastforce simp: point_ok_def req_file_def split: call_point.splits)

lemma locals_of_fields [simp]:
  "lc_open (locals_of y) f \<longleftrightarrow> f \<in> sy_open y" "lc_probe (locals_of y) = of_bool (sy_bound y)"
  "lc_requests (locals_of y) r = card (waiting y r)"
  by (simp_all add: locals_of_def)

lemma locals_of_host [simp]: "locals_of (y\<lparr> sy_host := s \<rparr>) = locals_of y"
  by (simp add: locals_of_def waiting_def)

lemma waiting_finite: "finite (dom (sy_calls y)) \<Longrightarrow> finite (waiting y r)"
  by (rule finite_subset [of _ "dom (sy_calls y)"]) (auto simp: waiting_def)

lemma locals_of_call:
  assumes fin: "finite (dom (sy_calls y))" and t: "sy_calls y t = None"
  shows "locals_of (y\<lparr> sy_calls := (sy_calls y)(t \<mapsto> (f, point)) \<rparr>) = hold point (locals_of y)"
proof -
  let ?y = "y\<lparr> sy_calls := (sy_calls y)(t \<mapsto> (f, point)) \<rparr>"
  have w: "waiting ?y r = (if point_ref point = Some r then insert t (waiting y r) else waiting y r)" for r
    using t by (auto simp: waiting_def)
  have "t \<notin> waiting y r" for r using t by (simp add: waiting_def)
  then have "card (waiting ?y r) = card (waiting y r) + of_bool (point_ref point = Some r)" for r
    using waiting_finite [OF fin, of r] by (simp add: w)
  then show ?thesis
    by (cases point) (simp_all add: locals_of_def hold_def add_request_def point_ref_def fun_eq_iff eq_commute)
qed

lemma hold_returned [simp]: "hold (Returned ret) L = L"
  by (simp add: hold_def)

lemma ioctl_submits: "vams_ioctl k f call s = Some (In_Submit r input, s') \<Longrightarrow> locks_file call"
  by (cases call) (auto simp: vams_ioctl_def continue_at_def locks_file_def bind_eq_Some_conv split: sum.splits, metis sumE)

context xarray_laws
begin

lemma open_live:
  assumes "dinv tab L s" "lc_open L f"
  shows "h_files s f \<noteq> None"
  using file_live [OF dinv_parts(1) [OF assms(1)], of f] assms(2) by fastforce

lemma calls_ok_host:
  assumes ok: "calls_ok tab y" and fr: "sframe A (sy_host y) s'" and lock: "\<And>f. f \<in> A \<Longrightarrow> \<not> locked y f"
    and live: "\<And>t f p. sy_calls y t = Some (f, p) \<Longrightarrow> h_files s' f \<noteq> None"
  shows "calls_ok tab (y\<lparr> sy_host := s' \<rparr>)"
proof -
  have "point_ok tab f point s'" if c: "sy_calls y t = Some (f, point)" for t f point
  proof (cases "\<exists>r input. point = In_Submit r input")
    case False
    then show ?thesis by (cases point) (simp_all add: point_ok_def)
  next
    case True
    then have "f \<notin> A" using c lock unfolding locked_def by blast
    moreover obtain fl' where f': "h_files s' f = Some fl'" using live [OF c] by blast
    ultimately have "\<And>fl. h_files (sy_host y) f = Some fl \<Longrightarrow> vf_requests fl' = vf_requests fl"
      using fr by (fastforce simp: sframe_def)
    moreover have "point_ok tab f point (sy_host y)" using ok c by (simp add: calls_ok_def)
    ultimately show ?thesis using point_ok_files f' by blast
  qed
  then show ?thesis using ok by (simp add: calls_ok_def)
qed

lemma bound_device:
  assumes "dinv tab L s" "0 < lc_probe L"
  shows "h_dev s \<noteq> None"
  using device_live [OF dinv_parts(1) [OF assms(1)]] assms(2) by fastforce

lemma host_step:
  assumes inv: "sys_inv tab y" and d: "dinv tab (locals_of y) s'" and fr: "sframe A (sy_host y) s'"
    and lock: "\<And>f. f \<in> A \<Longrightarrow> \<not> locked y f"
  shows "sys_inv tab (y\<lparr> sy_host := s' \<rparr>)"
proof -
  have "calls_ok tab (y\<lparr> sy_host := s' \<rparr>)"
  proof (rule calls_ok_host [OF sys_invD(2) [OF inv] fr lock])
    fix t f p assume "sy_calls y t = Some (f, p)"
    then show "h_files s' f \<noteq> None" using sys_invD(2) [OF inv] open_live [OF d, of f] by (simp add: calls_ok_def)
  qed
  moreover have "binding_ok (sy_bound y) s'"
    by (rule binding_ok_sframe [OF sys_invD(3) [OF inv] fr]) (use bound_device [OF d] in simp)
  ultimately show ?thesis using d by (simp add: sys_inv_def)
qed

lemma call_bound:
  assumes "sys_inv tab y" "h_dev (sy_host y) = Some dev"
  shows "0 < lc_probe (locals_of y) \<or> vd_removing dev"
  using sys_invD(3) [OF assms(1)] assms(2) by (auto simp: binding_ok_def split: if_splits)

lemma call_step:
  assumes inv: "sys_inv tab y" and t: "sy_calls y t = None" and f: "f \<in> sy_open y" and fresh: "fresh_call call (sy_host y)"
    and lock: "locks_file call \<Longrightarrow> \<not> locked y f"
  shows "\<exists>y'. exec k (E_Call t f call) y = Some y' \<and> sys_inv tab y'"
proof -
  note d = sys_invD(1) [OF inv] and c = sys_invD(2) [OF inv]
  have op: "lc_open (locals_of y) f" using f by simp
  obtain point s' where s': "vams_ioctl k f call (sy_host y) = Some (point, s')" "dinv tab (hold point (locals_of y)) s'"
    "sframe (touched (locks_file call) f) (sy_host y) s'" "point_ok tab f point s'"
    using ioctl_ok [OF d op fresh call_bound [OF inv]] by blast
  let ?calls = "case point of Returned ret \<Rightarrow> sy_calls y | _ \<Rightarrow> (sy_calls y)(t \<mapsto> (f, point))"
  let ?y = "y\<lparr> sy_host := s', sy_calls := ?calls \<rparr>"
  have run: "exec k (E_Call t f call) y = Some ?y" using s'(1) by (simp add: exec_def)
  have fin: "finite (dom (sy_calls y))" using c by (simp add: calls_ok_def)
  have "locals_of ?y = hold point (locals_of y)"
    using locals_of_call [OF fin t, of f point] by (cases point) (simp_all add: locals_of_def waiting_def)
  then have d': "dinv tab (locals_of ?y) s'" using s'(2) by simp
  have live: "h_files s' g \<noteq> None" if "g \<in> sy_open y" for g using open_live [OF d', of g] that by simp
  have c1: "calls_ok tab (y\<lparr> sy_host := s' \<rparr>)"
    by (rule calls_ok_host [OF c s'(3)]) (use lock c live in \<open>auto simp: touched_def calls_ok_def split: if_splits\<close>)
  have c': "calls_ok tab ?y"
  proof (cases "\<exists>ret. point = Returned ret")
    case True
    then show ?thesis using c1 by auto
  next
    case False
    then have calls: "?calls = (sy_calls y)(t \<mapsto> (f, point))" by (cases point) auto
    have sub: "t' = t" if "sy_calls y t' = Some (f, In_Submit r' input')" "point = In_Submit r input" for t' r' input' r input
      using ioctl_submits s'(1) lock that unfolding locked_def by blast
    show ?thesis unfolding calls_ok_def calls using c1 f s'(4) sub by (auto simp: calls_ok_def)
  qed
  moreover have "binding_ok (sy_bound y) s'"
    by (rule binding_ok_sframe [OF sys_invD(3) [OF inv] s'(3)]) (use bound_device [OF d'] in simp)
  ultimately show ?thesis using run d' by (simp add: sys_inv_def)
qed

end

lemma point_ok_set_dev [simp]: "point_ok tab f point (set_dev dev s) = point_ok tab f point s"
  by (cases point) (simp_all add: point_ok_def req_file_def set_dev_def)

lemma calls_ok_sub:
  assumes ok: "calls_ok tab y" and sub: "\<And>t x. c t = Some x \<Longrightarrow> sy_calls y t = Some x"
    and op: "\<And>t f p. c t = Some (f, p) \<Longrightarrow> f \<in> A"
  shows "calls_ok tab (y\<lparr> sy_calls := c, sy_open := A \<rparr>)"
proof -
  have "dom c \<subseteq> dom (sy_calls y)" using sub by blast
  then have fin: "finite (dom c)" using ok finite_subset by (auto simp: calls_ok_def)
  have point: "point_ok tab f p (sy_host y)" if "c t = Some (f, p)" for t f p
    using ok sub [OF that] unfolding calls_ok_def by blast
  have lock: "t = t'" if "c t = Some (f, In_Submit r input)" "c t' = Some (f, In_Submit r' input')" for t t' f r r' input input'
    using ok sub [OF that(1)] sub [OF that(2)] unfolding calls_ok_def by blast
  show ?thesis unfolding calls_ok_def using fin point lock op by simp
qed

context xarray_laws
begin

lemma resume_step:
  assumes inv: "sys_inv tab y" and c: "sy_calls y t = Some (f, point)"
    and lock: "\<And>t' r input. t' \<noteq> t \<Longrightarrow> resume_locks point (sy_host y) \<Longrightarrow> sy_calls y t' \<noteq> Some (f, In_Submit r input)"
  shows "\<exists>y'. exec k (E_Resume t interrupted copied) y = Some y' \<and> sys_inv tab y'"
proof -
  let ?z = "y\<lparr> sy_calls := (sy_calls y)(t := None) \<rparr>"
  note d = sys_invD(1) [OF inv] and ok = sys_invD(2) [OF inv]
  have f: "f \<in> sy_open y" and p: "point_ok tab f point (sy_host y)" using ok c unfolding calls_ok_def by blast+
  have fin: "finite (dom (sy_calls ?z))" using ok by (simp add: calls_ok_def)
  have "(sy_calls ?z)(t \<mapsto> (f, point)) = sy_calls y" using c by (auto simp: fun_eq_iff)
  then have eq: "?z\<lparr> sy_calls := (sy_calls ?z)(t \<mapsto> (f, point)) \<rparr> = y" by simp
  have zt: "sy_calls ?z t = None" by simp
  have loc: "locals_of y = hold point (locals_of ?z)" using locals_of_call [OF fin zt, of f point] unfolding eq .
  have op: "lc_open (locals_of ?z) f" using f by simp
  obtain ret s' where s': "resume_call k interrupted copied f point (sy_host y) = Some (ret, s')" "dinv tab (locals_of ?z) s'"
    "sframe (touched (resume_locks point (sy_host y)) f) (sy_host y) s'"
    using resume_ok [OF d [unfolded loc] op p] by blast
  let ?y = "?z\<lparr> sy_host := s' \<rparr>"
  have run: "exec k (E_Resume t interrupted copied) y = Some ?y" using s'(1) c by (simp add: exec_def)
  have "calls_ok tab (y\<lparr> sy_calls := (sy_calls y)(t := None), sy_open := sy_open y \<rparr>)"
    by (rule calls_ok_sub [OF ok]) (use ok in \<open>auto simp: calls_ok_def split: if_splits\<close>)
  then have okz: "calls_ok tab ?z" by simp
  have "calls_ok tab ?y"
  proof (rule calls_ok_host [OF okz, of "touched (resume_locks point (sy_host y)) f"])
    show "sframe (touched (resume_locks point (sy_host y)) f) (sy_host ?z) s'" using s'(3) by simp
    show "\<not> locked ?z g" if "g \<in> touched (resume_locks point (sy_host y)) f" for g
    proof -
      have "g = f" "resume_locks point (sy_host y)" using that by (simp_all add: touched_def split: if_splits)
      then have "sy_calls ?z t' \<noteq> Some (g, In_Submit r input)" for t' r input using lock [of t'] by simp
      then show ?thesis unfolding locked_def by blast
    qed
    show "h_files s' g \<noteq> None" if "sy_calls ?z t' = Some (g, q)" for t' g q
    proof -
      have "g \<in> sy_open ?z" using okz that unfolding calls_ok_def by blast
      then show ?thesis using open_live [OF s'(2), of g] by simp
    qed
  qed
  moreover have "binding_ok (sy_bound y) s'"
    by (rule binding_ok_sframe [OF sys_invD(3) [OF inv] s'(3)]) (use bound_device [OF s'(2)] in simp)
  ultimately have "sys_inv tab ?y" using s'(2) by (simp add: sys_inv_def)
  then show ?thesis using run by blast
qed

lemma open_step:
  assumes inv: "sys_inv tab y" and misc: "R_misc \<in> h_res (sy_host y)" and fresh: "\<And>f. al = Some f \<Longrightarrow> h_files (sy_host y) f = None"
  shows "\<exists>y'. exec k (E_Open al) y = Some y' \<and> sys_inv tab y'"
proof -
  note d = sys_invD(1) [OF inv] and c = sys_invD(2) [OF inv]
  have bound: "sy_bound y" using binding_okD(1) [OF sys_invD(3) [OF inv] misc] by (simp add: kept_res_def)
  obtain dev where dev: "h_dev (sy_host y) = Some dev" using binding_okD(2) [OF sys_invD(3) [OF inv] misc] by (auto simp: kept_res_def)
  obtain ret s' where s': "vams_open k al (sy_host y) = Some (ret, s')" "sframe (set_option al) (sy_host y) s'"
    "if ret = RC_OK then \<exists>f. al = Some f \<and> dinv tab (open_file f (locals_of y)) s' \<and> \<not> vd_removing dev else s' = sy_host y"
    using open_ok [OF d dev fresh] by blast
  show ?thesis
  proof (cases "ret = RC_OK")
    case False
    then show ?thesis using s' inv by (simp add: exec_def)
  next
    case True
    then obtain f where f: "al = Some f" "dinv tab (open_file f (locals_of y)) s'" using s'(3) by auto
    let ?z = "y\<lparr> sy_open := insert f (sy_open y) \<rparr>"
    let ?y = "?z\<lparr> sy_host := s' \<rparr>"
    have "locals_of ?y = open_file f (locals_of y)" by (auto simp: locals_of_def open_file_def waiting_def fun_eq_iff)
    then have d': "dinv tab (locals_of ?y) s'" using f by simp
    have "calls_ok tab (y\<lparr> sy_calls := sy_calls y, sy_open := insert f (sy_open y) \<rparr>)"
      by (rule calls_ok_sub [OF c]) (use c in \<open>auto simp: calls_ok_def\<close>)
    then have okz: "calls_ok tab ?z" by simp
    have unused: "sy_calls y t \<noteq> Some (f, p)" for t p
      using c open_live [OF d, of f] fresh [OF f(1)] by (auto simp: calls_ok_def)
    have "calls_ok tab ?y"
    proof (rule calls_ok_host [OF okz, of "{f}"])
      show "sframe {f} (sy_host ?z) s'" using s'(2) f by simp
      show "\<not> locked ?z g" if "g \<in> {f}" for g using that unused by (auto simp: locked_def)
      show "h_files s' g \<noteq> None" if "sy_calls ?z t = Some (g, q)" for t g q
        using open_live [OF d', of g] okz that by (simp add: calls_ok_def)
    qed
    moreover have "binding_ok (sy_bound y) s'"
      by (rule binding_ok_sframe [OF sys_invD(3) [OF inv] s'(2)]) (use bound_device [OF d'] in simp)
    ultimately have "sys_inv tab ?y" using d' by (simp add: sys_inv_def)
    moreover have "exec k (E_Open al) y = Some ?y" using s'(1) f True by (simp add: exec_def)
    ultimately show ?thesis by blast
  qed
qed

lemma release_step:
  assumes inv: "sys_inv tab y" and f: "f \<in> sy_open y" and free: "\<And>t p. sy_calls y t \<noteq> Some (f, p)"
  shows "\<exists>y'. exec k (E_Release f) y = Some y' \<and> sys_inv tab y'"
proof -
  note d = sys_invD(1) [OF inv] and c = sys_invD(2) [OF inv]
  have op: "lc_open (locals_of y) f" using f by simp
  obtain s' where s': "vams_release k f (sy_host y) = Some s'" "dinv tab (close_file f (locals_of y)) s'" "sframe {f} (sy_host y) s'"
    by (rule release_ok [OF d op])
  let ?z = "y\<lparr> sy_open := sy_open y - {f} \<rparr>"
  let ?y = "?z\<lparr> sy_host := s' \<rparr>"
  have "locals_of ?y = close_file f (locals_of y)" by (auto simp: locals_of_def close_file_def waiting_def fun_eq_iff)
  then have d': "dinv tab (locals_of ?y) s'" using s'(2) by simp
  have "calls_ok tab (y\<lparr> sy_calls := sy_calls y, sy_open := sy_open y - {f} \<rparr>)"
    by (rule calls_ok_sub [OF c]) (use c free in \<open>auto simp: calls_ok_def\<close>)
  then have okz: "calls_ok tab ?z" by simp
  have "calls_ok tab ?y"
  proof (rule calls_ok_host [OF okz, of "{f}"])
    show "sframe {f} (sy_host ?z) s'" using s'(3) by simp
    show "\<not> locked ?z g" if "g \<in> {f}" for g using that free by (auto simp: locked_def)
    show "h_files s' g \<noteq> None" if "sy_calls ?z t = Some (g, q)" for t g q
      using open_live [OF d', of g] okz that by (simp add: calls_ok_def)
  qed
  moreover have "binding_ok (sy_bound y) s'"
    by (rule binding_ok_sframe [OF sys_invD(3) [OF inv] s'(3)]) (use bound_device [OF d'] in simp)
  ultimately have "sys_inv tab ?y" using d' by (simp add: sys_inv_def)
  moreover have "exec k (E_Release f) y = Some ?y" using s'(1) by (simp add: exec_def)
  ultimately show ?thesis by blast
qed

lemma device_step:
  assumes inv: "sys_inv tab y" and len: "length cq = unat VAMS_QUEUE_DEPTH" and m: "R_master \<in> h_res (sy_host y)"
  shows "sys_inv tab (y\<lparr> sy_host := device_writes w cq (sy_host y) \<rparr>)"
proof -
  let ?s = "sy_host y"
  note d = sys_invD(1) [OF inv]
  obtain dev where dev: "h_dev ?s = Some dev" using binding_okD(2) [OF sys_invD(3) [OF inv] m] by (auto simp: kept_res_def)
  let ?d = "dev\<lparr> vd_cq := map_option (\<lambda>_. cq) (vd_cq dev) \<rparr>"
  let ?t = "(set_dev ?d ?s)\<lparr> h_w := w \<rparr>"
  have t: "device_writes w cq ?s = ?t" using dev by (simp add: device_writes_def set_dev_def)
  have "hinv tab (locals_of y) (set_dev ?d ?s)" by (rule set_dev_fields_hinv [OF dinv_parts(1) [OF d] dev]) simp_all
  moreover have "rings_ok tab (set_dev ?d ?s)"
    using rings_okD [OF dinv_parts(2) [OF d] dev] len by (intro rings_okI [where dev = ?d]) (auto simp: set_dev_def)
  moreover have "ready_ok tab (set_dev ?d ?s)" by (rule ready_ok_same [OF dinv_parts(3) [OF d]]) (simp_all add: set_dev_def)
  ultimately have "dinv tab (locals_of y) (set_dev ?d ?s)" by (simp add: dinv_def)
  then have "dinv tab (locals_of y) ?t" by simp
  moreover have "sframe {} ?s ?t" using dev by (simp add: sframe_def set_dev_def)
  ultimately show ?thesis unfolding t by (rule host_step [OF inv]) simp
qed

lemma probe_step:
  assumes inv: "sys_inv tab y" and bound: "\<not> sy_bound y" and none: "h_dev (sy_host y) = None"
  shows "\<exists>y'. exec k (E_Probe env) y = Some y' \<and> sys_inv tab y'"
proof -
  let ?s = "sy_host y"
  note d = sys_invD(1) [OF inv] and c = sys_invD(2) [OF inv]
  have loc: "(locals_of y)\<lparr> lc_probe := 0 \<rparr> = locals_of y" using bound by (simp add: locals_of_def)
  have res: "h_res ?s = {}" using sys_invD(3) [OF inv] bound none by (simp add: binding_ok_def)
  obtain ret s' where s': "vams_probe k env ?s = Some (ret, s')" "probed tab (locals_of y) ?s ret s'"
    using probe_ok [of "locals_of y" ?s env] d loc none res by auto
  let ?y = "y\<lparr> sy_host := s', sy_bound := (ret = RC_OK) \<rparr>"
  have files: "h_files ?s = Map.empty" using dinv_parts(1) [OF d] none by (simp add: hinv_def device_ok_def)
  have "f \<notin> sy_open y" for f using open_live [OF d, of f] files by auto
  then have open_none: "sy_open y = {}" by blast
  have calls: "sy_calls y t = None" for t
    using c open_none by (cases "sy_calls y t") (auto simp: calls_ok_def)
  have c': "calls_ok tab ?y" using c calls by (simp add: calls_ok_def)
  have run: "exec k (E_Probe env) y = Some ?y" using s'(1) by (simp add: exec_def)
  show ?thesis
  proof (cases "ret = RC_OK")
    case True
    obtain Q where Q: "Q \<in> {{}, {R_sq, R_cq}}" "driver_at tab (locals_of y) ?s True (Q = {}) (bound_res Q) s'"
      using s'(2) True unfolding probed_def by (simp only: if_True simp_thms) blast
    have "locals_of ?y = (locals_of y)\<lparr> lc_probe := 1 \<rparr>" using True by (simp add: locals_of_def waiting_def)
    then have "dinv tab (locals_of ?y) s'" using Q by (simp add: driver_at_def)
    moreover have "binding_ok True s'" using Q by (auto simp: binding_ok_def driver_at_def)
    ultimately have "sys_inv tab ?y" using c' True by (simp add: sys_inv_def)
    then show ?thesis using run by blast
  next
    case False
    then have "dinv tab (locals_of y) s'" "h_dev s' = None" "h_res s' = {}" using s'(2) loc by (simp_all add: probed_def)
    moreover have "locals_of ?y = locals_of y" using False bound by (simp add: locals_of_def waiting_def)
    ultimately have "sys_inv tab ?y" using c' False by (simp add: sys_inv_def binding_ok_def)
    then show ?thesis using run by blast
  qed
qed

lemma bound_at:
  assumes inv: "sys_inv tab y" and bound: "sy_bound y"
  obtains Q where "Q \<subseteq> {R_sq, R_cq}" "driver_at tab (locals_of y) (sy_host y) False False (bound_res Q) (sy_host y)"
proof -
  obtain Q where Q: "Q \<in> {{}, {R_sq, R_cq}}" "h_res (sy_host y) = bound_res Q" "h_dev (sy_host y) \<noteq> None"
    using sys_invD(3) [OF inv] bound by (auto simp: binding_ok_def)
  have "(locals_of y)\<lparr> lc_probe := 1 \<rparr> = locals_of y" using bound by (simp add: locals_of_def)
  then have "driver_at tab (locals_of y) (sy_host y) False False (bound_res Q) (sy_host y)"
    using Q sys_invD(1) [OF inv] by (auto simp: driver_at_def driver_kept_def)
  then show ?thesis using that Q by blast
qed

lemma remove_begin_step:
  assumes inv: "sys_inv tab y" and bound: "sy_bound y"
  shows "\<exists>y'. exec k E_Remove_Begin y = Some y' \<and> sys_inv tab y'"
proof -
  let ?s = "sy_host y"
  obtain dev where dev: "h_dev ?s = Some dev" using sys_invD(3) [OF inv] bound by (auto simp: binding_ok_def)
  let ?t = "set_dev (dev\<lparr> vd_removing := True \<rparr>) ?s"
  have d': "dinv tab (locals_of y) ?t"
    by (rule set_dev_fields_dinv [OF sys_invD(1) [OF inv] dev]) (simp add: dev_fields_kept_def)
  have "calls_ok tab (y\<lparr> sy_host := ?t \<rparr>)"
    using sys_invD(2) [OF inv] by (simp add: calls_ok_def)
  moreover have "binding_ok True ?t" using sys_invD(3) [OF inv] bound by (simp add: binding_ok_def set_dev_def)
  ultimately have "sys_inv tab (y\<lparr> sy_host := ?t \<rparr>)" using d' bound by (simp add: sys_inv_def)
  moreover have "exec k E_Remove_Begin y = Some (y\<lparr> sy_host := ?t \<rparr>)"
    using dev by (simp add: exec_def in_host_def set_removing_def)
  ultimately show ?thesis by blast
qed

end

subsection \<open>Every event keeps the invariant\<close>

context xarray_laws
begin

lemma remove_rest_step:
  assumes inv: "sys_inv tab y" and bound: "sy_bound y" and dev: "h_dev (sy_host y) = Some dev" "vd_removing dev"
  shows "\<exists>y'. exec k E_Remove_Rest y = Some y' \<and> sys_inv tab y'"
proof -
  let ?s = "sy_host y"
  note c = sys_invD(2) [OF inv]
  obtain Q where Q: "Q \<subseteq> {R_sq, R_cq}" "driver_at tab (locals_of y) ?s False False (bound_res Q) ?s"
    by (rule bound_at [OF inv bound])
  obtain s' where s': "remove_rest k ?s = Some s'" "unbound tab (locals_of y) ?s kept_res s'"
    using succeedsD [OF remove_rest_ok [OF Q(1)] Q(2)] by blast
  let ?z = "y\<lparr> sy_bound := False \<rparr>"
  let ?y = "y\<lparr> sy_host := s', sy_bound := False \<rparr>"
  have "locals_of ?y = (locals_of y)\<lparr> lc_probe := 0 \<rparr>" by (simp add: locals_of_def waiting_def)
  then have d': "dinv tab (locals_of ?y) s'" using s'(2) by (simp add: unbound_def)
  have kept: "driver_kept ?s s'" and res: "h_res s' = (if h_dev s' = None then {} else kept_res)"
    using s'(2) by (simp_all add: unbound_def)
  have "vd_removing dev'" if "h_dev s' = Some dev'" for dev'
    using kept dev that unfolding driver_kept_def by blast
  then have bind: "binding_ok False s'" using res by (simp add: binding_ok_def)
  have point: "point_ok tab f p s'" if t: "sy_calls y t = Some (f, p)" for t f p
  proof -
    have "f \<in> sy_open y" and p: "point_ok tab f p ?s" using c t unfolding calls_ok_def by blast+
    then obtain fl' where f': "h_files s' f = Some fl'" using open_live [OF d', of f] by auto
    then obtain fl0 where "h_files ?s f = Some fl0" "vf_requests fl' = vf_requests fl0"
      using kept unfolding driver_kept_def by blast
    then show ?thesis by (intro point_ok_files [OF p f']) simp
  qed
  have "calls_ok tab ?y"
    unfolding calls_ok_def using c point by (simp add: calls_ok_def)
  then have "sys_inv tab ?y" using d' bind by (simp add: sys_inv_def)
  moreover have "exec k E_Remove_Rest y = Some ?y" using s'(1) by (simp add: exec_def)
  ultimately show ?thesis by blast
qed

lemma poll_event_step:
  assumes inv: "sys_inv tab y" and f: "f \<in> sy_open y"
  shows "\<exists>y'. exec k (E_Poll f) y = Some y' \<and> sys_inv tab y'"
proof -
  have op: "lc_open (locals_of y) f" using f by simp
  obtain events s' where s': "vams_poll k f (sy_host y) = Some (events, s')" "dinv tab (locals_of y) s'" "sframe {} (sy_host y) s'"
    by (rule poll_ok [OF sys_invD(1) [OF inv] op])
  then show ?thesis using host_step [OF inv s'(2,3)] by (simp add: exec_def)
qed

lemma irq_res_bound:
  assumes inv: "sys_inv tab y" and irq: "r \<in> h_res (sy_host y)" "r \<notin> kept_res"
  obtains dev where "h_dev (sy_host y) = Some dev" "R_iomap \<in> h_res (sy_host y)" "0 < lc_probe (locals_of y)"
proof -
  note b = binding_okD [OF sys_invD(3) [OF inv] irq]
  obtain dev Q where "h_dev (sy_host y) = Some dev" "h_res (sy_host y) = bound_res Q" using b by blast
  then show ?thesis using that [of dev] b(1) bound_res_members(1) [of Q] by simp
qed

lemma cq_irq_step:
  assumes inv: "sys_inv tab y" and irq: "R_cq_irq \<in> h_res (sy_host y)"
  shows "\<exists>y'. exec k E_Cq_Irq y = Some y' \<and> sys_inv tab y'"
proof -
  have "R_cq_irq \<notin> kept_res" by (simp add: kept_res_def)
  then obtain dev where io: "R_iomap \<in> h_res (sy_host y)" "0 < lc_probe (locals_of y)" by (rule irq_res_bound [OF inv irq])
  obtain v s' where s': "vams_cq_irq k (sy_host y) = Some (v, s')" "dinv tab (locals_of y) s'" "sframe {} (sy_host y) s'"
    by (rule cq_irq_ok [OF sys_invD(1) [OF inv] io(2,1)])
  then show ?thesis using host_step [OF inv s'(2,3)] by (simp add: exec_def)
qed

lemma async_irq_step:
  assumes inv: "sys_inv tab y" and irq: "R_async_irq \<in> h_res (sy_host y)"
  shows "\<exists>y'. exec k E_Async_Irq y = Some y' \<and> sys_inv tab y'"
proof -
  have "R_async_irq \<notin> kept_res" by (simp add: kept_res_def)
  then obtain dev where d: "h_dev (sy_host y) = Some dev" and io: "R_iomap \<in> h_res (sy_host y)"
    by (rule irq_res_bound [OF inv irq])
  obtain v s' where s': "vams_async_irq k (sy_host y) = Some (v, s')" "dinv tab (locals_of y) s'" "sframe {} (sy_host y) s'"
    by (rule async_irq_ok [OF sys_invD(1) [OF inv] d io])
  then show ?thesis using host_step [OF inv s'(2,3)] by (simp add: exec_def)
qed

lemma work_steps:
  assumes inv: "sys_inv tab y" and bound: "sy_bound y"
  shows "\<exists>y'. exec k E_Poll_Work y = Some y' \<and> sys_inv tab y'" "\<exists>y'. exec k E_Reset_Work y = Some y' \<and> sys_inv tab y'"
proof -
  have probe: "0 < lc_probe (locals_of y)" using bound by simp
  obtain Q where "h_res (sy_host y) = bound_res Q" using sys_invD(3) [OF inv] bound unfolding binding_ok_def by auto
  then have io: "R_iomap \<in> h_res (sy_host y)" by (simp add: bound_res_members)
  obtain s' where s': "vams_cq_poll_work k (sy_host y) = Some s'" "dinv tab (locals_of y) s'" "sframe {} (sy_host y) s'"
    by (rule cq_poll_work_ok [OF sys_invD(1) [OF inv] probe]) (rule io)
  then show "\<exists>y'. exec k E_Poll_Work y = Some y' \<and> sys_inv tab y'"
    using host_step [OF inv s'(2,3)] by (simp add: exec_def in_host_def)
  obtain s' where s': "vams_reset_work k (sy_host y) = Some s'" "dinv tab (locals_of y) s'" "sframe {} (sy_host y) s'"
    by (rule reset_work_ok [OF sys_invD(1) [OF inv] probe])
  then show "\<exists>y'. exec k E_Reset_Work y = Some y' \<and> sys_inv tab y'"
    using host_step [OF inv s'(2,3)] by (simp add: exec_def in_host_def)
qed

lemma resume_enabled_step:
  assumes inv: "sys_inv tab y" and en: "enabled (E_Resume t interrupted copied) y"
  shows "\<exists>y'. exec k (E_Resume t interrupted copied) y = Some y' \<and> sys_inv tab y'"
proof -
  obtain f point where c: "sy_calls y t = Some (f, point)"
    using en by (cases "sy_calls y t") (auto simp: enabled_def)
  show ?thesis
  proof (rule resume_step [OF inv c])
    fix t' r input assume t': "t' \<noteq> t" "resume_locks point (sy_host y)"
    show "sy_calls y t' \<noteq> Some (f, In_Submit r input)"
    proof (cases point)
      case (In_Submit r' input')
      then show ?thesis using sys_invD(2) [OF inv] c t'(1) unfolding calls_ok_def by blast
    next
      case (In_Wait r' out)
      then have "\<not> locked y f" using en c t'(2) by (simp add: enabled_def)
      then show ?thesis unfolding locked_def by blast
    qed (use t'(2) in \<open>simp_all add: resume_locks_def\<close>)
  qed
qed

lemma exec_ok:
  assumes inv: "sys_inv tab y" and en: "enabled ev y"
  shows "\<exists>y'. exec k ev y = Some y' \<and> sys_inv tab y'"
proof (cases ev)
  case (E_Probe env)
  then show ?thesis using probe_step [OF inv, of env] en by (simp add: enabled_def Let_def)
next
  case (E_Open al)
  then show ?thesis using open_step [OF inv, of al] en by (simp add: enabled_def Let_def)
next
  case (E_Call t f call)
  then show ?thesis using call_step [OF inv, of t f call] en by (simp add: enabled_def Let_def)
next
  case (E_Resume t interrupted copied)
  then show ?thesis using resume_enabled_step [OF inv] en by simp
next
  case (E_Poll f)
  then show ?thesis using poll_event_step [OF inv, of f] en by (simp add: enabled_def Let_def)
next
  case (E_Release f)
  then show ?thesis using release_step [OF inv, of f] en by (simp add: enabled_def Let_def)
next
  case E_Cq_Irq
  then show ?thesis using cq_irq_step [OF inv] en by (simp add: enabled_def Let_def)
next
  case E_Async_Irq
  then show ?thesis using async_irq_step [OF inv] en by (simp add: enabled_def Let_def)
next
  case E_Poll_Work
  then show ?thesis using work_steps(1) [OF inv] en by (simp add: enabled_def Let_def)
next
  case E_Reset_Work
  then show ?thesis using work_steps(2) [OF inv] en by (simp add: enabled_def Let_def)
next
  case (E_Device w cq)
  then show ?thesis using device_step [OF inv, of cq w] en by (simp add: enabled_def Let_def exec_def)
next
  case E_Remove_Begin
  then show ?thesis using remove_begin_step [OF inv] en by (simp add: enabled_def Let_def)
next
  case E_Remove_Rest
  then show ?thesis using remove_rest_step [OF inv] en by (auto simp: enabled_def Let_def)
qed

lemma idle_sys_inv: "sys_inv tab (idle_system w)"
proof -
  have "hinv tab (locals_of (idle_system w)) (idle_host w)"
    by (simp add: hinv_def requests_ok_def mappings_ok_def files_ok_def device_ok_def tables_ok_def pages_ok_def
      holder_defs idle_host_def locals_of_def waiting_def idle_system_def)
  moreover have "rings_ok tab (idle_host w)" by (simp add: rings_ok_def idle_host_def)
  moreover have "ready_ok tab (idle_host w)" by (simp add: ready_ok_def idle_host_def)
  ultimately show ?thesis
    by (simp add: sys_inv_def dinv_def idle_system_def calls_ok_def binding_ok_def) (simp add: idle_host_def)
qed

lemma reachable_inv: "reachable k y \<Longrightarrow> sys_inv tab y"
proof (induction rule: reachable.induct)
  case (reach_idle w)
  show ?case by (rule idle_sys_inv)
next
  case (reach_step y ev y')
  then show ?case using exec_ok [OF reach_step.IH reach_step.hyps(2)] by auto
qed

end

subsection \<open>Runs\<close>

text \<open>
  A sequence of events from a state whose calls belong to the threads \<open>ts\<close>, or \<open>None\<close> when one of
  them is not enabled. \<open>ready\<close> is \<open>enabled\<close> in a form that can be evaluated.
\<close>

definition locked_by :: "nat list \<Rightarrow> ('w, 'x) system \<Rightarrow> ref \<Rightarrow> bool" where
  "locked_by ts y f \<longleftrightarrow>
     (\<exists>t \<in> set ts. case sy_calls y t of Some (g, In_Submit r input) \<Rightarrow> g = f | _ \<Rightarrow> False)"

definition fresh_ref :: "(ref \<Rightarrow> 'a option) \<Rightarrow> ref option \<Rightarrow> bool" where
  "fresh_ref store al = (case al of None \<Rightarrow> True | Some r \<Rightarrow> store r = None)"

definition ready :: "nat list \<Rightarrow> 'w event \<Rightarrow> ('w, 'x) system \<Rightarrow> bool" where
  "ready ts ev y \<longleftrightarrow>
     (let s = sy_host y in
      case ev of
        E_Probe env \<Rightarrow> \<not> sy_bound y \<and> h_dev s = None
      | E_Open al \<Rightarrow> R_misc \<in> h_res s \<and> fresh_ref (h_files s) al
      | E_Call t f call \<Rightarrow> t \<in> set ts \<and> sy_calls y t = None \<and> f \<in> sy_open y \<and> (locks_file call \<longrightarrow> \<not> locked_by ts y f) \<and>
          (case call of
             IOCTL_NOP al arg \<Rightarrow> fresh_ref (h_requests s) al
           | IOCTL_SUBMIT al arg \<Rightarrow> fresh_ref (h_requests s) al
           | IOCTL_BUFFER_REGISTER env arg \<Rightarrow> fresh_ref (h_mappings s) (re_mapping env)
           | _ \<Rightarrow> True)
      | E_Resume t interrupted copied \<Rightarrow>
          (case sy_calls y t of
             None \<Rightarrow> False
           | Some (f, In_Wait r output) \<Rightarrow> resume_locks (In_Wait r output) s \<longrightarrow> \<not> locked_by ts y f
           | _ \<Rightarrow> True)
      | E_Poll f \<Rightarrow> f \<in> sy_open y
      | E_Release f \<Rightarrow> f \<in> sy_open y \<and> (\<forall>t \<in> set ts. case sy_calls y t of None \<Rightarrow> True | Some (g, p) \<Rightarrow> g \<noteq> f)
      | E_Cq_Irq \<Rightarrow> R_cq_irq \<in> h_res s
      | E_Async_Irq \<Rightarrow> R_async_irq \<in> h_res s
      | E_Poll_Work \<Rightarrow> sy_bound y \<and> (case h_dev s of None \<Rightarrow> False | Some dev \<Rightarrow> vd_cq_poll_work dev)
      | E_Reset_Work \<Rightarrow> sy_bound y \<and> (case h_dev s of None \<Rightarrow> False | Some dev \<Rightarrow> vd_reset_work dev)
      | E_Device w cq \<Rightarrow> R_master \<in> h_res s \<and> length cq = unat VAMS_QUEUE_DEPTH
      | E_Remove_Begin \<Rightarrow> sy_bound y
      | E_Remove_Rest \<Rightarrow> sy_bound y \<and> (case h_dev s of None \<Rightarrow> False | Some dev \<Rightarrow> vd_removing dev))"

primrec run :: "('w, 'x) linux \<Rightarrow> nat list \<Rightarrow> 'w event list \<Rightarrow> ('w, 'x) system \<Rightarrow> ('w, 'x) system option" where
  "run k ts [] y = Some y"
| "run k ts (ev # evs) y = (if ready ts ev y then exec k ev y \<bind> run k ts evs else None)"

lemma locked_by_iff:
  assumes "dom (sy_calls y) \<subseteq> set ts"
  shows "locked_by ts y f = locked y f"
proof
  assume "locked_by ts y f"
  then show "locked y f" unfolding locked_by_def locked_def by (fastforce split: option.splits call_point.splits)
next
  assume "locked y f"
  then obtain t r input where t: "sy_calls y t = Some (f, In_Submit r input)" unfolding locked_def by blast
  then have "t \<in> set ts" using assms by blast
  then show "locked_by ts y f" using t unfolding locked_by_def by (intro bexI [of _ t]) simp_all
qed

lemma fresh_ref_iff: "fresh_ref store al \<longleftrightarrow> (\<forall>r. al = Some r \<longrightarrow> store r = None)"
  by (simp add: fresh_ref_def split: option.split)

lemma ready_enabled:
  assumes threads: "dom (sy_calls y) \<subseteq> set ts" and r: "ready ts ev y"
  shows "enabled ev y"
proof (cases ev)
  case (E_Call t f call)
  then show ?thesis using r
    by (cases call) (simp_all add: ready_def enabled_def Let_def locked_by_iff [OF threads] fresh_ref_iff fresh_call_def)
next
  case (E_Resume t interrupted copied)
  show ?thesis
  proof (cases "sy_calls y t")
    case None
    then show ?thesis using r E_Resume by (simp add: ready_def)
  next
    case (Some p)
    obtain f point where p: "p = (f, point)" by fastforce
    then show ?thesis using r E_Resume Some
      by (cases point) (simp_all add: ready_def enabled_def Let_def locked_by_iff [OF threads])
  qed
next
  case (E_Release f)
  have "sy_calls y t \<noteq> Some (f, p)" for t p
  proof
    assume t: "sy_calls y t = Some (f, p)"
    then have "t \<in> set ts" using threads by blast
    then show False using r E_Release t by (force simp: ready_def)
  qed
  then show ?thesis using r E_Release by (simp add: ready_def enabled_def)
next
  case (E_Open al)
  then show ?thesis using r by (simp add: ready_def enabled_def Let_def fresh_ref_iff)
qed (use r in \<open>simp_all add: ready_def enabled_def Let_def split: option.splits\<close>)

lemma exec_threads:
  assumes "dom (sy_calls y) \<subseteq> set ts" "ready ts ev y" "exec k ev y = Some y'"
  shows "dom (sy_calls y') \<subseteq> set ts"
proof (cases ev)
  case (E_Call t f call)
  then obtain point s where p: "y' = y\<lparr> sy_host := s, sy_calls := (case point of
      Returned ret \<Rightarrow> sy_calls y | _ \<Rightarrow> (sy_calls y)(t \<mapsto> (f, point))) \<rparr>"
    using assms(3) by (auto simp: exec_def Let_def bind_eq_Some_conv)
  have "t \<in> set ts" using assms(2) E_Call by (simp add: ready_def Let_def)
  then show ?thesis using assms(1) p by (cases point) auto
next
  case (E_Resume t interrupted copied)
  then obtain s where "y' = y\<lparr> sy_host := s, sy_calls := (sy_calls y)(t := None) \<rparr>"
    using assms(3) by (auto simp: exec_def Let_def bind_eq_Some_conv)
  then show ?thesis using assms(1) by auto
qed (use assms(1,3) in \<open>auto simp: exec_def in_host_def Let_def bind_eq_Some_conv\<close>)

lemma run_reachable:
  assumes "reachable k y" "dom (sy_calls y) \<subseteq> set ts" "run k ts evs y = Some y'"
  shows "reachable k y'"
  using assms
proof (induction evs arbitrary: y)
  case Nil
  then show ?case by simp
next
  case (Cons ev evs)
  then obtain z where z: "ready ts ev y" "exec k ev y = Some z" "run k ts evs z = Some y'"
    by (auto simp: bind_eq_Some_conv split: if_splits)
  have "reachable k z" by (rule reach_step [OF Cons.prems(1) ready_enabled [OF Cons.prems(2) z(1)] z(2)])
  then show ?case using Cons.IH exec_threads [OF Cons.prems(2) z(1,2)] z(3) by blast
qed

lemma run_idle_reachable: "run k ts evs (idle_system w) = Some y \<Longrightarrow> reachable k y"
  using run_reachable [OF reach_idle] by (simp add: idle_system_def)

end
