(* ===== verification/Vams_Pci_Promises.thy ===== *)
theory Vams_Pci_Promises
  imports Vams_Pci_System
begin

text \<open>
  What the host driver promises in every state it can reach: no fault, exact reference counts, buffers
  that stay while the device may use them, no leak, no lost or repeated completion. Each theorem
  holds for every kernel that obeys \<open>xarray_laws\<close>; the witnesses run the driver on \<open>ram_linux\<close>.
\<close>

subsection \<open>A run of the driver\<close>

text \<open>An endpoint that is ready and has DMA and MSI-X; a kernel that grants every request.\<close>

definition demo_regs :: "u32 \<Rightarrow> u32" where
  "demo_regs r =
     (if r = VAMS_REG_DEVICE_ID then VAMS_DEVICE_ID_VALUE
      else if r = VAMS_REG_HW_IF_VERSION then 0x10000
      else if r = VAMS_REG_DESC_VERSION then 1
      else if r = VAMS_REG_CAPABILITIES then 3
      else if r = VAMS_REG_DEVICE_STATUS then 7
      else if r = VAMS_REG_CQ_STATUS \<or> r = VAMS_REG_SQ_STATUS then 1 else 0)"

definition demo_env :: probe_env where
  "demo_env = \<lparr> pe_vdev = True, pe_fail_step = 0, pe_enable = RC_OK, pe_bar0_mem = True, pe_bar0_len = 4096,
     pe_region = RC_OK, pe_iomap = True, pe_dma = (\<lambda>bits. RC_OK), pe_sq_mem = Some 64, pe_cq_mem = Some 4096,
     pe_vectors = Inr 2, pe_cq_irq = RC_OK, pe_async_irq = RC_OK, pe_instance = RC_OK, pe_name = True,
     pe_misc = RC_OK \<rparr>"

text \<open>A page at \<open>0x10000\<close>, registered for access \<open>flags\<close> at the bus address \<open>dma\<close>.\<close>

definition demo_buffer :: "ref \<Rightarrow> u32 \<Rightarrow> u64 \<Rightarrow> ioctl_call" where
  "demo_buffer m flags dma = IOCTL_BUFFER_REGISTER
     \<lparr> re_access_ok = True, re_mapping = Some m, re_pages = True, re_pinned = Inr 1, re_sg = RC_OK, re_mapped = 1,
       re_dma_len = 4096, re_dma_addr = dma, re_copy = True \<rparr>
     (Some \<lparr> breg_size = 40, breg_version = 1, breg_flags = flags, breg_handle = 0, breg_user_address = 0x10000,
       breg_length = 4096, breg_reserved = 0 \<rparr>)"

definition demo_submit :: vams_ioc_submit where
  "demo_submit = \<lparr> ios_size = 64, ios_version = 1, ios_opcode = 1, ios_flags = 0, ios_source_handle = 1,
     ios_destination_handle = 2, ios_length = 256, ios_timeout_ms = 100, ios_source_offset = 0,
     ios_destination_offset = 0, ios_user_cookie = 7, ios_expected_crc = 0, ios_command_id = 0 \<rparr>"

definition demo_wait :: vams_ioc_wait where
  "demo_wait = \<lparr> iow_size = 64, iow_version = 1, iow_command_id = 1, iow_flags = 0, iow_timeout_ms = 0,
     iow_driver_status = RC_OK, iow_status = 0, iow_error_code = 0, iow_bytes_processed = 0, iow_result_crc = 0,
     iow_reserved0 = 0, iow_user_cookie = 0, iow_device_timestamp = 0, iow_reserved1 = 0 \<rparr>"

definition demo_completion :: vams_completion where
  "demo_completion = zero_completion\<lparr> cpl_command_id := 1, cpl_bytes_processed := 256, cpl_user_cookie := 7 \<rparr>"

text \<open>The device answers: completion in slot 0, tail 1, interrupt pending.\<close>

definition demo_answer :: "(u32 \<Rightarrow> u32) event" where
  "demo_answer = E_Device (demo_regs(VAMS_REG_CQ_TAIL := 1, VAMS_REG_INTR_STATUS := VAMS_INTR_CQ))
     (demo_completion # replicate 15 zero_completion)"

definition demo_submitted :: "(u32 \<Rightarrow> u32) event list" where
  "demo_submitted = [E_Probe demo_env, E_Open (Some 0), E_Call 0 0 (demo_buffer 0 1 0x100000),
     E_Call 0 0 (demo_buffer 1 2 0x200000), E_Call 0 0 (IOCTL_SUBMIT (Some 0) (Some demo_submit)), E_Resume 0 False True]"

definition demo_completed :: "(u32 \<Rightarrow> u32) event list" where
  "demo_completed = demo_submitted @ [demo_answer, E_Cq_Irq]"

definition demo_waiting :: "(u32 \<Rightarrow> u32) event list" where
  "demo_waiting = demo_completed @ [E_Call 0 0 (IOCTL_WAIT (Some demo_wait))]"

definition demo_closed :: "(u32 \<Rightarrow> u32) event list" where
  "demo_closed = demo_submitted @ [E_Remove_Begin, E_Remove_Rest, E_Release 0]"

definition after_run :: "(u32 \<Rightarrow> u32) event list \<Rightarrow> (u32 \<Rightarrow> u32, (u32 \<times> ref) list) system" where
  "after_run evs = the (run ram_linux [0] evs (idle_system demo_regs))"

lemma after_run_reachable: "run ram_linux [0] evs (idle_system demo_regs) \<noteq> None \<Longrightarrow> reachable ram_linux (after_run evs)"
  unfolding after_run_def by (metis option.collapse run_idle_reachable)

lemma demo_runs:
  "run ram_linux [0] demo_waiting (idle_system demo_regs) \<noteq> None"
  "run ram_linux [0] demo_completed (idle_system demo_regs) \<noteq> None"
  "run ram_linux [0] demo_submitted (idle_system demo_regs) \<noteq> None"
  "run ram_linux [0] demo_closed (idle_system demo_regs) \<noteq> None"
  by code_simp+

lemmas demo_reachable = demo_runs [THEN after_run_reachable]

subsection \<open>Faults, references and leaks\<close>



text \<open>
  C7. Every reference count of the driver is the number of references that exist. For a request: its
  entries in the tables of the device and of files, and the threads waiting for it. For a buffer: its
  handles and the requests that read or write it. For a file: its descriptor and the requests it
  owns. For the device: the binding and the files. All counts of live objects are positive, so nothing
  unreachable stays allocated.
\<close>

theorem references_are_counted:
  assumes "xarray_laws k tab" "reachable k y"
  defines "s \<equiv> sy_host y"
  shows "(\<forall>r q. h_requests s r = Some q \<longrightarrow>
      rq_refs q = card (req_dev tab s r) + card (req_file tab s r) + card (waiting y r) \<and> 0 < rq_refs q) \<and>
    (\<forall>m mapping. h_mappings s m = Some mapping \<longrightarrow>
      mp_refs mapping = card (map_file tab s m) + card (map_source s m) + card (map_destination s m) \<and> 0 < mp_refs mapping) \<and>
    (\<forall>f file. h_files s f = Some file \<longrightarrow>
      vf_refs file = of_bool (f \<in> sy_open y) + card (file_owned s f) \<and> 0 < vf_refs file) \<and>
    (\<forall>dev. h_dev s = Some dev \<longrightarrow> vd_refs dev = of_bool (sy_bound y) + card (dom (h_files s)) \<and> 0 < vd_refs dev)"
proof -
  have inv: "hinv tab (locals_of y) s"
    unfolding s_def by (rule dinv_parts(1) [OF sys_invD(1) [OF xarray_laws.reachable_inv [OF assms(1,2)]]])
  have loc: "lc_mappings (locals_of y) m = 0" "lc_files (locals_of y) f = 0" for m f by (simp_all add: locals_of_def)
  show ?thesis
    using requests_okD(1,2) [OF inv] mappings_okD [OF inv] files_okD(1,2) [OF inv] device_okD(1,2) [OF inv]
    unfolding loc locals_of_fields by simp
qed

theorem references_are_counted_witness:
  "reachable ram_linux (after_run demo_waiting) \<and>
   (\<exists>q. h_requests (sy_host (after_run demo_waiting)) 0 = Some q \<and> rq_refs q = 2 \<and>
      rq_refs q = card (req_dev map_of (sy_host (after_run demo_waiting)) 0) +
        card (req_file map_of (sy_host (after_run demo_waiting)) 0) + card (waiting (after_run demo_waiting) 0))"
proof -
  have "map_option rq_refs (h_requests (sy_host (after_run demo_waiting)) 0) = Some 2" by code_simp
  then obtain q where q: "h_requests (sy_host (after_run demo_waiting)) 0 = Some q" "rq_refs q = 2" by auto
  show ?thesis
    using references_are_counted [OF ram_linux.xarray_laws_axioms demo_reachable(1)] demo_reachable(1) q by blast
qed

text \<open>
  C13. A buffer that a request uses stays registered. While a live request reads or writes a buffer, the
  buffer is live and counted among the pinned pages and mapped lists, and an attempt to unregister it
  under a handle of an open file is refused with \<open>EBUSY\<close> and changes nothing.
\<close>

theorem buffer_in_use_stays:
  assumes "xarray_laws k tab" "reachable k y" "h_requests (sy_host y) r = Some q"
    and m: "rq_source q = Some m \<or> rq_destination q = Some m"
  shows "(\<exists>mapping. h_mappings (sy_host y) m = Some mapping \<and> unat (mp_npages mapping) \<le> h_pinned (sy_host y)) \<and>
    0 < h_dma_maps (sy_host y) \<and>
    (\<forall>f fl input. h_files (sy_host y) f = Some fl \<longrightarrow> tab (vf_mappings fl) (bunreg_handle input) = Some m \<longrightarrow>
       bunreg_size input = sizeof_ioc_buffer_unregister \<longrightarrow> bunreg_version input = VAMS_UAPI_VERSION \<longrightarrow>
       bunreg_handle input \<noteq> 0 \<longrightarrow> bunreg_flags input = 0 \<longrightarrow> bunreg_reserved input = 0 \<longrightarrow>
       vams_ioctl_buffer_unregister k f (Some input) (sy_host y) = Some (RC_ERR EBUSY, sy_host y))"
proof -
  let ?s = "sy_host y"
  have inv: "hinv tab (locals_of y) ?s"
    by (rule dinv_parts(1) [OF sys_invD(1) [OF xarray_laws.reachable_inv [OF assms(1,2)]]])
  have user: "r \<in> map_source ?s m \<or> r \<in> map_destination ?s m"
    using assms(3) m by (auto simp: map_source_def map_destination_def)
  then obtain mapping where mp: "h_mappings ?s m = Some mapping"
    using mapping_live [OF inv, of m] by blast
  have users: "0 < card (map_source ?s m) + card (map_destination ?s m)"
    using user holders_finite [OF inv] by (auto simp: card_gt_0_iff)
  have busy: "mp_refs mapping \<noteq> 1" if "h_files ?s f = Some fl" "tab (vf_mappings fl) i = Some m" for f fl i
  proof -
    have "(f, i) \<in> map_file tab ?s m" using that by (simp add: map_file_def)
    moreover have "finite (map_file tab ?s m)" by (rule xarray_laws.table_holders_finite [OF assms(1) inv])
    ultimately have "0 < card (map_file tab ?s m)" by (auto simp: card_gt_0_iff)
    then show ?thesis using mappings_okD(1) [OF inv mp] users by linarith
  qed
  have refused: "vams_ioctl_buffer_unregister k f (Some input) ?s = Some (RC_ERR EBUSY, ?s)"
    if "h_files ?s f = Some fl" "tab (vf_mappings fl) (bunreg_handle input) = Some m"
      "bunreg_size input = sizeof_ioc_buffer_unregister" "bunreg_version input = VAMS_UAPI_VERSION"
      "bunreg_handle input \<noteq> 0" "bunreg_flags input = 0" "bunreg_reserved input = 0" for f fl input
    using that mp busy [OF that(1,2)] xarray_laws.load [OF assms(1)] by (simp add: vams_ioctl_buffer_unregister_def)
  have "unat (mp_npages mapping) \<le> h_pinned ?s" "0 < h_dma_maps ?s"
    using hinv_parts(6) [OF inv] mp member_le_sum [of m "dom (h_mappings ?s)" "\<lambda>m. unat (mp_npages (the (h_mappings ?s m)))"]
    unfolding pages_ok_def by (auto simp: card_gt_0_iff)
  then show ?thesis using mp refused by blast
qed

definition demo_unregister :: vams_ioc_buffer_unregister where
  "demo_unregister = \<lparr> bunreg_size = 24, bunreg_version = 1, bunreg_handle = 2, bunreg_flags = 0, bunreg_reserved = 0 \<rparr>"

theorem buffer_in_use_stays_witness:
  "reachable ram_linux (after_run demo_submitted) \<and>
   vams_ioctl_buffer_unregister ram_linux 0 (Some demo_unregister) (sy_host (after_run demo_submitted)) =
     Some (RC_ERR EBUSY, sy_host (after_run demo_submitted))"
proof -
  let ?s = "sy_host (after_run demo_submitted)"
  have "map_option rq_destination (h_requests ?s 0) = Some (Some 1)" by code_simp
  then obtain q where q: "h_requests ?s 0 = Some q" "rq_destination q = Some 1" by auto
  have "map_option (\<lambda>fl. map_of (vf_mappings fl) 2) (h_files ?s 0) = Some (Some 1)" by code_simp
  then obtain fl where fl: "h_files ?s 0 = Some fl" "map_of (vf_mappings fl) 2 = Some 1" by auto
  show ?thesis
    using buffer_in_use_stays [OF ram_linux.xarray_laws_axioms demo_reachable(3) q(1), of 1] q(2) fl demo_reachable(3)
    by (simp add: demo_unregister_def sizeof_ioc_buffer_unregister_def VAMS_UAPI_VERSION_def)
qed

lemma quiet_is_idle:
  assumes inv: "sys_inv tab y" and quiet: "\<not> sy_bound y" "sy_open y = {}" "sy_calls y = Map.empty"
  shows "sy_host y = (idle_host (h_w (sy_host y)))\<lparr> h_unpinned := h_unpinned (sy_host y) \<rparr>"
proof -
  let ?s = "sy_host y"
  have hi: "hinv tab (locals_of y) ?s" by (rule dinv_parts(1) [OF sys_invD(1) [OF inv]])
  have unbound_table: "tab (vd_requests dev) = Map.empty" if "h_dev ?s = Some dev" for dev
    using device_okD(3) [OF hi that] quiet(1) by simp
  have closed: "tab (vf_mappings fl) = Map.empty" "tab (vf_requests fl) = Map.empty" if "h_files ?s f = Some fl" for f fl
    using files_okD(3) [OF hi that] quiet(2) by simp_all
  have no_wait: "waiting y r = {}" for r using quiet(3) by (simp add: waiting_def)
  have req: "h_requests ?s r = None" for r
  proof (cases "h_requests ?s r")
    case (Some q)
    have "req_dev tab ?s r = {}" "req_file tab ?s r = {}" using unbound_table closed by (auto simp: req_dev_def req_file_def)
    then show ?thesis using requests_okD(1,2) [OF hi Some] no_wait by simp
  qed
  have mp: "h_mappings ?s m = None" for m
  proof (cases "h_mappings ?s m")
    case (Some mapping)
    have "map_file tab ?s m = {}" "map_source ?s m = {}" "map_destination ?s m = {}"
      using closed req by (auto simp: map_file_def map_source_def map_destination_def)
    then show ?thesis using mappings_okD [OF hi Some] by (simp add: locals_of_def)
  qed
  have fl: "h_files ?s f = None" for f
  proof (cases "h_files ?s f")
    case (Some g)
    have "file_owned ?s f = {}" using req by (simp add: file_owned_def)
    then show ?thesis using files_okD(1,2) [OF hi Some] quiet(2) by (simp add: locals_of_def)
  qed
  have dev: "h_dev ?s = None"
  proof (cases "h_dev ?s")
    case (Some d)
    have "h_files ?s = Map.empty" using fl by (simp add: fun_eq_iff)
    then show ?thesis using device_okD(1,2) [OF hi Some] quiet(1) by simp
  qed
  have maps: "h_requests ?s = Map.empty" "h_mappings ?s = Map.empty" "h_files ?s = Map.empty"
    using req mp fl by (simp_all add: fun_eq_iff)
  have "h_pinned ?s = 0" "h_dma_maps ?s = 0" using hinv_parts(6) [OF hi] maps(2) by (simp_all add: pages_ok_def)
  moreover have "h_res ?s = {}" using sys_invD(3) [OF inv] quiet(1) dev by (simp add: binding_ok_def)
  ultimately show ?thesis using maps dev by (simp add: idle_host_def)
qed

text \<open>
  C8. Nothing leaks. In every reachable state in which the driver is unbound, no file is open and no call is
  in progress, the driver holds no memory, no pinned page, no DMA mapping and no resource of the PCI
  function: it is back in its idle state, whatever happened before, requests abandoned by their
  owner or cut off by the unbinding included.
\<close>

theorem nothing_leaks:
  assumes "xarray_laws k tab" "reachable k y" "\<not> sy_bound y" "sy_open y = {}" "sy_calls y = Map.empty"
  shows "sy_host y = (idle_host (h_w (sy_host y)))\<lparr> h_unpinned := h_unpinned (sy_host y) \<rparr>"
  by (rule quiet_is_idle [OF xarray_laws.reachable_inv [OF assms(1,2)] assms(3-5)])

theorem nothing_leaks_witness:
  "reachable ram_linux (after_run demo_closed) \<and> h_pinned (sy_host (after_run demo_submitted)) = 2 \<and>
   sy_host (after_run demo_closed) =
     (idle_host (h_w (sy_host (after_run demo_closed))))\<lparr> h_unpinned := h_unpinned (sy_host (after_run demo_closed)) \<rparr>"
proof -
  let ?y = "after_run demo_closed"
  have b: "\<not> sy_bound ?y" by code_simp
  have o: "sy_open ?y = {}" by code_simp
  have "sy_calls ?y t = None" for t by code_simp simp
  then have c: "sy_calls ?y = Map.empty" by (simp add: fun_eq_iff)
  have "h_pinned (sy_host (after_run demo_submitted)) = 2" by code_simp
  then show ?thesis using nothing_leaks [OF ram_linux.xarray_laws_axioms demo_reachable(4) b o c] demo_reachable(4) by blast
qed

subsection \<open>Completions, readiness and resets\<close>

lemma bound_probe: "sy_bound y \<Longrightarrow> 0 < lc_probe (locals_of y)"
  by simp

lemma reachable_dinv:
  assumes "xarray_laws k tab" "reachable k y"
  shows "dinv tab (locals_of y) (sy_host y)"
  by (rule sys_invD(1) [OF xarray_laws.reachable_inv [OF assms]])


definition demo_answered :: "(u32 \<Rightarrow> u32) event list" where
  "demo_answered = demo_submitted @ [demo_answer]"

lemma demo_answered_reachable: "reachable ram_linux (after_run demo_answered)"
  by (rule after_run_reachable) code_simp


text \<open>
  C16. A finished request is never missed by poll. While an open file that is not being closed has a
  finished request that nobody reaped, polling it reports the file readable, also after a reset or the
  unbinding ended the request.
\<close>

theorem poll_sees_finished_request:
  assumes "xarray_laws k tab" "reachable k y" "f \<in> sy_open y" "h_files (sy_host y) f = Some fl" "\<not> vf_closing fl"
    "tab (vf_requests fl) i = Some r" "h_requests (sy_host y) r = Some q" "rq_done q"
  shows "\<exists>events s'. vams_poll k f (sy_host y) = Some (events, s') \<and> {EPOLLIN, EPOLLRDNORM} \<subseteq> events"
proof -
  let ?s = "sy_host y"
  note inv = reachable_dinv [OF assms(1,2)]
  have fin: "finite (done_entries tab ?s fl)"
    by (rule finite_subset [OF _ xarray_laws.finite_tab [OF assms(1), of "vf_requests fl"]]) (auto simp: done_entries_def)
  have "i \<in> done_entries tab ?s fl" using assms(6-8) by (auto simp: done_entries_def)
  with fin have "0 < card (done_entries tab ?s fl)" by (auto simp: card_gt_0_iff)
  then have pos: "0 < vf_completed_requests fl"
    using dinv_parts(3) [OF inv] assms(4,5) unfolding ready_ok_def by fastforce
  obtain events s' where p: "vams_poll k f ?s = Some (events, s')"
    by (rule xarray_laws.poll_ok [OF assms(1) inv, of f]) (use assms(3) in \<open>simp_all add: locals_of_def\<close>)
  have "{EPOLLIN, EPOLLRDNORM} \<subseteq> events"
    using p pos assms(4)
    by (auto simp: vams_poll_def poll_checks_def poll_ring_def Let_def bind_eq_Some_conv split: if_splits sum.splits)
  with p show ?thesis by blast
qed

theorem poll_sees_finished_request_witness:
  "reachable ram_linux (after_run demo_completed) \<and>
   (\<exists>events s'. vams_poll ram_linux 0 (sy_host (after_run demo_completed)) = Some (events, s') \<and>
      {EPOLLIN, EPOLLRDNORM} \<subseteq> events)"
proof -
  let ?y = "after_run demo_completed"
  have o: "0 \<in> sy_open ?y" by code_simp
  have "map_option (\<lambda>fl. (vf_closing fl, map_of (vf_requests fl) 1)) (h_files (sy_host ?y) 0) = Some (False, Some 0)"
    by code_simp
  then obtain fl where fl: "h_files (sy_host ?y) 0 = Some fl" "\<not> vf_closing fl" "map_of (vf_requests fl) 1 = Some 0" by auto
  have "map_option rq_done (h_requests (sy_host ?y) 0) = Some True" by code_simp
  then obtain q where q: "h_requests (sy_host ?y) 0 = Some q" "rq_done q" by auto
  show ?thesis
    using poll_sees_finished_request [OF ram_linux.xarray_laws_axioms demo_reachable(2) o fl q] demo_reachable(2) by blast
qed

text \<open>
  C15. A reset ends every request of an older generation, and only those. Unless the driver is being
  unbound, the reset work runs to its end; then the device's table holds exactly the requests of the
  current generation, unchanged, and every request it took off the table is done with \<open>ECANCELED\<close>.
\<close>

theorem reset_ends_stale_requests:
  assumes "xarray_laws k tab" "reachable k y" "sy_bound y" "h_dev (sy_host y) = Some dev" "\<not> vd_removing dev"
  shows "\<exists>s' dev'. vams_reset_work k (sy_host y) = Some s' \<and> h_dev s' = Some dev' \<and>
    (\<forall>i r. tab (vd_requests dev') i = Some r \<longleftrightarrow> tab (vd_requests dev) i = Some r \<and>
       map_option rq_reset_generation (h_requests (sy_host y) r) = Some (vd_reset_generation dev)) \<and>
    (\<forall>i r. tab (vd_requests dev') i = Some r \<longrightarrow> h_requests s' r = h_requests (sy_host y) r) \<and>
    (\<forall>i r q. tab (vd_requests dev) i = Some r \<longrightarrow> tab (vd_requests dev') i = None \<longrightarrow>
       h_requests s' r = Some q \<longrightarrow> rq_done q \<and> rq_driver_status q = RC_ERR ECANCELED)"
proof -
  let ?s = "sy_host y" and ?d1 = "dev\<lparr> vd_reset_work := False \<rparr>"
  define d2 where "d2 = (if vd_reset_reason dev = VAMS_RESET_REASON_HOST_DEVICE \<or>
    vd_reset_reason dev = VAMS_RESET_REASON_HOST_QUEUE then ?d1\<lparr> vd_queues_ready := False \<rparr> else ?d1)"
  have d2: "dev_fields_kept dev d2" "vd_removing d2 = vd_removing dev" "vd_requests d2 = vd_requests dev"
    "vd_reset_generation d2 = vd_reset_generation dev"
    by (simp_all add: dev_fields_kept_def d2_def)
  note step = set_dev_step [OF reachable_dinv [OF assms(1,2)] assms(4) d2(1,2)]
  obtain s' dev' where s': "vams_cancel_requests k (RC_ERR ECANCELED) True (set_dev d2 ?s) = Some s'" "h_dev s' = Some dev'"
    "cancels tab (RC_ERR ECANCELED) True (xa_keys k (vd_requests d2)) (set_dev d2 ?s) d2 s' dev'"
    by (rule xarray_laws.cancel_requests_ok [OF assms(1) step(1) bound_probe [OF assms(3)] step(4),
        where status = "RC_ERR ECANCELED" and stale_only = True]) blast
  have "vams_reset_work k ?s = Some s'"
    using assms(4,5) s'(1) unfolding d2_def by (simp add: vams_reset_work_def Let_def)
  moreover have "tab (vd_requests dev') i = Some r \<longleftrightarrow> tab (vd_requests dev) i = Some r \<and>
      map_option rq_reset_generation (h_requests ?s r) = Some (vd_reset_generation dev)" for i r
    using s'(3) xarray_laws.keys(1) [OF assms(1), of "vd_requests dev"] d2(3,4)
    unfolding cancels_def fresh_entry_def by (auto simp: set_dev_def)
  moreover have "h_requests s' r = h_requests ?s r" if "tab (vd_requests dev') i = Some r" for i r
  proof -
    have "r \<in> ran (tab (vd_requests dev'))" using that by (auto simp: ran_def)
    then have "h_requests s' r = h_requests (set_dev d2 ?s) r" using s'(3) unfolding cancels_def by blast
    then show ?thesis by (simp add: set_dev_def)
  qed
  moreover have "rq_done q \<and> rq_driver_status q = RC_ERR ECANCELED"
    if "tab (vd_requests dev) i = Some r" "tab (vd_requests dev') i = None" "h_requests s' r = Some q" for i r q
    using s'(3) that d2(3) unfolding cancels_def by metis
  ultimately show ?thesis using s'(2) by blast
qed

text \<open>The device is reset while the copy is in flight; the polling work sees the new generation.\<close>

definition demo_reset :: "(u32 \<Rightarrow> u32) event list" where
  "demo_reset = demo_submitted @ [E_Device (demo_regs(VAMS_REG_RESET_GENERATION := 1,
     VAMS_REG_LAST_RESET_REASON := VAMS_RESET_REASON_HOST_QUEUE)) (replicate 16 zero_completion), E_Poll_Work]"

lemma demo_reset_reachable: "reachable ram_linux (after_run demo_reset)"
  by (rule after_run_reachable) code_simp

theorem reset_ends_stale_requests_witness:
  "reachable ram_linux (after_run demo_reset) \<and>
   (\<exists>s' dev'. vams_reset_work ram_linux (sy_host (after_run demo_reset)) = Some s' \<and> h_dev s' = Some dev' \<and>
      map_of (vd_requests dev') 1 = None \<and>
      map_option (\<lambda>q. (rq_done q, rq_driver_status q)) (h_requests s' 0) = Some (True, RC_ERR ECANCELED))"
proof -
  let ?y = "after_run demo_reset"
  have b: "sy_bound ?y" by code_simp
  have "map_option (\<lambda>d. (vd_removing d, vd_reset_generation d, map_of (vd_requests d) 1)) (h_dev (sy_host ?y)) =
    Some (False, 1, Some 0)" by code_simp
  then obtain dev where d: "h_dev (sy_host ?y) = Some dev" "\<not> vd_removing dev" "vd_reset_generation dev = 1"
    "map_of (vd_requests dev) 1 = Some 0" by auto
  have g: "map_option rq_reset_generation (h_requests (sy_host ?y) 0) = Some 0" by code_simp
  obtain s' dev' where s': "vams_reset_work ram_linux (sy_host ?y) = Some s'" "h_dev s' = Some dev'"
    and kept: "\<forall>i r. map_of (vd_requests dev') i = Some r \<longleftrightarrow> map_of (vd_requests dev) i = Some r \<and>
       map_option rq_reset_generation (h_requests (sy_host ?y) r) = Some (vd_reset_generation dev)"
    and ended: "\<forall>i r q. map_of (vd_requests dev) i = Some r \<longrightarrow> map_of (vd_requests dev') i = None \<longrightarrow>
       h_requests s' r = Some q \<longrightarrow> rq_done q \<and> rq_driver_status q = RC_ERR ECANCELED"
    using reset_ends_stale_requests [OF ram_linux.xarray_laws_axioms demo_reset_reachable b d(1,2)]
    by (elim exE conjE) (rule that)
  have gone: "map_of (vd_requests dev') 1 = None"
  proof (rule ccontr)
    assume "map_of (vd_requests dev') 1 \<noteq> None"
    then obtain r where "map_of (vd_requests dev') 1 = Some r" by blast
    with kept have "map_of (vd_requests dev) 1 = Some r"
      "map_option rq_reset_generation (h_requests (sy_host ?y) r) = Some (vd_reset_generation dev)" by blast+
    then show False using d(3,4) g by simp
  qed
  have "map_option (\<lambda>s'. h_requests s' 0 \<noteq> None) (vams_reset_work ram_linux (sy_host ?y)) = Some True" by code_simp
  then obtain q where q: "h_requests s' 0 = Some q" using s'(1) by auto
  have "rq_done q \<and> rq_driver_status q = RC_ERR ECANCELED" using ended d(4) gone q by blast
  then show ?thesis using s' q gone demo_reset_reachable by simp
qed

text \<open>
  C14. Probe is all or nothing. Whatever the kernel and the device answer and whichever step is made to
  fail, probe returns; on success the device has one reference, no request, and holds every resource
  of a bound driver, the two rings exactly when its queues are ready; on failure the error labels have
  given back everything and the driver is in its idle state.
\<close>

theorem probe_all_or_nothing:
  assumes "xarray_laws k tab" "reachable k y" "\<not> sy_bound y" "h_dev (sy_host y) = None"
  shows "\<exists>ret s'. vams_probe k env (sy_host y) = Some (ret, s') \<and>
    (if ret = RC_OK
     then \<exists>dev. h_dev s' = Some dev \<and> vd_refs dev = 1 \<and> \<not> vd_removing dev \<and> tab (vd_requests dev) = Map.empty \<and>
       h_res s' = bound_res (if vd_queues_ready dev then {R_sq, R_cq} else {})
     else s' = (idle_host (h_w s'))\<lparr> h_unpinned := h_unpinned s' \<rparr>)"
proof -
  let ?s = "sy_host y"
  note inv = xarray_laws.reachable_inv [OF assms(1,2)]
  note d = sys_invD(1) [OF inv]
  have loc: "(locals_of y)\<lparr> lc_probe := 0 \<rparr> = locals_of y" using assms(3) by (simp add: locals_of_def)
  have res: "h_res ?s = {}" using sys_invD(3) [OF inv] assms(3,4) by (simp add: binding_ok_def)
  obtain ret s' where s': "vams_probe k env ?s = Some (ret, s')" "probed tab (locals_of y) ?s ret s'"
    using xarray_laws.probe_ok [OF assms(1), of "locals_of y" ?s env] d loc assms(4) res by auto
  have files: "h_files ?s = Map.empty" using dinv_parts(1) [OF d] assms(4) by (simp add: hinv_def device_ok_def)
  have shut: "sy_open y = {}" using xarray_laws.open_live [OF assms(1) d] files by auto
  have calls: "sy_calls y = Map.empty"
  proof
    fix t show "sy_calls y t = None" using sys_invD(2) [OF inv] shut by (cases "sy_calls y t") (auto simp: calls_ok_def)
  qed
  show ?thesis
  proof (cases "ret = RC_OK")
    case True
    obtain Q dev where Q: "Q \<in> {{}, {R_sq, R_cq}}" "driver_at tab (locals_of y) ?s True (Q = {}) (bound_res Q) s'"
      "h_dev s' = Some dev" "\<not> vd_removing dev" "vd_queues_ready dev \<longleftrightarrow> Q \<noteq> {}"
      using s'(2) True unfolding probed_def by (simp only: if_True simp_thms) blast
    have "h_files s' f = None" for f
      using Q(2) files by (cases "h_files s' f") (auto simp: driver_at_def driver_kept_def)
    then have none: "h_files s' = Map.empty" by (simp add: fun_eq_iff)
    have hi: "hinv tab ((locals_of y)\<lparr> lc_probe := 1 \<rparr>) s'" using Q(2) unfolding driver_at_def by (blast intro: dinv_parts(1))
    have "vd_refs dev = 1" using device_okD(1) [OF hi Q(3)] none by simp
    moreover have "tab (vd_requests dev) = Map.empty" "h_res s' = bound_res Q" using Q(2,3) by (simp_all add: driver_at_def)
    moreover have "Q = (if vd_queues_ready dev then {R_sq, R_cq} else {})" using Q(1,5) by auto
    ultimately show ?thesis using s'(1) Q(3,4) True by auto
  next
    case False
    then have f: "dinv tab (locals_of y) s'" "h_dev s' = None" "h_res s' = {}" using s'(2) loc by (simp_all add: probed_def)
    have "sys_inv tab (y\<lparr> sy_host := s' \<rparr>)"
      using f sys_invD(2) [OF inv] assms(3) calls by (simp add: sys_inv_def binding_ok_def calls_ok_def)
    from quiet_is_idle [OF this] assms(3) shut calls show ?thesis using s'(1) False by simp
  qed
qed

theorem probe_all_or_nothing_witness:
  "reachable ram_linux (after_run []) \<and>
   (\<exists>s'. vams_probe ram_linux (demo_env\<lparr> pe_misc := RC_ERR ENOMEM \<rparr>) (sy_host (after_run [])) = Some (RC_ERR ENOMEM, s') \<and>
      s' = (idle_host (h_w s'))\<lparr> h_unpinned := h_unpinned s' \<rparr>)"
proof -
  let ?y = "after_run []" and ?env = "demo_env\<lparr> pe_misc := RC_ERR ENOMEM \<rparr>"
  have r: "reachable ram_linux ?y" by (rule after_run_reachable) code_simp
  have b: "\<not> sy_bound ?y" by code_simp
  have n: "h_dev (sy_host ?y) = None" by code_simp
  have "map_option fst (vams_probe ram_linux ?env (sy_host ?y)) = Some (RC_ERR ENOMEM)" by code_simp
  then show ?thesis using probe_all_or_nothing [OF ram_linux.xarray_laws_axioms r b n, of ?env] r by auto
qed

text \<open>
  C12. The result of a request is handed out once. A waiting call returns success exactly when the request is
  done, nobody reaped it meanwhile and the copy to user space succeeded; it then reports the status and
  the completion of that request, and a later wait for the same identifier on that file gets \<open>ENOENT\<close>.
  A call that fails leaves the entry for the next wait.
\<close>

theorem result_handed_out_once:
  assumes "xarray_laws k tab" "reachable k y" "sy_calls y t = Some (f, In_Wait r input)" "wait_valid input"
  shows "\<exists>ret out s' q fl fl'. vams_ioctl_wait_done k interrupted copied f r input (sy_host y) = Some (ret, out, s') \<and>
    h_requests (sy_host y) r = Some q \<and> h_files (sy_host y) f = Some fl \<and> h_files s' f = Some fl' \<and>
    (ret = RC_OK \<longleftrightarrow> rq_done q \<and> tab (vf_requests fl) (iow_command_id input) = Some r \<and> copied) \<and>
    (ret = RC_OK \<longrightarrow> out = Some (wait_output input q) \<and>
       vams_ioctl_wait k f (Some input) s' = Some (Inl (RC_ERR ENOENT), s')) \<and>
    (ret \<noteq> RC_OK \<longrightarrow> out = None \<and> vf_requests fl' = vf_requests fl)"
proof -
  let ?s = "sy_host y" and ?z = "y\<lparr> sy_calls := (sy_calls y)(t := None) \<rparr>"
  note inv = xarray_laws.reachable_inv [OF assms(1,2)]
  note ok = sys_invD(2) [OF inv]
  have f: "f \<in> sy_open y" using ok assms(3) unfolding calls_ok_def by blast
  have "(sy_calls y)(t := None, t \<mapsto> (f, In_Wait r input)) = sy_calls y" using assms(3) by (auto simp: fun_eq_iff)
  then have "locals_of y = hold (In_Wait r input) (locals_of ?z)"
    using locals_of_call [of ?z t f "In_Wait r input"] ok by (simp add: calls_ok_def)
  then have loc: "locals_of y = add_request r (locals_of ?z)" by (simp add: hold_def)
  note d = sys_invD(1) [OF inv, unfolded loc]
  have op: "lc_open (locals_of ?z) f" using f by simp
  obtain ret out s' where w: "vams_ioctl_wait_done k interrupted copied f r input ?s = Some (ret, out, s')"
    "dinv tab (locals_of ?z) s'"
    "ret = RC_OK \<Longrightarrow> \<exists>q. h_requests ?s r = Some q \<and> rq_done q \<and> out = Some (wait_output input q) \<and>
       (f, iow_command_id input) \<in> req_file tab ?s r \<and>
       (\<forall>fl. h_files s' f = Some fl \<longrightarrow> tab (vf_requests fl) (iow_command_id input) = None)"
    "ret \<noteq> RC_OK \<Longrightarrow> out = None \<and> shrinks ?s s'"
    by (rule xarray_laws.wait_done_ok [OF assms(1) d op, of interrupted copied input]) blast
  obtain q where q: "h_requests ?s r = Some q"
    by (rule request_live [OF dinv_parts(1) [OF d], of r]) (simp add: add_request_def)
  obtain fl where fl: "h_files ?s f = Some fl"
    by (rule file_live [OF dinv_parts(1) [OF d], of f]) (use op in \<open>simp_all add: add_request_def\<close>)
  obtain fl' where fl': "h_files s' f = Some fl'" by (rule file_live [OF dinv_parts(1) [OF w(2)], of f]) (use op in simp_all)
  have iff: "ret = RC_OK \<longleftrightarrow> rq_done q \<and> tab (vf_requests fl) (iow_command_id input) = Some r \<and> copied"
    using w(1) q fl xarray_laws.load [OF assms(1)]
    by (auto simp: vams_ioctl_wait_done_def reap_request_def wait_outcome_def wait_output_def Let_def bind_eq_Some_conv
        split: if_splits)
  have won: "out = Some (wait_output input q) \<and> vams_ioctl_wait k f (Some input) s' = Some (Inl (RC_ERR ENOENT), s')"
    if "ret = RC_OK"
    using w(3) [OF that] q fl' assms(4) xarray_laws.load [OF assms(1)] by (auto simp: vams_ioctl_wait_def)
  have lost: "out = None \<and> vf_requests fl' = vf_requests fl" if "ret \<noteq> RC_OK"
    using w(4) [OF that] shrinksD(4) [OF _ fl', of ?s] fl by auto
  show ?thesis using w(1) q fl fl' iff won lost by blast
qed

theorem result_handed_out_once_witness:
  "reachable ram_linux (after_run demo_waiting) \<and>
   (\<exists>out s'. vams_ioctl_wait_done ram_linux False True 0 0 demo_wait (sy_host (after_run demo_waiting)) = Some (RC_OK, Some out, s') \<and>
      iow_bytes_processed out = 256 \<and> iow_user_cookie out = 7 \<and>
      vams_ioctl_wait ram_linux 0 (Some demo_wait) s' = Some (Inl (RC_ERR ENOENT), s'))"
proof -
  let ?y = "after_run demo_waiting"
  have c: "sy_calls ?y 0 = Some (0, In_Wait 0 demo_wait)" by code_simp
  have v: "wait_valid demo_wait" by code_simp
  have "map_option fst (vams_ioctl_wait_done ram_linux False True 0 0 demo_wait (sy_host ?y)) = Some RC_OK" by code_simp
  moreover have "map_option (\<lambda>q. cpl_bytes_processed (rq_result q)) (h_requests (sy_host ?y) 0) = Some 256" by code_simp
  moreover have "map_option (\<lambda>q. cpl_user_cookie (rq_result q)) (h_requests (sy_host ?y) 0) = Some 7" by code_simp
  ultimately show ?thesis
    using result_handed_out_once [OF ram_linux.xarray_laws_axioms demo_reachable(1) c v, of False True] demo_reachable(1)
    by (auto simp: wait_output_def)
qed

subsection \<open>Two runs that go wrong\<close>

definition demo_uncopied :: "(u32 \<Rightarrow> u32) event list" where
  "demo_uncopied = butlast demo_submitted @ [E_Resume 0 False False, demo_answer, E_Cq_Irq]"


definition demo_orphaned :: "(u32 \<Rightarrow> u32) event list" where
  "demo_orphaned = demo_submitted @ [E_Release 0, demo_answer, E_Cq_Irq]"


end
