(* ===== verification/Vams_Pci_Layout.thy ===== *)
theory Vams_Pci_Layout
  imports Vams_Pci_Api
begin

text \<open>
  The memory layout of the structures that cross the boundary between user space and the driver
  (\<open>kernel/include/uapi/linux/vams.h\<close>) and of the ring entries (\<open>vams_abi.h\<close>). A compiler places the fields in order,
  each at the next multiple of its alignment, and rounds the size up to the largest one. The
  alignment of a field is its width, at most \<open>a\<close>: 8 on 64-bit targets, 4 for 32-bit x86, 1 in a packed
  structure. The widths are those of the types of the records of the model.
\<close>

definition round_up :: "nat \<Rightarrow> nat \<Rightarrow> nat" where
  "round_up m n = (n + m - 1) div m * m"

fun field_offsets :: "nat \<Rightarrow> nat \<Rightarrow> nat list \<Rightarrow> nat list" where
  "field_offsets a at [] = []"
| "field_offsets a at (w # ws) = (let off = round_up (min w a) at in off # field_offsets a (off + w) ws)"

fun fields_end :: "nat \<Rightarrow> nat \<Rightarrow> nat list \<Rightarrow> nat" where
  "fields_end a at [] = at"
| "fields_end a at (w # ws) = fields_end a (round_up (min w a) at + w) ws"

definition struct_size :: "nat \<Rightarrow> nat list \<Rightarrow> nat" where
  "struct_size a ws = round_up (fold (\<lambda>w. max (min w a)) ws 1) (fields_end a 0 ws)"

text \<open>The offsets of the bytes of a structure that belong to no field.\<close>

definition hidden_bytes :: "nat \<Rightarrow> nat list \<Rightarrow> nat set" where
  "hidden_bytes a ws = {..<struct_size a ws} - (\<Union>(off, w) \<in> set (zip (field_offsets a 0 ws) ws). {off..<off + w})"

lemma round_up_ge: "0 < m \<Longrightarrow> n \<le> round_up m n"
proof -
  assume m: "0 < m"
  have "n + m - 1 < (n + m - 1) div m * m + m"
    using m by (metis add.commute div_mult_mod_eq mod_less_divisor nat_add_left_cancel_less)
  then show ?thesis using m unfolding round_up_def by simp
qed

lemma round_up_dvd: "m dvd round_up m n"
  by (simp add: round_up_def)

lemma fields_end_ge: "\<forall>w \<in> set ws. 0 < w \<Longrightarrow> 0 < a \<Longrightarrow> at \<le> fields_end a at ws"
proof (induction ws arbitrary: at)
  case (Cons w ws)
  have "at \<le> round_up (min w a) at" by (rule round_up_ge) (use Cons.prems in simp)
  also have "\<dots> \<le> fields_end a (round_up (min w a) at + w) ws"
    using Cons.IH [of "round_up (min w a) at + w"] Cons.prems by simp
  finally show ?case by simp
qed simp

text \<open>Fields are aligned and follow one another: no two share a byte.\<close>

lemma field_offsets_sound:
  assumes "\<forall>w \<in> set ws. 0 < w" "0 < a" "i < length ws"
  shows "min (ws ! i) a dvd field_offsets a at ws ! i" "at \<le> field_offsets a at ws ! i"
    "\<And>j. i < j \<Longrightarrow> j < length ws \<Longrightarrow> field_offsets a at ws ! i + ws ! i \<le> field_offsets a at ws ! j"
    "field_offsets a at ws ! i + ws ! i \<le> fields_end a at ws"
  using assms
proof (induction ws arbitrary: at i)
  case (Cons w ws)
  {
    case 1
    then show ?case using Cons.IH(1) by (cases i) (simp_all add: Let_def round_up_dvd)
  next
    case 2
    have "at \<le> round_up (min w a) at" by (rule round_up_ge) (use 2 in simp)
    moreover have "round_up (min w a) at + w \<le> field_offsets a (round_up (min w a) at + w) ws ! (i - 1)" if "0 < i"
      by (rule Cons.IH(2)) (use 2 that in auto)
    ultimately show ?case by (cases i) (auto simp: Let_def)
  next
    case (3 j)
    then obtain l where j: "j = Suc l" "l < length ws" by (cases j) auto
    show ?case
    proof (cases i)
      case 0
      then show ?thesis using Cons.IH(2) [of l "round_up (min w a) at + w"] 3 j by (simp add: Let_def)
    next
      case (Suc i')
      then show ?thesis using Cons.IH(3) [of i' l "round_up (min w a) at + w"] 3 j by (simp add: Let_def)
    qed
  next
    case 4
    then show ?case
      using fields_end_ge [of ws a "round_up (min w a) at + w"] Cons.IH(4) [of "i - 1" "round_up (min w a) at + w"]
      by (cases i) (simp_all add: Let_def)
  }
qed simp_all

subsection \<open>The structures\<close>

definition ioc_info_widths :: "vams_ioc_info \<Rightarrow> nat list" where
  "ioc_info_widths r = map (\<lambda>n. n div 8) [size (info_size r), size (info_version r), size (info_hw_if_version r),
     size (info_fw_version r), size (info_capabilities r), size (info_queue_depth r),
     size (info_reset_generation r), size (info_reserved r)]"

definition ioc_nop_widths :: "vams_ioc_nop \<Rightarrow> nat list" where
  "ioc_nop_widths r = map (\<lambda>n. n div 8) [size (nop_size r), size (nop_version r), size (nop_flags r),
     size (nop_timeout_ms r), size (nop_user_cookie r), size (nop_command_id r), size (nop_status r),
     size (nop_error_code r), size (nop_bytes_processed r), size (nop_result_crc r),
     size (nop_device_timestamp r), size (nop_reserved r)]"

definition ioc_buffer_register_widths :: "vams_ioc_buffer_register \<Rightarrow> nat list" where
  "ioc_buffer_register_widths r = map (\<lambda>n. n div 8) [size (breg_size r), size (breg_version r), size (breg_flags r),
     size (breg_handle r), size (breg_user_address r), size (breg_length r), size (breg_reserved r)]"

definition ioc_buffer_unregister_widths :: "vams_ioc_buffer_unregister \<Rightarrow> nat list" where
  "ioc_buffer_unregister_widths r = map (\<lambda>n. n div 8) [size (bunreg_size r), size (bunreg_version r),
     size (bunreg_handle r), size (bunreg_flags r), size (bunreg_reserved r)]"

definition ioc_submit_widths :: "vams_ioc_submit \<Rightarrow> nat list" where
  "ioc_submit_widths r = map (\<lambda>n. n div 8) [size (ios_size r), size (ios_version r), size (ios_opcode r),
     size (ios_flags r), size (ios_source_handle r), size (ios_destination_handle r), size (ios_length r),
     size (ios_timeout_ms r), size (ios_source_offset r), size (ios_destination_offset r),
     size (ios_user_cookie r), size (ios_expected_crc r), size (ios_command_id r)]"

text \<open>The signed 32-bit field \<open>driver_status\<close> holds a return code.\<close>

definition ioc_wait_widths :: "vams_ioc_wait \<Rightarrow> nat list" where
  "ioc_wait_widths r = map (\<lambda>n. n div 8) [size (iow_size r), size (iow_version r), size (iow_command_id r),
     size (iow_flags r), size (iow_timeout_ms r), 32, size (iow_status r), size (iow_error_code r),
     size (iow_bytes_processed r), size (iow_result_crc r), size (iow_reserved0 r), size (iow_user_cookie r),
     size (iow_device_timestamp r), size (iow_reserved1 r)]"

definition submission_widths :: "vams_submission \<Rightarrow> nat list" where
  "submission_widths r = map (\<lambda>n. n div 8) [size (sub_version r), size (sub_opcode r), size (sub_flags r),
     size (sub_command_id r), size (sub_source_dma r), size (sub_destination_dma r), size (sub_length r),
     size (sub_timeout_ms r), size (sub_user_cookie r), size (sub_expected_crc r), size (sub_reserved0 r),
     size (sub_reserved1 r), size (sub_reserved2 r)]"

definition completion_widths :: "vams_completion \<Rightarrow> nat list" where
  "completion_widths r = map (\<lambda>n. n div 8) [size (cpl_command_id r), size (cpl_status r), size (cpl_error_code r),
     size (cpl_bytes_processed r), size (cpl_result_crc r), size (cpl_user_cookie r), size (cpl_device_timestamp r)]"

lemma widths:
  "ioc_info_widths info = [4, 4, 4, 4, 4, 4, 4, 4]"
  "ioc_nop_widths nop = [4, 4, 4, 4, 8, 4, 2, 2, 4, 4, 8, 8]"
  "ioc_buffer_register_widths breg = [4, 4, 4, 4, 8, 8, 8]"
  "ioc_buffer_unregister_widths bunreg = [4, 4, 4, 4, 8]"
  "ioc_submit_widths ios = [4, 4, 2, 2, 4, 4, 4, 4, 8, 8, 8, 4, 4]"
  "ioc_wait_widths iow = [4, 4, 4, 4, 4, 4, 2, 2, 4, 4, 4, 8, 8, 8]"
  "submission_widths sub = [2, 1, 1, 4, 8, 8, 4, 4, 8, 4, 4, 8, 8]"
  "completion_widths cpl = [4, 2, 2, 4, 4, 8, 8]"
  by (simp_all add: ioc_info_widths_def ioc_nop_widths_def ioc_buffer_register_widths_def
      ioc_buffer_unregister_widths_def ioc_submit_widths_def ioc_wait_widths_def submission_widths_def
      completion_widths_def word_size)

lemma hidden_bytes_code [code]:
  "hidden_bytes a ws = set (filter (\<lambda>b. \<not> list_ex (\<lambda>(off, w). off \<le> b \<and> b < off + w) (zip (field_offsets a 0 ws) ws))
     [0..<struct_size a ws])"
  by (fastforce simp: hidden_bytes_def list_ex_iff)


end
