(* ===== verification/Vams_Host_Firmware.thy ===== *)
theory Vams_Host_Firmware
  imports Vams_Pci_Promises Vams_Pci_Layout Vams_Command
begin

text \<open>
  The host driver and the firmware together: what a submission puts on the ring, and what the
  validator of the firmware (\<open>vams_validate_command\<close>) makes of it.
\<close>

lemma host_opcode: "is_op input op \<Longrightarrow> ucast (ios_opcode input) = op"
  by (rule bit_word_eqI) (simp add: is_op_def bit_simps)

lemma only_low_bit:
  fixes f :: "'a::len word"
  assumes "f AND NOT 1 = 0"
  shows "f = 0 \<or> f = 1"
proof -
  have "f AND 1 = f"
  proof (rule bit_word_eqI)
    fix n assume "n < LENGTH('a)"
    moreover have "bit (f AND NOT 1) n = False" using assms by simp
    ultimately show "bit (f AND 1) n = bit f n" by (auto simp: bit_simps)
  qed
  then show ?thesis by (metis and_one_eq not_mod_2_eq_0_eq_1)
qed

lemma is_op_unique: "is_op input op \<Longrightarrow> is_op input op' \<longleftrightarrow> op = op'"
  by (metis host_opcode)

lemma host_header_ok:
  assumes v: "submit_valid input"
  shows "header_ok ((submit_descriptor input source destination)\<lparr> sub_command_id := i \<rparr>)"
proof -
  let ?f = "ios_flags input"
  have "?f AND NOT 1 = 0" using v by (simp add: submit_valid_def VAMS_SUBMIT_VERIFY_CRC_def)
  then have f: "?f = 0 \<or> ?f = 1" by (rule only_low_bit)
  have op: "ucast (ios_opcode input) = (3 :: u8)" if "is_op input VAMS_OP_CRC32"
    using host_opcode [OF that] by (simp add: VAMS_OP_CRC32_def)
  show ?thesis
    using v f op unfolding submit_valid_def header_ok_def
    by (auto simp: submit_descriptor_def zero_submission_def VAMS_DESC_VERSION_1_def word_le_nat_alt)
qed

text \<open>What the driver checked about the ranges, over natural numbers.\<close>

definition host_range :: "u32 \<Rightarrow> u32 \<Rightarrow> u64 \<Rightarrow> bool" where
  "host_range access len dma \<longleftrightarrow> (if access = 0 then dma = 0 else 0 < unat dma \<and> unat dma + unat len < 2 ^ 64)"

lemma access_host_range: "access_range tab f handle offset len access mp dma s \<Longrightarrow> host_range access len dma"
  by (auto simp: access_range_def buffer_range_def host_range_def split: if_splits)

lemma fits_no_overflow:
  assumes "host_range access len dma" "access \<noteq> 0" "len \<noteq> 0"
  shows "\<not> vams_range_overflows dma len" "dma \<noteq> 0" "range_fits dma len"
  using assms range_overflows_iff [OF assms(3), of dma] by (auto simp: host_range_def range_fits_def)

lemma host_overlap:
  assumes r: "host_range sa (ios_length input) source" "host_range da (ios_length input) destination" "sa \<noteq> 0" "da \<noteq> 0"
    and len: "ios_length input \<noteq> 0" and fill: "\<not> is_op input VAMS_OP_MEM_FILL"
    and no: "\<not> ranges_overlap input source destination"
  shows "\<not> vams_ranges_overlap source destination (ios_length input)"
proof -
  let ?n = "ios_length input"
  have pos: "0 < unat ?n" using len by (simp add: unat_gt_0)
  note s = fits_no_overflow [OF r(1,3) len] and d = fits_no_overflow [OF r(2,4) len]
  have e: "unat (source + ucast ?n) = unat source + unat ?n" "unat (destination + ucast ?n) = unat destination + unat ?n"
    using r by (simp_all add: host_range_def unat_word_ariths)
  have "\<not> (unat source < unat destination + unat ?n \<and> unat destination < unat source + unat ?n)"
    using no s(2) d(2) fill e by (auto simp: ranges_overlap_def word_less_nat_alt)
  then have "dma_range source ?n \<inter> dma_range destination ?n = {}" by (auto simp: dma_range_def)
  then show ?thesis using ranges_overlap_iff [OF len s(3) d(3)] by simp
qed

text \<open>The answer of the firmware to a descriptor of the driver.\<close>

definition host_verdict :: "vams_submission \<Rightarrow> u16" where
  "host_verdict submission =
     (if sub_opcode submission = VAMS_OP_VECTOR_ADD \<and>
         \<not> (4 dvd unat (sub_source_dma submission) \<and> 4 dvd unat (sub_destination_dma submission))
      then VAMS_ERR_INVALID_ALIGNMENT else VAMS_ERR_NONE)"

lemma host_descriptor_verdict:
  assumes v: "submit_valid input" and acc: "submit_access input = Some (sa, da, len)"
    and r: "host_range sa len source" "host_range da (ios_length input) destination"
    and no: "\<not> ranges_overlap input source destination"
    and submission: "submission = (submit_descriptor input source destination)\<lparr> sub_command_id := i \<rparr>"
  shows "vams_validate_command submission = host_verdict submission"
proof -
  let ?n = "ios_length input"
  note h = host_header_ok [OF v, where source = source and destination = destination and i = i, folded submission]
  have sub: "sub_opcode submission = ucast (ios_opcode input)" "sub_length submission = ?n"
    "sub_source_dma submission = source" "sub_destination_dma submission = destination"
    by (simp_all add: submission submit_descriptor_def)
  have n: "\<not> ?n > 0x01000000" using v by (simp add: submit_valid_def VAMS_MAX_TRANSFER_def linorder_not_less)
  consider "is_op input VAMS_OP_NOP" | "is_op input VAMS_OP_MEM_COPY" | "is_op input VAMS_OP_MEM_FILL"
    | "is_op input VAMS_OP_CRC32" | "is_op input VAMS_OP_VECTOR_ADD"
    using acc by (auto simp: submit_access_def split: if_splits)
  then show ?thesis
  proof cases
    case 1
    then have op: "sub_opcode submission = 0" using host_opcode sub(1) by (simp add: VAMS_OP_NOP_def)
    have "source = 0 \<and> destination = 0 \<and> ?n = 0"
      using 1 acc r by (auto simp: submit_access_def host_range_def split: if_splits)
    then show ?thesis using validate_nop [OF h op] sub op by (simp add: host_verdict_def vams_const)
  next
    case 2
    then have op: "sub_opcode submission = 1" using host_opcode sub(1) by (simp add: VAMS_OP_MEM_COPY_def)
    have a: "?n \<noteq> 0" "sa = VAMS_BUFFER_READ" "da = VAMS_BUFFER_WRITE" "len = ?n"
      using 2 is_op_unique [OF 2] acc by (auto simp: submit_access_def vams_const split: if_splits)
    have nz: "VAMS_BUFFER_READ \<noteq> 0" "VAMS_BUFFER_WRITE \<noteq> 0" by (simp_all add: vams_const)
    have fill: "\<not> is_op input VAMS_OP_MEM_FILL" using is_op_unique [OF 2] by (simp add: vams_const)
    note s = fits_no_overflow [OF r(1) [unfolded a] nz(1) a(1)] and d = fits_no_overflow [OF r(2) [unfolded a] nz(2) a(1)]
    have "\<not> vams_ranges_overlap source destination ?n"
      by (rule host_overlap [OF r(1) [unfolded a] r(2) [unfolded a] nz a(1) fill no])
    then show ?thesis using validate_copy [OF h op] sub op s d a(1) n
      by (simp add: host_verdict_def vams_const transfer_length_ok_iff)
  next
    case 3
    then have op: "sub_opcode submission = 2" using host_opcode sub(1) by (simp add: VAMS_OP_MEM_FILL_def)
    have a: "?n \<noteq> 0" "sa = VAMS_BUFFER_READ" "da = VAMS_BUFFER_WRITE" "len = 1"
      using 3 is_op_unique [OF 3] acc by (auto simp: submit_access_def vams_const split: if_splits)
    have nz: "VAMS_BUFFER_READ \<noteq> 0" "VAMS_BUFFER_WRITE \<noteq> 0" by (simp_all add: vams_const)
    note s = fits_no_overflow [OF r(1) [unfolded a] nz(1)] and d = fits_no_overflow [OF r(2) [unfolded a] nz(2) a(1)]
    show ?thesis using validate_fill [OF h op] sub op s d a(1) n
      by (simp add: host_verdict_def vams_const transfer_length_ok_iff)
  next
    case 4
    then have op: "sub_opcode submission = 3" using host_opcode sub(1) by (simp add: VAMS_OP_CRC32_def)
    have a: "?n \<noteq> 0" "sa = VAMS_BUFFER_READ" "da = 0" "len = ?n"
      using 4 is_op_unique [OF 4] acc by (auto simp: submit_access_def vams_const split: if_splits)
    have nz: "VAMS_BUFFER_READ \<noteq> 0" by (simp add: vams_const)
    note s = fits_no_overflow [OF r(1) [unfolded a] nz a(1)]
    show ?thesis using validate_crc32 [OF h op] sub op s a(1) n r(2) [unfolded a]
      by (simp add: host_verdict_def vams_const transfer_length_ok_iff host_range_def)
  next
    case 5
    then have op: "sub_opcode submission = 4" using host_opcode sub(1) by (simp add: VAMS_OP_VECTOR_ADD_def)
    have a: "\<not> ?n < 4" "?n AND 3 = 0" "sa = VAMS_BUFFER_READ" "da = VAMS_BUFFER_READ OR VAMS_BUFFER_WRITE" "len = ?n"
      using 5 is_op_unique [OF 5] acc by (auto simp: submit_access_def vams_const split: if_splits)
    have nz: "VAMS_BUFFER_READ \<noteq> 0" "VAMS_BUFFER_READ OR VAMS_BUFFER_WRITE \<noteq> 0" by (simp_all add: vams_const)
    have n0: "?n \<noteq> 0" using a(1) by auto
    have fill: "\<not> is_op input VAMS_OP_MEM_FILL" using is_op_unique [OF 5] by (simp add: vams_const)
    note s = fits_no_overflow [OF r(1) [unfolded a] nz(1) n0] and d = fits_no_overflow [OF r(2) [unfolded a] nz(2) n0]
    have ov: "\<not> vams_ranges_overlap source destination ?n"
      by (rule host_overlap [OF r(1) [unfolded a] r(2) [unfolded a] nz n0 fill no])
    have aligned: "(source OR destination) AND 3 = 0 \<longleftrightarrow> 4 dvd unat source \<and> 4 dvd unat destination"
      unfolding or_and_3 unfolding and_3_dvd ..
    show ?thesis using header_okD [OF h] op sub s d a(1,2) n ov
      by (simp add: validate_defs host_verdict_def aligned)
  qed
qed

subsection \<open>Submissions on the ring\<close>

lemma submit_reachable:
  assumes "xarray_laws k tab" "reachable k y" "f \<in> sy_open y" "\<forall>r. al = Some r \<longrightarrow> h_requests (sy_host y) r = None"
  shows "\<exists>res s'. vams_ioctl_submit k al f arg (sy_host y) = Some (res, s') \<and> (case res of
       Inl ret \<Rightarrow> ret \<noteq> RC_OK
     | Inr r \<Rightarrow> al = Some r \<and> (\<exists>input sa da len src source dst destination.
         arg = Some input \<and> submit_valid input \<and> submit_access input = Some (sa, da, len) \<and>
         access_range tab f (ios_source_handle input) (ios_source_offset input) len sa src source (sy_host y) \<and>
         access_range tab f (ios_destination_handle input) (ios_destination_offset input) (ios_length input) da
           dst destination (sy_host y) \<and>
         \<not> ranges_overlap input source destination \<and>
         published k tab f r src dst (submit_descriptor input source destination) (sy_host y) s'))"
proof -
  note inv = xarray_laws.reachable_inv [OF assms(1,2)]
  have op: "lc_open (locals_of y) f" using assms(3) by simp
  show ?thesis
    using xarray_laws.ioctl_submit_ok [OF assms(1) sys_invD(1) [OF inv] op, of al arg] assms(4)
      xarray_laws.call_bound [OF assms(1) inv] by blast
qed


text \<open>
  C10. The firmware accepts what the driver submits. The descriptor that a successful submission puts on the
  ring passes the firmware's validation, except that a vector addition whose bus addresses are not
  both multiples of four, which the driver does not check, is refused with \<open>INVALID_ALIGNMENT\<close>.
\<close>

theorem firmware_accepts_host_submissions:
  assumes "xarray_laws k tab" "reachable k y" "f \<in> sy_open y" "\<forall>r. al = Some r \<longrightarrow> h_requests (sy_host y) r = None"
    and "vams_ioctl_submit k al f arg (sy_host y) = Some (Inr r, s')"
  shows "\<exists>submission. appended k (sy_host y) s' submission \<and>
    vams_validate_command submission =
      (if sub_opcode submission = VAMS_OP_VECTOR_ADD \<and>
          \<not> (4 dvd unat (sub_source_dma submission) \<and> 4 dvd unat (sub_destination_dma submission))
       then VAMS_ERR_INVALID_ALIGNMENT else VAMS_ERR_NONE)"
proof -
  obtain input sa da len src source dst destination where i: "submit_valid input" "submit_access input = Some (sa, da, len)"
    "access_range tab f (ios_source_handle input) (ios_source_offset input) len sa src source (sy_host y)"
    "access_range tab f (ios_destination_handle input) (ios_destination_offset input) (ios_length input) da
       dst destination (sy_host y)" "\<not> ranges_overlap input source destination"
    "published k tab f r src dst (submit_descriptor input source destination) (sy_host y) s'"
    using submit_reachable [OF assms(1-4), of arg] assms(5) by auto
  obtain n where "appended k (sy_host y) s' ((submit_descriptor input source destination)\<lparr> sub_command_id := n \<rparr>)"
    using i(6) unfolding published_def by blast
  then show ?thesis
    using host_descriptor_verdict [OF i(1,2) access_host_range [OF i(3)] access_host_range [OF i(4)] i(5) refl,
        of n] unfolding host_verdict_def by blast
qed

subsection \<open>A submission of the demonstration run\<close>

definition demo_prepared :: "(u32 \<Rightarrow> u32) event list" where
  "demo_prepared = take 4 demo_submitted"

lemma demo_prepared_facts:
  "reachable ram_linux (after_run demo_prepared)" "0 \<in> sy_open (after_run demo_prepared)"
  "h_requests (sy_host (after_run demo_prepared)) 0 = None"
  "map_option fst (vams_ioctl_submit ram_linux (Some 0) 0 (Some demo_submit) (sy_host (after_run demo_prepared))) = Some (Inr 0)"
proof -
  show "reachable ram_linux (after_run demo_prepared)" by (rule after_run_reachable) code_simp
  show "0 \<in> sy_open (after_run demo_prepared)" by code_simp
  show "h_requests (sy_host (after_run demo_prepared)) 0 = None" by code_simp
  show "map_option fst (vams_ioctl_submit ram_linux (Some 0) 0 (Some demo_submit) (sy_host (after_run demo_prepared))) =
    Some (Inr 0)" by code_simp
qed


theorem firmware_accepts_host_submissions_witness:
  "reachable ram_linux (after_run demo_prepared) \<and>
   (\<exists>s' submission.
      vams_ioctl_submit ram_linux (Some 0) 0 (Some demo_submit) (sy_host (after_run demo_prepared)) = Some (Inr 0, s') \<and>
      appended ram_linux (sy_host (after_run demo_prepared)) s' submission \<and>
      vams_validate_command submission =
        (if sub_opcode submission = VAMS_OP_VECTOR_ADD \<and>
            \<not> (4 dvd unat (sub_source_dma submission) \<and> 4 dvd unat (sub_destination_dma submission))
         then VAMS_ERR_INVALID_ALIGNMENT else VAMS_ERR_NONE))"
proof -
  have al: "\<forall>r. Some 0 = Some r \<longrightarrow> h_requests (sy_host (after_run demo_prepared)) r = None"
    using demo_prepared_facts(3) by simp
  obtain s' where s': "vams_ioctl_submit ram_linux (Some 0) 0 (Some demo_submit) (sy_host (after_run demo_prepared)) =
      Some (Inr 0, s')" using demo_prepared_facts(4) by auto
  show ?thesis
    using firmware_accepts_host_submissions [OF ram_linux.xarray_laws_axioms demo_prepared_facts(1,2) al s']
      demo_prepared_facts(1) s' by blast
qed

end
