(* ===== verification/Spec2Isabelle.thy ===== *)
theory Spec2Isabelle
  imports Vams_Overflow Vams_Services Vams_Host_Firmware
begin

text \<open>
  Verification of the virtual accelerator management SoC: the management firmware
  (\<open>src/firmware/\<close>, C on Zephyr) and the Linux driver of the PCI endpoint (\<open>src/kernel/\<close>, C).

  \<^bold>\<open>The program.\<close> A process opens the character device of the driver, registers buffers and submits
  commands. The driver pins the buffers, writes a 64-byte descriptor to the submission ring and rings
  a doorbell. The endpoint hands the descriptor to the firmware through a command portal. The firmware
  validates it, schedules it by deadline, authorises the payload operation, watches its deadline and
  publishes a 32-byte completion, which the endpoint puts on the completion ring. An interrupt or the
  polling work of the driver matches it with its request, and the process reaps it. Beside the
  commands the firmware serves a mailbox, emits heartbeats, pets a watchdog as long as all its tasks
  make progress, and keeps a crash record in memory that survives a reset. A reset of the endpoint
  raises its generation; the driver cancels the requests of older generations.

  \<^bold>\<open>How code is modelled.\<close> C integers are words of their width. A struct is a record, an enum a
  datatype or its constants, a function a definition of the same name. \<open>None\<close> is a failed assertion or
  an access the C code must not make: freed memory, an index out of range, a register that is not
  mapped, a resource given back twice. Return codes are \<open>RC_OK\<close> and \<open>RC_ERR e\<close>. The kernels, the bus
  and the devices are parameters (\<open>board\<close>, \<open>zephyr\<close>, \<open>linux\<close>); what the proofs rely on is stated in
  locales, each interpreted on an instance, and the answers of the kernel to a call (allocation,
  copies, pinning, interrupts) are arguments that no theorem restricts.

  \<^bold>\<open>Theories: the shared part.\<close>
  \<^item> \<open>Vams_Prelude\<close>: words, return codes, assertions, the bus, little-endian images.
  \<^item> \<open>Vams_Abi\<close> (\<open>vams_abi.h\<close>): descriptors, completions, codes, and their byte images, with both round
    trips through the locale \<open>struct_codec\<close>.

  \<^bold>\<open>Theories: the firmware.\<close>
  \<^item> \<open>Vams_Command\<close> (\<open>src/command/vams_command.c\<close>): the validator, equivalent to \<open>descriptor_ok\<close>.
  \<^item> \<open>Vams_Overload\<close> (\<open>include/vams_overload.h\<close> and two helpers of \<open>main.c\<close>): saturating counters.
  \<^item> \<open>Vams_Management\<close> (\<open>drivers/vams_management.c\<close>): watchdog, telemetry, retained window.
  \<^item> \<open>Vams_Retained\<close> (\<open>src/recovery/vams_retained.c\<close>): the crash record, its CRC and its notes.
  \<^item> \<open>Vams_Event\<close> (\<open>src/logging/vams_event.c\<close>): event emission and its accounting.
  \<^item> \<open>Vams_Health\<close> (\<open>src/health/vams_health.c\<close>): the tracker, against the history of samples.
  \<^item> \<open>Vams_Scheduler\<close> (\<open>src/scheduler/vams_scheduler.c\<close>): command objects, earliest deadline first.
  \<^item> \<open>Vams_Portal\<close> (\<open>drivers/vams_command_portal.c\<close>): the portal, with bounded waits.
  \<^item> \<open>Vams_Mailbox\<close> (\<open>drivers/vams_mailbox.c\<close>): interrupt handler, receive and respond.
  \<^item> \<open>Vams_Zephyr\<close>: message queues and block pool as interfaces, and list instances.
  \<^item> \<open>Vams_Firmware\<close> (\<open>src/main.c\<close>): the five pipeline tasks as a step relation.
  \<^item> \<open>Vams_Pipeline\<close>, \<open>Vams_Delivery\<close>: ownership of command objects, exactly-once delivery, the only
    assertion that can fail; \<open>Vams_Overflow\<close>: the run in which it fails.
  \<^item> \<open>Vams_Services\<close> (\<open>src/main.c\<close>): heartbeat, mailbox and health tasks and boot, composed with the
    pipeline; a run of the whole is a run of the pipeline with silent steps.

  \<^bold>\<open>Theories: the host driver\<close> (\<open>kernel/vams_pci.c\<close>).
  \<^item> \<open>Vams_Pci_Regs\<close> (also \<open>vams_regs.h\<close>, \<open>uapi/linux/vams.h\<close>): registers, ioctl structures, the kernel as
    a parameter with \<open>xarray_laws\<close>.
  \<^item> \<open>Vams_Pci_Objects\<close>, \<open>Vams_Pci_Refs\<close>: device, files, requests and buffers in a store of references;
    the invariant \<open>hinv\<close> says that each count is the number of holders; every get and put keeps it.
  \<^item> \<open>Vams_Pci_Queue\<close>, \<open>Vams_Pci_Rings\<close>, \<open>Vams_Pci_Submit\<close>: rings, completion, cancellation, resets,
    interrupts, submission; \<open>dinv\<close> adds the rings and the readiness counts.
  \<^item> \<open>Vams_Pci_Api\<close>, \<open>Vams_Pci_Calls\<close>: open, release, ioctls and poll. A call that waits or copies to user
    memory with a request in hand is split there, and other events may come between.
  \<^item> \<open>Vams_Pci_Probe\<close>: probe with every error label, and remove.
  \<^item> \<open>Vams_Pci_System\<close>: the step relation over all events of all threads; \<open>sys_inv\<close> holds in every
    reachable state.
  \<^item> \<open>Vams_Pci_Promises\<close>: the properties of reachable states, and two runs that show defects.
  \<^item> \<open>Vams_Pci_Layout\<close>: sizes, offsets and hidden bytes of the structures.
  \<^item> \<open>Vams_Host_Firmware\<close>: what a submission puts on the ring passes the firmware's validation.

  \<^bold>\<open>Bounds and fuel.\<close> \<open>drain_loop\<close> has the ring depth, 16, as fuel and faults when it runs out;
  that it never does is part of the property on completions. \<open>track_loop\<close> has the bound of the source, twice the depth. The waits of the
  portal take fuel, and the property on them gives an amount that suffices on a clock that advances. All other loops
  are structural.

  \<^bold>\<open>Not modelled.\<close> The driver's self-tests under \<open>CONFIG_VAMS_PCI_TESTING\<close>, module registration, log
  messages, memory barriers and cache maintenance, which have no effect on the state of the model. Code
  that a spinlock or mutex protects is one step, so races on data read outside the locks are out of
  scope. The event-logger task of the firmware prints to the console; thread creation belongs to the
  kernel. The bare-metal bring-up program is not part of the firmware image. The device models are
  distributed as patches to QEMU; here the device may write anything to its registers and to the
  completion ring. Scripts, build files and tests run outside the system.
\<close>

end
